(* ===== verification/Prelude.thy ===== *)
theory Prelude
  imports Main "HOL-Library.Word" "HOL-Library.Monad_Syntax"
begin

text \<open>
  Shared vocabulary of the development.

  The firmware talks to its hardware through volatile registers at fixed addresses. The hardware
  is not code of the repository, so it is a parameter: a \<open>bus\<close> says what a load from and a store
  to an address do to an arbitrary device state. A \<open>machine\<close> pairs the device state with the trace
  of all accesses made so far, which is what the theorems about register traffic speak about.
  A C function that touches registers becomes a function of the bus that threads the machine; a
  busy-wait is \<open>poll\<close>, whose result is \<open>None\<close> when the device never becomes ready.

  Integers are kept at the width the ARM7 compiler gives them: \<open>unsigned char\<close> (and \<open>char\<close>, which
  is unsigned on this target) is \<open>u8\<close>, \<open>unsigned short\<close> is \<open>u16\<close>, \<open>unsigned int\<close> and
  \<open>unsigned long\<close> are \<open>u32\<close>.
\<close>

unbundle bit_operations_syntax

type_synonym u8 = "8 word"
type_synonym u16 = "16 word"
type_synonym u32 = "32 word"

named_theorems io_simps "how the register primitives act on the trace"
named_theorems frame_simps "what an operation leaves unchanged"

section \<open>The bus and the machine\<close>

record 'd bus =
  bus_rd :: "u32 \<Rightarrow> 'd \<Rightarrow> u32 \<times> 'd"
  bus_wr :: "u32 \<Rightarrow> u32 \<Rightarrow> 'd \<Rightarrow> 'd"

datatype access = RdA u32 u32 | WrA u32 u32

record 'd machine =
  dev :: 'd
  trace :: "access list"

definition rd :: "'d bus \<Rightarrow> u32 \<Rightarrow> 'd machine \<Rightarrow> u32 \<times> 'd machine" where
  "rd B a m = (let (v, d) = bus_rd B a (dev m)
               in (v, m\<lparr>dev := d, trace := trace m @ [RdA a v]\<rparr>))"

definition wr :: "'d bus \<Rightarrow> u32 \<Rightarrow> u32 \<Rightarrow> 'd machine \<Rightarrow> 'd machine" where
  "wr B a v m = m\<lparr>dev := bus_wr B a v (dev m), trace := trace m @ [WrA a v]\<rparr>"

text \<open>A byte-wide volatile register: the load is zero-extended, the store truncates.\<close>

definition rd8 :: "'d bus \<Rightarrow> u32 \<Rightarrow> 'd machine \<Rightarrow> u8 \<times> 'd machine" where
  "rd8 B a m = (let (v, m') = rd B a m in (ucast v, m'))"

definition wr8 :: "'d bus \<Rightarrow> u32 \<Rightarrow> u8 \<Rightarrow> 'd machine \<Rightarrow> 'd machine" where
  "wr8 B a v m = wr B a (ucast v) m"

text \<open>\<open>REG |= v\<close> and \<open>REG &= v\<close>: a load followed by a store.\<close>

definition or_wr :: "'d bus \<Rightarrow> u32 \<Rightarrow> u32 \<Rightarrow> 'd machine \<Rightarrow> 'd machine" where
  "or_wr B a v m = (let (x, m') = rd B a m in wr B a (x OR v) m')"

definition and_wr :: "'d bus \<Rightarrow> u32 \<Rightarrow> u32 \<Rightarrow> 'd machine \<Rightarrow> 'd machine" where
  "and_wr B a v m = (let (x, m') = rd B a m in wr B a (x AND v) m')"

definition or_wr8 :: "'d bus \<Rightarrow> u32 \<Rightarrow> u8 \<Rightarrow> 'd machine \<Rightarrow> 'd machine" where
  "or_wr8 B a v m = (let (x, m') = rd8 B a m in wr8 B a (x OR v) m')"

definition and_wr8 :: "'d bus \<Rightarrow> u32 \<Rightarrow> u8 \<Rightarrow> 'd machine \<Rightarrow> 'd machine" where
  "and_wr8 B a v m = (let (x, m') = rd8 B a m in wr8 B a (x AND v) m')"

text \<open>A load whose value is discarded.\<close>

definition touch :: "'d bus \<Rightarrow> u32 \<Rightarrow> 'd machine \<Rightarrow> 'd machine" where
  "touch B a m = snd (rd B a m)"

text \<open>\<open>while (!P(REG));\<close> keeps loading the register until \<open>P\<close> holds of the value.\<close>

partial_function (option) poll ::
  "'d bus \<Rightarrow> u32 \<Rightarrow> (u32 \<Rightarrow> bool) \<Rightarrow> 'd machine \<Rightarrow> (u32 \<times> 'd machine) option" where
  "poll B a Q m = (let (v, m') = rd B a m in if Q v then Some (v, m') else poll B a Q m')"

declare poll.simps [code]

section \<open>What C leaves undefined\<close>

text \<open>
  A run that leaves the defined behaviour of C stops with a fault, a value of the left summand of
  \<open>fault + 'a\<close>.
\<close>

datatype fault = OutOfBounds | DivByZero | Uninit | NullDeref | BadFree | Unaligned | Dangling | Bug

text \<open>
  A step that may not return, may fault, and otherwise gives a result and a state, followed by the
  rest of the function.
\<close>

definition bind_run :: "(fault + 'a \<times> 's) option \<Rightarrow> ('a \<Rightarrow> 's \<Rightarrow> (fault + 'b) option) \<Rightarrow> (fault + 'b) option" where
  "bind_run r k = Option.bind r (case_sum (\<lambda>f. Some (Inl f)) (\<lambda>(a, s). k a s))"

lemma bind_run_simps [simp]:
  "bind_run None k = None" "bind_run (Some (Inl f)) k = Some (Inl f)" "bind_run (Some (Inr (a, s))) k = k a s"
  by (simp_all add: bind_run_def)

lemma bind_run_mono [partial_function_mono]:
  assumes "mono_option F" "\<And>a s. mono_option (\<lambda>f. G a s f)"
  shows "mono_option (\<lambda>f. bind_run (F f) (\<lambda>a s. G a s f))"
  unfolding bind_run_def
proof (rule bind_mono)
  show "mono_option (\<lambda>f. case_sum (\<lambda>x. Some (Inl x)) (\<lambda>(a, s). G a s f) y)" for y
    using assms(2) by (cases y) (auto simp: split_beta option.const_mono)
qed (rule assms(1))

text \<open>The same for a step that cannot hang and has no separate state.\<close>

definition bindE :: "fault + 'a \<Rightarrow> ('a \<Rightarrow> fault + 'b) \<Rightarrow> fault + 'b" where
  "bindE r k = case_sum Inl k r"

lemma bindE_simps [simp]: "bindE (Inl f) k = Inl f" "bindE (Inr a) k = k a"
  by (simp_all add: bindE_def)

text \<open>The bytes of a string literal, without its terminating NUL.\<close>

definition bytes :: "string \<Rightarrow> u8 list" where
  "bytes s = map of_char s"

section \<open>What was stored\<close>

fun writes :: "access list \<Rightarrow> (u32 \<times> u32) list" where
  "writes [] = []"
| "writes (WrA a v # t) = (a, v) # writes t"
| "writes (RdA a v # t) = writes t"

abbreviation wrs :: "'d machine \<Rightarrow> (u32 \<times> u32) list" where
  "wrs m \<equiv> writes (trace m)"

definition stores_to :: "u32 \<Rightarrow> (u32 \<times> u32) list \<Rightarrow> u32 list" where
  "stores_to a ws = map snd (filter (\<lambda>w. fst w = a) ws)"

abbreviation sent :: "u32 \<Rightarrow> 'd machine \<Rightarrow> u32 list" where
  "sent a m \<equiv> stores_to a (wrs m)"

lemma writes_append [simp]: "writes (s @ t) = writes s @ writes t"
  by (induction s rule: writes.induct) auto

lemma stores_to_Nil [simp]: "stores_to a [] = []"
  by (simp add: stores_to_def)

lemma stores_to_Cons [simp]:
  "stores_to a (w # ws) = (if fst w = a then snd w # stores_to a ws else stores_to a ws)"
  by (simp add: stores_to_def)

lemma stores_to_append [simp]: "stores_to a (us @ ws) = stores_to a us @ stores_to a ws"
  by (simp add: stores_to_def)

lemma wrs_rd [io_simps]: "rd B a m = (v, m') \<Longrightarrow> wrs m' = wrs m"
  by (auto simp: rd_def split: prod.splits)

lemma wrs_snd_rd [simp]: "wrs (snd (rd B a m)) = wrs m"
  by (auto simp: rd_def split: prod.splits)

lemma wrs_touch [simp]: "wrs (touch B a m) = wrs m"
  by (simp add: touch_def)

lemma wrs_wr [simp]: "wrs (wr B a v m) = wrs m @ [(a, v)]"
  by (simp add: wr_def)

lemma wrs_wr8 [simp]: "wrs (wr8 B a v m) = wrs m @ [(a, ucast v)]"
  by (simp add: wr8_def)

lemma wrs_rd8 [io_simps]: "rd8 B a m = (v, m') \<Longrightarrow> wrs m' = wrs m"
  by (auto simp: rd8_def io_simps split: prod.splits)

lemma wrs_snd_rd8 [simp]: "wrs (snd (rd8 B a m)) = wrs m"
  by (auto simp: rd8_def io_simps split: prod.splits)

lemma wrs_or_wr [simp]: "wrs (or_wr B a v m) = wrs m @ [(a, fst (rd B a m) OR v)]"
  by (auto simp: or_wr_def io_simps split: prod.splits)

lemma wrs_and_wr [simp]: "wrs (and_wr B a v m) = wrs m @ [(a, fst (rd B a m) AND v)]"
  by (auto simp: and_wr_def io_simps split: prod.splits)

lemma wrs_or_wr8 [simp]: "wrs (or_wr8 B a v m) = wrs m @ [(a, ucast (fst (rd8 B a m) OR v))]"
  by (auto simp: or_wr8_def io_simps split: prod.splits)

lemma wrs_and_wr8 [simp]: "wrs (and_wr8 B a v m) = wrs m @ [(a, ucast (fst (rd8 B a m) AND v))]"
  by (auto simp: and_wr8_def io_simps split: prod.splits)

lemma dev_wr [simp]: "dev (wr B a v m) = bus_wr B a v (dev m)"
  by (simp add: wr_def)

lemma dev_wr8 [simp]: "dev (wr8 B a v m) = bus_wr B a (ucast v) (dev m)"
  by (simp add: wr8_def)

lemma rd_parts: "rd B a m = (fst (bus_rd B a (dev m)),
    m\<lparr>dev := snd (bus_rd B a (dev m)), trace := trace m @ [RdA a (fst (bus_rd B a (dev m)))]\<rparr>)"
  by (simp add: rd_def split: prod.splits)

text \<open>The values loaded from a register, in order.\<close>

fun loaded :: "u32 \<Rightarrow> access list \<Rightarrow> u32 list" where
  "loaded a [] = []"
| "loaded a (WrA b v # t) = loaded a t"
| "loaded a (RdA b v # t) = (if b = a then v # loaded a t else loaded a t)"

lemma loaded_append [simp]: "loaded a (s @ t) = loaded a s @ loaded a t"
  by (induction a s rule: loaded.induct) auto

lemma trace_rd [io_simps]: "rd B a m = (v, m') \<Longrightarrow> trace m' = trace m @ [RdA a v]"
  by (auto simp: rd_def split: prod.splits)

lemma trace_wr [simp]: "trace (wr B a v m) = trace m @ [WrA a v]"
  by (simp add: wr_def)

lemma trace_rd8: "rd8 B a m = (v, m') \<Longrightarrow> \<exists>w. trace m' = trace m @ [RdA a w] \<and> v = ucast w"
  by (auto simp: rd8_def rd_def split: prod.splits)

section \<open>Busy waits\<close>

lemma poll_unfold:
  "poll B a P m =
     (if P (fst (rd B a m)) then Some (rd B a m) else poll B a P (snd (rd B a m)))"
  by (subst poll.simps) (simp add: case_prod_unfold)

lemma poll_now: "P (fst (rd B a m)) \<Longrightarrow> poll B a P m = Some (rd B a m)"
  by (simp add: poll_unfold)

text \<open>A busy-wait that returns stored nothing and saw the awaited value.\<close>

lemma poll_SomeD:
  assumes "poll B a P m = Some r"
  shows "P (fst r) \<and> wrs (snd r) = wrs m"
proof (rule poll.raw_induct [where P = "\<lambda>B a Q m r. Q (fst r) \<and> wrs (snd r) = wrs m", OF _ assms])
  fix f :: "'d bus \<Rightarrow> u32 \<Rightarrow> (u32 \<Rightarrow> bool) \<Rightarrow> 'd machine \<Rightarrow> (u32 \<times> 'd machine) option"
    and B :: "'d bus" and a P m r
  assume IH: "\<And>B a P m r. f B a P m = Some r \<Longrightarrow> P (fst r) \<and> wrs (snd r) = wrs m"
    and eq: "(let (v, m') = rd B a m in if P v then Some (v, m') else f B a P m') = Some r"
  obtain v m' where vm: "rd B a m = (v, m')" by (cases "rd B a m")
  show "P (fst r) \<and> wrs (snd r) = wrs m"
    using eq IH [of B a P m' r] wrs_rd [OF vm] by (auto simp: vm split: if_splits)
qed

lemma poll_val: "poll B a P m = Some (v, m') \<Longrightarrow> P v"
  using poll_SomeD by fastforce

lemma wrs_poll [io_simps]: "poll B a P m = Some (v, m') \<Longrightarrow> wrs m' = wrs m"
  using poll_SomeD by fastforce

text \<open>
  \<open>settles B a P\<close>: from every state the device reaches a value with \<open>P\<close> after finitely many
  loads of the register. This is what the data sheets promise of a status flag.
\<close>

definition settles :: "'d bus \<Rightarrow> u32 \<Rightarrow> (u32 \<Rightarrow> bool) \<Rightarrow> bool" where
  "settles B a P \<longleftrightarrow> (\<forall>m. poll B a P m \<noteq> None)"

lemma settlesD: "settles B a P \<Longrightarrow> \<exists>v m'. poll B a P m = Some (v, m')"
  by (auto simp: settles_def not_None_eq)

lemma settles_const: "(\<And>d. P (fst (bus_rd B a d))) \<Longrightarrow> settles B a P"
  by (simp add: settles_def poll_unfold rd_parts)

section \<open>Two concrete buses\<close>

text \<open>A bus whose loads depend on the address only, and a plain word memory.\<close>

definition const_bus :: "(u32 \<Rightarrow> u32) \<Rightarrow> unit bus" where
  "const_bus f = \<lparr>bus_rd = (\<lambda>a d. (f a, d)), bus_wr = (\<lambda>a v d. d)\<rparr>"

definition ram_bus :: "(u32 \<Rightarrow> u32) bus" where
  "ram_bus = \<lparr>bus_rd = (\<lambda>a d. (d a, d)), bus_wr = (\<lambda>a v d. d(a := v))\<rparr>"

lemma rd_const_bus [simp]: "fst (rd (const_bus f) a m) = f a"
  by (simp add: rd_parts const_bus_def)

lemma fst_bus_rd_const_bus [simp]: "fst (bus_rd (const_bus f) a d) = f a"
  by (simp add: const_bus_def)

lemma ram_bus_simps [simp]:
  "bus_rd ram_bus a d = (d a, d)" "bus_wr ram_bus a v d = d(a := v)"
  by (simp_all add: ram_bus_def)

section \<open>Lists and words\<close>

text \<open>A block of elements stored into an array from an index on.\<close>

definition patch :: "'a list \<Rightarrow> nat \<Rightarrow> 'a list \<Rightarrow> 'a list" where
  "patch xs w ys = take w xs @ ys @ drop (w + length ys) xs"

lemma patch_Nil [simp]: "patch xs w [] = xs"
  by (simp add: patch_def)

lemma patch_Cons: "w < length xs \<Longrightarrow> patch (xs[w := y]) (Suc w) ys = patch xs w (y # ys)"
  by (simp add: patch_def take_Suc_conv_app_nth drop_update_cancel)

lemma patch_nth: "\<lbrakk>k < length ys; length ys \<le> length xs\<rbrakk> \<Longrightarrow> patch xs 0 ys ! k = ys ! k"
  by (simp add: patch_def nth_append)

lemma patch_length: "\<lbrakk>w + length ys \<le> length xs\<rbrakk> \<Longrightarrow> length (patch xs w ys) = length xs"
  by (simp add: patch_def)

lemma list_update_same_length [simp]: "length (xs[i := v]) = length xs"
  by simp

lemma unat_ucast_up:
  assumes "LENGTH('a::len) \<le> LENGTH('b::len)"
  shows "unat (ucast (w :: 'a word) :: 'b word) = unat w"
proof -
  have "unat w < 2 ^ LENGTH('a)" by (rule unsigned_less)
  also have "\<dots> \<le> 2 ^ LENGTH('b)" using assms by simp
  finally show ?thesis by (simp add: unsigned_ucast_eq take_bit_nat_eq_self)
qed

lemma ucast_ucast_u8 [simp]: "ucast (ucast (b :: u8) :: u32) = b"
  by (rule bit_word_eqI) (simp add: bit_ucast_iff)

lemma small_bits:
  assumes "unat (w :: 'a::len word) < 2 ^ k" "k \<le> n"
  shows "\<not> bit w n"
proof -
  have "(2 :: nat) ^ k \<le> 2 ^ n" using assms(2) by (intro power_increasing) auto
  then have "unat w < 2 ^ n" using assms(1) by linarith
  then have "\<not> bit (unat w) n" by (metis bit_take_bit_iff less_irrefl take_bit_nat_eq_self)
  then show ?thesis by (simp add: bit_unsigned_iff)
qed

lemma u8_less_256: "unat (b :: u8) < 256"
  using unsigned_less [of b] by simp

text \<open>Signed reading of a small word.\<close>

lemma sint_small:
  assumes "unat (w :: u32) < 2 ^ 31"
  shows "sint w = int (unat w)"
proof -
  have "int (unat w) < int (2 ^ 31)" using assms by (simp only: of_nat_less_iff)
  then have "uint w < 2 ^ 31" by simp
  then have "signed_take_bit 31 (uint w) = uint w"
    using uint_ge_0 [of w] by (intro signed_take_bit_int_eq_self) linarith+
  then show ?thesis using sint_uint [of w] by simp
qed

end
