(* ===== verification/Ring.thy ===== *)
theory Ring
  imports Prelude
begin

text \<open>
  The byte rings of the interrupt driven serial driver (\<^verbatim>\<open>software/camera/uart.c\<close> and
  \<^verbatim>\<open>isr.c\<close>): a buffer with a 16-bit insert and extract index, one slot always free. Each
  port has four of them in the source, as separate globals; \<open>ring\<close> groups the three variables of one.

  The locale \<open>fifo\<close> is the contract the driver relies on, with the clients' lemmas; the ring
  interprets it at every size, and the ports of \<^verbatim>\<open>Uart_Ring\<close> use these facts.
\<close>

section \<open>Bounded queues\<close>

locale fifo =
  fixes put :: "'a \<Rightarrow> 'q \<Rightarrow> 'q option"
    and get :: "'q \<Rightarrow> ('a \<times> 'q) option"
    and contents :: "'q \<Rightarrow> 'a list"
    and wf :: "'q \<Rightarrow> bool"
    and cap :: nat
  assumes put_room: "wf q \<Longrightarrow> length (contents q) < cap \<Longrightarrow>
      \<exists>q'. put a q = Some q' \<and> wf q' \<and> contents q' = contents q @ [a]"
    and put_full: "wf q \<Longrightarrow> cap \<le> length (contents q) \<Longrightarrow> put a q = None"
    and get_empty: "wf q \<Longrightarrow> contents q = [] \<Longrightarrow> get q = None"
    and get_some: "wf q \<Longrightarrow> contents q = a # as \<Longrightarrow> \<exists>q'. get q = Some (a, q') \<and> wf q' \<and> contents q' = as"
begin

fun put_all :: "'a list \<Rightarrow> 'q \<Rightarrow> 'q option" where
  "put_all [] q = Some q"
| "put_all (a # as) q = Option.bind (put a q) (put_all as)"

fun get_n :: "nat \<Rightarrow> 'q \<Rightarrow> ('a list \<times> 'q) option" where
  "get_n 0 q = Some ([], q)"
| "get_n (Suc n) q = do { (a, q) \<leftarrow> get q; (as, q) \<leftarrow> get_n n q; Some (a # as, q) }"

lemma put_SomeD: "wf q \<Longrightarrow> put a q = Some q' \<Longrightarrow> wf q' \<and> contents q' = contents q @ [a]"
  using put_room [of q a] put_full [of q a] by (cases "length (contents q) < cap") auto

lemma put_NoneD: "wf q \<Longrightarrow> put a q = None \<longleftrightarrow> cap \<le> length (contents q)"
  using put_room [of q a] put_full [of q a] by (cases "length (contents q) < cap") auto

lemma get_SomeD: "wf q \<Longrightarrow> get q = Some (a, q') \<Longrightarrow> wf q' \<and> contents q = a # contents q'"
  using get_empty [of q] get_some [of q] by (cases "contents q") fastforce+

lemma put_all_room:
  "wf q \<Longrightarrow> length (contents q) + length as \<le> cap \<Longrightarrow>
     \<exists>q'. put_all as q = Some q' \<and> wf q' \<and> contents q' = contents q @ as"
proof (induction as arbitrary: q)
  case (Cons a as)
  then obtain q1 where q1: "put a q = Some q1" "wf q1" "contents q1 = contents q @ [a]"
    using put_room [of q a] by auto
  then show ?case using Cons.IH [of q1] Cons.prems by auto
qed auto

lemma get_n_contents:
  "wf q \<Longrightarrow> n \<le> length (contents q) \<Longrightarrow>
     \<exists>q'. get_n n q = Some (take n (contents q), q') \<and> wf q' \<and> contents q' = drop n (contents q)"
proof (induction n arbitrary: q)
  case (Suc n)
  then obtain a as where c: "contents q = a # as" by (cases "contents q") auto
  then obtain q1 where "get q = Some (a, q1)" "wf q1" "contents q1 = as"
    using get_some [of q a as] Suc.prems by auto
  then show ?case using Suc.IH [of q1] Suc.prems c by auto
qed auto

lemma put_get:
  assumes "wf q" "contents q = []" "length as \<le> cap"
  shows "\<exists>q' q''. put_all as q = Some q' \<and> get_n (length as) q' = Some (as, q'') \<and> contents q'' = []"
proof -
  obtain q1 where q1: "put_all as q = Some q1" "wf q1" "contents q1 = as"
    using put_all_room [of q as] assms by auto
  then show ?thesis using get_n_contents [of q1 "length as"] by auto
qed

end

section \<open>The ring\<close>

record ring =
  buffer :: "u8 list"
  insert_idx :: u16
  extract_idx :: u16

definition next_idx :: "nat \<Rightarrow> u16 \<Rightarrow> u16" where
  "next_idx sz i = of_nat ((unat i + 1) mod sz)"

definition ring_put :: "nat \<Rightarrow> u8 \<Rightarrow> ring \<Rightarrow> ring option" where
  "ring_put sz c r =
     (let temp = next_idx sz (insert_idx r) in
      if temp = extract_idx r then None
      else Some (r\<lparr>buffer := (buffer r)[unat (insert_idx r) := c], insert_idx := temp\<rparr>))"

text \<open>The receive interrupt stores first and advances only when there is room.\<close>

definition ring_force :: "nat \<Rightarrow> u8 \<Rightarrow> ring \<Rightarrow> ring" where
  "ring_force sz c r =
     (let temp = next_idx sz (insert_idx r);
          r' = r\<lparr>buffer := (buffer r)[unat (insert_idx r) := c]\<rparr>
      in if temp \<noteq> extract_idx r then r'\<lparr>insert_idx := temp\<rparr> else r')"

definition ring_get :: "nat \<Rightarrow> ring \<Rightarrow> (u8 \<times> ring) option" where
  "ring_get sz r =
     (if insert_idx r = extract_idx r then None
      else Some (buffer r ! unat (extract_idx r), r\<lparr>extract_idx := next_idx sz (extract_idx r)\<rparr>))"

definition ring_empty :: "ring \<Rightarrow> ring" where
  "ring_empty r = r\<lparr>insert_idx := 0, extract_idx := 0\<rparr>"

definition ring_wf :: "nat \<Rightarrow> ring \<Rightarrow> bool" where
  "ring_wf sz r \<longleftrightarrow> 1 < sz \<and> sz < 2 ^ 16 \<and> length (buffer r) = sz
     \<and> unat (insert_idx r) < sz \<and> unat (extract_idx r) < sz"

definition used :: "nat \<Rightarrow> nat \<Rightarrow> nat \<Rightarrow> nat" where
  "used sz i e = (if e \<le> i then i - e else i + sz - e)"

definition ring_list :: "nat \<Rightarrow> ring \<Rightarrow> u8 list" where
  "ring_list sz r = map (\<lambda>k. buffer r ! ((unat (extract_idx r) + k) mod sz))
     [0..<used sz (unat (insert_idx r)) (unat (extract_idx r))]"

section \<open>Index arithmetic\<close>

lemma mod_once: "i < 2 * sz \<Longrightarrow> i mod sz = (if i < sz then i else i - (sz::nat))"
  by (simp add: mod_if [of i])

lemma unat_next_idx: "0 < sz \<Longrightarrow> sz < 2 ^ 16 \<Longrightarrow> unat (next_idx sz i) = (unat i + 1) mod sz"
proof -
  assume "0 < sz" "sz < 2 ^ 16"
  then have "(unat i + 1) mod sz < 2 ^ 16" using mod_less_divisor [of sz "unat i + 1"] by linarith
  then show ?thesis unfolding next_idx_def unsigned_of_nat by (simp add: take_bit_nat_eq_self)
qed

lemma next_idx_eq_iff:
  "0 < sz \<Longrightarrow> sz < 2 ^ 16 \<Longrightarrow> next_idx sz i = e \<longleftrightarrow> (unat i + 1) mod sz = unat e"
  using unat_next_idx [of sz i] by (metis unsigned_word_eqI)

lemma used_less: "i < sz \<Longrightarrow> e < sz \<Longrightarrow> used sz i e < sz"
  by (auto simp: used_def)

lemma used_0_iff: "i < sz \<Longrightarrow> e < sz \<Longrightarrow> used sz i e = 0 \<longleftrightarrow> i = e"
  by (auto simp: used_def)

lemma full_iff: "i < sz \<Longrightarrow> e < sz \<Longrightarrow> (i + 1) mod sz = e \<longleftrightarrow> used sz i e = sz - 1"
  by (auto simp: used_def mod_once)

lemma used_put: "i < sz \<Longrightarrow> e < sz \<Longrightarrow> (i + 1) mod sz \<noteq> e \<Longrightarrow> used sz ((i + 1) mod sz) e = Suc (used sz i e)"
  by (auto simp: used_def mod_once split: if_splits)

lemma used_get: "i < sz \<Longrightarrow> e < sz \<Longrightarrow> i \<noteq> e \<Longrightarrow> Suc (used sz i ((e + 1) mod sz)) = used sz i e"
  by (auto simp: used_def mod_once split: if_splits)

lemma slot_used: "i < sz \<Longrightarrow> e < sz \<Longrightarrow> (e + used sz i e) mod sz = i"
  by (auto simp: used_def mod_once split: if_splits)

lemma slot_other: "i < sz \<Longrightarrow> e < sz \<Longrightarrow> k < used sz i e \<Longrightarrow> (e + k) mod sz \<noteq> i"
  by (auto simp: used_def mod_once split: if_splits)

lemma slot_update:
  "i < sz \<Longrightarrow> e < sz \<Longrightarrow> k < used sz i e \<Longrightarrow> xs[i := c] ! ((e + k) mod sz) = xs ! ((e + k) mod sz)"
  using slot_other by (metis nth_list_update_neq)

section \<open>The ring implements a bounded queue\<close>

lemma length_ring_list: "length (ring_list sz r) = used sz (unat (insert_idx r)) (unat (extract_idx r))"
  by (simp add: ring_list_def)

lemma ring_list_bound: "ring_wf sz r \<Longrightarrow> length (ring_list sz r) < sz"
  by (simp add: length_ring_list ring_wf_def used_less)

lemma ring_list_slot [simp]:
  "ring_wf sz r \<Longrightarrow> ring_list sz (r\<lparr>buffer := (buffer r)[unat (insert_idx r) := c]\<rparr>) = ring_list sz r"
  by (auto simp: ring_list_def ring_wf_def slot_update)

lemma ring_full_iff:
  "ring_wf sz r \<Longrightarrow> next_idx sz (insert_idx r) = extract_idx r \<longleftrightarrow> length (ring_list sz r) = sz - 1"
  by (auto simp: ring_wf_def next_idx_eq_iff full_iff [simplified] length_ring_list)

lemma ring_put_ok:
  assumes "ring_wf sz r" "length (ring_list sz r) < sz - 1"
  shows "\<exists>r'. ring_put sz c r = Some r' \<and> ring_wf sz r' \<and> ring_list sz r' = ring_list sz r @ [c]"
proof -
  let ?i = "unat (insert_idx r)" and ?e = "unat (extract_idx r)"
  let ?b = "(buffer r)[?i := c]"
  have wf: "?i < sz" "?e < sz" "length (buffer r) = sz" "0 < sz" "sz < 2 ^ 16"
    using assms(1) by (auto simp: ring_wf_def)
  have nf: "next_idx sz (insert_idx r) \<noteq> extract_idx r"
    using ring_full_iff [OF assms(1)] assms(2) by simp
  then have nf': "(?i + 1) mod sz \<noteq> ?e" using wf by (simp add: next_idx_eq_iff)
  let ?r = "r\<lparr>buffer := ?b, insert_idx := next_idx sz (insert_idx r)\<rparr>"
  have u: "used sz (unat (next_idx sz (insert_idx r))) ?e = Suc (used sz ?i ?e)"
    using used_put [OF wf(1,2) nf'] wf by (simp add: unat_next_idx)
  have "ring_list sz ?r = map (\<lambda>k. ?b ! ((?e + k) mod sz)) [0..<used sz ?i ?e] @ [?b ! ((?e + used sz ?i ?e) mod sz)]"
    by (simp add: ring_list_def u)
  also have "\<dots> = ring_list sz r @ [c]"
    using wf by (auto simp: slot_used ring_list_def slot_update)
  finally show ?thesis
    using nf assms(1) wf by (auto simp: ring_put_def Let_def ring_wf_def unat_next_idx)
qed

lemma ring_get_ok:
  assumes "ring_wf sz r" "ring_list sz r = a # as"
  shows "\<exists>r'. ring_get sz r = Some (a, r') \<and> ring_wf sz r' \<and> ring_list sz r' = as"
proof -
  let ?i = "unat (insert_idx r)" and ?e = "unat (extract_idx r)"
  let ?r = "r\<lparr>extract_idx := next_idx sz (extract_idx r)\<rparr>"
  have wf: "?i < sz" "?e < sz" "length (buffer r) = sz" "0 < sz" "sz < 2 ^ 16"
    using assms(1) by (auto simp: ring_wf_def)
  have "used sz ?i ?e \<noteq> 0" using assms(2) length_ring_list [of sz r] by auto
  then have ne: "?i \<noteq> ?e" using used_0_iff [OF wf(1,2)] by auto
  let ?n = "used sz ?i ((?e + 1) mod sz)"
  have u: "used sz ?i ?e = Suc ?n" using used_get [OF wf(1,2) ne] by simp
  have "ring_list sz r = map (\<lambda>k. buffer r ! ((?e + k) mod sz)) (0 # map Suc [0..<?n])"
    by (simp add: ring_list_def u upt_conv_Cons map_Suc_upt del: upt_Suc)
  moreover have "ring_list sz ?r = map (\<lambda>k. buffer r ! ((?e + Suc k) mod sz)) [0..<?n]"
    using wf by (simp add: ring_list_def unat_next_idx mod_add_left_eq)
  ultimately have "ring_list sz r = buffer r ! ?e # ring_list sz ?r"
    using wf by simp
  then have "a = buffer r ! ?e" "as = ring_list sz ?r" using assms(2) by auto
  moreover have "ring_get sz r = Some (buffer r ! ?e, ?r)" using ne by (auto simp: ring_get_def)
  ultimately show ?thesis using assms(1) wf by (auto simp: ring_wf_def unat_next_idx)
qed

interpretation rq: fifo "ring_put sz" "ring_get sz" "ring_list sz" "ring_wf sz" "sz - 1" for sz
proof
  fix q a as
  show "ring_wf sz q \<Longrightarrow> length (ring_list sz q) < sz - 1 \<Longrightarrow>
      \<exists>q'. ring_put sz a q = Some q' \<and> ring_wf sz q' \<and> ring_list sz q' = ring_list sz q @ [a]"
    by (rule ring_put_ok)
  show "ring_wf sz q \<Longrightarrow> sz - 1 \<le> length (ring_list sz q) \<Longrightarrow> ring_put sz a q = None"
    using ring_full_iff [of sz q] ring_list_bound [of sz q] by (simp add: ring_put_def)
  show "ring_wf sz q \<Longrightarrow> ring_list sz q = [] \<Longrightarrow> ring_get sz q = None"
    using length_ring_list [of sz q] used_0_iff [of "unat (insert_idx q)" sz "unat (extract_idx q)"]
    by (auto simp: ring_get_def ring_wf_def intro: unsigned_word_eqI)
  show "ring_wf sz q \<Longrightarrow> ring_list sz q = a # as \<Longrightarrow>
      \<exists>q'. ring_get sz q = Some (a, q') \<and> ring_wf sz q' \<and> ring_list sz q' = as"
    by (rule ring_get_ok)
qed

lemma ring_force_ok:
  assumes "ring_wf sz r"
  shows "ring_wf sz (ring_force sz c r) \<and> ring_list sz (ring_force sz c r) =
     (if length (ring_list sz r) < sz - 1 then ring_list sz r @ [c] else ring_list sz r)"
proof (cases "ring_put sz c r")
  case None
  then have "next_idx sz (insert_idx r) = extract_idx r"
    by (auto simp: ring_put_def Let_def split: if_splits)
  then have "ring_force sz c r = r\<lparr>buffer := (buffer r)[unat (insert_idx r) := c]\<rparr>"
    by (simp add: ring_force_def)
  then show ?thesis using None rq.put_NoneD [OF assms] assms by (simp add: ring_wf_def)
next
  case (Some r')
  then have "ring_force sz c r = r'" by (auto simp: ring_put_def ring_force_def Let_def split: if_splits)
  then show ?thesis using rq.put_SomeD [OF assms Some] rq.put_NoneD [OF assms, of c] Some by simp
qed

lemma ring_empty_ok [simp]:
  "1 < sz \<Longrightarrow> sz < 2 ^ 16 \<Longrightarrow> length (buffer r) = sz \<Longrightarrow> ring_wf sz (ring_empty r)"
  "ring_list sz (ring_empty r) = []"
  by (simp_all add: ring_empty_def ring_wf_def ring_list_def used_def)

end
