(* ===== verification/Lpc22xx.thy ===== *)
theory Lpc22xx
  imports Prelude
begin

text \<open>
  The LPC22xx register map and bit names of \<^verbatim>\<open>software/include/lpc22xx.h\<close>, as far as the modelled
  firmware uses them. A register is the address its macro dereferences; the macro's access width is
  the choice between \<^const>\<open>rd\<close> and \<^const>\<open>rd8\<close> where the register is used.
\<close>

section \<open>Register addresses\<close>

definition VICIRQStatus :: u32 where
  [simp]: "VICIRQStatus = 0xFFFFF000"

definition VICFIQStatus :: u32 where
  [simp]: "VICFIQStatus = 0xFFFFF004"

definition VICRawIntr :: u32 where
  [simp]: "VICRawIntr = 0xFFFFF008"

definition VICIntSelect :: u32 where
  [simp]: "VICIntSelect = 0xFFFFF00C"

definition VICIntEnable :: u32 where
  [simp]: "VICIntEnable = 0xFFFFF010"

definition VICIntEnClr :: u32 where
  [simp]: "VICIntEnClr = 0xFFFFF014"

definition VICSoftInt :: u32 where
  [simp]: "VICSoftInt = 0xFFFFF018"

definition VICSoftIntClr :: u32 where
  [simp]: "VICSoftIntClr = 0xFFFFF01C"

definition VICProtection :: u32 where
  [simp]: "VICProtection = 0xFFFFF020"

definition VICVectAddr :: u32 where
  [simp]: "VICVectAddr = 0xFFFFF030"

definition VICDefVectAddr :: u32 where
  [simp]: "VICDefVectAddr = 0xFFFFF034"

definition VICVectAddr0 :: u32 where
  [simp]: "VICVectAddr0 = 0xFFFFF100"

definition VICVectAddr1 :: u32 where
  [simp]: "VICVectAddr1 = 0xFFFFF104"

definition VICVectCntl0 :: u32 where
  [simp]: "VICVectCntl0 = 0xFFFFF200"

definition VICVectCntl1 :: u32 where
  [simp]: "VICVectCntl1 = 0xFFFFF204"

definition PINSEL0 :: u32 where
  [simp]: "PINSEL0 = 0xE002C000"

definition PINSEL1 :: u32 where
  [simp]: "PINSEL1 = 0xE002C004"

definition PINSEL2 :: u32 where
  [simp]: "PINSEL2 = 0xE002C014"

definition IO0PIN :: u32 where
  [simp]: "IO0PIN = 0xE0028000"

definition IO0SET :: u32 where
  [simp]: "IO0SET = 0xE0028004"

definition IO0DIR :: u32 where
  [simp]: "IO0DIR = 0xE0028008"

definition IO0CLR :: u32 where
  [simp]: "IO0CLR = 0xE002800C"

definition IO1PIN :: u32 where
  [simp]: "IO1PIN = 0xE0028010"

definition IO1SET :: u32 where
  [simp]: "IO1SET = 0xE0028014"

definition IO1DIR :: u32 where
  [simp]: "IO1DIR = 0xE0028018"

definition IO1CLR :: u32 where
  [simp]: "IO1CLR = 0xE002801C"

definition MAMCR :: u32 where
  [simp]: "MAMCR = 0xE01FC000"

definition MAMTIM :: u32 where
  [simp]: "MAMTIM = 0xE01FC004"

definition MAMMAP :: u32 where
  [simp]: "MAMMAP = 0xE01FC040"

definition PLLCON :: u32 where
  [simp]: "PLLCON = 0xE01FC080"

definition PLLCFG :: u32 where
  [simp]: "PLLCFG = 0xE01FC084"

definition PLLSTAT :: u32 where
  [simp]: "PLLSTAT = 0xE01FC088"

definition PLLFEED :: u32 where
  [simp]: "PLLFEED = 0xE01FC08C"

definition VPBDIV :: u32 where
  [simp]: "VPBDIV = 0xE01FC100"

definition PCON :: u32 where
  [simp]: "PCON = 0xE01FC0C0"

definition PCONP :: u32 where
  [simp]: "PCONP = 0xE01FC0C4"

definition EXTINT :: u32 where
  [simp]: "EXTINT = 0xE01FC140"

definition EXTWAKE :: u32 where
  [simp]: "EXTWAKE = 0xE01FC144"

definition TIMER0_IR :: u32 where
  [simp]: "TIMER0_IR = 0xE0004000"

definition TIMER0_TCR :: u32 where
  [simp]: "TIMER0_TCR = 0xE0004004"

definition TIMER0_TC :: u32 where
  [simp]: "TIMER0_TC = 0xE0004008"

definition TIMER0_PR :: u32 where
  [simp]: "TIMER0_PR = 0xE000400C"

definition TIMER0_PC :: u32 where
  [simp]: "TIMER0_PC = 0xE0004010"

definition TIMER0_MCR :: u32 where
  [simp]: "TIMER0_MCR = 0xE0004014"

definition TIMER0_MR0 :: u32 where
  [simp]: "TIMER0_MR0 = 0xE0004018"

definition TIMER0_MR1 :: u32 where
  [simp]: "TIMER0_MR1 = 0xE000401C"

definition TIMER0_MR2 :: u32 where
  [simp]: "TIMER0_MR2 = 0xE0004020"

definition TIMER0_MR3 :: u32 where
  [simp]: "TIMER0_MR3 = 0xE0004024"

definition TIMER0_CCR :: u32 where
  [simp]: "TIMER0_CCR = 0xE0004028"

definition TIMER0_CR0 :: u32 where
  [simp]: "TIMER0_CR0 = 0xE000402C"

definition TIMER0_CR1 :: u32 where
  [simp]: "TIMER0_CR1 = 0xE0004030"

definition TIMER0_CR2 :: u32 where
  [simp]: "TIMER0_CR2 = 0xE0004034"

definition TIMER0_CR3 :: u32 where
  [simp]: "TIMER0_CR3 = 0xE0004038"

definition TIMER0_EMR :: u32 where
  [simp]: "TIMER0_EMR = 0xE000403C"

definition UART0_RBR :: u32 where
  [simp]: "UART0_RBR = 0xE000C000"

definition UART0_THR :: u32 where
  [simp]: "UART0_THR = 0xE000C000"

definition UART0_IER :: u32 where
  [simp]: "UART0_IER = 0xE000C004"

definition UART0_IIR :: u32 where
  [simp]: "UART0_IIR = 0xE000C008"

definition UART0_FCR :: u32 where
  [simp]: "UART0_FCR = 0xE000C008"

definition UART0_LCR :: u32 where
  [simp]: "UART0_LCR = 0xE000C00C"

definition UART0_MCR :: u32 where
  [simp]: "UART0_MCR = 0xE000C010"

definition UART0_LSR :: u32 where
  [simp]: "UART0_LSR = 0xE000C014"

definition UART0_MSR :: u32 where
  [simp]: "UART0_MSR = 0xE000C018"

definition UART0_SCR :: u32 where
  [simp]: "UART0_SCR = 0xE000C01C"

definition UART0_DLL :: u32 where
  [simp]: "UART0_DLL = 0xE000C000"

definition UART0_DLM :: u32 where
  [simp]: "UART0_DLM = 0xE000C004"

definition UART1_RBR :: u32 where
  [simp]: "UART1_RBR = 0xE0010000"

definition UART1_THR :: u32 where
  [simp]: "UART1_THR = 0xE0010000"

definition UART1_IER :: u32 where
  [simp]: "UART1_IER = 0xE0010004"

definition UART1_IIR :: u32 where
  [simp]: "UART1_IIR = 0xE0010008"

definition UART1_FCR :: u32 where
  [simp]: "UART1_FCR = 0xE0010008"

definition UART1_LCR :: u32 where
  [simp]: "UART1_LCR = 0xE001000C"

definition UART1_MCR :: u32 where
  [simp]: "UART1_MCR = 0xE0010010"

definition UART1_LSR :: u32 where
  [simp]: "UART1_LSR = 0xE0010014"

definition UART1_MSR :: u32 where
  [simp]: "UART1_MSR = 0xE0010018"

definition UART1_SCR :: u32 where
  [simp]: "UART1_SCR = 0xE001001C"

definition UART1_DLL :: u32 where
  [simp]: "UART1_DLL = 0xE0010000"

definition UART1_DLM :: u32 where
  [simp]: "UART1_DLM = 0xE0010004"

definition I2C_I2CONSET :: u32 where
  [simp]: "I2C_I2CONSET = 0xE001C000"

definition I2C_I2STAT :: u32 where
  [simp]: "I2C_I2STAT = 0xE001C004"

definition I2C_I2DAT :: u32 where
  [simp]: "I2C_I2DAT = 0xE001C008"

definition I2C_I2ADR :: u32 where
  [simp]: "I2C_I2ADR = 0xE001C00C"

definition I2C_I2SCLH :: u32 where
  [simp]: "I2C_I2SCLH = 0xE001C010"

definition I2C_I2SCLL :: u32 where
  [simp]: "I2C_I2SCLL = 0xE001C014"

definition I2C_I2CONCLR :: u32 where
  [simp]: "I2C_I2CONCLR = 0xE001C018"

definition SPI_SPCR :: u32 where
  [simp]: "SPI_SPCR = 0xE0020000"

definition SPI_SPSR :: u32 where
  [simp]: "SPI_SPSR = 0xE0020004"

definition SPI_SPDR :: u32 where
  [simp]: "SPI_SPDR = 0xE0020008"

definition SPI_SPCCR :: u32 where
  [simp]: "SPI_SPCCR = 0xE002000C"

definition SPI_SPTCR :: u32 where
  [simp]: "SPI_SPTCR = 0xE0020010"

definition SPI_SPTSR :: u32 where
  [simp]: "SPI_SPTSR = 0xE0020014"

definition SPI_SPTOR :: u32 where
  [simp]: "SPI_SPTOR = 0xE0020018"

definition SPI_SPINT :: u32 where
  [simp]: "SPI_SPINT = 0xE002001C"

definition WDMOD :: u32 where
  [simp]: "WDMOD = 0xE0000000"

definition WDTC :: u32 where
  [simp]: "WDTC = 0xE0000004"

definition WDFEED :: u32 where
  [simp]: "WDFEED = 0xE0000008"

definition WDTV :: u32 where
  [simp]: "WDTV = 0xE000000C"

definition BCFG0 :: u32 where
  [simp]: "BCFG0 = 0xFFE00000"

definition BCFG1 :: u32 where
  [simp]: "BCFG1 = 0xFFE00004"

definition BCFG2 :: u32 where
  [simp]: "BCFG2 = 0xFFE00008"

definition BCFG3 :: u32 where
  [simp]: "BCFG3 = 0xFFE0000C"

section \<open>Bit names\<close>

definition UIER_ERBFI :: u32 where
  [simp]: "UIER_ERBFI = 0x1"

definition UIER_ETBEI :: u32 where
  [simp]: "UIER_ETBEI = 0x2"

definition UIER_ELSI :: u32 where
  [simp]: "UIER_ELSI = 0x4"

definition UIER_EDSSI :: u32 where
  [simp]: "UIER_EDSSI = 0x8"

definition UIIR_NO_INT :: u32 where
  [simp]: "UIIR_NO_INT = 0x1"

definition UIIR_MS_INT :: u32 where
  [simp]: "UIIR_MS_INT = 0x0"

definition UIIR_THRE_INT :: u32 where
  [simp]: "UIIR_THRE_INT = 0x2"

definition UIIR_RDA_INT :: u32 where
  [simp]: "UIIR_RDA_INT = 0x4"

definition UIIR_RLS_INT :: u32 where
  [simp]: "UIIR_RLS_INT = 0x6"

definition UIIR_CTI_INT :: u32 where
  [simp]: "UIIR_CTI_INT = 0xC"

definition UIIR_ID_MASK :: u32 where
  [simp]: "UIIR_ID_MASK = 0xE"

definition UFCR_FIFO_ENABLE :: u32 where
  [simp]: "UFCR_FIFO_ENABLE = 0x1"

definition UFCR_RX_FIFO_RESET :: u32 where
  [simp]: "UFCR_RX_FIFO_RESET = 0x2"

definition UFCR_TX_FIFO_RESET :: u32 where
  [simp]: "UFCR_TX_FIFO_RESET = 0x4"

definition UFCR_FIFO_TRIG1 :: u32 where
  [simp]: "UFCR_FIFO_TRIG1 = 0x0"

definition UFCR_FIFO_TRIG4 :: u32 where
  [simp]: "UFCR_FIFO_TRIG4 = 0x40"

definition UFCR_FIFO_TRIG8 :: u32 where
  [simp]: "UFCR_FIFO_TRIG8 = 0x80"

definition UFCR_FIFO_TRIG14 :: u32 where
  [simp]: "UFCR_FIFO_TRIG14 = 0xC0"

definition ULCR_CHAR_5 :: u32 where
  [simp]: "ULCR_CHAR_5 = 0x0"

definition ULCR_CHAR_6 :: u32 where
  [simp]: "ULCR_CHAR_6 = 0x1"

definition ULCR_CHAR_7 :: u32 where
  [simp]: "ULCR_CHAR_7 = 0x2"

definition ULCR_CHAR_8 :: u32 where
  [simp]: "ULCR_CHAR_8 = 0x3"

definition ULCR_STOP_1 :: u32 where
  [simp]: "ULCR_STOP_1 = 0x0"

definition ULCR_STOP_2 :: u32 where
  [simp]: "ULCR_STOP_2 = 0x4"

definition ULCR_PAR_NO :: u32 where
  [simp]: "ULCR_PAR_NO = 0x0"

definition ULCR_PAR_ODD :: u32 where
  [simp]: "ULCR_PAR_ODD = 0x8"

definition ULCR_PAR_EVEN :: u32 where
  [simp]: "ULCR_PAR_EVEN = 0x18"

definition ULCR_PAR_MARK :: u32 where
  [simp]: "ULCR_PAR_MARK = 0x28"

definition ULCR_PAR_SPACE :: u32 where
  [simp]: "ULCR_PAR_SPACE = 0x38"

definition ULCR_BREAK_ENABLE :: u32 where
  [simp]: "ULCR_BREAK_ENABLE = 0x40"

definition ULCR_DLAB_ENABLE :: u32 where
  [simp]: "ULCR_DLAB_ENABLE = 0x80"

definition ULSR_RDR :: u32 where
  [simp]: "ULSR_RDR = 0x1"

definition ULSR_OE :: u32 where
  [simp]: "ULSR_OE = 0x2"

definition ULSR_PE :: u32 where
  [simp]: "ULSR_PE = 0x4"

definition ULSR_FE :: u32 where
  [simp]: "ULSR_FE = 0x8"

definition ULSR_BI :: u32 where
  [simp]: "ULSR_BI = 0x10"

definition ULSR_THRE :: u32 where
  [simp]: "ULSR_THRE = 0x20"

definition ULSR_TEMT :: u32 where
  [simp]: "ULSR_TEMT = 0x40"

definition ULSR_RXFE :: u32 where
  [simp]: "ULSR_RXFE = 0x80"

definition ULSR_ERR_MASK :: u32 where
  [simp]: "ULSR_ERR_MASK = 0x1E"

definition TCR_ENABLE :: u32 where
  [simp]: "TCR_ENABLE = 0x1"

definition TCR_RESET :: u32 where
  [simp]: "TCR_RESET = 0x2"

definition VIC_TIMER0 :: nat where
  [simp]: "VIC_TIMER0 = 4"

definition VIC_UART0 :: nat where
  [simp]: "VIC_UART0 = 6"

definition VIC_UART1 :: nat where
  [simp]: "VIC_UART1 = 7"

definition VIC_I2C :: nat where
  [simp]: "VIC_I2C = 9"

definition VIC_SPI :: nat where
  [simp]: "VIC_SPI = 10"

definition VIC_ENABLE :: u32 where
  [simp]: "VIC_ENABLE = 0x20"

definition VIC_BIT :: "nat \<Rightarrow> u32" where
  [simp]: "VIC_BIT chan = push_bit chan 1"

end
