(* ===== verification/Vic_Systime.thy ===== *)
theory Vic_Systime
  imports Lpc22xx
begin

text \<open>
  The interrupt masks of \<^verbatim>\<open>software/camera/vic.c\<close>, which save and restore bits of the processor
  status register \<open>cpsr\<close>, and the free-running system time of \<^verbatim>\<open>software/camera/systime.c\<close>
  with its busy-waiting \<open>pause\<close>.
\<close>

section \<open>Interrupt masks\<close>

definition IRQ_MASK :: u32 where
  "IRQ_MASK = 0x00000080"

definition FIQ_MASK :: u32 where
  "FIQ_MASK = 0x00000040"

definition disableIRQ :: "u32 \<Rightarrow> u32 \<times> u32" where
  "disableIRQ cpsr = (cpsr, cpsr OR IRQ_MASK)"

definition restoreIRQ :: "u32 \<Rightarrow> u32 \<Rightarrow> u32 \<times> u32" where
  "restoreIRQ oldCPSR cpsr = (cpsr, (cpsr AND NOT IRQ_MASK) OR (oldCPSR AND IRQ_MASK))"

definition enableIRQ :: "u32 \<Rightarrow> u32 \<times> u32" where
  "enableIRQ cpsr = (cpsr, cpsr AND NOT IRQ_MASK)"

definition disableFIQ :: "u32 \<Rightarrow> u32 \<times> u32" where
  "disableFIQ cpsr = (cpsr, cpsr OR FIQ_MASK)"

definition restoreFIQ :: "u32 \<Rightarrow> u32 \<Rightarrow> u32 \<times> u32" where
  "restoreFIQ oldCPSR cpsr = (cpsr, (cpsr AND NOT FIQ_MASK) OR (oldCPSR AND FIQ_MASK))"

definition enableFIQ :: "u32 \<Rightarrow> u32 \<times> u32" where
  "enableFIQ cpsr = (cpsr, cpsr AND NOT FIQ_MASK)"

text \<open>The contract of a pair of save and restore operations on one mask bit.\<close>

locale critical =
  fixes disable :: "u32 \<Rightarrow> u32 \<times> u32"
    and restore :: "u32 \<Rightarrow> u32 \<Rightarrow> u32 \<times> u32"
    and masked :: u32
  assumes disable_bits: "disable c = (c, c OR masked)"
    and restore_bits: "restore old c = (c, (c AND NOT masked) OR (old AND masked))"
begin

lemma masks: "snd (disable c) AND masked = masked"
  by (rule bit_word_eqI) (auto simp: disable_bits bit_simps)

text \<open>A section that only touches other bits is undone completely in the masked one, at any depth.\<close>

lemma nested:
  assumes "c' AND masked = masked"
  shows "snd (restore (fst (disable c)) c') AND masked = c AND masked"
    and "snd (restore (fst (disable c)) c') AND NOT masked = c' AND NOT masked"
  by (rule bit_word_eqI, auto simp: disable_bits restore_bits bit_simps)+

lemma undone: "snd (restore (fst (disable c)) (snd (disable c))) = c"
  by (rule bit_word_eqI) (auto simp: disable_bits restore_bits bit_simps)

end

interpretation irq: critical disableIRQ restoreIRQ IRQ_MASK
  by unfold_locales (simp_all add: disableIRQ_def restoreIRQ_def)

interpretation fiq: critical disableFIQ restoreFIQ FIQ_MASK
  by unfold_locales (simp_all add: disableFIQ_def restoreFIQ_def)

section \<open>System time\<close>

definition T0_PCLK_DIV :: u32 where
  "T0_PCLK_DIV = 3"

record systime =
  sysTICs :: u32
  lastT0TC :: u32

definition initSysTime :: "'d bus \<Rightarrow> systime \<times> 'd machine \<Rightarrow> systime \<times> 'd machine" where
  "initSysTime B s =
     (let (t, m) = s;
          m = wr B TIMER0_TCR TCR_RESET m;
          m = wr B TIMER0_PR (T0_PCLK_DIV - 1) m;
          m = wr B TIMER0_MCR 0 m;
          m = wr B TIMER0_CCR 0 m;
          m = wr B TIMER0_EMR 0 m;
          m = wr B TIMER0_TCR TCR_ENABLE m
      in (t\<lparr>sysTICs := 0\<rparr>, m))"

definition getSysTICs :: "'d bus \<Rightarrow> systime \<times> 'd machine \<Rightarrow> u32 \<times> systime \<times> 'd machine" where
  "getSysTICs B s =
     (let (t, m) = s;
          (now, m) = rd B TIMER0_TC m;
          t = t\<lparr>sysTICs := sysTICs t + (now - lastT0TC t)\<rparr>;
          t = t\<lparr>lastT0TC := now\<rparr>
      in (sysTICs t, t, m))"

definition getElapsedSysTICs :: "'d bus \<Rightarrow> u32 \<Rightarrow> systime \<times> 'd machine \<Rightarrow> u32 \<times> systime \<times> 'd machine" where
  "getElapsedSysTICs B startTime s = (let (n, s) = getSysTICs B s in (n - startTime, s))"

text \<open>The watchdog macro \<open>WDOG()\<close> in the loop expands to nothing.\<close>

partial_function (option) pause_loop ::
  "'d bus \<Rightarrow> u32 \<Rightarrow> u32 \<Rightarrow> systime \<times> 'd machine \<Rightarrow> (systime \<times> 'd machine) option" where
  "pause_loop B startTime duration s =
     (let (e, s) = getElapsedSysTICs B startTime s in
      if e < duration then pause_loop B startTime duration s else Some s)"

declare pause_loop.simps [code]

definition pause :: "'d bus \<Rightarrow> u32 \<Rightarrow> systime \<times> 'd machine \<Rightarrow> (systime \<times> 'd machine) option" where
  "pause B duration s = (let (startTime, s) = getSysTICs B s in pause_loop B startTime duration s)"

section \<open>A running timer\<close>

text \<open>
  \<open>T\<close> counts the timer's ticks without bound: every load returns it modulo \<open>2 ^ 32\<close> and leaves it
  larger, by at most \<open>step\<close>.
\<close>

definition runs_timer :: "'d bus \<Rightarrow> ('d \<Rightarrow> nat) \<Rightarrow> nat \<Rightarrow> bool" where
  "runs_timer B T step \<longleftrightarrow> (\<forall>d. \<exists>d'. bus_rd B TIMER0_TC d = (of_nat (T d), d') \<and> T d < T d' \<and> T d' \<le> T d + step)"

text \<open>
  The two variables of the module at time \<open>n\<close> when \<open>T\<close> was last read as \<open>t\<close>.
\<close>

definition at_time :: "nat \<Rightarrow> nat \<Rightarrow> systime \<Rightarrow> bool" where
  "at_time n t s \<longleftrightarrow> sysTICs s = of_nat n \<and> lastT0TC s = of_nat t"

lemma getSysTICs_exact:
  assumes "runs_timer B T step" "at_time n t s" "t \<le> T (dev m)"
  shows "\<exists>s' m'. getSysTICs B (s, m) = (of_nat (n + (T (dev m) - t)), s', m')
     \<and> at_time (n + (T (dev m) - t)) (T (dev m)) s' \<and> T (dev m) < T (dev m') \<and> T (dev m') \<le> T (dev m) + step"
proof -
  obtain d' where d': "bus_rd B TIMER0_TC (dev m) = (of_nat (T (dev m)), d')" "T (dev m) < T d'" "T d' \<le> T (dev m) + step"
    using assms(1) by (auto simp: runs_timer_def)
  then show ?thesis
    using assms(2,3) by (auto simp: getSysTICs_def at_time_def rd_parts Let_def of_nat_diff simp del: TIMER0_TC_def)
qed

lemma pause_loop_ends:
  assumes run: "runs_timer B T step" and small: "unat duration + step < 2 ^ 32"
  shows "at_time n t s \<Longrightarrow> t \<le> T (dev m) \<Longrightarrow> n0 \<le> n \<Longrightarrow>
     n + (T (dev m) - t) - n0 \<le> unat duration + step \<Longrightarrow>
     \<exists>s' m' n' t'. pause_loop B (of_nat n0) duration (s, m) = Some (s', m') \<and> at_time n' t' s'
        \<and> n0 + unat duration \<le> n' \<and> n' + t = n + t' \<and> n' \<le> n0 + unat duration + step \<and> t' \<le> T (dev m')"
proof (induction "n0 + unat duration - (n + (T (dev m) - t))" arbitrary: n t s m rule: less_induct)
  case less
  define n1 where "n1 = n + (T (dev m) - t)"
  obtain s1 m1 where g: "getSysTICs B (s, m) = (of_nat n1, s1, m1)" "at_time n1 (T (dev m)) s1"
      "T (dev m) < T (dev m1)" "T (dev m1) \<le> T (dev m) + step"
    using getSysTICs_exact [OF run less.prems(1,2)] by (auto simp: n1_def)
  have diff: "of_nat n1 - of_nat n0 = (of_nat (n1 - n0) :: u32)"
    using less.prems(3) by (simp add: of_nat_diff n1_def)
  have lt: "(of_nat (n1 - n0) :: u32) < duration \<longleftrightarrow> n1 - n0 < unat duration"
  proof -
    have "n1 - n0 < 2 ^ 32" using less.prems(4) small by (simp add: n1_def)
    then have "unat (of_nat (n1 - n0) :: u32) = n1 - n0"
      by (simp add: unsigned_of_nat take_bit_nat_eq_self)
    then show ?thesis by (simp add: word_less_nat_alt)
  qed
  have unf: "pause_loop B (of_nat n0) duration (s, m) =
      (if n1 - n0 < unat duration then pause_loop B (of_nat n0) duration (s1, m1) else Some (s1, m1))"
    by (subst pause_loop.simps) (simp add: getElapsedSysTICs_def g diff lt)
  show ?case
  proof (cases "n1 - n0 < unat duration")
    case True
    have "\<exists>s' m' n' t'. pause_loop B (of_nat n0) duration (s1, m1) = Some (s', m') \<and> at_time n' t' s'
        \<and> n0 + unat duration \<le> n' \<and> n' + T (dev m) = n1 + t' \<and> n' \<le> n0 + unat duration + step \<and> t' \<le> T (dev m')"
      using True g less.prems by (intro less.hyps) (auto simp: n1_def)
    then show ?thesis using True unf less.prems(2) by (fastforce simp: n1_def)
  next
    case False
    then show ?thesis using unf g less.prems
      by (intro exI [of _ s1] exI [of _ m1] exI [of _ n1] exI [of _ "T (dev m)"]) (auto simp: n1_def)
  qed
qed

section \<open>Properties\<close>

text \<open>
  Critical sections nest: \<open>restoreIRQ\<close> with the value \<open>disableIRQ\<close> returned puts the IRQ mask
  bit back to what it was before the section and leaves every other bit as the section left it, so
  an inner section never unmasks interrupts the outer one masked.
\<close>

theorem irq_sections_nest:
  "snd (restoreIRQ (fst (disableIRQ c)) (snd (restoreIRQ (fst (disableIRQ (snd (disableIRQ c))))
        (snd (disableIRQ (snd (disableIRQ c))))))) = c
   \<and> snd (restoreIRQ (fst (disableIRQ (snd (disableIRQ c)))) (snd (disableIRQ (snd (disableIRQ c)))))
        AND IRQ_MASK = IRQ_MASK"
  using irq.undone irq.masks by simp

text \<open>
  \<open>pause\<close> returns, after at least the requested number of timer ticks and at most one reading
  interval more, on every timer that keeps running and also when its 32-bit count wraps meanwhile.
\<close>

theorem pause_waits:
  assumes "runs_timer B T step" and "unat duration + step < 2 ^ 32"
    and "at_time n t s" and "t \<le> T (dev m)" and "n0 = n + (T (dev m) - t)"
  shows "\<exists>s' m' n' t'. pause B duration (s, m) = Some (s', m') \<and> at_time n' t' s'
     \<and> n0 + unat duration \<le> n' \<and> n' \<le> n0 + unat duration + step"
proof -
  obtain s1 m1 where g: "getSysTICs B (s, m) = (of_nat n0, s1, m1)" "at_time n0 (T (dev m)) s1"
      "T (dev m) < T (dev m1)" "T (dev m1) \<le> T (dev m) + step"
    using getSysTICs_exact [OF assms(1,3,4)] assms(5) by auto
  then have "n0 + (T (dev m1) - T (dev m)) - n0 \<le> unat duration + step" by simp
  from pause_loop_ends [OF assms(1,2) g(2) _ _ this] show ?thesis
    using g by (fastforce simp: pause_def)
qed

text \<open>A timer that advances by one tick per load.\<close>

definition tick_bus :: "nat bus" where
  "tick_bus = \<lparr>bus_rd = (\<lambda>a d. (of_nat d, Suc d)), bus_wr = (\<lambda>a v d. d)\<rparr>"

theorem pause_waits_witness:
  "\<exists>s' m' n' t'. pause tick_bus 30 (\<lparr>sysTICs = 7, lastT0TC = 4294967290\<rparr>, \<lparr>dev = 4294967292, trace = []\<rparr>) = Some (s', m')
     \<and> at_time n' t' s' \<and> 9 + unat (30::u32) \<le> n' \<and> n' \<le> 9 + unat (30::u32) + 1"
  by (rule pause_waits [where T = id and step = 1 and n = 7 and t = 4294967290])
    (simp_all add: runs_timer_def tick_bus_def at_time_def)

end
