(* ===== verification/Uart_Ring.thy ===== *)
theory Uart_Ring
  imports Ring Vic_Systime
begin

text \<open>
  The interrupt driven serial driver of \<^verbatim>\<open>software/camera/uart.c\<close> with its interrupt handlers
  of \<^verbatim>\<open>software/camera/isr.c\<close>. The source writes every function twice, once per port; here the
  body is written once over a \<open>port\<close> (register addresses, buffer sizes and the few differences),
  and \<open>uart0...\<close> and \<open>uart1...\<close> are its instances. The state of one port is a \<open>uart\<close>; \<open>cpsr\<close> is
  the processor status register the critical sections change.

  Mapped registers are written by the code in program order; the interrupt handler may run between
  any two of the steps of \<open>Putch\<close>, which the relation \<open>tx_step\<close> models.
\<close>

section \<open>Ports\<close>

record port =
  THR :: u32
  RBR :: u32
  IER :: u32
  IIR :: u32
  LSR :: u32
  MSR :: u32
  FCR :: u32
  LCR :: u32
  DLL :: u32
  DLM :: u32
  RX_SIZE :: nat
  TX_SIZE :: nat
  PINVAL :: u32
  PINMASK :: u32
  VICCHAN :: nat
  VECTCNTL :: u32
  VECTADDR :: u32
  guards_irq :: bool
  is_uart1 :: bool

definition uart0_port :: port where
  "uart0_port = \<lparr>THR = UART0_THR, RBR = UART0_RBR, IER = UART0_IER, IIR = UART0_IIR, LSR = UART0_LSR,
     MSR = UART0_MSR, FCR = UART0_FCR, LCR = UART0_LCR, DLL = UART0_DLL, DLM = UART0_DLM,
     RX_SIZE = 1024, TX_SIZE = 64, PINVAL = 0x00000005, PINMASK = 0x0000000F, VICCHAN = VIC_UART0,
     VECTCNTL = VICVectCntl0, VECTADDR = VICVectAddr0, guards_irq = True, is_uart1 = False\<rparr>"

definition uart1_port :: port where
  "uart1_port = \<lparr>THR = UART1_THR, RBR = UART1_RBR, IER = UART1_IER, IIR = UART1_IIR, LSR = UART1_LSR,
     MSR = UART1_MSR, FCR = UART1_FCR, LCR = UART1_LCR, DLL = UART1_DLL, DLM = UART1_DLM,
     RX_SIZE = 64, TX_SIZE = 64, PINVAL = 0x00050000, PINMASK = 0x000F0000, VICCHAN = VIC_UART1,
     VECTCNTL = VICVectCntl1, VECTADDR = VICVectAddr1, guards_irq = False, is_uart1 = True\<rparr>"

record uart =
  rx :: ring
  tx :: ring
  tx_running :: bool
  error_count :: int

text \<open>A port's variables, the processor status and the machine.\<close>

record 'd us =
  un :: uart
  cpsr :: u32
  mc :: "'d machine"

section \<open>The driver\<close>

definition uart_Init :: "'d bus \<Rightarrow> port \<Rightarrow> u32 \<Rightarrow> u16 \<Rightarrow> u8 \<Rightarrow> u8 \<Rightarrow> uart \<times> 'd machine \<Rightarrow> uart \<times> 'd machine" where
  "uart_Init B P isr baud mode fmode s =
     (let (u, m) = s;
          (ps, m) = rd B PINSEL0 m;
          m = wr B PINSEL0 ((ps AND NOT (PINMASK P)) OR PINVAL P) m;
          m = wr8 B (IER P) 0 m;
          m = touch B (IIR P) m;
          m = touch B (RBR P) m;
          m = touch B (LSR P) m;
          m = wr8 B (LCR P) (ucast ULCR_DLAB_ENABLE) m;
          m = wr8 B (DLL P) (ucast baud) m;
          m = wr8 B (DLM P) (ucast (drop_bit 8 baud)) m;
          m = wr8 B (LCR P) (mode AND NOT (ucast ULCR_DLAB_ENABLE)) m;
          m = wr8 B (FCR P) fmode m;
          m = and_wr B VICIntSelect (NOT (VIC_BIT (VICCHAN P))) m;
          m = wr B VICIntEnable (VIC_BIT (VICCHAN P)) m;
          m = wr B (VECTCNTL P) (VIC_ENABLE OR of_nat (VICCHAN P)) m;
          m = wr B (VECTADDR P) isr m;
          u = u\<lparr>tx := ring_empty (tx u), tx_running := False, rx := ring_empty (rx u)\<rparr>;
          m = (if is_uart1 P then or_wr8 B (IER P) (ucast UIER_ERBFI) m
               else wr8 B (IER P) (ucast (UIER_ERBFI OR UIER_ELSI)) m)
      in (u, m))"

text \<open>
  A register update that port 0 brackets with \<open>disableIRQ\<close> and \<open>restoreIRQ\<close> and port 1 does not.
\<close>

definition guarded :: "port \<Rightarrow> ('d machine \<Rightarrow> 'd machine) \<Rightarrow> u32 \<times> 'd machine \<Rightarrow> u32 \<times> 'd machine" where
  "guarded P f s =
     (let (c, m) = s in
      if guards_irq P then
        let (old, c) = disableIRQ c; m = f m; (_, c) = restoreIRQ old c in (c, m)
      else (c, f m))"

text \<open>The part of \<open>Putch\<close> between the two changes of the interrupt enable register.\<close>

definition putch_store :: "port \<Rightarrow> u8 \<Rightarrow> u16 \<Rightarrow> uart \<Rightarrow> uart \<times> u8 list" where
  "putch_store P ch temp u =
     (if tx_running u
      then (u\<lparr>tx := (tx u)\<lparr>buffer := (buffer (tx u))[unat (insert_idx (tx u)) := ch], insert_idx := temp\<rparr>\<rparr>, [])
      else (u\<lparr>tx_running := True\<rparr>, [ch]))"

definition uart_Putch :: "'d bus \<Rightarrow> port \<Rightarrow> int \<Rightarrow> 'd us \<Rightarrow> int \<times> 'd us" where
  "uart_Putch B P ch s =
     (let temp = next_idx (TX_SIZE P) (insert_idx (tx (un s))) in
      if temp = extract_idx (tx (un s)) then (-1, s)
      else
        let (c, m) = guarded P (and_wr8 B (IER P) (ucast (NOT UIER_ETBEI))) (cpsr s, mc s);
            (u, out) = putch_store P (word_of_int ch) temp (un s);
            m = fold (wr8 B (THR P)) out m;
            (c, m) = guarded P (or_wr8 B (IER P) (ucast UIER_ETBEI)) (c, m)
        in (uint (word_of_int ch :: u8), \<lparr>un = u, cpsr = c, mc = m\<rparr>))"

definition uart_Space :: "port \<Rightarrow> uart \<Rightarrow> u16" where
  "uart_Space P u =
     (let space = int (unat (extract_idx (tx u))) - int (unat (insert_idx (tx u)));
          space = (if space \<le> 0 then space + int (TX_SIZE P) else space)
      in word_of_int (space - 1))"

text \<open>The pointer \<open>Puts\<close> returns is the rest of the string it could not take.\<close>

fun uart_Puts :: "'d bus \<Rightarrow> port \<Rightarrow> u8 list \<Rightarrow> 'd us \<Rightarrow> u8 list \<times> 'd us" where
  "uart_Puts B P [] s = ([], s)"
| "uart_Puts B P (ch # str) s =
     (if ch = 0 then (ch # str, s)
      else let (r, s') = uart_Putch B P (uint ch) s in
           if r \<ge> 0 then uart_Puts B P str s' else (ch # str, s'))"

fun write_loop :: "'d bus \<Rightarrow> port \<Rightarrow> u8 list \<Rightarrow> 'd us \<Rightarrow> int \<times> 'd us" where
  "write_loop B P [] s = (0, s)"
| "write_loop B P (b # bs) s =
     (let (r, s') = uart_Putch B P (uint b) s in if r \<ge> 0 then write_loop B P bs s' else (-2, s'))"

text \<open>The \<open>count\<close> bytes at \<open>buffer\<close> are the list; \<open>count\<close> is its length as an \<open>unsigned short\<close>.\<close>

definition uart_Write :: "'d bus \<Rightarrow> port \<Rightarrow> u8 list \<Rightarrow> 'd us \<Rightarrow> int \<times> 'd us" where
  "uart_Write B P bs s =
     (if of_nat (length bs) > uart_Space P (un s) then (-1, s) else write_loop B P bs s)"

definition uart_TxEmpty :: "'d bus \<Rightarrow> port \<Rightarrow> 'd machine \<Rightarrow> bool \<times> 'd machine" where
  "uart_TxEmpty B P m =
     (let (v, m) = rd B (LSR P) m
      in (v AND (ULSR_THRE OR ULSR_TEMT) = (ULSR_THRE OR ULSR_TEMT), m))"

text \<open>\<open>TxFlush\<close> brackets the register update on both ports and leaves the running flag alone.\<close>

definition uart_TxFlush :: "'d bus \<Rightarrow> port \<Rightarrow> 'd us \<Rightarrow> 'd us" where
  "uart_TxFlush B P s =
     (let m = or_wr8 B (FCR P) (ucast UFCR_TX_FIFO_RESET) (mc s);
          (c, m) = guarded (P\<lparr>guards_irq := True\<rparr>) (and_wr8 B (IER P) (ucast (NOT UIER_ETBEI))) (cpsr s, m)
      in \<lparr>un = (un s)\<lparr>tx := ring_empty (tx (un s))\<rparr>, cpsr = c, mc = m\<rparr>)"

definition uart_Getch :: "port \<Rightarrow> uart \<Rightarrow> int \<times> uart" where
  "uart_Getch P u =
     (case ring_get (RX_SIZE P) (rx u) of
        None \<Rightarrow> (-1, u)
      | Some (ch, r) \<Rightarrow> (uint ch, u\<lparr>rx := r\<rparr>))"

section \<open>The interrupt handler\<close>

partial_function (option) isr_rx :: "'d bus \<Rightarrow> port \<Rightarrow> uart \<Rightarrow> 'd machine \<Rightarrow> (uart \<times> 'd machine) option" where
  "isr_rx B p u m =
     (let (c, m) = rd8 B (RBR p) m;
          u = u\<lparr>rx := ring_force (RX_SIZE p) c (rx u)\<rparr>;
          (v, m) = rd B (LSR p) m
      in if v AND ULSR_RDR \<noteq> 0 then isr_rx B p u m else Some (u, m))"

definition tx_next :: "port \<Rightarrow> uart \<Rightarrow> uart \<times> u8 option" where
  "tx_next P u =
     (case ring_get (TX_SIZE P) (tx u) of
        None \<Rightarrow> (u\<lparr>tx_running := False\<rparr>, None)
      | Some (c, r) \<Rightarrow> (u\<lparr>tx := r\<rparr>, Some c))"

partial_function (option) isr_tx :: "'d bus \<Rightarrow> port \<Rightarrow> uart \<Rightarrow> 'd machine \<Rightarrow> (uart \<times> 'd machine) option" where
  "isr_tx B p u m =
     (let (v, m) = rd B (LSR p) m in
      if v AND ULSR_THRE \<noteq> 0 then
        let (u, c) = tx_next p u in
        (case c of None \<Rightarrow> Some (u, m) | Some c \<Rightarrow> isr_tx B p u (wr8 B (THR p) c m))
      else Some (u, m))"

text \<open>One interrupt source; only port 1 has modem status interrupts.\<close>

definition isr_source :: "'d bus \<Rightarrow> port \<Rightarrow> u32 \<Rightarrow> uart \<Rightarrow> 'd machine \<Rightarrow> (uart \<times> 'd machine) option" where
  "isr_source B P src u m =
     (if src = UIIR_RLS_INT then Some (u, touch B (LSR P) m)
      else if src = UIIR_CTI_INT \<or> src = UIIR_RDA_INT then isr_rx B P u m
      else if src = UIIR_THRE_INT then isr_tx B P u m
      else if is_uart1 P \<and> src = UIIR_MS_INT then Some (u, touch B (MSR P) m)
      else if is_uart1 P then Some (u, touch B (MSR P) (touch B (RBR P) (touch B (LSR P) m)))
      else Some (u\<lparr>error_count := error_count u + 1\<rparr>, touch B (RBR P) (touch B (LSR P) m)))"

partial_function (option) uart_ISR :: "'d bus \<Rightarrow> port \<Rightarrow> uart \<Rightarrow> 'd machine \<Rightarrow> (uart \<times> 'd machine) option" where
  "uart_ISR B p u m =
     (let (iid, m) = rd B (IIR p) m in
      if iid AND UIIR_NO_INT = 0
      then Option.bind (isr_source B p (iid AND UIIR_ID_MASK) u m) (\<lambda>(u, m). uart_ISR B p u m)
      else Some (u, wr B VICVectAddr 0 m))"

declare isr_rx.simps [code] isr_tx.simps [code] uart_ISR.simps [code]

section \<open>The functions of the two ports\<close>

definition uart0Init :: "'d bus \<Rightarrow> u32 \<Rightarrow> u16 \<Rightarrow> u8 \<Rightarrow> u8 \<Rightarrow> uart \<times> 'd machine \<Rightarrow> uart \<times> 'd machine" where
  "uart0Init B = uart_Init B uart0_port"

definition uart1Init :: "'d bus \<Rightarrow> u32 \<Rightarrow> u16 \<Rightarrow> u8 \<Rightarrow> u8 \<Rightarrow> uart \<times> 'd machine \<Rightarrow> uart \<times> 'd machine" where
  "uart1Init B = uart_Init B uart1_port"

definition uart0Putch :: "'d bus \<Rightarrow> int \<Rightarrow> 'd us \<Rightarrow> int \<times> 'd us" where
  "uart0Putch B = uart_Putch B uart0_port"

definition uart1Putch :: "'d bus \<Rightarrow> int \<Rightarrow> 'd us \<Rightarrow> int \<times> 'd us" where
  "uart1Putch B = uart_Putch B uart1_port"

definition uart0Space :: "uart \<Rightarrow> u16" where
  "uart0Space = uart_Space uart0_port"

definition uart1Space :: "uart \<Rightarrow> u16" where
  "uart1Space = uart_Space uart1_port"

definition uart0Puts :: "'d bus \<Rightarrow> u8 list \<Rightarrow> 'd us \<Rightarrow> u8 list \<times> 'd us" where
  "uart0Puts B = uart_Puts B uart0_port"

definition uart1Puts :: "'d bus \<Rightarrow> u8 list \<Rightarrow> 'd us \<Rightarrow> u8 list \<times> 'd us" where
  "uart1Puts B = uart_Puts B uart1_port"

definition uart0Write :: "'d bus \<Rightarrow> u8 list \<Rightarrow> 'd us \<Rightarrow> int \<times> 'd us" where
  "uart0Write B = uart_Write B uart0_port"

definition uart1Write :: "'d bus \<Rightarrow> u8 list \<Rightarrow> 'd us \<Rightarrow> int \<times> 'd us" where
  "uart1Write B = uart_Write B uart1_port"

definition uart0TxEmpty :: "'d bus \<Rightarrow> 'd machine \<Rightarrow> bool \<times> 'd machine" where
  "uart0TxEmpty B = uart_TxEmpty B uart0_port"

definition uart1TxEmpty :: "'d bus \<Rightarrow> 'd machine \<Rightarrow> bool \<times> 'd machine" where
  "uart1TxEmpty B = uart_TxEmpty B uart1_port"

definition uart0TxFlush :: "'d bus \<Rightarrow> 'd us \<Rightarrow> 'd us" where
  "uart0TxFlush B = uart_TxFlush B uart0_port"

definition uart1TxFlush :: "'d bus \<Rightarrow> 'd us \<Rightarrow> 'd us" where
  "uart1TxFlush B = uart_TxFlush B uart1_port"

definition uart0Getch :: "uart \<Rightarrow> int \<times> uart" where
  "uart0Getch = uart_Getch uart0_port"

definition uart1Getch :: "uart \<Rightarrow> int \<times> uart" where
  "uart1Getch = uart_Getch uart1_port"

definition uart0ISR :: "'d bus \<Rightarrow> uart \<Rightarrow> 'd machine \<Rightarrow> (uart \<times> 'd machine) option" where
  "uart0ISR B = uart_ISR B uart0_port"

definition uart1ISR :: "'d bus \<Rightarrow> uart \<Rightarrow> 'd machine \<Rightarrow> (uart \<times> 'd machine) option" where
  "uart1ISR B = uart_ISR B uart1_port"

section \<open>Invariant\<close>

definition uart_wf :: "port \<Rightarrow> uart \<Rightarrow> bool" where
  "uart_wf P u \<longleftrightarrow> ring_wf (RX_SIZE P) (rx u) \<and> ring_wf (TX_SIZE P) (tx u)
     \<and> (\<not> tx_running u \<longrightarrow> ring_list (TX_SIZE P) (tx u) = [])"

definition port_ok :: "port \<Rightarrow> bool" where
  "port_ok P \<longleftrightarrow> THR P \<noteq> IER P \<and> THR P \<noteq> FCR P \<and> THR P \<noteq> VICVectAddr"

lemma port_ok [simp]: "port_ok uart0_port" "port_ok uart1_port"
  by (simp_all add: port_ok_def uart0_port_def uart1_port_def)

abbreviation queued :: "port \<Rightarrow> uart \<Rightarrow> u8 list" where
  "queued P u \<equiv> ring_list (TX_SIZE P) (tx u)"

text \<open>Everything accepted for transmission: what the transmitter got and what is still queued.\<close>

definition accepted :: "port \<Rightarrow> uart \<Rightarrow> 'd machine \<Rightarrow> u32 list" where
  "accepted P u m = sent (THR P) m @ map ucast (queued P u)"

lemma guarded_eq: "guarded P f (c, m) = (c, f m)"
  using irq.undone [of c] by (simp add: guarded_def disableIRQ_def restoreIRQ_def)

lemma putch_store_wf:
  assumes "uart_wf P u" "next_idx (TX_SIZE P) (insert_idx (tx u)) \<noteq> extract_idx (tx u)"
    and "putch_store P c (next_idx (TX_SIZE P) (insert_idx (tx u))) u = (u', out)"
  shows "uart_wf P u' \<and> rx u' = rx u \<and> out @ queued P u' = queued P u @ [c]
    \<and> (if tx_running u then out = [] else out = [c] \<and> queued P u' = [])"
proof (cases "tx_running u")
  case True
  have "ring_put (TX_SIZE P) c (tx u) = Some (tx u')"
    using assms True by (auto simp: putch_store_def ring_put_def Let_def)
  then have "ring_wf (TX_SIZE P) (tx u') \<and> queued P u' = queued P u @ [c]"
    using rq.put_SomeD assms(1) by (auto simp: uart_wf_def)
  then show ?thesis using assms True by (auto simp: putch_store_def uart_wf_def)
next
  case False
  then show ?thesis using assms by (auto simp: putch_store_def uart_wf_def)
qed

lemma uart_Putch_full:
  "uart_wf P (un s) \<Longrightarrow> length (queued P (un s)) = TX_SIZE P - 1 \<Longrightarrow> uart_Putch B P ch s = (-1, s)"
  using ring_full_iff [of "TX_SIZE P" "tx (un s)"] by (simp add: uart_Putch_def uart_wf_def)

lemma uart_Putch_room:
  assumes wf: "uart_wf P (un s)" and ok: "port_ok P" and room: "length (queued P (un s)) < TX_SIZE P - 1"
  shows "\<exists>s'. uart_Putch B P ch s = (uint (word_of_int ch :: u8), s') \<and> uart_wf P (un s')
     \<and> accepted P (un s') (mc s') = accepted P (un s) (mc s) @ [ucast (word_of_int ch :: u8)]
     \<and> rx (un s') = rx (un s) \<and> cpsr s' = cpsr s \<and> length (queued P (un s')) \<le> Suc (length (queued P (un s)))"
proof -
  let ?c = "word_of_int ch :: u8" and ?t = "next_idx (TX_SIZE P) (insert_idx (tx (un s)))"
  have nf: "?t \<noteq> extract_idx (tx (un s))"
    using ring_full_iff [of "TX_SIZE P" "tx (un s)"] wf room by (simp add: uart_wf_def)
  obtain u' out where st: "putch_store P ?c ?t (un s) = (u', out)" by (cases "putch_store P ?c ?t (un s)")
  note w = putch_store_wf [OF wf nf st]
  have "out = [] \<or> out = [?c]" using w by (auto split: if_splits)
  then show ?thesis
    using w nf ok wf by (auto simp: uart_Putch_def st guarded_eq accepted_def port_ok_def uart_wf_def split: if_splits)
qed

lemmas uart_Putch_cases = uart_Putch_full uart_Putch_room

lemma space_int:
  "i < sz \<Longrightarrow> e < sz \<Longrightarrow>
     (if int e - int i \<le> 0 then int e - int i + int sz else int e - int i) - 1 = int (sz - 1 - used sz i e)"
  by (auto simp: used_def)

lemma uart_Space_eq:
  assumes "uart_wf P u"
  shows "uart_Space P u = of_nat (TX_SIZE P - 1 - length (queued P u))"
proof -
  have "unat (insert_idx (tx u)) < TX_SIZE P" "unat (extract_idx (tx u)) < TX_SIZE P"
    using assms by (auto simp: uart_wf_def ring_wf_def)
  from space_int [OF this] show ?thesis
    unfolding uart_Space_def Let_def length_ring_list by (simp only: of_int_of_nat_eq)
qed

lemma write_loop_ok:
  assumes "port_ok P"
  shows "uart_wf P (un s) \<Longrightarrow> length (queued P (un s)) + length bs \<le> TX_SIZE P - 1 \<Longrightarrow>
     \<exists>s'. write_loop B P bs s = (0, s') \<and> uart_wf P (un s')
       \<and> accepted P (un s') (mc s') = accepted P (un s) (mc s) @ map ucast bs
       \<and> rx (un s') = rx (un s) \<and> cpsr s' = cpsr s"
proof (induction bs arbitrary: s)
  case (Cons b bs)
  then obtain s1 where s1: "uart_Putch B P (uint b) s = (uint b, s1)" "uart_wf P (un s1)"
      "accepted P (un s1) (mc s1) = accepted P (un s) (mc s) @ [ucast b]"
      "rx (un s1) = rx (un s)" "cpsr s1 = cpsr s" "length (queued P (un s1)) \<le> Suc (length (queued P (un s)))"
    using uart_Putch_room [OF Cons.prems(1) assms, of B "uint b"] by auto
  then show ?case using Cons.IH [of s1] Cons.prems(2) by auto
qed auto

lemma uart_Write_result:
  assumes "uart_wf P (un s)" "port_ok P" "length bs < 2 ^ 16"
  shows "if length bs \<le> TX_SIZE P - 1 - length (queued P (un s))
     then \<exists>s'. uart_Write B P bs s = (0, s') \<and> uart_wf P (un s')
       \<and> accepted P (un s') (mc s') = accepted P (un s) (mc s) @ map ucast bs
       \<and> rx (un s') = rx (un s) \<and> cpsr s' = cpsr s
     else uart_Write B P bs s = (-1, s)"
proof -
  let ?n = "TX_SIZE P - 1 - length (queued P (un s))"
  have sz: "?n < 2 ^ 16" "length (queued P (un s)) \<le> TX_SIZE P - 1"
    using assms(1) ring_list_bound [of "TX_SIZE P" "tx (un s)"] by (auto simp: uart_wf_def ring_wf_def)
  have "(of_nat (length bs) :: u16) > of_nat ?n \<longleftrightarrow> length bs > ?n"
  proof -
    have "unat (of_nat (length bs) :: u16) = length bs" "unat (of_nat ?n :: u16) = ?n"
      using assms(3) sz by (simp_all add: unsigned_of_nat take_bit_nat_eq_self)
    then show ?thesis by (simp only: word_less_nat_alt)
  qed
  then show ?thesis
    using uart_Space_eq [OF assms(1)] write_loop_ok [OF assms(2,1), of bs B] sz
    by (auto simp: uart_Write_def)
qed

section \<open>The interrupt handler keeps the invariant and loses nothing\<close>

lemma tx_next_ok:
  assumes "uart_wf P u" "tx_next P u = (u', c)"
  shows "uart_wf P u' \<and> rx u' = rx u \<and> queued P u = (case c of None \<Rightarrow> [] | Some b \<Rightarrow> [b]) @ queued P u'"
proof (cases "ring_get (TX_SIZE P) (tx u)")
  case None
  then have "queued P u = []"
    using assms(1) rq.get_some [of "TX_SIZE P" "tx u"] by (cases "queued P u") (auto simp: uart_wf_def)
  then show ?thesis using assms None by (auto simp: tx_next_def uart_wf_def)
next
  case (Some p)
  then obtain b r where p: "p = (b, r)" by (cases p)
  then have "ring_wf (TX_SIZE P) r \<and> queued P u = b # ring_list (TX_SIZE P) r"
    using Some rq.get_SomeD assms(1) by (auto simp: uart_wf_def)
  then show ?thesis using assms Some p by (auto simp: tx_next_def uart_wf_def)
qed

lemma isr_tx_keeps:
  assumes "isr_tx B P u m = Some r" "port_ok P" "uart_wf P u"
  shows "uart_wf P (fst r) \<and> rx (fst r) = rx u \<and> accepted P (fst r) (snd r) = accepted P u m"
proof -
  have "port_ok P \<longrightarrow> uart_wf P u \<longrightarrow>
      uart_wf P (fst r) \<and> rx (fst r) = rx u \<and> accepted P (fst r) (snd r) = accepted P u m"
  proof (rule isr_tx.raw_induct [where P = "\<lambda>B P u m r. port_ok P \<longrightarrow> uart_wf P u \<longrightarrow>
      uart_wf P (fst r) \<and> rx (fst r) = rx u \<and> accepted P (fst r) (snd r) = accepted P u m", OF _ assms(1)],
      intro impI)
    fix f :: "'a bus \<Rightarrow> port \<Rightarrow> uart \<Rightarrow> 'a machine \<Rightarrow> (uart \<times> 'a machine) option" and B P u m r
    assume IH: "\<And>B P u m r. f B P u m = Some r \<Longrightarrow> port_ok P \<longrightarrow> uart_wf P u \<longrightarrow>
        uart_wf P (fst r) \<and> rx (fst r) = rx u \<and> accepted P (fst r) (snd r) = accepted P u m"
      and eq: "(let (v, m) = rd B (LSR P) m in if v AND ULSR_THRE \<noteq> 0 then
          let (u, c) = tx_next P u in case c of None \<Rightarrow> Some (u, m) | Some c \<Rightarrow> f B P u (wr8 B (THR P) c m)
        else Some (u, m)) = Some r"
      and ok: "port_ok P" "uart_wf P u"
    obtain v m1 where rd: "rd B (LSR P) m = (v, m1)" by (cases "rd B (LSR P) m")
    obtain u1 c where nx: "tx_next P u = (u1, c)" by (cases "tx_next P u")
    note n = tx_next_ok [OF ok(2) nx]
    show "uart_wf P (fst r) \<and> rx (fst r) = rx u \<and> accepted P (fst r) (snd r) = accepted P u m"
    proof (cases "v AND ULSR_THRE \<noteq> 0")
      case True
      show ?thesis
      proof (cases c)
        case None
        then have "r = (u1, m1)" using eq True by (auto simp: rd nx)
        then show ?thesis using n None wrs_rd [OF rd] by (simp add: accepted_def)
      next
        case (Some b)
        have "f B P u1 (wr8 B (THR P) b m1) = Some r" using eq True Some by (auto simp: rd nx)
        from IH [OF this] show ?thesis using n Some wrs_rd [OF rd] ok by (simp add: accepted_def)
      qed
    next
      case False
      then have "r = (u, m1)" using eq by (auto simp: rd)
      then show ?thesis using ok wrs_rd [OF rd] by (simp add: accepted_def)
    qed
  qed
  then show ?thesis using assms by blast
qed

text \<open>
  The receive branch appends the bytes it loads, in order, as long as they fit.
\<close>

lemma isr_rx_keeps:
  assumes "isr_rx B P u m = Some r" "uart_wf P u" "RBR P \<noteq> LSR P"
  shows "\<exists>cs. uart_wf P (fst r) \<and> tx (fst r) = tx u \<and> tx_running (fst r) = tx_running u \<and> wrs (snd r) = wrs m \<and>
     map ucast (loaded (RBR P) (trace (snd r))) = map ucast (loaded (RBR P) (trace m)) @ cs \<and> cs \<noteq> [] \<and>
     ring_list (RX_SIZE P) (rx (fst r)) = take (RX_SIZE P - 1) (ring_list (RX_SIZE P) (rx u) @ cs)"
proof -
  let ?Q = "\<lambda>(B :: 'a bus) P u m r. uart_wf P u \<longrightarrow> RBR P \<noteq> LSR P \<longrightarrow>
    (\<exists>cs. uart_wf P (fst r) \<and> tx (fst r) = tx u \<and> tx_running (fst r) = tx_running u \<and> wrs (snd r) = wrs m \<and>
      map ucast (loaded (RBR P) (trace (snd r))) = map ucast (loaded (RBR P) (trace m)) @ cs \<and> cs \<noteq> [] \<and>
      ring_list (RX_SIZE P) (rx (fst r)) = take (RX_SIZE P - 1) (ring_list (RX_SIZE P) (rx u) @ cs))"
  have "?Q B P u m r"
  proof (rule isr_rx.raw_induct [where P = ?Q, OF _ assms(1)], intro impI)
    fix f :: "'a bus \<Rightarrow> port \<Rightarrow> uart \<Rightarrow> 'a machine \<Rightarrow> (uart \<times> 'a machine) option" and B P u m r
    assume IH: "\<And>B P u m r. f B P u m = Some r \<Longrightarrow> ?Q B P u m r"
      and eq: "(let (c, m) = rd8 B (RBR P) m; u = u\<lparr>rx := ring_force (RX_SIZE P) c (rx u)\<rparr>;
          (v, m) = rd B (LSR P) m in if v AND ULSR_RDR \<noteq> 0 then f B P u m else Some (u, m)) = Some r"
      and wf: "uart_wf P u" and ne: "RBR P \<noteq> LSR P"
    obtain c m1 where rc: "rd8 B (RBR P) m = (c, m1)" by (cases "rd8 B (RBR P) m")
    obtain v m2 where rv: "rd B (LSR P) m1 = (v, m2)" by (cases "rd B (LSR P) m1")
    let ?u = "u\<lparr>rx := ring_force (RX_SIZE P) c (rx u)\<rparr>" and ?l = "ring_list (RX_SIZE P)"
    have rxw: "ring_wf (RX_SIZE P) (rx u)" using wf by (simp add: uart_wf_def)
    have len: "length (?l (rx u)) < RX_SIZE P" using ring_list_bound [OF rxw] .
    have u: "uart_wf P ?u" "?l (rx ?u) = take (RX_SIZE P - 1) (?l (rx u) @ [c])"
      using wf ring_force_ok [OF rxw, of c] len by (auto simp: uart_wf_def)
    have tr: "map ucast (loaded (RBR P) (trace m2)) = map ucast (loaded (RBR P) (trace m)) @ [c]" "wrs m2 = wrs m"
      using trace_rd8 [OF rc] trace_rd [OF rv] ne wrs_rd8 [OF rc] wrs_rd [OF rv] by auto
    show "\<exists>cs. uart_wf P (fst r) \<and> tx (fst r) = tx u \<and> tx_running (fst r) = tx_running u \<and> wrs (snd r) = wrs m \<and>
      map ucast (loaded (RBR P) (trace (snd r))) = map ucast (loaded (RBR P) (trace m)) @ cs \<and> cs \<noteq> [] \<and>
      ?l (rx (fst r)) = take (RX_SIZE P - 1) (?l (rx u) @ cs)"
    proof (cases "v AND ULSR_RDR \<noteq> 0")
      case True
      then have "f B P ?u m2 = Some r" using eq by (auto simp: rc rv)
      from IH [OF this] obtain cs where "uart_wf P (fst r)" "tx (fst r) = tx ?u" "tx_running (fst r) = tx_running ?u"
          "wrs (snd r) = wrs m2"
          "map ucast (loaded (RBR P) (trace (snd r))) = map ucast (loaded (RBR P) (trace m2)) @ cs"
          "?l (rx (fst r)) = take (RX_SIZE P - 1) (?l (rx ?u) @ cs)"
        using u ne by blast
      moreover have "take (RX_SIZE P - 1) (take (RX_SIZE P - 1) (?l (rx u) @ [c]) @ cs) = take (RX_SIZE P - 1) (?l (rx u) @ [c] @ cs)"
        by (cases "length (?l (rx u)) < RX_SIZE P - 1") (use len in auto)
      ultimately show ?thesis using tr u by (intro exI [of _ "c # cs"]) auto
    next
      case False
      then have "r = (?u, m2)" using eq by (auto simp: rc rv)
      then show ?thesis using tr u by (intro exI [of _ "[c]"]) auto
    qed
  qed
  then show ?thesis using assms by blast
qed

lemma isr_source_keeps:
  assumes "isr_source B P src u m = Some r" "port_ok P" "uart_wf P u" "RBR P \<noteq> LSR P"
  shows "uart_wf P (fst r) \<and> accepted P (fst r) (snd r) = accepted P u m"
  using assms isr_tx_keeps [of B P u m r] isr_rx_keeps [of B P u m r]
  by (auto simp: isr_source_def accepted_def uart_wf_def split: if_splits
      simp del: UIIR_RLS_INT_def UIIR_CTI_INT_def UIIR_RDA_INT_def UIIR_THRE_INT_def UIIR_MS_INT_def)

lemma uart_ISR_keeps:
  assumes "uart_ISR B P u m = Some r" "port_ok P" "uart_wf P u" "RBR P \<noteq> LSR P"
  shows "uart_wf P (fst r) \<and> accepted P (fst r) (snd r) = accepted P u m"
proof -
  let ?Q = "\<lambda>(B :: 'a bus) P u m r. port_ok P \<longrightarrow> uart_wf P u \<longrightarrow> RBR P \<noteq> LSR P \<longrightarrow>
    uart_wf P (fst r) \<and> accepted P (fst r) (snd r) = accepted P u m"
  have "?Q B P u m r"
  proof (rule uart_ISR.raw_induct [where P = ?Q, OF _ assms(1)], intro impI)
    fix f :: "'a bus \<Rightarrow> port \<Rightarrow> uart \<Rightarrow> 'a machine \<Rightarrow> (uart \<times> 'a machine) option" and B P u m r
    assume IH: "\<And>B P u m r. f B P u m = Some r \<Longrightarrow> ?Q B P u m r"
      and eq: "(let (iid, m) = rd B (IIR P) m in if iid AND UIIR_NO_INT = 0
          then Option.bind (isr_source B P (iid AND UIIR_ID_MASK) u m) (\<lambda>(u, m). f B P u m)
          else Some (u, wr B VICVectAddr 0 m)) = Some r"
      and ok: "port_ok P" "uart_wf P u" "RBR P \<noteq> LSR P"
    obtain iid m1 where rd: "rd B (IIR P) m = (iid, m1)" by (cases "rd B (IIR P) m")
    have a1: "accepted P u m1 = accepted P u m" using wrs_rd [OF rd] by (simp add: accepted_def)
    show "uart_wf P (fst r) \<and> accepted P (fst r) (snd r) = accepted P u m"
    proof (cases "iid AND UIIR_NO_INT = 0")
      case True
      then obtain u2 m2 where s: "isr_source B P (iid AND UIIR_ID_MASK) u m1 = Some (u2, m2)" "f B P u2 m2 = Some r"
        using eq by (auto simp: rd bind_eq_Some_conv)
      show ?thesis using isr_source_keeps [OF s(1) ok] IH [OF s(2)] ok a1 by auto
    next
      case False
      then have "r = (u, wr B VICVectAddr 0 m1)" using eq by (auto simp: rd)
      then show ?thesis using ok wrs_rd [OF rd] by (auto simp: accepted_def port_ok_def simp del: VICVectAddr_def)
    qed
  qed
  then show ?thesis using assms by blast
qed

section \<open>Transmission under interrupts\<close>

text \<open>
  \<open>Putch\<close> at the granularity the interrupt handler sees. The program counter says which of its
  steps is next; the transmit branch of the handler can run whenever the transmit interrupt is
  enabled. \<open>line\<close> is what was stored to the holding register and \<open>taken\<close> the bytes whose \<open>Putch\<close> has
  stored them, both oldest first.
\<close>

datatype pc = Idle | Checked u8 u16 | Masked u8 u16 | Stored

record tsys =
  tu :: uart
  etbei :: bool
  cnt :: pc
  line :: "u8 list"
  taken :: "u8 list"

inductive tx_step :: "port \<Rightarrow> tsys \<Rightarrow> tsys \<Rightarrow> bool" for P where
  full: "cnt s = Idle \<Longrightarrow> next_idx (TX_SIZE P) (insert_idx (tx (tu s))) = extract_idx (tx (tu s)) \<Longrightarrow>
     tx_step P s s"
| check: "cnt s = Idle \<Longrightarrow> temp = next_idx (TX_SIZE P) (insert_idx (tx (tu s))) \<Longrightarrow>
     temp \<noteq> extract_idx (tx (tu s)) \<Longrightarrow> tx_step P s (s\<lparr>cnt := Checked ch temp\<rparr>)"
| mask: "cnt s = Checked ch temp \<Longrightarrow> tx_step P s (s\<lparr>cnt := Masked ch temp, etbei := False\<rparr>)"
| store: "cnt s = Masked ch temp \<Longrightarrow> putch_store P ch temp (tu s) = (u, out) \<Longrightarrow>
     tx_step P s (s\<lparr>cnt := Stored, tu := u, line := line s @ out, taken := taken s @ [ch]\<rparr>)"
| unmask: "cnt s = Stored \<Longrightarrow> tx_step P s (s\<lparr>cnt := Idle, etbei := True\<rparr>)"
| isr: "etbei s \<Longrightarrow> tx_next P (tu s) = (u, c) \<Longrightarrow>
     tx_step P s (s\<lparr>tu := u, line := line s @ (case c of None \<Rightarrow> [] | Some b \<Rightarrow> [b])\<rparr>)"

inductive_cases tx_stepE: "tx_step P s s'"

definition tx_inv :: "port \<Rightarrow> tsys \<Rightarrow> bool" where
  "tx_inv P s \<longleftrightarrow> uart_wf P (tu s) \<and> line s @ queued P (tu s) = taken s \<and>
     (case cnt s of
        Checked ch temp \<Rightarrow> temp = next_idx (TX_SIZE P) (insert_idx (tx (tu s))) \<and> temp \<noteq> extract_idx (tx (tu s))
      | Masked ch temp \<Rightarrow> temp = next_idx (TX_SIZE P) (insert_idx (tx (tu s))) \<and> temp \<noteq> extract_idx (tx (tu s))
          \<and> \<not> etbei s
      | _ \<Rightarrow> True)"

lemma tx_next_not_full:
  assumes "uart_wf P u" "tx_next P u = (u', c)" "next_idx (TX_SIZE P) (insert_idx (tx u)) \<noteq> extract_idx (tx u)"
  shows "insert_idx (tx u') = insert_idx (tx u) \<and> next_idx (TX_SIZE P) (insert_idx (tx u')) \<noteq> extract_idx (tx u')"
proof -
  have i: "insert_idx (tx u') = insert_idx (tx u)"
    using assms(2) by (auto simp: tx_next_def ring_get_def split: option.splits if_splits)
  have "length (queued P u') \<le> length (queued P u)"
    using tx_next_ok [OF assms(1,2)] by (auto split: option.splits)
  moreover have "length (queued P u) < TX_SIZE P - 1"
    using assms(1,3) ring_full_iff [of "TX_SIZE P" "tx u"] ring_list_bound [of "TX_SIZE P" "tx u"]
    by (auto simp: uart_wf_def)
  ultimately show ?thesis
    using i tx_next_ok [OF assms(1,2)] ring_full_iff [of "TX_SIZE P" "tx u'"] by (auto simp: uart_wf_def)
qed

lemma tx_inv_step: "tx_step P s s' \<Longrightarrow> tx_inv P s \<Longrightarrow> tx_inv P s'"
proof (induction rule: tx_step.induct)
  case (store s ch temp u out)
  then have "uart_wf P u \<and> out @ queued P u = queued P (tu s) @ [ch]"
    using putch_store_wf [of P "tu s" ch u out] by (auto simp: tx_inv_def)
  then show ?case using store by (auto simp: tx_inv_def)
next
  case (isr s u c)
  then have "uart_wf P u \<and> queued P (tu s) = (case c of None \<Rightarrow> [] | Some b \<Rightarrow> [b]) @ queued P u"
    using tx_next_ok [of P "tu s" u c] by (auto simp: tx_inv_def)
  then show ?case
    using isr tx_next_not_full [OF _ isr(2)] by (auto simp: tx_inv_def split: pc.splits)
qed (auto simp: tx_inv_def)

lemma tx_inv_reachable: "(tx_step P)\<^sup>*\<^sup>* s s' \<Longrightarrow> tx_inv P s \<Longrightarrow> tx_inv P s'"
  by (induction rule: rtranclp_induct) (auto intro: tx_inv_step)

definition tx_start :: "uart \<Rightarrow> tsys" where
  "tx_start u = \<lparr>tu = u, etbei = False, cnt = Idle, line = [], taken = []\<rparr>"

lemma tx_start_inv: "uart_wf P u \<Longrightarrow> queued P u = [] \<Longrightarrow> tx_inv P (tx_start u)"
  by (simp add: tx_inv_def tx_start_def)

lemma uart_Puts_ok:
  assumes "port_ok P"
  shows "uart_wf P (un s) \<Longrightarrow>
     \<exists>done rest s'. uart_Puts B P str s = (rest, s') \<and> str = done @ rest \<and> uart_wf P (un s') \<and> 0 \<notin> set done
       \<and> accepted P (un s') (mc s') = accepted P (un s) (mc s) @ map ucast done
       \<and> (rest = [] \<or> hd rest = 0 \<or> length (queued P (un s')) = TX_SIZE P - 1)"
proof (induction str arbitrary: s)
  case (Cons ch str)
  show ?case
  proof (cases "ch = 0")
    case True
    then show ?thesis using Cons.prems by (intro exI [of _ "[]"] exI [of _ "ch # str"] exI [of _ s]) simp
  next
    case nz: False
    show ?thesis
    proof (cases "length (queued P (un s)) = TX_SIZE P - 1")
      case True
      then show ?thesis using nz Cons.prems uart_Putch_full [OF Cons.prems True]
        by (intro exI [of _ "[]"] exI [of _ "ch # str"] exI [of _ s]) simp
    next
      case False
      then have "length (queued P (un s)) < TX_SIZE P - 1"
        using ring_list_bound [of "TX_SIZE P" "tx (un s)"] Cons.prems by (auto simp: uart_wf_def)
      from uart_Putch_room [OF Cons.prems assms this, of B "uint ch"] obtain s1 where
        s1: "uart_Putch B P (uint ch) s = (uint ch, s1)" "uart_wf P (un s1)"
          "accepted P (un s1) (mc s1) = accepted P (un s) (mc s) @ [ucast ch]" by auto
      from Cons.IH [OF s1(2)] obtain dn rest s' where
        "uart_Puts B P str s1 = (rest, s')" "str = dn @ rest" "uart_wf P (un s')" "0 \<notin> set dn"
        "accepted P (un s') (mc s') = accepted P (un s1) (mc s1) @ map ucast dn"
        "rest = [] \<or> hd rest = 0 \<or> length (queued P (un s')) = TX_SIZE P - 1" by blast
      then show ?thesis using s1 nz
        by (intro exI [of _ "ch # dn"] exI [of _ rest] exI [of _ s']) auto
    qed
  qed
qed auto

lemma uart_Getch_ok:
  assumes "uart_wf P u"
  shows "uart_Getch P u = (case ring_list (RX_SIZE P) (rx u) of [] \<Rightarrow> (-1, u) | c # cs \<Rightarrow> (uint c, snd (uart_Getch P u)))
     \<and> uart_wf P (snd (uart_Getch P u))
     \<and> ring_list (RX_SIZE P) (rx (snd (uart_Getch P u))) = tl (ring_list (RX_SIZE P) (rx u))
     \<and> tx (snd (uart_Getch P u)) = tx u \<and> tx_running (snd (uart_Getch P u)) = tx_running u"
proof -
  have wf: "ring_wf (RX_SIZE P) (rx u)" using assms by (simp add: uart_wf_def)
  show ?thesis
  proof (cases "ring_list (RX_SIZE P) (rx u)")
    case Nil
    then show ?thesis using rq.get_empty [OF wf Nil] assms by (simp add: uart_Getch_def)
  next
    case (Cons c cs)
    then show ?thesis using rq.get_some [OF wf Cons] assms by (auto simp: uart_Getch_def uart_wf_def)
  qed
qed

text \<open>\<open>n\<close> successive calls of \<open>Getch\<close>.\<close>

fun getch_n :: "port \<Rightarrow> nat \<Rightarrow> uart \<Rightarrow> int list \<times> uart" where
  "getch_n P 0 u = ([], u)"
| "getch_n P (Suc n) u = (let (c, u) = uart_Getch P u; (cs, u) = getch_n P n u in (c # cs, u))"

lemma getch_n_list:
  "uart_wf P u \<Longrightarrow> n = length (ring_list (RX_SIZE P) (rx u)) \<Longrightarrow>
     fst (getch_n P n u) = map uint (ring_list (RX_SIZE P) (rx u))
     \<and> fst (uart_Getch P (snd (getch_n P n u))) = -1"
proof (induction n arbitrary: u)
  case 0
  then show ?case using uart_Getch_ok [OF 0(1)] by simp
next
  case (Suc n)
  then obtain c cs where l: "ring_list (RX_SIZE P) (rx u) = c # cs" by (metis length_Suc_conv)
  obtain u1 where u1: "uart_Getch P u = (uint c, u1)" "uart_wf P u1" "ring_list (RX_SIZE P) (rx u1) = cs"
    using uart_Getch_ok [OF Suc.prems(1)] l by (cases "uart_Getch P u") auto
  then show ?case using Suc.IH [OF u1(2)] Suc.prems(2) l by (simp add: case_prod_unfold)
qed

section \<open>Properties\<close>

text \<open>
  C2. No interleaving of \<open>uart0Putch\<close> with the transmit interrupt loses, repeats or reorders a byte:
  in every state reachable from an idle port, what was stored to the holding register followed by
  what is queued is exactly the sequence of bytes accepted so far, and the queue indices stay
  inside the buffer. The interrupt handler can run between any two steps of \<open>Putch\<close> except where
  \<open>Putch\<close> has masked it.
\<close>

theorem uart0_tx_in_order:
  assumes "uart_wf uart0_port u" and "queued uart0_port u = []"
    and "(tx_step uart0_port)\<^sup>*\<^sup>* (tx_start u) s"
  shows "line s @ queued uart0_port (tu s) = taken s \<and> uart_wf uart0_port (tu s)"
  using tx_inv_reachable [OF assms(3) tx_start_inv [OF assms(1,2)]] by (simp add: tx_inv_def)

definition fresh_uart :: "port \<Rightarrow> uart" where
  "fresh_uart P = \<lparr>rx = \<lparr>buffer = replicate (RX_SIZE P) 0, insert_idx = 0, extract_idx = 0\<rparr>,
     tx = \<lparr>buffer = replicate (TX_SIZE P) 0, insert_idx = 0, extract_idx = 0\<rparr>,
     tx_running = False, error_count = 0\<rparr>"

lemma fresh_uart_wf [simp]: "uart_wf uart0_port (fresh_uart uart0_port)" "uart_wf uart1_port (fresh_uart uart1_port)"
  "queued P (fresh_uart P) = []" "ring_list (RX_SIZE P) (rx (fresh_uart P)) = []"
  by (simp_all add: uart_wf_def fresh_uart_def ring_wf_def ring_list_def used_def uart0_port_def uart1_port_def)

theorem uart0_tx_in_order_witness:
  "\<exists>s. (tx_step uart0_port)\<^sup>*\<^sup>* (tx_start (fresh_uart uart0_port)) s \<and> cnt s = Idle \<and> taken s = [65]
     \<and> line s @ queued uart0_port (tu s) = [65]"
proof -
  let ?u = "fresh_uart uart0_port"
  define s1 where "s1 = (tx_start ?u)\<lparr>cnt := Checked 65 1\<rparr>"
  define s2 where "s2 = s1\<lparr>cnt := Masked 65 1, etbei := False\<rparr>"
  define s3 where "s3 = s2\<lparr>cnt := Stored, tu := ?u\<lparr>tx_running := True\<rparr>, line := line s2 @ [65], taken := taken s2 @ [65]\<rparr>"
  define s4 where "s4 = s3\<lparr>cnt := Idle, etbei := True\<rparr>"
  have nx: "next_idx (TX_SIZE uart0_port) 0 = 1" by (simp add: next_idx_def uart0_port_def)
  have a: "tx_step uart0_port (tx_start ?u) s1"
    unfolding s1_def by (rule tx_step.check) (simp_all add: tx_start_def fresh_uart_def nx)
  have b: "tx_step uart0_port s1 s2"
    unfolding s2_def by (rule tx_step.mask) (simp add: s1_def)
  have c: "tx_step uart0_port s2 s3"
    unfolding s3_def
    by (rule tx_step.store [of _ _ 1]) (simp_all add: s2_def s1_def tx_start_def putch_store_def fresh_uart_def)
  have d: "tx_step uart0_port s3 s4"
    unfolding s4_def by (rule tx_step.unmask) (simp add: s3_def)
  note to = converse_rtranclp_into_rtranclp [where r = "tx_step uart0_port"]
  have r: "(tx_step uart0_port)\<^sup>*\<^sup>* (tx_start ?u) s4"
    by (rule to [OF a to [OF b to [OF c to [OF d rtranclp.rtrancl_refl [where r = "tx_step uart0_port"]]]]])
  show ?thesis
    using uart0_tx_in_order [OF fresh_uart_wf(1) fresh_uart_wf(3) r] r
    by (intro exI [of _ s4]) (simp add: s4_def s3_def s2_def s1_def tx_start_def)
qed

text \<open>
  \<open>uart0Write\<close> is all or nothing: when the whole block fits into the free space of the queue it
  returns 0, every byte is accepted in order and the interrupt mask is as before; otherwise it
  returns \<open>-1\<close> and changes nothing. The result \<open>-2\<close> for a partial write cannot happen.
\<close>

theorem uart0Write_all_or_nothing:
  assumes "uart_wf uart0_port (un s)" and "length bs < 2 ^ 16"
  shows "if length bs \<le> 63 - length (queued uart0_port (un s))
     then \<exists>s'. uart0Write B bs s = (0, s') \<and> uart_wf uart0_port (un s')
       \<and> accepted uart0_port (un s') (mc s') = accepted uart0_port (un s) (mc s) @ map ucast bs
       \<and> rx (un s') = rx (un s) \<and> cpsr s' = cpsr s
     else uart0Write B bs s = (-1, s)"
proof -
  have "TX_SIZE uart0_port - 1 = 63" by (simp add: uart0_port_def)
  then show ?thesis
    using uart_Write_result [OF assms(1) port_ok(1) assms(2), of B] by (simp only: uart0Write_def)
qed

theorem uart0Write_all_or_nothing_witness:
  "(\<exists>s'. uart0Write ram_bus [0xAA, 0x0D, 0, 0, 0, 0] \<lparr>un = fresh_uart uart0_port, cpsr = 0x13, mc = \<lparr>dev = (\<lambda>_. 0), trace = []\<rparr>\<rparr> = (0, s')
     \<and> accepted uart0_port (un s') (mc s') = [0xAA, 0x0D, 0, 0, 0, 0] \<and> cpsr s' = 0x13)
   \<and> uart0Write ram_bus (replicate 64 1) \<lparr>un = fresh_uart uart0_port, cpsr = 0x13, mc = \<lparr>dev = (\<lambda>_. 0), trace = []\<rparr>\<rparr>
     = (-1, \<lparr>un = fresh_uart uart0_port, cpsr = 0x13, mc = \<lparr>dev = (\<lambda>_. 0), trace = []\<rparr>\<rparr>)"
  using uart0Write_all_or_nothing [of "\<lparr>un = fresh_uart uart0_port, cpsr = 0x13, mc = \<lparr>dev = (\<lambda>_. 0), trace = []\<rparr>\<rparr>"
      "[0xAA, 0x0D, 0, 0, 0, 0]" ram_bus]
    uart0Write_all_or_nothing [of "\<lparr>un = fresh_uart uart0_port, cpsr = 0x13, mc = \<lparr>dev = (\<lambda>_. 0), trace = []\<rparr>\<rparr>"
      "replicate 64 1" ram_bus]
  by (auto simp: accepted_def)

text \<open>
  The interrupt handler of port 0, whatever sources it serves, keeps the invariant and passes
  on queued bytes without loss or change of order.
\<close>

theorem uart0ISR_keeps_order:
  assumes "uart0ISR B u m = Some (u', m')" and "uart_wf uart0_port u"
  shows "uart_wf uart0_port u' \<and> accepted uart0_port u' m' = accepted uart0_port u m"
  using uart_ISR_keeps [of B uart0_port u m "(u', m')"] assms by (simp add: uart0ISR_def) (simp add: uart0_port_def)

text \<open>A port whose status reports one transmit interrupt and then none.\<close>

definition one_thre :: "nat bus" where
  "one_thre = \<lparr>bus_rd = (\<lambda>a d. if a = UART0_IIR then (if d = 0 then (UIIR_THRE_INT, 1) else (1, d)) else (ULSR_THRE, d)),
     bus_wr = (\<lambda>a v d. d)\<rparr>"

definition busy_uart :: uart where
  "busy_uart = (fresh_uart uart0_port)\<lparr>tx := \<lparr>buffer = 65 # replicate 63 0, insert_idx = 1, extract_idx = 0\<rparr>,
     tx_running := True\<rparr>"

theorem uart0ISR_keeps_order_witness:
  "\<exists>u' m'. uart0ISR one_thre busy_uart \<lparr>dev = 0, trace = []\<rparr> = Some (u', m')
     \<and> sent UART0_THR m' = [65] \<and> accepted uart0_port u' m' = accepted uart0_port busy_uart \<lparr>dev = (0::nat), trace = []\<rparr>"
proof -
  have wf: "uart_wf uart0_port busy_uart"
    by (simp add: busy_uart_def fresh_uart_def uart_wf_def ring_wf_def uart0_port_def)
  have tx1: "tx_next uart0_port busy_uart = (busy_uart\<lparr>tx := (tx busy_uart)\<lparr>extract_idx := 1\<rparr>\<rparr>, Some 65)"
    by (simp add: tx_next_def ring_get_def next_idx_def busy_uart_def uart0_port_def)
  have tx2: "tx_next uart0_port (busy_uart\<lparr>tx := (tx busy_uart)\<lparr>extract_idx := 1\<rparr>\<rparr>)
      = (busy_uart\<lparr>tx := (tx busy_uart)\<lparr>extract_idx := 1\<rparr>, tx_running := False\<rparr>, None)"
    by (simp add: tx_next_def ring_get_def busy_uart_def)
  have "\<exists>u' m'. isr_tx one_thre uart0_port busy_uart \<lparr>dev = 1, trace = [RdA UART0_IIR UIIR_THRE_INT]\<rparr> = Some (u', m')
      \<and> sent UART0_THR m' = [65] \<and> dev m' = 1"
    apply (subst isr_tx.simps)
    apply (simp add: rd_parts one_thre_def tx1 uart0_port_def [symmetric])
    apply (subst isr_tx.simps)
    apply (simp add: rd_parts tx2)
    apply (simp add: uart0_port_def wr8_def wr_def)
    done
  then obtain u' m' where i: "isr_tx one_thre uart0_port busy_uart \<lparr>dev = 1, trace = [RdA UART0_IIR UIIR_THRE_INT]\<rparr> = Some (u', m')"
      "sent UART0_THR m' = [65]" "dev m' = 1" by blast
  have fin: "uart_ISR one_thre uart0_port u' m' = Some (u', wr one_thre VICVectAddr 0 (snd (rd one_thre UART0_IIR m')))"
    by (subst uart_ISR.simps) (simp add: rd_parts one_thre_def uart0_port_def i(3))
  have "uart_ISR one_thre uart0_port busy_uart \<lparr>dev = 0, trace = []\<rparr> = uart_ISR one_thre uart0_port u' m'"
    using i(1) by (subst uart_ISR.simps)
      (simp add: rd_parts one_thre_def uart0_port_def isr_source_def)
  then have r: "uart0ISR one_thre busy_uart \<lparr>dev = 0, trace = []\<rparr> = Some (u', wr one_thre VICVectAddr 0 (snd (rd one_thre UART0_IIR m')))"
    by (simp add: uart0ISR_def fin)
  moreover have "sent UART0_THR (wr one_thre VICVectAddr 0 (snd (rd one_thre UART0_IIR m'))) = [65]"
    using i(2) by simp
  ultimately show ?thesis using uart0ISR_keeps_order [OF r wf] by blast
qed

text \<open>
  C9. Reception: the bytes the interrupt handler loads from the receiver of port 0 come out of
  \<open>uart0Getch\<close> in the same order, behind those already waiting, and then \<open>-1\<close>; when more than 1023
  wait, the newest are dropped.
\<close>

theorem uart0_rx_in_order:
  assumes "isr_rx B uart0_port u m = Some (u', m')" and "uart_wf uart0_port u"
  shows "\<exists>cs. map ucast (loaded UART0_RBR (trace m')) = map ucast (loaded UART0_RBR (trace m)) @ cs
     \<and> (let waiting = take 1023 (ring_list 1024 (rx u) @ cs) in
         fst (getch_n uart0_port (length waiting) u') = map uint waiting
         \<and> fst (uart0Getch (snd (getch_n uart0_port (length waiting) u'))) = -1)"
proof -
  have p: "RBR uart0_port = UART0_RBR" "RX_SIZE uart0_port = 1024" "RBR uart0_port \<noteq> LSR uart0_port"
    by (simp_all add: uart0_port_def)
  obtain cs where cs: "uart_wf uart0_port u'"
      "map ucast (loaded UART0_RBR (trace m')) = map ucast (loaded UART0_RBR (trace m)) @ cs"
      "ring_list 1024 (rx u') = take 1023 (ring_list 1024 (rx u) @ cs)"
    using isr_rx_keeps [OF assms p(3)] by (auto simp: p(1,2) simp del: UART0_RBR_def)
  then show ?thesis
    using getch_n_list [OF cs(1), of "length (ring_list 1024 (rx u'))"]
    by (intro exI [of _ cs]) (simp add: p(2) uart0Getch_def Let_def del: UART0_RBR_def)
qed

text \<open>A receiver holding three bytes.\<close>

definition three_bytes :: "u8 list bus" where
  "three_bytes = \<lparr>bus_rd = (\<lambda>a d. if a = UART0_RBR then (ucast (hd d), tl d) else (if d = [] then 0 else 1, d)),
     bus_wr = (\<lambda>a v d. d)\<rparr>"

theorem uart0_rx_in_order_witness:
  "\<exists>u'. fst (getch_n uart0_port 3 u') = [0xAA, 0x0E, 0x0D]"
proof -
  have "\<exists>u' m'. isr_rx three_bytes uart0_port (fresh_uart uart0_port) \<lparr>dev = [0xAA, 0x0E, 0x0D], trace = []\<rparr> = Some (u', m')
      \<and> loaded UART0_RBR (trace m') = [0xAA, 0x0E, 0x0D]"
    apply (subst isr_rx.simps)
    apply (simp add: rd8_def rd_parts three_bytes_def uart0_port_def Let_def)
    apply (subst isr_rx.simps)
    apply (simp add: rd8_def rd_parts Let_def)
    apply (subst isr_rx.simps)
    apply (simp add: rd8_def rd_parts Let_def)
    done
  then obtain u' m' where i: "isr_rx three_bytes uart0_port (fresh_uart uart0_port) \<lparr>dev = [0xAA, 0x0E, 0x0D], trace = []\<rparr> = Some (u', m')"
      "loaded UART0_RBR (trace m') = [0xAA, 0x0E, 0x0D]" by blast
  have "RX_SIZE uart0_port = 1024" by (simp add: uart0_port_def)
  then have "ring_list 1024 (rx (fresh_uart uart0_port)) = []" using fresh_uart_wf(4) [of uart0_port] by simp
  then have "fst (getch_n uart0_port 3 u') = [0xAA, 0x0E, 0x0D]"
    using uart0_rx_in_order [OF i(1) fresh_uart_wf(1)] i(2)
    by (auto simp: Let_def numeral_3_eq_3 simp del: getch_n.simps UART0_RBR_def)
  then show ?thesis by blast
qed

text \<open>
  \<open>uart1Puts\<close> accepts a prefix of its string in order and returns the rest, and it stops early
  only at the terminating NUL or when the queue is full.
\<close>

theorem uart1Puts_prefix:
  assumes "uart_wf uart1_port (un s)"
  shows "\<exists>taken rest s'. uart1Puts B str s = (rest, s') \<and> str = taken @ rest \<and> 0 \<notin> set taken
     \<and> accepted uart1_port (un s') (mc s') = accepted uart1_port (un s) (mc s) @ map ucast taken
     \<and> (rest = [] \<or> hd rest = 0 \<or> length (queued uart1_port (un s')) = 63)"
proof -
  have "TX_SIZE uart1_port - 1 = 63" by (simp add: uart1_port_def)
  then show ?thesis
    using uart_Puts_ok [OF port_ok(2) assms, of B str] unfolding uart1Puts_def by fastforce
qed

theorem uart1Puts_prefix_witness:
  "\<exists>taken rest s'. uart1Puts ram_bus [79, 75, 0] \<lparr>un = fresh_uart uart1_port, cpsr = 0x13, mc = \<lparr>dev = (\<lambda>_. 0), trace = []\<rparr>\<rparr> = (rest, s')
     \<and> [79, 75, 0] = taken @ rest \<and> accepted uart1_port (un s') (mc s') = map ucast taken"
  using uart1Puts_prefix [of "\<lparr>un = fresh_uart uart1_port, cpsr = 0x13, mc = \<lparr>dev = (\<lambda>_. 0), trace = []\<rparr>\<rparr>" ram_bus "[79, 75, 0]"]
  by (auto simp: accepted_def)

end
