(* ===== verification/C328r.thy ===== *)
theory C328r
  imports Uart_Ring
begin

text \<open>
  The camera protocol of \<^verbatim>\<open>software/camera/c328r.c\<close>: six-byte commands over UART 0, acknowledged
  by the camera, and the transfer of raw and compressed pictures.

  The state is that of the modules below it: both serial ports, the saved status register, the system
  time and the machine. The receive interrupt fills the queue of UART 0 while the foreground code
  polls it; \<open>irq\<close> stands for whatever interrupts are taken before a poll. A function that stores
  through a pointer takes the buffer as a list and stops with \<open>OutOfBounds\<close> when it would store outside.
\<close>

record 'd cam =
  u0 :: uart
  u1 :: uart
  cam_cpsr :: u32
  tm :: systime
  cmc :: "'d machine"

type_synonym ('d, 'a) cam_run = "(fault + 'a \<times> 'd cam) option"

section \<open>Times and commands\<close>

definition PCLK :: nat where
  "PCLK = 14745000 * 4"

definition sysTICSperSEC :: nat where
  "sysTICSperSEC = PCLK div 3"

definition TEN_MS :: u32 where
  "TEN_MS = of_nat (sysTICSperSEC div 100)"

definition HUNDRED_MS :: u32 where
  "HUNDRED_MS = of_nat (sysTICSperSEC div 10)"

definition ONE_SEC :: u32 where
  "ONE_SEC = of_nat sysTICSperSEC"

definition CMD_PREFIX :: u8 where
  "CMD_PREFIX = 0xAA"

definition CMD_INITIAL :: u8 where
  "CMD_INITIAL = 0x01"

definition CMD_GETPICTURE :: u8 where
  "CMD_GETPICTURE = 0x04"

definition CMD_SNAPSHOT :: u8 where
  "CMD_SNAPSHOT = 0x05"

definition CMD_BAUDRATE :: u8 where
  "CMD_BAUDRATE = 0x07"

definition CMD_RESET :: u8 where
  "CMD_RESET = 0x08"

definition CMD_POWEROFF :: u8 where
  "CMD_POWEROFF = 0x09"

definition CMD_DATA :: u8 where
  "CMD_DATA = 0x0A"

definition CMD_SYNC :: u8 where
  "CMD_SYNC = 0x0D"

definition CMD_ACK :: u8 where
  "CMD_ACK = 0x0E"

definition CMD_LIGHTFREQ :: u8 where
  "CMD_LIGHTFREQ = 0x13"

definition PACKAGE_SIZE :: nat where
  "PACKAGE_SIZE = 512"

lemmas cmd_defs = CMD_PREFIX_def CMD_INITIAL_def CMD_GETPICTURE_def CMD_SNAPSHOT_def CMD_BAUDRATE_def CMD_RESET_def
  CMD_POWEROFF_def CMD_DATA_def CMD_SYNC_def CMD_ACK_def CMD_LIGHTFREQ_def

section \<open>The modules below, on the camera's state\<close>

definition on_uart0 :: "('d us \<Rightarrow> 'a \<times> 'd us) \<Rightarrow> 'd cam \<Rightarrow> 'd cam" where
  "on_uart0 f s = (let r = snd (f \<lparr>un = u0 s, cpsr = cam_cpsr s, mc = cmc s\<rparr>) in s\<lparr>u0 := un r, cam_cpsr := cpsr r, cmc := mc r\<rparr>)"

definition on_uart1 :: "('d us \<Rightarrow> 'a \<times> 'd us) \<Rightarrow> 'd cam \<Rightarrow> 'd cam" where
  "on_uart1 f s = (let r = snd (f \<lparr>un = u1 s, cpsr = cam_cpsr s, mc = cmc s\<rparr>) in s\<lparr>u1 := un r, cam_cpsr := cpsr r, cmc := mc r\<rparr>)"

definition cam_pause :: "'d bus \<Rightarrow> u32 \<Rightarrow> 'd cam \<Rightarrow> ('d, unit) cam_run" where
  "cam_pause B duration s = map_option (\<lambda>(t, m). Inr ((), s\<lparr>tm := t, cmc := m\<rparr>)) (pause B duration (tm s, cmc s))"

section \<open>Exchanging bytes\<close>

definition SendCommand :: "'d bus \<Rightarrow> u8 list \<Rightarrow> 'd cam \<Rightarrow> 'd cam" where
  "SendCommand B commandArray s = on_uart0 (uart0Write B commandArray) s"

partial_function (option) wait_char ::
  "'d bus \<Rightarrow> ('d cam \<Rightarrow> 'd cam) \<Rightarrow> u32 \<Rightarrow> 'd cam \<Rightarrow> (int \<times> 'd cam) option" where
  "wait_char B irq startTime s =
     (let s = irq s;
          (ch, u) = uart0Getch (u0 s);
          s = s\<lparr>u0 := u\<rparr>
      in if ch \<ge> 0 then Some (ch, s)
         else let (e, t, m) = getElapsedSysTICs B startTime (tm s, cmc s);
                  s = s\<lparr>tm := t, cmc := m\<rparr>
              in if e < ONE_SEC then wait_char B irq startTime s else Some (ch, s))"

declare wait_char.simps [code]

text \<open>\<open>buf\<close> is the array \<open>readBuffer\<close> points into and \<open>pos\<close> the index it points at.\<close>

partial_function (option) wait_loop ::
  "'d bus \<Rightarrow> ('d cam \<Rightarrow> 'd cam) \<Rightarrow> u8 list \<Rightarrow> nat \<Rightarrow> int \<Rightarrow> int \<Rightarrow> 'd cam \<Rightarrow> ('d, int \<times> u8 list) cam_run" where
  "wait_loop B irq buf pos len res s =
     (if len = 0 then Some (Inr ((res, buf), s))
      else let (startTime, t, m) = getSysTICs B (tm s, cmc s);
               s = s\<lparr>tm := t, cmc := m\<rparr>
           in Option.bind (wait_char B irq startTime s) (\<lambda>(ch, s).
                if ch = - 1 then Some (Inr ((res, buf), s))
                else if length buf \<le> pos then Some (Inl OutOfBounds)
                else wait_loop B irq (buf[pos := word_of_int ch]) (pos + 1) (len - 1) (res + 1) s))"

declare wait_loop.simps [code]

definition WaitForResponse ::
  "'d bus \<Rightarrow> ('d cam \<Rightarrow> 'd cam) \<Rightarrow> u8 list \<Rightarrow> nat \<Rightarrow> int \<Rightarrow> 'd cam \<Rightarrow> ('d, int \<times> u8 list) cam_run" where
  "WaitForResponse B irq buf pos len s = wait_loop B irq buf pos len 0 s"

text \<open>The local arrays are uninitialised; \<open>junk\<close> is what they hold.\<close>

definition ReceiveACK :: "'d bus \<Rightarrow> ('d cam \<Rightarrow> 'd cam) \<Rightarrow> u8 list \<Rightarrow> u8 \<Rightarrow> 'd cam \<Rightarrow> ('d, int) cam_run" where
  "ReceiveACK B irq junk expectedACKCommand s =
     bind_run (WaitForResponse B irq junk 0 6 s) (\<lambda>(stat, responseBuffer) s.
       Some (Inr (if stat = 6 \<and> responseBuffer ! 1 = CMD_ACK \<and> responseBuffer ! 2 = expectedACKCommand then 0 else - 1, s)))"

text \<open>The argument of the shift is converted to \<open>unsigned char\<close> first and promoted to \<open>int\<close>.\<close>

definition SendACK :: "'d bus \<Rightarrow> u32 \<Rightarrow> u32 \<Rightarrow> 'd cam \<Rightarrow> 'd cam" where
  "SendACK B commandId packageId s =
     SendCommand B [CMD_PREFIX, CMD_ACK, ucast commandId, 0, ucast packageId,
       ucast (drop_bit 8 (ucast (ucast packageId :: u8) :: u32))] s"

section \<open>Commands\<close>

fun sync_loop :: "'d bus \<Rightarrow> ('d cam \<Rightarrow> 'd cam) \<Rightarrow> nat \<Rightarrow> nat \<Rightarrow> u8 list \<Rightarrow> 'd cam \<Rightarrow> ('d, int) cam_run" where
  "sync_loop B irq 0 i recv s = Some (Inr (- 1, s))"
| "sync_loop B irq (Suc n) i recv s =
     (let s = SendCommand B [CMD_PREFIX, CMD_SYNC, 0, 0, 0, 0] s in
      bind_run (cam_pause B HUNDRED_MS s) (\<lambda>_ s.
      bind_run (WaitForResponse B irq recv 0 6 s) (\<lambda>(stat, recv) s.
        if stat = 6 \<and> recv ! 1 = CMD_ACK \<and> recv ! 2 = CMD_SYNC then
          bind_run (cam_pause B HUNDRED_MS s) (\<lambda>_ s.
          bind_run (WaitForResponse B irq recv 0 6 s) (\<lambda>(stat, recv) s.
            if stat = 6 \<and> recv ! 1 = CMD_SYNC then Some (Inr (int i, SendACK B (ucast CMD_SYNC) 0 s))
            else sync_loop B irq n (i + 1) recv (on_uart1 (uart1Putch B 35) s)))
        else sync_loop B irq n (i + 1) recv (on_uart1 (uart1Putch B 35) s))))"

definition Sync :: "'d bus \<Rightarrow> ('d cam \<Rightarrow> 'd cam) \<Rightarrow> u8 list \<Rightarrow> 'd cam \<Rightarrow> ('d, int) cam_run" where
  "Sync B irq junk s = sync_loop B irq 60 0 junk s"

definition Initial :: "'d bus \<Rightarrow> ('d cam \<Rightarrow> 'd cam) \<Rightarrow> u8 list \<Rightarrow> u8 \<Rightarrow> u8 \<Rightarrow> u8 \<Rightarrow> 'd cam \<Rightarrow> ('d, int) cam_run" where
  "Initial B irq junk colorType previewResolution resolution s =
     (let s = SendCommand B [CMD_PREFIX, CMD_INITIAL, 0, colorType, previewResolution, resolution] s in
      bind_run (cam_pause B HUNDRED_MS s) (\<lambda>_ s. ReceiveACK B irq junk CMD_INITIAL s))"

text \<open>The size as the code assembles it: both upper bytes are shifted by eight.\<close>

definition picture_size :: "u8 list \<Rightarrow> int" where
  "picture_size response =
     or (or (push_bit 8 (uint (response ! 5))) (push_bit 8 (uint (response ! 4)))) (uint (response ! 3))"

definition GetPictureCommand ::
  "'d bus \<Rightarrow> ('d cam \<Rightarrow> 'd cam) \<Rightarrow> u8 list \<Rightarrow> u8 \<Rightarrow> u32 \<Rightarrow> 'd cam \<Rightarrow> ('d, int \<times> int) cam_run" where
  "GetPictureCommand B irq junk pictureType processDelay s =
     (let s = SendCommand B [CMD_PREFIX, CMD_GETPICTURE, pictureType, 0, 0, 0] s in
      bind_run (cam_pause B processDelay s) (\<lambda>_ s.
      bind_run (ReceiveACK B irq junk CMD_GETPICTURE s) (\<lambda>r s.
        if r \<noteq> 0 then Some (Inr ((- 1, 0), s))
        else bind_run (WaitForResponse B irq junk 0 6 s) (\<lambda>(stat, response) s.
          if stat \<noteq> 6 \<or> response ! 1 \<noteq> CMD_DATA then Some (Inr ((- 1, 0), s))
          else Some (Inr ((0, picture_size response), s))))))"

section \<open>Pictures\<close>

text \<open>\<open>%d\<close> of the C library on a value that is not negative.\<close>

fun decimal :: "nat \<Rightarrow> u8 list" where
  "decimal n = (if n < 10 then [of_nat (48 + n)] else decimal (n div 10) @ [of_nat (48 + n mod 10)])"

definition say :: "'d bus \<Rightarrow> u8 list \<Rightarrow> 'd cam \<Rightarrow> 'd cam" where
  "say B str s = on_uart1 (uart1Puts B (str @ [0])) s"

definition size_message :: "int \<Rightarrow> u8 list" where
  "size_message dataSize = bytes ''Data size:'' @ decimal (nat dataSize) @ [10, 13]"

definition mismatch_message :: "int \<Rightarrow> int \<Rightarrow> u8 list" where
  "mismatch_message a b = bytes ''Data size not match ('' @ decimal (nat a) @ bytes '', '' @ decimal (nat b) @ [41, 10, 13]"

definition GetRawPicture ::
  "'d bus \<Rightarrow> ('d cam \<Rightarrow> 'd cam) \<Rightarrow> u8 list \<Rightarrow> u8 \<Rightarrow> u8 list \<Rightarrow> u32 \<Rightarrow> 'd cam \<Rightarrow> ('d, int \<times> u8 list) cam_run" where
  "GetRawPicture B irq junk pictureType dataBuffer processDelay s =
     bind_run (GetPictureCommand B irq junk pictureType processDelay s) (\<lambda>(r, dataSize) s.
       if r \<noteq> 0 then Some (Inr ((- 1, dataBuffer), say B (bytes ''GetPicture: Error'' @ [10, 13]) s))
       else let s = say B (size_message dataSize) s in
         bind_run (WaitForResponse B irq dataBuffer 0 dataSize s) (\<lambda>(res, dataBuffer) s.
           if res \<noteq> dataSize then
             bind_run (WaitForResponse B irq dataBuffer (nat res) (dataSize - res) s) (\<lambda>(res2, dataBuffer) s.
               Some (Inr ((res, dataBuffer), say B (mismatch_message res res2) (SendACK B (ucast CMD_DATA) 0 s))))
           else Some (Inr ((dataSize, dataBuffer), SendACK B (ucast CMD_DATA) 0 s))))"

text \<open>\<open>memcpy(&dataBuffer[bufferPosition], &response[4], packetSize)\<close>.\<close>

definition copy_packet :: "u8 list \<Rightarrow> nat \<Rightarrow> u8 list \<Rightarrow> nat \<Rightarrow> fault + u8 list" where
  "copy_packet dataBuffer bufferPosition response packetSize =
     (if length response < 4 + packetSize \<or> length dataBuffer < bufferPosition + packetSize then Inl OutOfBounds
      else Inr (take bufferPosition dataBuffer @ take packetSize (drop 4 response) @ drop (bufferPosition + packetSize) dataBuffer))"

partial_function (option) jpeg_loop ::
  "'d bus \<Rightarrow> ('d cam \<Rightarrow> 'd cam) \<Rightarrow> int \<Rightarrow> u8 list \<Rightarrow> nat \<Rightarrow> nat \<Rightarrow> nat \<Rightarrow> u8 list \<Rightarrow> 'd cam \<Rightarrow> ('d, nat \<times> u8 list) cam_run" where
  "jpeg_loop B irq dataSize dataBuffer bufferPosition packageCounter errorCounter response s =
     (if int bufferPosition < dataSize \<and> errorCounter \<le> 15 then
        let s = SendACK B 0 (of_nat packageCounter) s in
        bind_run (cam_pause B TEN_MS s) (\<lambda>_ s.
        bind_run (WaitForResponse B irq response 0 (int PACKAGE_SIZE) s) (\<lambda>(stat, response) s.
          if stat = int PACKAGE_SIZE then
            let packetSize = nat (or (push_bit 8 (uint (response ! 3))) (uint (response ! 2))) in
            (case copy_packet dataBuffer bufferPosition response packetSize of
               Inl f \<Rightarrow> Some (Inl f)
             | Inr dataBuffer \<Rightarrow>
                 jpeg_loop B irq dataSize dataBuffer (bufferPosition + packetSize) (packageCounter + 1) errorCounter response s)
          else jpeg_loop B irq dataSize dataBuffer bufferPosition packageCounter (errorCounter + 1) response s))
      else Some (Inr ((packageCounter, dataBuffer), s)))"

declare jpeg_loop.simps [code]

definition GetJpegPicture ::
  "'d bus \<Rightarrow> ('d cam \<Rightarrow> 'd cam) \<Rightarrow> u8 list \<Rightarrow> u8 list \<Rightarrow> u32 \<Rightarrow> u8 list \<Rightarrow> u32 \<Rightarrow> 'd cam \<Rightarrow> ('d, int \<times> u8 list) cam_run" where
  "GetJpegPicture B irq junk response pictureType dataBuffer processDelay s =
     bind_run (GetPictureCommand B irq junk (ucast pictureType) processDelay s) (\<lambda>(r, dataSize) s.
       if r \<noteq> 0 then Some (Inr ((- 1, dataBuffer), say B (bytes ''GetPicture: Error'' @ [10, 13]) s))
       else let s = say B (size_message dataSize) s in
         bind_run (jpeg_loop B irq dataSize dataBuffer 0 0 0 response s) (\<lambda>(packageCounter, dataBuffer) s.
           Some (Inr ((dataSize, dataBuffer), SendACK B 0 (of_nat packageCounter) s))))"

section \<open>Settings\<close>

definition Snapshot :: "'d bus \<Rightarrow> ('d cam \<Rightarrow> 'd cam) \<Rightarrow> u8 list \<Rightarrow> u32 \<Rightarrow> u32 \<Rightarrow> 'd cam \<Rightarrow> ('d, int) cam_run" where
  "Snapshot B irq junk snapshotType skipFrameCounter s =
     ReceiveACK B irq junk CMD_SNAPSHOT
       (SendCommand B [CMD_PREFIX, CMD_SNAPSHOT, ucast snapshotType, ucast skipFrameCounter, ucast (drop_bit 8 skipFrameCounter), 0] s)"

definition LightFrequency :: "'d bus \<Rightarrow> ('d cam \<Rightarrow> 'd cam) \<Rightarrow> u8 list \<Rightarrow> u32 \<Rightarrow> 'd cam \<Rightarrow> ('d, int) cam_run" where
  "LightFrequency B irq junk lightFrequency s =
     ReceiveACK B irq junk CMD_LIGHTFREQ (SendCommand B [CMD_PREFIX, CMD_LIGHTFREQ, ucast lightFrequency, 0, 0, 0] s)"

definition baud_code :: "int \<Rightarrow> u8" where
  "baud_code baudRate =
     (if baudRate = 0 then 0xFF else if baudRate = 1 then 0xBF else if baudRate = 2 then 0x7F
      else if baudRate = 3 then 0x5F else if baudRate = 4 then 0x3F else if baudRate = 5 then 0x2F
      else if baudRate = 6 then 0x1F else if baudRate = 7 then 0x0F else 0xBF)"

definition SetBaudRate :: "'d bus \<Rightarrow> ('d cam \<Rightarrow> 'd cam) \<Rightarrow> u8 list \<Rightarrow> int \<Rightarrow> 'd cam \<Rightarrow> ('d, int) cam_run" where
  "SetBaudRate B irq junk baudRate s =
     ReceiveACK B irq junk CMD_BAUDRATE (SendCommand B [CMD_PREFIX, CMD_BAUDRATE, baud_code baudRate, 0x01, 0, 0] s)"

definition Reset :: "'d bus \<Rightarrow> ('d cam \<Rightarrow> 'd cam) \<Rightarrow> u8 list \<Rightarrow> int \<Rightarrow> 'd cam \<Rightarrow> ('d, int) cam_run" where
  "Reset B irq junk completeReset s =
     ReceiveACK B irq junk CMD_RESET
       (SendCommand B [CMD_PREFIX, CMD_RESET, if completeReset \<noteq> 0 then 0x00 else 0x01, 0, 0, 0] s)"

definition ResetSpecial :: "'d bus \<Rightarrow> ('d cam \<Rightarrow> 'd cam) \<Rightarrow> u8 list \<Rightarrow> 'd cam \<Rightarrow> ('d, int) cam_run" where
  "ResetSpecial B irq junk s =
     ReceiveACK B irq junk CMD_RESET (SendCommand B [CMD_PREFIX, CMD_RESET, 0, 0, 0, 0xFF] s)"

definition PowerOff :: "'d bus \<Rightarrow> ('d cam \<Rightarrow> 'd cam) \<Rightarrow> u8 list \<Rightarrow> 'd cam \<Rightarrow> ('d, int) cam_run" where
  "PowerOff B irq junk s =
     ReceiveACK B irq junk CMD_POWEROFF (SendCommand B [CMD_PREFIX, CMD_POWEROFF, 0, 0, 0, 0] s)"

section \<open>The camera as a source of bytes\<close>

text \<open>
  \<open>G\<close> is what the camera has still to send, \<open>T\<close> the tick count of a running timer, and \<open>to_come\<close> every
  byte the foreground code has not yet taken. Register traffic neither takes nor invents bytes, an
  interrupt moves bytes from the line into the receive queue, and while bytes are to come one is in
  the queue whenever the code looks.
\<close>

definition to_come :: "('d \<Rightarrow> u8 list) \<Rightarrow> 'd cam \<Rightarrow> u8 list" where
  "to_come G s = ring_list 1024 (rx (u0 s)) @ G (dev (cmc s))"

definition quiet :: "('d \<Rightarrow> u8 list) \<Rightarrow> ('d \<Rightarrow> nat) \<Rightarrow> 'd \<Rightarrow> 'd \<Rightarrow> bool" where
  "quiet G T d d' \<longleftrightarrow> G d' = G d \<and> T d \<le> T d'"

definition feeds :: "'d bus \<Rightarrow> ('d \<Rightarrow> u8 list) \<Rightarrow> ('d \<Rightarrow> nat) \<Rightarrow> nat \<Rightarrow> ('d cam \<Rightarrow> 'd cam) \<Rightarrow> bool" where
  "feeds B G T step irq \<longleftrightarrow> runs_timer B T step \<and>
     (\<forall>a d. quiet G T d (snd (bus_rd B a d))) \<and> (\<forall>a v d. quiet G T d (bus_wr B a v d)) \<and>
     (\<forall>s. uart_wf uart0_port (u0 s) \<longrightarrow>
        uart_wf uart0_port (u0 (irq s)) \<and> to_come G (irq s) = to_come G s \<and>
        (to_come G s \<noteq> [] \<longrightarrow> ring_list 1024 (rx (u0 (irq s))) \<noteq> []) \<and>
        tm (irq s) = tm s \<and> T (dev (cmc s)) \<le> T (dev (cmc (irq s))) \<and> T (dev (cmc (irq s))) \<le> T (dev (cmc s)) + step)"

definition cam_ok :: "('d \<Rightarrow> nat) \<Rightarrow> 'd cam \<Rightarrow> bool" where
  "cam_ok T s \<longleftrightarrow> uart_wf uart0_port (u0 s) \<and> (\<exists>n t. at_time n t (tm s) \<and> t \<le> T (dev (cmc s)))"

lemma RX_SIZE_uart0 [simp]: "RX_SIZE uart0_port = 1024"
  by (simp add: uart0_port_def)

lemma quiet_refl [simp]: "quiet G T d d"
  by (simp add: quiet_def)

lemma quiet_trans: "quiet G T a b \<Longrightarrow> quiet G T b c \<Longrightarrow> quiet G T a c"
  by (auto simp: quiet_def)

lemma feedsD:
  assumes "feeds B G T step irq"
  shows "runs_timer B T step" "quiet G T d (snd (bus_rd B a d))" "quiet G T d (bus_wr B a v d)"
  using assms by (auto simp: feeds_def)

lemma feeds_irq:
  assumes "feeds B G T step irq" "uart_wf uart0_port (u0 s)"
  shows "uart_wf uart0_port (u0 (irq s))" "to_come G (irq s) = to_come G s"
    "to_come G s \<noteq> [] \<Longrightarrow> ring_list 1024 (rx (u0 (irq s))) \<noteq> []" "tm (irq s) = tm s"
    "T (dev (cmc s)) \<le> T (dev (cmc (irq s)))" "T (dev (cmc (irq s))) \<le> T (dev (cmc s)) + step"
  using assms by (auto simp: feeds_def)

section \<open>Register traffic is quiet\<close>

lemma quiet_rmw:
  assumes "feeds B G T step irq"
  shows "quiet G T (dev m) (dev (and_wr8 B a v m))" "quiet G T (dev m) (dev (or_wr8 B a v m))" "quiet G T (dev m) (dev (wr8 B a v m))"
  using feedsD(2,3) [OF assms] quiet_trans
  by (fastforce simp: and_wr8_def or_wr8_def rd8_def rd_parts)+

lemma quiet_fold: "feeds B G T step irq \<Longrightarrow> quiet G T (dev m) (dev (fold (wr8 B a) vs m))"
  by (induction vs arbitrary: m) (auto intro: quiet_trans quiet_rmw(3) simp del: dev_wr8)

lemma uart_Putch_quiet:
  assumes "feeds B G T step irq"
  shows "quiet G T (dev (mc s)) (dev (mc (snd (uart_Putch B p ch s)))) \<and> rx (un (snd (uart_Putch B p ch s))) = rx (un s)"
proof -
  have "quiet G T (dev m) (dev (or_wr8 B b v (fold (wr8 B c) vs (and_wr8 B a w m))))" for m a b c v w vs
    using quiet_rmw [OF assms] quiet_fold [OF assms] quiet_trans by metis
  then show ?thesis
    by (auto simp: uart_Putch_def guarded_eq putch_store_def Let_def split: if_splits)
      (metis fold_simps)+
qed

lemma uart_Puts_quiet:
  assumes "feeds B G T step irq"
  shows "quiet G T (dev (mc s)) (dev (mc (snd (uart_Puts B p str s))))"
proof (induction str arbitrary: s)
  case (Cons ch str)
  show ?case
    using uart_Putch_quiet [OF assms, of s p "uint ch"] Cons.IH [of "snd (uart_Putch B p (uint ch) s)"]
    by (auto simp: case_prod_unfold Let_def intro: quiet_trans)
qed simp

lemma write_loop_quiet:
  assumes "feeds B G T step irq"
  shows "quiet G T (dev (mc s)) (dev (mc (snd (write_loop B p bs s))))"
proof (induction bs arbitrary: s)
  case (Cons ch str)
  show ?case
    using uart_Putch_quiet [OF assms, of s p "uint ch"] Cons.IH [of "snd (uart_Putch B p (uint ch) s)"]
    by (auto simp: case_prod_unfold Let_def intro: quiet_trans)
qed simp

text \<open>What leaves the receiver, the clock and the line as they are keeps the state good.\<close>

lemma cam_ok_quiet:
  assumes "cam_ok T s" "quiet G T (dev (cmc s)) (dev (cmc s'))" "tm s' = tm s"
    "uart_wf uart0_port (u0 s')" "rx (u0 s') = rx (u0 s)"
  shows "cam_ok T s' \<and> to_come G s' = to_come G s"
  using assms order_trans unfolding cam_ok_def quiet_def to_come_def by fastforce

lemma SendCommand_ok:
  assumes "feeds B G T step irq" "cam_ok T s" "length bs < 2 ^ 16"
  shows "cam_ok T (SendCommand B bs s) \<and> to_come G (SendCommand B bs s) = to_come G s"
proof -
  let ?u = "\<lparr>un = u0 s, cpsr = cam_cpsr s, mc = cmc s\<rparr>"
  have wf: "uart_wf uart0_port (un ?u)" using assms(2) by (simp add: cam_ok_def)
  have "uart_wf uart0_port (un (snd (uart_Write B uart0_port bs ?u))) \<and> rx (un (snd (uart_Write B uart0_port bs ?u))) = rx (u0 s)"
    using uart_Write_result [OF wf port_ok(1) assms(3), of B] wf
    by (auto split: if_splits)
  moreover have "quiet G T (dev (cmc s)) (dev (mc (snd (uart_Write B uart0_port bs ?u))))"
    using write_loop_quiet [OF assms(1), of ?u] by (simp add: uart_Write_def)
  ultimately show ?thesis
    unfolding SendCommand_def on_uart0_def uart0Write_def Let_def
    by (intro cam_ok_quiet [OF assms(2)]) simp_all
qed

lemma SendACK_ok:
  assumes "feeds B G T step irq" "cam_ok T s"
  shows "cam_ok T (SendACK B c k s) \<and> to_come G (SendACK B c k s) = to_come G s"
  unfolding SendACK_def by (rule SendCommand_ok [OF assms]) simp

lemma on_uart1_ok:
  assumes "cam_ok T s" "quiet G T (dev (cmc s)) (dev (mc (snd (f \<lparr>un = u1 s, cpsr = cam_cpsr s, mc = cmc s\<rparr>))))"
  shows "cam_ok T (on_uart1 f s) \<and> to_come G (on_uart1 f s) = to_come G s"
  unfolding on_uart1_def Let_def
  by (intro cam_ok_quiet [OF assms(1)]) (use assms in \<open>simp_all add: cam_ok_def\<close>)

lemma say_ok:
  assumes "feeds B G T step irq" "cam_ok T s"
  shows "cam_ok T (say B str s) \<and> to_come G (say B str s) = to_come G s"
  unfolding say_def uart1Puts_def
  using uart_Puts_quiet [OF assms(1), of "\<lparr>un = u1 s, cpsr = cam_cpsr s, mc = cmc s\<rparr>"]
  by (intro on_uart1_ok [OF assms(2)]) simp

lemma getSysTICs_quiet:
  assumes "feeds B G T step irq"
  shows "quiet G T (dev m) (dev (snd (snd (getSysTICs B (t, m)))))"
  using feedsD(2) [OF assms] by (simp add: getSysTICs_def rd_parts Let_def)

lemma pause_loop_quiet:
  fixes B :: "'d bus"
  assumes fe: "feeds B G T step irq" and "pause_loop B st du x = Some y"
  shows "quiet G T (dev (snd x)) (dev (snd y))"
proof -
  have "B = B \<longrightarrow> quiet G T (dev (snd x)) (dev (snd y))"
  proof (rule pause_loop.raw_induct [where P = "\<lambda>B' st du x y. B' = B \<longrightarrow> quiet G T (dev (snd x)) (dev (snd y))", OF _ assms(2)], rule impI)
    fix f :: "'d bus \<Rightarrow> u32 \<Rightarrow> u32 \<Rightarrow> systime \<times> 'd machine \<Rightarrow> (systime \<times> 'd machine) option" and B' st du x y
    assume IH: "\<And>B' st du x y. f B' st du x = Some y \<Longrightarrow> B' = B \<longrightarrow> quiet G T (dev (snd x)) (dev (snd y))"
      and eq: "(let (e, s) = getElapsedSysTICs B' st x in if e < du then f B' st du s else Some s) = Some y" and B: "B' = B"
    obtain n z where nz: "getSysTICs B x = (n, z)" by (cases "getSysTICs B x")
    have q: "quiet G T (dev (snd x)) (dev (snd z))"
      using getSysTICs_quiet [OF fe, of "snd x" "fst x"] nz by simp
    have "(if n - st < du then f B st du z else Some z) = Some y"
      using eq [unfolded B] by (simp add: getElapsedSysTICs_def nz)
    then show "quiet G T (dev (snd x)) (dev (snd y))"
      using IH [of B st du z y] q quiet_trans [OF q] by (simp split: if_splits)
  qed
  then show ?thesis by simp
qed

lemma cam_pause_ok:
  assumes fe: "feeds B G T step irq" and ok: "cam_ok T s" and small: "unat duration + step < 2 ^ 32"
  shows "\<exists>s'. cam_pause B duration s = Some (Inr ((), s')) \<and> cam_ok T s' \<and> to_come G s' = to_come G s"
proof -
  obtain n t where nt: "at_time n t (tm s)" "t \<le> T (dev (cmc s))" using ok by (auto simp: cam_ok_def)
  let ?n = "n + (T (dev (cmc s)) - t)"
  obtain t1 m1 where g: "getSysTICs B (tm s, cmc s) = (of_nat ?n, t1, m1)" "at_time ?n (T (dev (cmc s))) t1"
    "T (dev (cmc s)) < T (dev m1)" "T (dev m1) \<le> T (dev (cmc s)) + step"
    using getSysTICs_exact [OF feedsD(1) [OF fe] nt] by auto
  then have "?n + (T (dev m1) - T (dev (cmc s))) - ?n \<le> unat duration + step" by simp
  from pause_loop_ends [OF feedsD(1) [OF fe] small g(2) _ _ this] g(3)
  obtain t2 m2 n2 k2 where p: "pause_loop B (of_nat ?n) duration (t1, m1) = Some (t2, m2)" "at_time n2 k2 t2" "k2 \<le> T (dev m2)"
    by auto
  have "quiet G T (dev (cmc s)) (dev m2)"
    using getSysTICs_quiet [OF fe, of "cmc s" "tm s"] pause_loop_quiet [OF fe p(1)] g(1) by (auto intro: quiet_trans)
  then show ?thesis
    using p g ok by (auto simp: cam_pause_def pause_def cam_ok_def to_come_def quiet_def)
qed

section \<open>Receiving\<close>

lemma getch_next:
  assumes "uart_wf uart0_port u" "ring_list 1024 (rx u) = c # cs"
  shows "\<exists>u'. uart0Getch u = (uint c, u') \<and> uart_wf uart0_port u' \<and> ring_list 1024 (rx u') = cs"
  using uart_Getch_ok [OF assms(1)] assms(2) by (cases "uart_Getch uart0_port u") (auto simp: uart0Getch_def)

lemma getch_none:
  assumes "uart_wf uart0_port u" "ring_list 1024 (rx u) = []"
  shows "uart0Getch u = (- 1, u)"
  using uart_Getch_ok [OF assms(1)] assms(2) by (simp add: uart0Getch_def)

lemma wait_char_next:
  assumes fe: "feeds B G T step irq" and ok: "cam_ok T s" and "to_come G s = c # cs"
  shows "\<exists>s'. wait_char B irq st s = Some (uint c, s') \<and> cam_ok T s' \<and> to_come G s' = cs"
proof -
  have wf: "uart_wf uart0_port (u0 s)" using ok by (simp add: cam_ok_def)
  note i = feeds_irq [OF fe wf]
  obtain r where r: "ring_list 1024 (rx (u0 (irq s))) = c # r" "cs = r @ G (dev (cmc (irq s)))"
    using i(2) i(3) [unfolded assms(3)] assms(3) by (cases "ring_list 1024 (rx (u0 (irq s)))") (auto simp: to_come_def)
  obtain u where u: "uart0Getch (u0 (irq s)) = (uint c, u)" "uart_wf uart0_port u" "ring_list 1024 (rx u) = r"
    using getch_next [OF i(1) r(1)] by blast
  have "wait_char B irq st s = Some (uint c, (irq s)\<lparr>u0 := u\<rparr>)"
    by (subst wait_char.simps) (simp add: u)
  moreover have "cam_ok T ((irq s)\<lparr>u0 := u\<rparr>)"
    using ok u i(4,5) by (auto simp: cam_ok_def intro: order_trans)
  ultimately show ?thesis using u r by (simp add: to_come_def)
qed

text \<open>With nothing to come the wait ends after a second.\<close>

lemma wait_char_silence:
  assumes fe: "feeds B G T step irq" and small: "unat ONE_SEC + 2 * step < 2 ^ 32"
  shows "uart_wf uart0_port (u0 s) \<Longrightarrow> to_come G s = [] \<Longrightarrow> at_time n t (tm s) \<Longrightarrow> t \<le> T (dev (cmc s)) \<Longrightarrow> n0 \<le> n \<Longrightarrow>
     n + (T (dev (cmc s)) - t) - n0 \<le> unat ONE_SEC + step \<Longrightarrow>
     \<exists>s'. wait_char B irq (of_nat n0) s = Some (- 1, s') \<and> cam_ok T s' \<and> to_come G s' = []"
proof (induction "n0 + unat ONE_SEC - (n + (T (dev (cmc s)) - t))" arbitrary: n t s rule: less_induct)
  case less
  note i = feeds_irq [OF fe less.prems(1)]
  let ?s = "irq s"
  define n1 where "n1 = n + (T (dev (cmc ?s)) - t)"
  have at: "at_time n t (tm ?s)" "t \<le> T (dev (cmc ?s))" using less.prems(3,4) i(4,5) by simp_all
  obtain t1 m1 where g: "getSysTICs B (tm ?s, cmc ?s) = (of_nat n1, t1, m1)" "at_time n1 (T (dev (cmc ?s))) t1"
      "T (dev (cmc ?s)) < T (dev m1)" "T (dev m1) \<le> T (dev (cmc ?s)) + step"
    using getSysTICs_exact [OF feedsD(1) [OF fe] at] by (auto simp: n1_def)
  let ?s1 = "?s\<lparr>u0 := u0 ?s, tm := t1, cmc := m1\<rparr>"
  have q: "G (dev m1) = G (dev (cmc ?s))" using getSysTICs_quiet [OF fe, of "cmc ?s" "tm ?s"] g(1) by (simp add: quiet_def)
  have e: "ring_list 1024 (rx (u0 ?s)) = []" "G (dev (cmc ?s)) = []" using i(2) less.prems(2) by (simp_all add: to_come_def)
  have le: "n1 - n0 \<le> unat ONE_SEC + 2 * step" using less.prems(4,6) i(5,6) by (simp add: n1_def)
  have lt: "(of_nat n1 - of_nat n0 :: u32) < ONE_SEC \<longleftrightarrow> n1 - n0 < unat ONE_SEC"
  proof -
    have "unat (of_nat (n1 - n0) :: u32) = n1 - n0" using le small by (simp add: unsigned_of_nat take_bit_nat_eq_self)
    moreover have "of_nat n1 - of_nat n0 = (of_nat (n1 - n0) :: u32)" using less.prems(5) by (simp add: of_nat_diff n1_def)
    ultimately show ?thesis by (simp add: word_less_nat_alt)
  qed
  have unf: "wait_char B irq (of_nat n0) s = (if n1 - n0 < unat ONE_SEC then wait_char B irq (of_nat n0) ?s1 else Some (- 1, ?s1))"
    by (subst wait_char.simps) (simp add: getch_none [OF i(1) e(1)] getElapsedSysTICs_def g lt)
  show ?case
  proof (cases "n1 - n0 < unat ONE_SEC")
    case True
    have "\<exists>s'. wait_char B irq (of_nat n0) ?s1 = Some (- 1, s') \<and> cam_ok T s' \<and> to_come G s' = []"
      by (rule less.hyps [of n1 ?s1 "T (dev (cmc ?s))"])
        (use True g less.prems i e q in \<open>auto simp: n1_def to_come_def\<close>)
    then show ?thesis using True unf by simp
  next
    case False
    moreover have "cam_ok T ?s1" using g(2,3) i(1) by (simp add: cam_ok_def) (meson less_imp_le)
    ultimately show ?thesis using unf e q by (simp add: to_come_def)
  qed
qed

lemma wait_start:
  assumes fe: "feeds B G T step irq" and ok: "cam_ok T s"
  shows "\<exists>n t m. getSysTICs B (tm s, cmc s) = (of_nat n, t, m) \<and> cam_ok T (s\<lparr>tm := t, cmc := m\<rparr>) \<and>
    to_come G (s\<lparr>tm := t, cmc := m\<rparr>) = to_come G s \<and>
    (\<exists>k. at_time n k t \<and> k \<le> T (dev m) \<and> T (dev m) \<le> k + step)"
proof -
  obtain n k where "at_time n k (tm s)" "k \<le> T (dev (cmc s))" using ok by (auto simp: cam_ok_def)
  from getSysTICs_exact [OF feedsD(1) [OF fe] this] show ?thesis
    using getSysTICs_quiet [OF fe, of "cmc s" "tm s"] ok
    by (fastforce simp: cam_ok_def to_come_def quiet_def)
qed

lemma wait_loop_gets:
  assumes fe: "feeds B G T step irq" and left: "0 \<le> left"
  shows "cam_ok T s \<Longrightarrow> to_come G s = bs @ rest \<Longrightarrow> pos + length bs \<le> length buf \<Longrightarrow>
     \<exists>s'. cam_ok T s' \<and> to_come G s' = rest \<and>
       wait_loop B irq buf pos (int (length bs) + left) res s =
       wait_loop B irq (patch buf pos bs) (pos + length bs) left (res + int (length bs)) s'"
proof (induction bs arbitrary: s buf pos res)
  case (Cons b bs)
  obtain n t m where g: "getSysTICs B (tm s, cmc s) = (of_nat n, t, m)" "cam_ok T (s\<lparr>tm := t, cmc := m\<rparr>)"
    "to_come G (s\<lparr>tm := t, cmc := m\<rparr>) = b # bs @ rest"
    using wait_start [OF fe Cons.prems(1)] Cons.prems(2) by auto
  obtain s1 where s1: "wait_char B irq (of_nat n) (s\<lparr>tm := t, cmc := m\<rparr>) = Some (uint b, s1)" "cam_ok T s1" "to_come G s1 = bs @ rest"
    using wait_char_next [OF fe g(2,3)] by blast
  have nn: "uint b \<noteq> - 1" using uint_ge_0 [of b] by linarith
  have "wait_loop B irq buf pos (int (length (b # bs)) + left) res s =
      wait_loop B irq (buf[pos := b]) (pos + 1) (int (length bs) + left) (res + 1) s1"
    using Cons.prems(3) left nn by (subst wait_loop.simps) (simp add: g s1)
  moreover have "patch (buf[pos := b]) (pos + 1) bs = patch buf pos (b # bs)"
    using Cons.prems(3) by (simp add: patch_Cons)
  ultimately show ?case
    using Cons.IH [OF s1(2,3), of "pos + 1" "buf[pos := b]" "res + 1"] Cons.prems(3) by (simp add: algebra_simps)
qed auto

lemma wait_loop_done: "wait_loop B irq buf pos 0 res s = Some (Inr ((res, buf), s))"
  by (subst wait_loop.simps) simp

lemma wait_loop_silence:
  assumes fe: "feeds B G T step irq" and small: "unat ONE_SEC + 2 * step < 2 ^ 32"
    and "cam_ok T s" "to_come G s = []" "len \<noteq> 0"
  shows "\<exists>s'. wait_loop B irq buf pos len res s = Some (Inr ((res, buf), s')) \<and> cam_ok T s' \<and> to_come G s' = []"
proof -
  obtain n t m k where g: "getSysTICs B (tm s, cmc s) = (of_nat n, t, m)" "cam_ok T (s\<lparr>tm := t, cmc := m\<rparr>)"
    "to_come G (s\<lparr>tm := t, cmc := m\<rparr>) = []" "at_time n k t" "k \<le> T (dev m)" "T (dev m) \<le> k + step"
    using wait_start [OF fe assms(3)] assms(4) by auto
  then obtain s' where "wait_char B irq (of_nat n) (s\<lparr>tm := t, cmc := m\<rparr>) = Some (- 1, s')" "cam_ok T s'" "to_come G s' = []"
    using wait_char_silence [OF fe small, of "s\<lparr>tm := t, cmc := m\<rparr>" n k n] by (fastforce simp: cam_ok_def)
  then show ?thesis using assms(5) by (subst wait_loop.simps) (simp add: g)
qed

lemma WaitForResponse_all:
  assumes "feeds B G T step irq" "cam_ok T s" "to_come G s = bs @ rest" "pos + length bs \<le> length buf" "len = int (length bs)"
  shows "\<exists>s'. WaitForResponse B irq buf pos len s = Some (Inr ((len, patch buf pos bs), s')) \<and> cam_ok T s' \<and> to_come G s' = rest"
  using wait_loop_gets [OF assms(1) _ assms(2-4), of 0 0] assms(5) by (auto simp: WaitForResponse_def wait_loop_done)

section \<open>The wait as a function of the bytes to come\<close>

lemma WaitForResponse_takes:
  assumes fe: "feeds B G T step irq" and small: "unat ONE_SEC + 2 * step < 2 ^ 32"
    and ok: "cam_ok T s" and len: "0 \<le> len" and room: "pos + length (take (nat len) (to_come G s)) \<le> length buf"
  shows "\<exists>s'. WaitForResponse B irq buf pos len s =
      Some (Inr ((int (length (take (nat len) (to_come G s))), patch buf pos (take (nat len) (to_come G s))), s')) \<and>
    cam_ok T s' \<and> to_come G s' = drop (nat len) (to_come G s)"
proof -
  let ?bs = "take (nat len) (to_come G s)" and ?rest = "drop (nat len) (to_come G s)"
  have app: "to_come G s = ?bs @ ?rest" by simp
  show ?thesis
  proof (cases "length ?bs = nat len")
    case True
    then have l: "len = int (length ?bs)" using len by linarith
    show ?thesis using WaitForResponse_all [OF fe ok app room l] l by metis
  next
    case False
    then have r: "?rest = []" and lt: "0 < len - int (length ?bs)" using len by auto
    obtain s1 where s1: "cam_ok T s1" "to_come G s1 = []" "wait_loop B irq buf pos (int (length ?bs) + (len - int (length ?bs))) 0 s =
       wait_loop B irq (patch buf pos ?bs) (pos + length ?bs) (len - int (length ?bs)) (0 + int (length ?bs)) s1"
      using wait_loop_gets [OF fe less_imp_le [OF lt] ok app room, of 0] r by metis
    show ?thesis
      using wait_loop_silence [OF fe small s1(1,2), of "len - int (length ?bs)"] lt s1(3) r
      by (simp add: WaitForResponse_def)
  qed
qed

lemma patch_all: "length bs = length buf \<Longrightarrow> patch buf 0 bs = bs"
  by (simp add: patch_def)

definition acks :: "u8 \<Rightarrow> u8 list \<Rightarrow> bool" where
  "acks c bs \<longleftrightarrow> 6 \<le> length bs \<and> bs ! 1 = CMD_ACK \<and> bs ! 2 = c"

lemma six_bytes:
  assumes fe: "feeds B G T step irq" and small: "unat ONE_SEC + 2 * step < 2 ^ 32" and ok: "cam_ok T s" and l: "6 \<le> length junk"
  shows "\<exists>stat r s'. WaitForResponse B irq junk 0 6 s = Some (Inr ((stat, r), s')) \<and> cam_ok T s' \<and> to_come G s' = drop 6 (to_come G s) \<and>
    length r = length junk \<and> (stat = 6 \<longleftrightarrow> 6 \<le> length (to_come G s)) \<and> (stat = 6 \<longrightarrow> (\<forall>k < 6. r ! k = to_come G s ! k))"
proof -
  have "0 + length (take (nat 6) (to_come G s)) \<le> length junk" using l by simp
  from WaitForResponse_takes [OF fe small ok _ this] show ?thesis
    using l by (auto simp: patch_length patch_nth min_def)
qed

lemma ReceiveACK_decides:
  assumes fe: "feeds B G T step irq" and small: "unat ONE_SEC + 2 * step < 2 ^ 32" and ok: "cam_ok T s" and l: "length junk = 6"
  shows "\<exists>s'. ReceiveACK B irq junk c s = Some (Inr (if acks c (to_come G s) then 0 else - 1, s')) \<and>
    cam_ok T s' \<and> to_come G s' = drop 6 (to_come G s)"
proof -
  obtain stat r s' where w: "WaitForResponse B irq junk 0 6 s = Some (Inr ((stat, r), s'))" "cam_ok T s'" "to_come G s' = drop 6 (to_come G s)"
    "stat = 6 \<longleftrightarrow> 6 \<le> length (to_come G s)" "stat = 6 \<longrightarrow> (\<forall>k < 6. r ! k = to_come G s ! k)"
    using six_bytes [OF fe small ok] l by (metis order_refl)
  then show ?thesis by (auto simp: ReceiveACK_def acks_def)
qed

section \<open>Properties of the protocol\<close>

text \<open>
  \<^verbatim>\<open>WaitForResponse\<close> always returns. It takes the bytes the camera sends in their order, as many
  as were asked for or, when the line falls silent for a second, as many as came; it stores them
  contiguously, leaves the rest of the buffer alone, takes no byte too many and returns their number.
\<close>

theorem WaitForResponse_in_order:
  assumes "feeds B G T step irq" "unat ONE_SEC + 2 * step < 2 ^ 32" "cam_ok T s" "0 \<le> len"
    and "pos + length (take (nat len) (to_come G s)) \<le> length buf"
  shows "\<exists>s'. WaitForResponse B irq buf pos len s =
      Some (Inr ((int (length (take (nat len) (to_come G s))), patch buf pos (take (nat len) (to_come G s))), s')) \<and>
    cam_ok T s' \<and> to_come G s' = drop (nat len) (to_come G s)"
  using assms by (rule WaitForResponse_takes)

text \<open>A line that delivers its bytes through the receive interrupt, one before each poll.\<close>

record line =
  pending :: "u8 list"
  ticks :: nat

definition line_bus :: "line bus" where
  "line_bus = \<lparr>bus_rd = (\<lambda>a d. if a = TIMER0_TC then (of_nat (ticks d), d\<lparr>ticks := Suc (ticks d)\<rparr>) else (0, d)), bus_wr = (\<lambda>a v d. d)\<rparr>"

definition line_irq :: "line cam \<Rightarrow> line cam" where
  "line_irq s = (case pending (dev (cmc s)) of
       [] \<Rightarrow> s
     | c # cs \<Rightarrow> if length (ring_list 1024 (rx (u0 s))) < 1023
         then s\<lparr>u0 := (u0 s)\<lparr>rx := ring_force 1024 c (rx (u0 s))\<rparr>, cmc := (cmc s)\<lparr>dev := (dev (cmc s))\<lparr>pending := cs\<rparr>\<rparr>\<rparr>
         else s)"

definition line_start :: "u8 list \<Rightarrow> line cam" where
  "line_start bs = \<lparr>u0 = fresh_uart uart0_port, u1 = fresh_uart uart1_port, cam_cpsr = 0x13,
     tm = \<lparr>sysTICs = 0, lastT0TC = 0\<rparr>, cmc = \<lparr>dev = \<lparr>pending = bs, ticks = 0\<rparr>, trace = []\<rparr>\<rparr>"

lemma line_feeds: "feeds line_bus pending ticks 1 line_irq"
  unfolding feeds_def
proof (intro conjI allI impI)
  show "runs_timer line_bus ticks 1" by (auto simp: runs_timer_def line_bus_def)
  show "quiet pending ticks d (snd (bus_rd line_bus a d))" "quiet pending ticks d (bus_wr line_bus a v d)" for a v d
    by (simp_all add: quiet_def line_bus_def)
next
  fix s :: "line cam" assume wf: "uart_wf uart0_port (u0 s)"
  then have rw: "ring_wf 1024 (rx (u0 s))" by (simp add: uart_wf_def)
  show "uart_wf uart0_port (u0 (line_irq s))" "to_come pending (line_irq s) = to_come pending s"
    "to_come pending s \<noteq> [] \<Longrightarrow> ring_list 1024 (rx (u0 (line_irq s))) \<noteq> []" "tm (line_irq s) = tm s"
    "ticks (dev (cmc s)) \<le> ticks (dev (cmc (line_irq s)))" "ticks (dev (cmc (line_irq s))) \<le> ticks (dev (cmc s)) + 1"
    using wf ring_force_ok [OF rw] by (auto simp: line_irq_def to_come_def uart_wf_def split: list.splits)
qed

lemma line_start_ok: "cam_ok ticks (line_start bs)" "to_come pending (line_start bs) = bs"
  using fresh_uart_wf(4) [of uart0_port]
  by (auto simp: cam_ok_def line_start_def at_time_def to_come_def intro: exI [of _ 0])

lemma ONE_SEC_small: "unat ONE_SEC + 2 * 1 < 2 ^ 32"
  by (simp add: ONE_SEC_def sysTICSperSEC_def PCLK_def)

theorem WaitForResponse_in_order_witness:
  "\<exists>s'. WaitForResponse line_bus line_irq [0, 0, 0, 0] 1 2 (line_start [0xAA, 0x0E, 0x0D]) = Some (Inr ((2, [0, 0xAA, 0x0E, 0]), s')) \<and>
     to_come pending s' = [0x0D]"
  using WaitForResponse_in_order [OF line_feeds ONE_SEC_small line_start_ok(1), of 2 1 "[0xAA, 0x0E, 0x0D]" "[0, 0, 0, 0]"]
  by (auto simp: line_start_ok patch_def)

text \<open>
  \<^verbatim>\<open>ReceiveACK\<close> always returns, and reports success exactly when six bytes came of which the second
  is the acknowledge code and the third the expected command; it consumes those six bytes and no more.
\<close>

theorem ReceiveACK_verdict:
  assumes "feeds B G T step irq" "unat ONE_SEC + 2 * step < 2 ^ 32" "cam_ok T s" "length junk = 6"
  shows "\<exists>s'. ReceiveACK B irq junk c s = Some (Inr (if acks c (to_come G s) then 0 else - 1, s')) \<and>
    cam_ok T s' \<and> to_come G s' = drop 6 (to_come G s)"
  using assms by (rule ReceiveACK_decides)

theorem ReceiveACK_verdict_witness:
  "(\<exists>s'. ReceiveACK line_bus line_irq (replicate 6 0) 5 (line_start [0xAA, 0x0E, 5, 0, 0, 0]) = Some (Inr (0, s'))) \<and>
   (\<exists>s'. ReceiveACK line_bus line_irq (replicate 6 0) 5 (line_start [0xAA, 0x0F, 5, 0, 0, 0]) = Some (Inr (- 1, s')))"
  using ReceiveACK_verdict [OF line_feeds ONE_SEC_small line_start_ok(1) [of "[0xAA, 0x0E, 5, 0, 0, 0]"], where c = 5 and junk = "replicate 6 0"]
    ReceiveACK_verdict [OF line_feeds ONE_SEC_small line_start_ok(1) [of "[0xAA, 0x0F, 5, 0, 0, 0]"], where c = 5 and junk = "replicate 6 0"]
  by (auto simp: line_start_ok acks_def cmd_defs)

section \<open>Pictures arrive intact\<close>

lemma or_shifted_byte: "or (push_bit 8 (uint (a :: u8))) (uint (b :: u8)) = uint b + 256 * uint a"
proof -
  have "and (push_bit 8 (uint a)) (uint b) = 0"
    by (rule bit_eqI) (auto simp: bit_simps dest: bit_imp_le_length)
  then have "or (push_bit 8 (uint a)) (uint b) = push_bit 8 (uint a) + uint b"
    using plus_and_or [of "push_bit 8 (uint a)" "uint b"] by simp
  then show ?thesis by (simp add: push_bit_eq_mult)
qed

lemma picture_size_eq: "picture_size r = uint (r ! 3) + 256 * uint (r ! 4 OR r ! 5)"
proof -
  have "or (push_bit 8 (uint (r ! 5))) (push_bit 8 (uint (r ! 4))) = push_bit 8 (uint (r ! 4 OR r ! 5))"
    by (rule bit_eqI) (auto simp: bit_simps)
  then show ?thesis by (simp add: picture_size_def or_shifted_byte)
qed

lemma six_exactly:
  assumes "feeds B G T step irq" "cam_ok T s" "to_come G s = h @ rest" "length h = 6" "length junk = 6"
  shows "\<exists>s'. WaitForResponse B irq junk 0 6 s = Some (Inr ((6, h), s')) \<and> cam_ok T s' \<and> to_come G s' = rest"
  using WaitForResponse_all [OF assms(1-3), of 0 junk 6] assms(4,5) by (simp add: patch_all)

definition is_ack :: "u8 \<Rightarrow> u8 list \<Rightarrow> bool" where
  "is_ack c h \<longleftrightarrow> length h = 6 \<and> h ! 1 = CMD_ACK \<and> h ! 2 = c"

definition is_data :: "u8 list \<Rightarrow> bool" where
  "is_data h \<longleftrightarrow> length h = 6 \<and> h ! 1 = CMD_DATA"

lemma GetPictureCommand_ok:
  assumes fe: "feeds B G T step irq" and ok: "cam_ok T s" and junk: "length junk = 6" and d: "unat processDelay + step < 2 ^ 32"
    and come: "to_come G s = a @ h @ rest" and a: "is_ack CMD_GETPICTURE a" and h: "is_data h"
  shows "\<exists>s'. GetPictureCommand B irq junk ty processDelay s = Some (Inr ((0, picture_size h), s')) \<and> cam_ok T s' \<and> to_come G s' = rest"
proof -
  let ?s0 = "SendCommand B [CMD_PREFIX, CMD_GETPICTURE, ty, 0, 0, 0] s"
  have 0: "cam_ok T ?s0" "to_come G ?s0 = a @ h @ rest" using SendCommand_ok [OF fe ok] come by simp_all
  obtain s1 where 1: "cam_pause B processDelay ?s0 = Some (Inr ((), s1))" "cam_ok T s1" "to_come G s1 = a @ h @ rest"
    using cam_pause_ok [OF fe 0(1) d] 0(2) by auto
  obtain s2 where 2: "WaitForResponse B irq junk 0 6 s1 = Some (Inr ((6, a), s2))" "cam_ok T s2" "to_come G s2 = h @ rest"
    using six_exactly [OF fe 1(2,3) _ junk] a by (auto simp: is_ack_def)
  obtain s3 where 3: "WaitForResponse B irq junk 0 6 s2 = Some (Inr ((6, h), s3))" "cam_ok T s3" "to_come G s3 = rest"
    using six_exactly [OF fe 2(2,3) _ junk] h by (auto simp: is_data_def)
  show ?thesis
    using 1 2 3 a h by (simp add: GetPictureCommand_def ReceiveACK_def is_ack_def is_data_def)
qed



section \<open>Compressed pictures\<close>

definition packet_size :: "u8 list \<Rightarrow> nat" where
  "packet_size p = nat (uint (p ! 2) + 256 * uint (p ! 3))"

definition payload :: "u8 list \<Rightarrow> u8 list" where
  "payload p = take (packet_size p) (drop 4 p)"

definition good_packet :: "u8 list \<Rightarrow> bool" where
  "good_packet p \<longleftrightarrow> length p = 512 \<and> 0 < packet_size p \<and> packet_size p \<le> 508"

lemma payload_length: "good_packet p \<Longrightarrow> length (payload p) = packet_size p"
  by (simp add: payload_def good_packet_def)

lemma TEN_MS_small: "unat TEN_MS \<le> unat ONE_SEC"
  by (simp add: TEN_MS_def ONE_SEC_def sysTICSperSEC_def PCLK_def)

lemma jpeg_loop_done:
  "\<not> (int pos < dataSize \<and> e \<le> 15) \<Longrightarrow> jpeg_loop B irq dataSize buf pos k e resp s = Some (Inr ((k, buf), s))"
  by (subst jpeg_loop.simps) (simp only: if_False)

lemma patch_patch:
  assumes "pos + length xs + length ys \<le> length buf"
  shows "patch (patch buf pos xs) (pos + length xs) ys = patch buf pos (xs @ ys)"
  using assms by (auto simp: patch_def ac_simps min_def drop_append)

lemma jpeg_loop_packets:
  assumes fe: "feeds B G T step irq" and small: "unat ONE_SEC + 2 * step < 2 ^ 32"
  shows "list_all good_packet ps \<Longrightarrow> cam_ok T s \<Longrightarrow> to_come G s = concat ps @ rest \<Longrightarrow> length resp = 512 \<Longrightarrow>
     pos + length (concat (map payload ps)) \<le> length buf \<Longrightarrow> dataSize = int (pos + length (concat (map payload ps))) \<Longrightarrow>
     \<exists>s'. jpeg_loop B irq dataSize buf pos k 0 resp s = Some (Inr ((k + length ps, patch buf pos (concat (map payload ps))), s')) \<and>
       cam_ok T s' \<and> to_come G s' = rest"
proof (induction ps arbitrary: s buf pos k resp)
  case Nil
  then show ?case by (simp add: jpeg_loop_done)
next
  case (Cons p ps)
  have gp: "length p = 512" "0 < packet_size p" "packet_size p \<le> 508" "length (payload p) = packet_size p"
    using Cons.prems(1) by (auto simp: good_packet_def payload_length)
  let ?s0 = "SendACK B 0 (of_nat k) s"
  have 0: "cam_ok T ?s0" "to_come G ?s0 = p @ concat ps @ rest" using SendACK_ok [OF fe Cons.prems(2)] Cons.prems(3) by simp_all
  obtain s1 where 1: "cam_pause B TEN_MS ?s0 = Some (Inr ((), s1))" "cam_ok T s1" "to_come G s1 = p @ concat ps @ rest"
    using cam_pause_ok [OF fe 0(1), of TEN_MS] 0(2) small TEN_MS_small by auto
  obtain s2 where 2: "WaitForResponse B irq resp 0 512 s1 = Some (Inr ((512, p), s2))" "cam_ok T s2" "to_come G s2 = concat ps @ rest"
    using WaitForResponse_all [OF fe 1(2,3), of 0 resp 512] gp(1) Cons.prems(4) by (auto simp: patch_all)
  have cp: "copy_packet buf pos p (packet_size p) = Inr (patch buf pos (payload p))"
    using gp Cons.prems(5) by (simp add: copy_packet_def patch_def payload_def)
  have pk: "nat (or (push_bit 8 (uint (p ! 3))) (uint (p ! 2))) = packet_size p"
    by (simp add: or_shifted_byte packet_size_def)
  have "jpeg_loop B irq dataSize buf pos k 0 resp s =
      jpeg_loop B irq dataSize (patch buf pos (payload p)) (pos + packet_size p) (k + 1) 0 p s2"
    using gp Cons.prems(6) by (subst jpeg_loop.simps) (simp add: 1(1) 2(1) PACKAGE_SIZE_def pk cp Let_def)
  moreover have "patch (patch buf pos (payload p)) (pos + packet_size p) (concat (map payload ps)) = patch buf pos (concat (map payload (p # ps)))"
    using patch_patch [of pos "payload p" "concat (map payload ps)" buf] Cons.prems(5) gp by simp
  ultimately show ?case
    using Cons.IH [of s2 p "pos + packet_size p" "patch buf pos (payload p)" "k + 1"] Cons.prems gp 2
    by (simp add: patch_length add.assoc)
qed


definition demo_packet :: "u8 list" where
  "demo_packet = [1, 0, 3, 0, 7, 8, 9] @ replicate 505 0"


lemma jpeg_loop_silent:
  assumes fe: "feeds B G T step irq" and small: "unat ONE_SEC + 2 * step < 2 ^ 32"
  shows "cam_ok T s \<Longrightarrow> to_come G s = [] \<Longrightarrow> length resp = 512 \<Longrightarrow> e \<le> 16 \<Longrightarrow>
     \<exists>s'. jpeg_loop B irq dataSize buf pos k e resp s = Some (Inr ((k, buf), s')) \<and> cam_ok T s' \<and> to_come G s' = []"
proof (induction "16 - e" arbitrary: e s resp)
  case 0
  then show ?case by (simp add: jpeg_loop_done)
next
  case (Suc n)
  show ?case
  proof (cases "int pos < dataSize \<and> e \<le> 15")
    case True
    let ?s0 = "SendACK B 0 (of_nat k) s"
    have 0: "cam_ok T ?s0" "to_come G ?s0 = []" using SendACK_ok [OF fe Suc.prems(1)] Suc.prems(2) by simp_all
    obtain s1 where 1: "cam_pause B TEN_MS ?s0 = Some (Inr ((), s1))" "cam_ok T s1" "to_come G s1 = []"
      using cam_pause_ok [OF fe 0(1), of TEN_MS] 0(2) small TEN_MS_small by auto
    obtain s2 where 2: "WaitForResponse B irq resp 0 512 s1 = Some (Inr ((0, resp), s2))" "cam_ok T s2" "to_come G s2 = []"
      using WaitForResponse_takes [OF fe small 1(2), of 512 0 resp] 1(3) by auto
    have "jpeg_loop B irq dataSize buf pos k e resp s = jpeg_loop B irq dataSize buf pos k (e + 1) resp s2"
      using True by (subst jpeg_loop.simps) (simp add: 1(1) 2(1) PACKAGE_SIZE_def)
    then show ?thesis using Suc.hyps(1) [of "e + 1" s2 resp] Suc.hyps(2) Suc.prems 2 True by simp
  next
    case False
    then show ?thesis using Suc.prems by (simp add: jpeg_loop_done)
  qed
qed

text \<open>
  The size is returned even when no data came: with a camera that announces a picture and then falls
  silent, \<^verbatim>\<open>GetJpegPicture\<close> gives up after sixteen timeouts and still returns the announced size, with the
  buffer untouched; nothing tells the caller that the picture is missing.
\<close>

theorem GetJpegPicture_silent:
  assumes "feeds B G T step irq" "unat ONE_SEC + 2 * step < 2 ^ 32" "cam_ok T s" "length junk = 6" "length resp = 512"
    and "unat processDelay + step < 2 ^ 32" "to_come G s = a @ h" "is_ack CMD_GETPICTURE a" "is_data h"
  shows "\<exists>s'. GetJpegPicture B irq junk resp ty dataBuffer processDelay s = Some (Inr ((picture_size h, dataBuffer), s'))"
proof -
  have come: "to_come G s = a @ h @ []" using assms(7) by simp
  obtain s1 where 1: "GetPictureCommand B irq junk (ucast ty) processDelay s = Some (Inr ((0, picture_size h), s1))" "cam_ok T s1" "to_come G s1 = []"
    using GetPictureCommand_ok [OF assms(1,3,4,6) come assms(8,9)] by blast
  let ?s2 = "say B (size_message (picture_size h)) s1"
  have 2: "cam_ok T ?s2" "to_come G ?s2 = []" using say_ok [OF assms(1) 1(2)] 1(3) by auto
  show ?thesis
    using 1(1) jpeg_loop_silent [OF assms(1,2) 2 assms(5), of 0 "picture_size h" dataBuffer 0 0] by (auto simp: GetJpegPicture_def)
qed

theorem GetJpegPicture_silent_witness:
  "\<exists>s'. GetJpegPicture line_bus line_irq [0, 0, 0, 0, 0, 0] (replicate 512 0) 5 [0, 0, 0, 0] 100
     (line_start ([0xAA, 0x0E, 4, 0, 0, 0] @ [0xAA, 0x0A, 5, 3, 0, 0])) = Some (Inr ((3, [0, 0, 0, 0]), s'))"
  using GetJpegPicture_silent [OF line_feeds ONE_SEC_small line_start_ok(1) _ _ _ line_start_ok(2),
    where junk = "[0, 0, 0, 0, 0, 0]" and processDelay = 100 and dataBuffer = "[0, 0, 0, 0]" and ty = 5 and resp = "replicate 512 0"
      and a = "[0xAA, 0x0E, 4, 0, 0, 0]" and h = "[0xAA, 0x0A, 5, 3, 0, 0]"]
  by (auto simp: is_ack_def is_data_def cmd_defs picture_size_eq)

section \<open>Synchronisation\<close>

lemma HUNDRED_MS_small: "unat HUNDRED_MS \<le> unat ONE_SEC"
  by (simp add: HUNDRED_MS_def ONE_SEC_def sysTICSperSEC_def PCLK_def)

lemma hash_ok:
  assumes "feeds B G T step irq" "cam_ok T s"
  shows "cam_ok T (on_uart1 (uart1Putch B c) s) \<and> to_come G (on_uart1 (uart1Putch B c) s) = to_come G s"
  using uart_Putch_quiet [OF assms(1), of "\<lparr>un = u1 s, cpsr = cam_cpsr s, mc = cmc s\<rparr>"]
  by (intro on_uart1_ok [OF assms(2)]) (simp add: uart1Putch_def)

definition sync_answer :: "u8 list \<Rightarrow> bool" where
  "sync_answer bs \<longleftrightarrow> 12 \<le> length bs \<and> bs ! 1 = CMD_ACK \<and> bs ! 2 = CMD_SYNC \<and> bs ! 7 = CMD_SYNC"

text \<open>One attempt: it succeeds on the right answer, and otherwise goes on with fewer bytes to come.\<close>

lemma sync_turn:
  assumes fe: "feeds B G T step irq" and small: "unat ONE_SEC + 2 * step < 2 ^ 32" and ok: "cam_ok T s" and l: "length recv = 12"
  shows "(sync_answer (to_come G s) \<longrightarrow> (\<exists>s'. sync_loop B irq (Suc n) i recv s = Some (Inr (int i, s')) \<and> cam_ok T s' \<and> to_come G s' = drop 12 (to_come G s))) \<and>
    (\<not> sync_answer (to_come G s) \<longrightarrow> (\<exists>recv' s' k. sync_loop B irq (Suc n) i recv s = sync_loop B irq n (i + 1) recv' s' \<and>
        length recv' = 12 \<and> cam_ok T s' \<and> to_come G s' = drop k (to_come G s)))"
proof -
  have d: "unat HUNDRED_MS + step < 2 ^ 32" using small HUNDRED_MS_small by linarith
  let ?s0 = "SendCommand B [CMD_PREFIX, CMD_SYNC, 0, 0, 0, 0] s"
  have 0: "cam_ok T ?s0" "to_come G ?s0 = to_come G s" using SendCommand_ok [OF fe ok] by simp_all
  obtain s1 where 1: "cam_pause B HUNDRED_MS ?s0 = Some (Inr ((), s1))" "cam_ok T s1" "to_come G s1 = to_come G s"
    using cam_pause_ok [OF fe 0(1) d] 0(2) by auto
  obtain st r s2 where 2: "WaitForResponse B irq recv 0 6 s1 = Some (Inr ((st, r), s2))" "cam_ok T s2" "to_come G s2 = drop 6 (to_come G s)"
    "length r = 12" "st = 6 \<longleftrightarrow> 6 \<le> length (to_come G s)" "st = 6 \<longrightarrow> (\<forall>k < 6. r ! k = to_come G s ! k)"
    using six_bytes [OF fe small 1(2), of recv] l 1(3) by auto
  show ?thesis
  proof (cases "st = 6 \<and> r ! 1 = CMD_ACK \<and> r ! 2 = CMD_SYNC")
    case False
    then have "\<not> sync_answer (to_come G s)" using 2(5,6) by (auto simp: sync_answer_def)
    moreover have "sync_loop B irq (Suc n) i recv s = sync_loop B irq n (i + 1) r (on_uart1 (uart1Putch B 35) s2)"
      using False by (auto simp: 1(1) 2(1))
    ultimately show ?thesis using hash_ok [OF fe 2(2)] 2(3,4) by metis
  next
    case True
    obtain s3 where 3: "cam_pause B HUNDRED_MS s2 = Some (Inr ((), s3))" "cam_ok T s3" "to_come G s3 = drop 6 (to_come G s)"
      using cam_pause_ok [OF fe 2(2) d] 2(3) by auto
    obtain st2 r2 s4 where 4: "WaitForResponse B irq r 0 6 s3 = Some (Inr ((st2, r2), s4))" "cam_ok T s4" "to_come G s4 = drop 12 (to_come G s)"
      "length r2 = 12" "st2 = 6 \<longleftrightarrow> 6 \<le> length (drop 6 (to_come G s))" "st2 = 6 \<longrightarrow> (\<forall>k < 6. r2 ! k = drop 6 (to_come G s) ! k)"
      using six_bytes [OF fe small 3(2), of r] 2(4) 3(3) by auto
    have "(st2 = 6 \<and> r2 ! 1 = CMD_SYNC) \<longleftrightarrow> sync_answer (to_come G s)"
      using True 2(5,6) 4(5,6) by (auto simp: sync_answer_def)
    moreover have "sync_loop B irq (Suc n) i recv s = (if st2 = 6 \<and> r2 ! 1 = CMD_SYNC then Some (Inr (int i, SendACK B (ucast CMD_SYNC) 0 s4))
        else sync_loop B irq n (i + 1) r2 (on_uart1 (uart1Putch B 35) s4))"
      using True by (auto simp: 1(1) 2(1) 3(1) 4(1))
    ultimately show ?thesis
      using hash_ok [OF fe 4(2)] SendACK_ok [OF fe 4(2)] 4(3,4) by (cases "sync_answer (to_come G s)") (simp, metis)+
  qed
qed

lemma sync_loop_ends:
  assumes fe: "feeds B G T step irq" and small: "unat ONE_SEC + 2 * step < 2 ^ 32"
  shows "cam_ok T s \<Longrightarrow> length recv = 12 \<Longrightarrow>
    \<exists>r s'. sync_loop B irq n i recv s = Some (Inr (r, s')) \<and> cam_ok T s' \<and> - 1 \<le> r \<and> r < int (i + n) \<and>
      (to_come G s = [] \<longrightarrow> r = - 1)"
proof (induction n arbitrary: i recv s)
  case (Suc n)
  note t = sync_turn [OF fe small Suc.prems, of n i]
  show ?case
  proof (cases "sync_answer (to_come G s)")
    case True
    then show ?thesis using t by (auto simp: sync_answer_def)
  next
    case False
    then obtain recv' s' k where e: "sync_loop B irq (Suc n) i recv s = sync_loop B irq n (i + 1) recv' s'" "length recv' = 12"
      "cam_ok T s'" "to_come G s' = drop k (to_come G s)" using t by blast
    then show ?thesis using Suc.IH [OF e(3,2), of "i + 1"] by auto
  qed
qed auto

text \<open>
  \<^verbatim>\<open>Sync\<close> always returns, with the number of the successful attempt or -1 after sixty: a camera that
  answers the first command with an acknowledge and a sync command is recognised at once, those twelve
  bytes being consumed and nothing more, and a silent one gives -1.
\<close>

theorem Sync_outcome:
  assumes "feeds B G T step irq" "unat ONE_SEC + 2 * step < 2 ^ 32" "cam_ok T s" "length junk = 12"
  shows "\<exists>r s'. Sync B irq junk s = Some (Inr (r, s')) \<and> cam_ok T s' \<and> - 1 \<le> r \<and> r < 60 \<and>
    (sync_answer (to_come G s) \<longrightarrow> r = 0 \<and> to_come G s' = drop 12 (to_come G s)) \<and>
    (to_come G s = [] \<longrightarrow> r = - 1)"
proof (cases "sync_answer (to_come G s)")
  case True
  have "60 = Suc 59" by simp
  then show ?thesis
    using sync_turn [OF assms, of 59 0] True unfolding Sync_def by (auto simp: sync_answer_def)
next
  case False
  then show ?thesis using sync_loop_ends [OF assms, of 60 0] unfolding Sync_def by auto
qed

theorem Sync_outcome_witness:
  "\<exists>s'. Sync line_bus line_irq (replicate 12 0) (line_start [0xAA, 0x0E, 0x0D, 0, 0, 0, 0xAA, 0x0D, 0, 0, 0, 0]) = Some (Inr (0, s'))"
  using Sync_outcome [OF line_feeds ONE_SEC_small line_start_ok(1), of "replicate 12 0" "[0xAA, 0x0E, 0x0D, 0, 0, 0, 0xAA, 0x0D, 0, 0, 0, 0]"]
  by (auto simp: line_start_ok sync_answer_def cmd_defs)

end
