(* ===== verification/Camera_Main.thy ===== *)
theory Camera_Main
  imports C328r
begin

text \<open>
  The camera program \<^verbatim>\<open>software/camera/main.c\<close> on top of the camera protocol: set-up, synchronisation,
  configuration, and the loop that takes snapshots and turns them into images for the display. The display
  driver is not part of the repository; drawing has no effect on the state here. \<open>buff\<close> and \<open>img\<close> are the
  program's arrays of 40000 elements.
\<close>

section \<open>Set-up\<close>

text \<open>\<open>UART_BAUD\<close> rounds the quotient.\<close>

definition UART_BAUD :: "nat \<Rightarrow> u16" where
  "UART_BAUD baud = of_nat ((2 * PCLK + baud * 16) div (2 * baud * 16))"

definition UART_8N1 :: u8 where
  "UART_8N1 = 3"

definition UART_FIFO_OFF :: u8 where
  "UART_FIFO_OFF = 0"

definition camera_setup :: "'d bus \<Rightarrow> u32 \<Rightarrow> u32 \<Rightarrow> u32 \<Rightarrow> 'd cam \<Rightarrow> 'd cam" where
  "camera_setup B isr0 isr1 isrSpurious s =
     (let m = wr B VICIntEnClr 0xFFFFFFFF (cmc s);
          m = wr B VICIntSelect 0 m;
          m = wr B VICDefVectAddr isrSpurious m;
          (t, m) = initSysTime B (tm s, m);
          (p1, m) = uart1Init B isr1 (UART_BAUD 9600) UART_8N1 UART_FIFO_OFF (u1 s, m);
          (p0, m) = uart0Init B isr0 (UART_BAUD 9600) UART_8N1 UART_FIFO_OFF (u0 s, m);
          s = s\<lparr>tm := t, u1 := p1, u0 := p0, cmc := m, cam_cpsr := snd (enableIRQ (cam_cpsr s))\<rparr>;
          s = say B ([10, 13, 10, 13] @ bytes ''*** CAMERA TEST C328R ***'' @ [10, 13]) s
      in on_uart0 (\<lambda>u. ((), uart0TxFlush B u)) s)"

section \<open>Synchronisation and configuration\<close>

partial_function (option) sync_phase :: "'d bus \<Rightarrow> ('d cam \<Rightarrow> 'd cam) \<Rightarrow> u8 list \<Rightarrow> 'd cam \<Rightarrow> ('d, unit) cam_run" where
  "sync_phase B irq junk s =
     bind_run (Sync B irq junk s) (\<lambda>r s.
       if r \<noteq> - 1 then
         bind_run (cam_pause B ONE_SEC (say B (bytes ''Sync: OK'' @ [10, 13]) s)) (\<lambda>_ s.
         bind_run (SetBaudRate B irq junk 7 s) (\<lambda>i s.
           Some (Inr ((), if i = 0 then say B (bytes ''Baudrate:OK'' @ [10, 13]) s else s))))
       else sync_phase B irq junk (say B (bytes ''Not Sync'' @ [10]) s))"

declare sync_phase.simps [code]

text \<open>Between synchronisation and the snapshots; the result says whether the snapshots are reached.\<close>

definition config_phase :: "'d bus \<Rightarrow> ('d cam \<Rightarrow> 'd cam) \<Rightarrow> u8 list \<Rightarrow> u32 \<Rightarrow> 'd cam \<Rightarrow> ('d, bool) cam_run" where
  "config_phase B irq junk isr0 s =
     (let (p0, m) = uart0Init B isr0 (UART_BAUD 115200) UART_8N1 UART_FIFO_OFF (u0 s, cmc s);
          s = s\<lparr>u0 := p0, cmc := m\<rparr>
      in bind_run (Initial B irq junk 6 3 0 s) (\<lambda>i s.
           if i \<noteq> 0 then Some (Inr (False, s))
           else bind_run (LightFrequency B irq junk 0 (say B (bytes ''Initial: OK'' @ [10, 13]) s)) (\<lambda>i s.
                  if i \<noteq> 0 then Some (Inr (False, s))
                  else Some (Inr (True, say B (bytes ''LigthFrequency: OK'' @ [10, 13]) s)))))"

section \<open>Snapshots\<close>

text \<open>\<open>for (k = 2, j = 0; j < i; k++) { img[k] = buff[j] << 8 | buff[j + 1]; j += 2; }\<close>\<close>

function convert :: "u8 list \<Rightarrow> int \<Rightarrow> nat \<Rightarrow> nat \<Rightarrow> u16 list \<Rightarrow> fault + u16 list" where
  "convert buff i k j img =
     (if int j < i then
        (if length buff \<le> j + 1 \<or> length img \<le> k then Inl OutOfBounds
         else convert buff i (k + 1) (j + 2) (img[k := push_bit 8 (ucast (buff ! j)) OR ucast (buff ! (j + 1))]))
      else Inr img)"
  by pat_completeness auto

termination
  by (relation "measure (\<lambda>(buff, i, k, j, img). nat (i - int j))") auto

declare convert.simps [simp del]

text \<open>One turn of the snapshot loop: \<open>None\<close> when it breaks, otherwise the image that is drawn.\<close>

definition snapshot_turn ::
  "'d bus \<Rightarrow> ('d cam \<Rightarrow> 'd cam) \<Rightarrow> u8 list \<Rightarrow> u8 list \<Rightarrow> u16 list \<Rightarrow> 'd cam \<Rightarrow> ('d, u16 list option \<times> u8 list) cam_run" where
  "snapshot_turn B irq junk buff img s =
     bind_run (Snapshot B irq junk 1 0 s) (\<lambda>i s.
       if i \<noteq> 0 then Some (Inr ((None, buff), s))
       else bind_run (GetRawPicture B irq junk 1 buff 0 (say B (bytes ''Snapshot: OK'' @ [10, 13]) s)) (\<lambda>(i, buff) s.
         if i = - 1 then Some (Inr ((None, buff), say B (bytes ''GetRawPicError'' @ [10, 13]) s))
         else
           let s = say B (bytes ''GetRawPicture: OK (Len: '' @ decimal (nat i) @ bytes '')'' @ [10, 13]) s in
           if length img < 2 then Some (Inl OutOfBounds)
           else case convert buff i 2 0 (img[0 := 128, 1 := 160]) of
                  Inl f \<Rightarrow> Some (Inl f)
                | Inr img \<Rightarrow> Some (Inr ((Some img, buff), s))))"

partial_function (option) snapshot_loop ::
  "'d bus \<Rightarrow> ('d cam \<Rightarrow> 'd cam) \<Rightarrow> u8 list \<Rightarrow> u8 list \<Rightarrow> u16 list \<Rightarrow> 'd cam \<Rightarrow> ('d, u8 list) cam_run" where
  "snapshot_loop B irq junk buff img s =
     bind_run (snapshot_turn B irq junk buff img s) (\<lambda>(r, buff) s.
       case r of None \<Rightarrow> Some (Inr (buff, s)) | Some img \<Rightarrow> snapshot_loop B irq junk buff img s)"

declare snapshot_loop.simps [code]

text \<open>One turn of the outer loop.\<close>

definition session :: "'d bus \<Rightarrow> ('d cam \<Rightarrow> 'd cam) \<Rightarrow> u8 list \<Rightarrow> u32 \<Rightarrow> u8 list \<Rightarrow> u16 list \<Rightarrow> 'd cam \<Rightarrow> ('d, u8 list) cam_run" where
  "session B irq junk isr0 buff img s =
     bind_run (sync_phase B irq junk s) (\<lambda>_ s.
     bind_run (config_phase B irq junk isr0 s) (\<lambda>ok s.
       if ok then snapshot_loop B irq junk buff img s else Some (Inr (buff, s))))"

section \<open>The image\<close>

text \<open>A pixel of the picture: two bytes, the high one first.\<close>

definition pixel :: "u8 list \<Rightarrow> nat \<Rightarrow> u16" where
  "pixel pic n = push_bit 8 (ucast (pic ! (2 * n))) OR ucast (pic ! (2 * n + 1))"

lemma convert_pixels:
  "j = 2 * n \<Longrightarrow> i = int (2 * (n + r)) \<Longrightarrow> 2 * (n + r) \<le> length buff \<Longrightarrow> k + r \<le> length img \<Longrightarrow>
   convert buff i k j img = Inr (patch img k (map (pixel buff) [n..<n + r]))"
proof (induction r arbitrary: k j n img)
  case 0
  then show ?case by (subst convert.simps) simp
next
  case (Suc r)
  have "convert buff i k j img = convert buff i (k + 1) (j + 2) (img[k := pixel buff n])"
    using Suc.prems by (subst convert.simps) (simp add: pixel_def)
  also have "\<dots> = Inr (patch (img[k := pixel buff n]) (k + 1) (map (pixel buff) [Suc n..<Suc n + r]))"
    using Suc.prems by (intro Suc.IH) simp_all
  also have "patch (img[k := pixel buff n]) (k + 1) (map (pixel buff) [Suc n..<Suc n + r]) = patch img k (map (pixel buff) [n..<n + Suc r])"
    using Suc.prems(4) patch_Cons [of k img "pixel buff n"] by (simp add: upt_conv_Cons del: upt_Suc)
  finally show ?case .
qed

lemma Snapshot_acked:
  assumes fe: "feeds B G T step irq" and ok: "cam_ok T s" and j: "length junk = 6"
    and c: "to_come G s = a @ rest" "is_ack CMD_SNAPSHOT a"
  shows "\<exists>s'. Snapshot B irq junk 1 0 s = Some (Inr (0, s')) \<and> cam_ok T s' \<and> to_come G s' = rest"
proof -
  let ?s = "SendCommand B [CMD_PREFIX, CMD_SNAPSHOT, ucast (1 :: u32), ucast (0 :: u32), ucast (drop_bit 8 (0 :: u32)), 0] s"
  have s: "cam_ok T ?s" "to_come G ?s = a @ rest" using SendCommand_ok [OF fe ok] c(1) by simp_all
  obtain s' where "WaitForResponse B irq junk 0 6 ?s = Some (Inr ((6, a), s'))" "cam_ok T s'" "to_come G s' = rest"
    using six_exactly [OF fe s _ j] c(2) by (auto simp: is_ack_def)
  then show ?thesis using c(2) by (simp add: Snapshot_def ReceiveACK_def is_ack_def)
qed

lemma image_of:
  assumes "2 + n \<le> length img"
  shows "length (patch (img[0 := v, 1 := w]) 2 (map f [0..<n])) = length img"
    "patch (img[0 := v, 1 := w]) 2 (map f [0..<n]) ! 0 = v" "patch (img[0 := v, 1 := w]) 2 (map f [0..<n]) ! 1 = w"
    "\<forall>k < n. patch (img[0 := v, 1 := w]) 2 (map f [0..<n]) ! (2 + k) = f k"
proof -
  obtain a b r where "img = a # b # r" using assms by (cases img; cases "tl img") auto
  then show "length (patch (img[0 := v, 1 := w]) 2 (map f [0..<n])) = length img"
    "patch (img[0 := v, 1 := w]) 2 (map f [0..<n]) ! 0 = v" "patch (img[0 := v, 1 := w]) 2 (map f [0..<n]) ! 1 = w"
    "\<forall>k < n. patch (img[0 := v, 1 := w]) 2 (map f [0..<n]) ! (2 + k) = f k"
    using assms by (simp_all add: patch_def nth_append)
qed


definition demo_answer :: "u8 list" where
  "demo_answer = [0xAA, 0x0E, 5, 0, 0, 0] @ [0xAA, 0x0E, 4, 0, 0, 0] @ [0xAA, 0x0A, 1, 4, 0, 0] @ [1, 2, 3, 4] @ []"


lemma wait_loop_full:
  assumes fe: "feeds B G T step irq" and ok: "cam_ok T s" and come: "to_come G s = c # cs" and full: "length buf \<le> pos" "len \<noteq> 0"
  shows "wait_loop B irq buf pos len res s = Some (Inl OutOfBounds)"
proof -
  obtain n t m where g: "getSysTICs B (tm s, cmc s) = (of_nat n, t, m)" "cam_ok T (s\<lparr>tm := t, cmc := m\<rparr>)"
    "to_come G (s\<lparr>tm := t, cmc := m\<rparr>) = c # cs"
    using wait_start [OF fe ok] come by auto
  obtain s1 where w: "wait_char B irq (of_nat n) (s\<lparr>tm := t, cmc := m\<rparr>) = Some (uint c, s1)"
    using wait_char_next [OF fe g(2,3)] by blast
  have "uint c \<noteq> - 1" using uint_ge_0 [of c] by linarith
  then show ?thesis using full by (subst wait_loop.simps) (simp add: g(1) w)
qed

lemma wait_loop_overflows:
  assumes fe: "feeds B G T step irq" and ok: "cam_ok T s" and come: "to_come G s = bs @ rest" and long: "length buf < length bs"
  shows "WaitForResponse B irq buf 0 (int (length bs)) s = Some (Inl OutOfBounds)"
proof -
  obtain xs c ys where bs: "bs = xs @ c # ys" and xs: "length xs = length buf"
    using long id_take_nth_drop [of "length buf" bs] by (metis length_take min.absorb4)
  obtain s1 where 1: "cam_ok T s1" "to_come G s1 = c # ys @ rest"
    "wait_loop B irq buf 0 (int (length xs) + (1 + int (length ys))) 0 s =
      wait_loop B irq (patch buf 0 xs) (0 + length xs) (1 + int (length ys)) (0 + int (length xs)) s1"
    using wait_loop_gets [OF fe _ ok, of "1 + int (length ys)" xs "c # ys @ rest" 0 buf 0] come bs xs by auto
  have "wait_loop B irq (patch buf 0 xs) (0 + length xs) (1 + int (length ys)) (0 + int (length xs)) s1 = Some (Inl OutOfBounds)"
    by (rule wait_loop_full [OF fe 1(1,2)]) (simp_all add: xs patch_length)
  moreover have "int (length bs) = int (length xs) + (1 + int (length ys))" using bs by simp
  ultimately show ?thesis using 1(3) unfolding WaitForResponse_def by metis
qed

text \<open>
  The program's own setting overruns its buffer: it asks for 160 by 128 pixels of two bytes, and a camera
  that sends these 40960 bytes makes the turn store behind the array of 40000 bytes.
\<close>

theorem snapshot_turn_overflows:
  assumes fe: "feeds B G T step irq" and ok: "cam_ok T s" and len: "length junk = 6" "step < 2 ^ 31"
    and come: "to_come G s = a @ b @ h @ pic @ rest" "is_ack CMD_SNAPSHOT a" "is_ack CMD_GETPICTURE b" "is_data h"
    and size: "int (length pic) = uint (h ! 3) + 256 * uint (h ! 4 OR h ! 5)" "length pic = 160 * 128 * 2" "length buff = 40000"
  shows "snapshot_turn B irq junk buff img s = Some (Inl OutOfBounds)"
proof -
  obtain s1 where 1: "Snapshot B irq junk 1 0 s = Some (Inr (0, s1))" "cam_ok T s1" "to_come G s1 = b @ h @ pic @ rest"
    using Snapshot_acked [OF fe ok len(1) come(1,2)] by blast
  let ?s2 = "say B (bytes ''Snapshot: OK'' @ [10, 13]) s1"
  have 2: "cam_ok T ?s2" "to_come G ?s2 = b @ h @ pic @ rest" using say_ok [OF fe 1(2)] 1(3) by simp_all
  obtain s3 where 3: "GetPictureCommand B irq junk 1 0 ?s2 = Some (Inr ((0, int (length pic)), s3))" "cam_ok T s3" "to_come G s3 = pic @ rest"
    using GetPictureCommand_ok [OF fe 2(1) len(1) _ 2(2) come(3,4), of 0 1] len(2) size(1) by (auto simp: picture_size_eq)
  let ?s4 = "say B (size_message (int (length pic))) s3"
  have 4: "cam_ok T ?s4" "to_come G ?s4 = pic @ rest" using say_ok [OF fe 3(2)] 3(3) by simp_all
  have "WaitForResponse B irq buff 0 (int (length pic)) ?s4 = Some (Inl OutOfBounds)"
    using wait_loop_overflows [OF fe 4, of buff] size(2,3) by simp
  then show ?thesis using 1(1) 3(1) by (simp add: snapshot_turn_def GetRawPicture_def)
qed

theorem snapshot_turn_overflows_witness:
  "snapshot_turn line_bus line_irq [0, 0, 0, 0, 0, 0] (replicate 40000 0) (replicate 40000 0)
     (line_start ([0xAA, 0x0E, 5, 0, 0, 0] @ [0xAA, 0x0E, 4, 0, 0, 0] @ [0xAA, 0x0A, 1, 0, 0xA0, 0] @ replicate 40960 7 @ [])) =
     Some (Inl OutOfBounds)"
  by (rule snapshot_turn_overflows [OF line_feeds line_start_ok(1) _ _ line_start_ok(2)])
    (simp_all add: is_ack_def is_data_def cmd_defs)

end
