(* ===== verification/Printf_P.thy ===== *)
theory Printf_P
  imports Prelude
begin

text \<open>
  The formatter \<open>_printf_P\<close> of \<^verbatim>\<open>software/sdcard/printf_P.c\<close>, in the configuration the program
  uses (\<open>LIGHTPRINTF\<close> not defined). The characters it sends are a byte list. The variable arguments
  are a list; fetching an argument that is not there, or of another kind, is undefined in C and
  \<open>None\<close> here. Width, precision and sizes are \<open>signed char\<close>, so every assignment to them wraps.
\<close>

section \<open>Types and helpers\<close>

datatype arg = AInt u32 | AStr "u8 list" | ANull

text \<open>Conversion to \<open>signed char\<close>.\<close>

definition sc :: "int \<Rightarrow> int" where
  "sc n = (n + 128) mod 256 - 128"

abbreviation chr :: "char \<Rightarrow> u8" where
  "chr c \<equiv> of_char c"

definition LONGINT :: u8 where
  "LONGINT = 0x01"

definition SHORTINT :: u8 where
  "SHORTINT = 0x04"

definition ALT :: u8 where
  "ALT = 0x08"

definition LADJUST :: u8 where
  "LADJUST = 0x10"

definition ZEROPAD :: u8 where
  "ZEROPAD = 0x20"

definition HEXPREFIX :: u8 where
  "HEXPREFIX = 0x40"

definition is_digit :: "u8 \<Rightarrow> bool" where
  "is_digit c \<longleftrightarrow> c \<le> 57 \<and> c \<ge> 48"

definition to_digit :: "u8 \<Rightarrow> int" where
  "to_digit c = int (unat c) - 48"

definition PAD_SP :: "int \<Rightarrow> u8 list" where
  "PAD_SP howmany = replicate (nat (sc howmany)) 32"

definition PAD_0 :: "int \<Rightarrow> u8 list" where
  "PAD_0 howmany = replicate (nat (sc howmany)) 48"

text \<open>\<open>*fmt++\<close>; at the end of the string it is the terminating NUL.\<close>

definition next_ch :: "u8 list \<Rightarrow> u8 \<times> u8 list" where
  "next_ch fmt = (case fmt of [] \<Rightarrow> (0, []) | c # cs \<Rightarrow> (c, cs))"

definition va_int :: "arg list \<Rightarrow> (u32 \<times> arg list) option" where
  "va_int ap = (case ap of AInt v # r \<Rightarrow> Some (v, r) | _ \<Rightarrow> None)"

lemma next_ch_shorter:
  "next_ch fmt = (ch', fmt') \<Longrightarrow> length fmt' + (if ch' = 0 then 0 else 1) \<le> length fmt"
  by (cases fmt) (auto simp: next_ch_def)

text \<open>A decimal number in the format: the digits from \<open>ch\<close> on, and the first character after them.\<close>

fun number_in :: "int \<Rightarrow> u8 \<Rightarrow> u8 list \<Rightarrow> int \<times> u8 \<times> u8 list" where
  "number_in n ch [] = (if is_digit ch then (n * 10 + to_digit ch, 0, []) else (n, ch, []))"
| "number_in n ch (c # cs) = (if is_digit ch then number_in (n * 10 + to_digit ch) c cs else (n, ch, c # cs))"

lemma number_in_shorter:
  "number_in n ch fmt = (n', ch', fmt') \<Longrightarrow>
     length fmt' + (if ch' = 0 then 0 else 1) + (if is_digit ch then 1 else 0) \<le> length fmt + (if ch = 0 then 0 else 1)"
proof (induction n ch fmt rule: number_in.induct)
  case (1 n ch)
  have "is_digit ch \<Longrightarrow> ch \<noteq> 0" by (auto simp: is_digit_def)
  with 1 show ?case by (auto split: if_splits)
next
  case (2 n ch c cs)
  show ?case
  proof (cases "is_digit ch")
    case True
    then have "ch \<noteq> 0" by (auto simp: is_digit_def)
    then show ?thesis using 2(1) [OF True] 2(2) True by (auto split: if_splits)
  next
    case False
    then show ?thesis using 2(2) by auto
  qed
qed

section \<open>Digits of a number\<close>

definition digit_char :: "bool \<Rightarrow> u8 \<Rightarrow> u8" where
  "digit_char upper d = (if d < 10 then d + 48 else let d = d + (97 - 10) in if upper then d AND NOT 0x20 else d)"

text \<open>
  The \<open>do ... while (notlastdigit)\<close> loop, which fills the buffer from its end. The bases are 8, 10
  and 16; the guard against smaller ones is for termination only.
\<close>

function digits :: "u32 \<Rightarrow> bool \<Rightarrow> u32 \<Rightarrow> u8 list \<Rightarrow> u8 list" where
  "digits base upper n acc =
     (let acc = digit_char upper (ucast (n mod base)) # acc in
      if base \<le> n \<and> 2 \<le> base then digits base upper (n div base) acc else acc)"
  by pat_completeness auto
termination
proof (relation "measure (\<lambda>(base, upper, n, acc). unat n)", goal_cases)
  case (2 base upper n acc x)
  then have "1 < unat base" "0 < unat n"
    by (auto simp: word_le_nat_alt unat_gt_0 intro: ccontr)
  then show ?case by (simp add: unat_div div_less_dividend)
qed simp

declare digits.simps [simp del]

section \<open>Conversion specifications\<close>

record conv =
  flags :: u8
  width :: int
  prec :: int
  sign :: u8

definition conv0 :: conv where
  "conv0 = \<lparr>flags = 0, width = 0, prec = -1, sign = 0\<rparr>"

definition has :: "conv \<Rightarrow> u8 \<Rightarrow> bool" where
  "has c f \<longleftrightarrow> flags c AND f \<noteq> 0"

text \<open>
  How a conversion ends: the format is used up, or a field is to be printed: the conversion
  character, the flags, \<open>dprec\<close> and the bytes at \<open>cp\<close>, with the rest of the format and arguments and
  the value left in \<open>_ulong\<close>.
\<close>

datatype ending = Stop | Field u8 conv int "u8 list" "u8 list" "arg list" u32

text \<open>The labels \<open>nosign\<close> and \<open>number\<close>.\<close>

definition number_field :: "u8 \<Rightarrow> u32 \<Rightarrow> conv \<Rightarrow> u8 list \<Rightarrow> arg list \<Rightarrow> u32 \<Rightarrow> ending" where
  "number_field ch base c fmt ap ul =
     (let dprec = prec c;
          c = (if dprec \<ge> 0 then c\<lparr>flags := flags c AND NOT ZEROPAD\<rparr> else c)
      in if ul \<noteq> 0 \<or> prec c \<noteq> 0 then
           let ds = digits base (ch = chr CHR ''X'') ul [];
               ds = (if base = 8 \<and> has c ALT \<and> hd ds \<noteq> 48 then 48 # ds else ds)
           in Field ch c dprec ds fmt ap 0
         else Field ch c dprec [] fmt ap ul)"

definition nosign_field :: "u8 \<Rightarrow> u32 \<Rightarrow> conv \<Rightarrow> u8 list \<Rightarrow> arg list \<Rightarrow> u32 \<Rightarrow> ending" where
  "nosign_field ch base c fmt ap ul = number_field ch base (c\<lparr>sign := 0\<rparr>) fmt ap ul"

text \<open>The argument of an unsigned conversion, fetched at the label \<open>reswitch\<close> for \<open>u\<close>, \<open>x\<close> and \<open>X\<close>.\<close>

definition fetch_unsigned :: "u8 \<Rightarrow> conv \<Rightarrow> arg list \<Rightarrow> u32 \<Rightarrow> (u32 \<times> arg list) option" where
  "fetch_unsigned ch c ap ul =
     (if ch = chr CHR ''u'' \<or> ch OR 0x20 = chr CHR ''x'' then do {
        (d, ap) \<leftarrow> va_int ap;
        Some (if has c LONGINT then d else if has c SHORTINT then ucast (ucast d :: u16) else d, ap)
      } else Some (ul, ap))"

definition fetch_signed :: "conv \<Rightarrow> arg list \<Rightarrow> (u32 \<times> arg list) option" where
  "fetch_signed c ap = do {
     (d, ap) \<leftarrow> va_int ap;
     Some (if has c LONGINT then d else if has c SHORTINT then scast (ucast d :: u16) else d, ap)
   }"

text \<open>
  \<open>%s\<close>: the length goes into a \<open>signed char\<close>; when it comes out negative, \<open>PRINT\<close> takes it as a huge
  unsigned count and runs off the string, which is \<open>None\<close>.
\<close>

definition string_field :: "u8 \<Rightarrow> conv \<Rightarrow> u8 list \<Rightarrow> arg list \<Rightarrow> u32 \<Rightarrow> ending option" where
  "string_field ch c fmt ap ul =
     (let field = (\<lambda>cp r.
        let s = takeWhile (\<lambda>x. x \<noteq> 0) cp;
            size = (if prec c \<ge> 0 then min (int (length s)) (prec c) else sc (int (length s)))
        in if size < 0 then None else Some (Field ch (c\<lparr>sign := 0\<rparr>) 0 (take (nat size) s) fmt r ul))
      in case ap of
           AStr s # r \<Rightarrow> field s r
         | ANull # r \<Rightarrow> field (bytes ''(null)'') r
         | _ \<Rightarrow> None)"

function scan_conv :: "u8 \<Rightarrow> u8 list \<Rightarrow> arg list \<Rightarrow> conv \<Rightarrow> u32 \<Rightarrow> ending option" where
  "scan_conv ch fmt ap c ul =
     (if ch = 0 then Some Stop else
     Option.bind (fetch_unsigned ch c ap ul) (\<lambda>(ul, ap).
       let (ch', fmt') = next_ch fmt; rflag = (\<lambda>ap c. scan_conv ch' fmt' ap c ul) in
       if ch = chr CHR '' '' then rflag ap (if sign c = 0 then c\<lparr>sign := 32\<rparr> else c)
       else if ch = chr CHR ''#'' then rflag ap (c\<lparr>flags := flags c OR ALT\<rparr>)
       else if ch = chr CHR ''*'' then
         (case va_int ap of
            None \<Rightarrow> None
          | Some (w, ap) \<Rightarrow>
              let w = sc (sint w) in
              if w \<ge> 0 then rflag ap (c\<lparr>width := w\<rparr>)
              else rflag ap (c\<lparr>width := sc (- w), flags := (flags c OR LADJUST) AND NOT ZEROPAD\<rparr>))
       else if ch = chr CHR ''-'' then rflag ap (c\<lparr>flags := (flags c OR LADJUST) AND NOT ZEROPAD\<rparr>)
       else if ch = chr CHR ''+'' then rflag ap (c\<lparr>sign := chr CHR ''+''\<rparr>)
       else if ch = chr CHR ''.'' then
         (if ch' = chr CHR ''*'' then
            (case va_int ap of
               None \<Rightarrow> None
             | Some (n, ap) \<Rightarrow>
                 let (ch'', fmt'') = next_ch fmt' in
                 scan_conv ch'' fmt'' ap (c\<lparr>prec := sc (if sint n < 0 then -1 else sint n)\<rparr>) ul)
          else let (n, ch'', fmt'') = number_in 0 ch' fmt' in scan_conv ch'' fmt'' ap (c\<lparr>prec := sc n\<rparr>) ul)
       else if ch = chr CHR ''0'' then rflag ap (if \<not> has c LADJUST then c\<lparr>flags := flags c OR ZEROPAD\<rparr> else c)
       else if ch \<ge> chr CHR ''1'' \<and> ch \<le> chr CHR ''9'' then
         (let (n, ch'', fmt'') = number_in 0 ch fmt in scan_conv ch'' fmt'' ap (c\<lparr>width := sc n\<rparr>) ul)
       else if ch = chr CHR ''h'' then rflag ap (c\<lparr>flags := flags c OR SHORTINT\<rparr>)
       else if ch = chr CHR ''l'' then rflag ap (c\<lparr>flags := flags c OR LONGINT\<rparr>)
       else if ch = chr CHR ''c'' then
         map_option (\<lambda>(v, ap). Field ch (c\<lparr>sign := 0\<rparr>) 0 [ucast v] fmt ap ul) (va_int ap)
       else if ch = chr CHR ''D'' \<or> ch = chr CHR ''d'' \<or> ch = chr CHR ''i'' then
         (let c = (if ch = chr CHR ''D'' then c\<lparr>flags := flags c OR LONGINT\<rparr> else c) in
          case fetch_signed c ap of
            None \<Rightarrow> None
          | Some (d, ap) \<Rightarrow>
              Some (if sint d < 0 then number_field ch 10 (c\<lparr>sign := 45\<rparr>) fmt ap (- d)
                    else number_field ch 10 c fmt ap d))
       else if ch = chr CHR ''O'' \<or> ch = chr CHR ''o'' then
         Some (nosign_field ch 8 (if ch = chr CHR ''O'' then c\<lparr>flags := flags c OR LONGINT\<rparr> else c) fmt ap ul)
       else if ch = chr CHR ''p'' then
         map_option (\<lambda>(v, ap). nosign_field (chr CHR ''x'') 16 (c\<lparr>flags := flags c OR HEXPREFIX\<rparr>) fmt ap v) (va_int ap)
       else if ch = chr CHR ''s'' then string_field ch c fmt ap ul
       else if ch = chr CHR ''U'' \<or> ch = chr CHR ''u'' then
         Some (nosign_field ch 10 (if ch = chr CHR ''U'' then c\<lparr>flags := flags c OR LONGINT\<rparr> else c) fmt ap ul)
       else if ch = chr CHR ''X'' \<or> ch = chr CHR ''x'' then
         Some (nosign_field ch 16 (if has c ALT \<and> ul \<noteq> 0 then c\<lparr>flags := flags c OR HEXPREFIX\<rparr> else c) fmt ap ul)
       else Some (Field ch (c\<lparr>sign := 0\<rparr>) 0 [ch] fmt ap ul)))"
  by pat_completeness auto
termination
  by (relation "measure (\<lambda>(ch, fmt, ap, c, ul). length fmt + (if ch = 0 then 0 else 1))")
    (auto dest!: next_ch_shorter [OF sym] number_in_shorter [OF sym] split: if_splits simp: is_digit_def word_le_nat_alt)

declare scan_conv.simps [simp del]

text \<open>A conversion never gives back more of the format than it was given.\<close>

fun rest_ok :: "u8 list \<Rightarrow> ending option \<Rightarrow> bool" where
  "rest_ok fmt (Some (Field ch c dp cp fmt' ap ul)) \<longleftrightarrow> length fmt' \<le> length fmt"
| "rest_ok fmt r \<longleftrightarrow> True"

lemma rest_ok_intros:
  "(b \<Longrightarrow> rest_ok fmt x) \<Longrightarrow> (\<not> b \<Longrightarrow> rest_ok fmt y) \<Longrightarrow> rest_ok fmt (if b then x else y)"
  "(\<And>u v. m = Some (u, v) \<Longrightarrow> rest_ok fmt (k u v)) \<Longrightarrow> rest_ok fmt (Option.bind m (\<lambda>(u, v). k u v))"
  "(\<And>u v. m = Some (u, v) \<Longrightarrow> rest_ok fmt (k u v)) \<Longrightarrow> rest_ok fmt (case m of None \<Rightarrow> None | Some (u, v) \<Rightarrow> k u v)"
  "(\<And>v. rest_ok fmt (Some (g v))) \<Longrightarrow> rest_ok fmt (map_option g m)"
  by (auto split: option.splits prod.splits bind_splits) (cases m; auto)

lemma rest_ok_fields [simp]:
  "rest_ok fmt (Some (number_field ch base c fmt ap ul))" "rest_ok fmt (Some (nosign_field ch base c fmt ap ul))"
  "rest_ok fmt (string_field ch c fmt ap ul)" "rest_ok fmt (Some Stop)" "rest_ok fmt None"
  by (auto simp: number_field_def nosign_field_def string_field_def Let_def split: list.splits arg.splits)

lemma scan_conv_rest: "rest_ok fmt (scan_conv ch fmt ap c ul)"
proof (induction "length fmt + (if ch = 0 then 0 else 1 :: nat)" arbitrary: ch fmt ap c ul rule: less_induct)
  case less
  have rec: "rest_ok fmt (scan_conv x f ap2 c2 ul2)"
    if "ch \<noteq> 0" "length f + (if x = 0 then 0 else 1) \<le> length fmt" for x f ap2 c2 ul2
  proof -
    have "rest_ok f (scan_conv x f ap2 c2 ul2)" using that by (intro less.hyps) auto
    then show ?thesis using that(2)
      by (cases "scan_conv x f ap2 c2 ul2"; cases "the (scan_conv x f ap2 c2 ul2)") (auto split: if_splits)
  qed
  obtain c1 f1 where nx: "next_ch fmt = (c1, f1)" by (cases "next_ch fmt")
  note n1 = next_ch_shorter [OF nx]
  obtain c2 f2 where nx2: "next_ch f1 = (c2, f2)" by (cases "next_ch f1")
  obtain v3 c3 f3 where nx3: "number_in 0 c1 f1 = (v3, c3, f3)" by (cases "number_in 0 c1 f1")
  obtain v4 c4 f4 where nx4: "number_in 0 ch fmt = (v4, c4, f4)" by (cases "number_in 0 ch fmt")
  have b2: "length f2 + (if c2 = 0 then 0 else 1) \<le> length fmt"
    and b3: "length f3 + (if c3 = 0 then 0 else 1) \<le> length fmt"
    using n1 next_ch_shorter [OF nx2] number_in_shorter [OF nx3] by (auto split: if_splits)
  have b4: "length f4 + (if c4 = 0 then 0 else 1) \<le> length fmt" if "chr CHR ''1'' \<le> ch \<and> ch \<le> chr CHR ''9''" "ch \<noteq> 0"
  proof -
    have "is_digit ch" using that(1) by (auto simp: is_digit_def word_le_nat_alt)
    then show ?thesis using number_in_shorter [OF nx4] that(2) by auto
  qed
  show ?case
    by (subst scan_conv.simps, unfold Let_def nx nx2 nx3 nx4 prod.case)
      (intro rest_ok_intros rec [OF _ n1] rec [OF _ b2] rec [OF _ b3] rec [OF _ b4] rest_ok_fields, simp_all split: prod.split)
qed

section \<open>Printing a field\<close>

definition emit_field :: "u8 \<Rightarrow> conv \<Rightarrow> int \<Rightarrow> u8 list \<Rightarrow> u8 list" where
  "emit_field ch c dprec cp =
     (let size = int (length cp);
          dpad = sc (dprec - size);
          dpad = (if dpad < 0 then 0 else dpad);
          fieldsz = (if sign c \<noteq> 0 then sc (size + 1) else if has c HEXPREFIX then sc (size + 2) else size);
          fieldsz = sc (fieldsz + dpad)
      in (if flags c AND (LADJUST OR ZEROPAD) = 0 then PAD_SP (width c - fieldsz) else [])
         @ (if sign c \<noteq> 0 then [sign c] else if has c HEXPREFIX then [48, ch] else [])
         @ (if flags c AND (LADJUST OR ZEROPAD) = ZEROPAD then PAD_0 (width c - fieldsz) else [])
         @ PAD_0 dpad
         @ cp
         @ (if has c LADJUST then PAD_SP (width c - fieldsz) else []))"

text \<open>
  The outer loop: copy up to the next \<open>%\<close>, then one conversion. \<open>ul\<close> is the value \<open>_ulong\<close> has from
  the conversions before.
\<close>

function printf_loop :: "u8 list \<Rightarrow> arg list \<Rightarrow> u32 \<Rightarrow> u8 list option" where
  "printf_loop fmt ap ul =
     (let lit = takeWhile (\<lambda>ch. ch \<noteq> 0 \<and> ch \<noteq> 37) fmt in
      case dropWhile (\<lambda>ch. ch \<noteq> 0 \<and> ch \<noteq> 37) fmt of
        [] \<Rightarrow> Some lit
      | c # r \<Rightarrow>
          if c = 0 then Some lit
          else case scan_conv (fst (next_ch r)) (snd (next_ch r)) ap conv0 ul of
                 None \<Rightarrow> None
               | Some Stop \<Rightarrow> Some lit
               | Some (Field ch c dprec cp fmt' ap' ul') \<Rightarrow>
                   map_option (\<lambda>out. lit @ emit_field ch c dprec cp @ out) (printf_loop fmt' ap' ul'))"
  by pat_completeness auto
termination
proof (relation "measure (\<lambda>(fmt, ap, ul). length fmt)", goal_cases)
  case (2 fmt ap ul lit c r e ch cv dp cp fmt' ap' ul')
  have "length (snd (next_ch r)) \<le> length r" by (cases r) (auto simp: next_ch_def)
  moreover have "length fmt' \<le> length (snd (next_ch r))"
    using scan_conv_rest [of "snd (next_ch r)" "fst (next_ch r)" ap conv0 ul] 2 by auto
  moreover have "length (c # r) \<le> length fmt"
    using 2 length_dropWhile_le [of "\<lambda>ch. ch \<noteq> 0 \<and> ch \<noteq> 37" fmt] by auto
  ultimately show ?case by simp
qed simp

declare printf_loop.simps [simp del]

definition printf_P :: "u8 list \<Rightarrow> arg list \<Rightarrow> u8 list option" where
  "printf_P fmt ap = printf_loop fmt ap 0"

section \<open>Digits represent the number\<close>

text \<open>The value of a digit character and of a digit string.\<close>

definition char_value :: "u8 \<Rightarrow> nat" where
  "char_value c = (if c \<le> 57 then unat c - 48 else if c \<le> 90 then unat c - 55 else unat c - 87)"

fun number_value :: "nat \<Rightarrow> nat \<Rightarrow> u8 list \<Rightarrow> nat" where
  "number_value base v [] = v"
| "number_value base v (c # cs) = number_value base (v * base + char_value c) cs"

lemma all_below_16: "(\<forall>d < 16. P d) \<Longrightarrow> d < (16 :: nat) \<Longrightarrow> P d"
  by simp

lemma char_value_digit: "d < 16 \<Longrightarrow> char_value (digit_char upper (of_nat d)) = d"
proof -
  have "\<forall>d < 16. \<forall>upper. char_value (digit_char upper (of_nat d)) = d"
    by code_simp
  then show "d < 16 \<Longrightarrow> char_value (digit_char upper (of_nat d)) = d" by blast
qed

lemma number_value_append: "number_value b v (xs @ ys) = number_value b (number_value b v xs) ys"
  by (induction xs arbitrary: v) auto

lemma digits_acc: "digits base upper n acc = digits base upper n [] @ acc"
proof (induction "unat n" arbitrary: n acc rule: less_induct)
  case less
  let ?d = "digit_char upper (ucast (n mod base))"
  show ?case
  proof (cases "base \<le> n \<and> 2 \<le> base")
    case True
    then have "1 < unat base" "0 < unat n"
      by (auto simp: word_le_nat_alt unat_gt_0 intro: ccontr)
    then have lt: "unat (n div base) < unat n" by (simp add: unat_div)
    then show ?thesis
      using less.hyps [OF lt, of "?d # acc"] less.hyps [OF lt, of "[?d]"] True by (simp add: digits.simps [of base upper n])
  next
    case False
    then show ?thesis by (auto simp: digits.simps [of base upper n])
  qed
qed

lemma digits_step:
  "digits base upper n [] = (if base \<le> n \<and> 2 \<le> base then digits base upper (n div base) [] else [])
     @ [digit_char upper (ucast (n mod base))]"
  using digits_acc [of base upper "n div base" "[digit_char upper (ucast (n mod base))]"]
  by (simp add: digits.simps [of base upper n] Let_def)

lemma digits_value:
  assumes "2 \<le> base" "base \<le> 16"
  shows "number_value (unat base) 0 (digits base upper n []) = unat n"
proof (induction "unat n" arbitrary: n rule: less_induct)
  case less
  have b: "2 \<le> unat base" "unat base \<le> 16" using assms by (simp_all add: word_le_nat_alt)
  have d: "char_value (digit_char upper (ucast (n mod base))) = unat n mod unat base"
  proof -
    have "unat n mod unat base < unat base" using b by (intro mod_less_divisor) simp
    then have "unat n mod unat base < 16" using b by linarith
    then have "unat (n mod base) < 16" by (simp only: unat_mod)
    moreover have "(ucast (n mod base) :: u8) = of_nat (unat (n mod base))" by simp
    ultimately show ?thesis using char_value_digit [of "unat (n mod base)" upper] by (simp only: unat_mod)
  qed
  show ?case
  proof (cases "base \<le> n")
    case True
    then have "0 < unat n" using b by (simp add: word_le_nat_alt)
    then have "unat (n div base) < unat n" using b by (simp add: unat_div)
    from less.hyps [OF this] show ?thesis
      using True assms by (simp add: digits_step [of base upper n] number_value_append d unat_div)
  next
    case False
    then have "unat n mod unat base = unat n" by (simp add: word_le_nat_alt)
    then show ?thesis using False by (simp add: digits_step [of base upper n] d)
  qed
qed

lemma length_digits: "unat n < 2 ^ Suc k \<Longrightarrow> 2 \<le> base \<Longrightarrow> length (digits base upper n []) \<le> Suc k"
proof (induction k arbitrary: n)
  case 0
  then have "\<not> base \<le> n" by (simp add: word_le_nat_alt)
  then show ?case by (simp add: digits_step [of base upper n])
next
  case (Suc k)
  have "2 \<le> unat base" using Suc.prems(2) by (simp add: word_le_nat_alt)
  then have "unat n div unat base \<le> unat n div 2" by (intro div_le_mono2) auto
  then have "unat (n div base) < 2 ^ Suc k" using Suc.prems(1) by (simp add: unat_div)
  from Suc.IH [OF this Suc.prems(2)] show ?case by (simp add: digits_step [of base upper n])
qed

lemma sc_small: "-128 \<le> n \<Longrightarrow> n \<le> 127 \<Longrightarrow> sc n = n"
  by (simp add: sc_def)

lemma abs_sint: "int (unat (if sint v < 0 then - v else v)) = \<bar>sint (v :: u32)\<bar>"
proof -
  have s: "sint v = (uint v + 2 ^ 31) mod 2 ^ 32 - 2 ^ 31"
    by (simp add: sint_uint signed_take_bit_eq_take_bit_shift take_bit_eq_mod)
  have u: "0 \<le> uint v" "uint v < 2 ^ 32" using uint_bounded [of v] by simp_all
  have m: "uint (- v) = (- uint v) mod 2 ^ 32" by (simp add: uint_word_ariths)
  have i: "int (unat w) = uint w" for w :: u32 by simp
  show ?thesis
  proof (cases "uint v < 2 ^ 31")
    case True
    then have "sint v = uint v" using s u by simp
    then show ?thesis using u by simp
  next
    case False
    then have "(uint v + 2 ^ 31) mod 2 ^ 32 = uint v + 2 ^ 31 - 2 ^ 32" using u by (simp add: mod_pos_geq)
    then have sv: "sint v = uint v - 2 ^ 32" using s by simp
    moreover have "(- uint v) mod 2 ^ 32 = 2 ^ 32 - uint v"
      using False u by (intro int_mod_pos_eq [of _ _ "-1"]) auto
    ultimately show ?thesis using u m by simp
  qed
qed

lemma emit_plain:
  "length cp \<le> 100 \<Longrightarrow> emit_field ch \<lparr>flags = 0, width = 0, prec = -1, sign = s\<rparr> (-1) cp = (if s \<noteq> 0 then [s] else []) @ cp"
  by (simp add: emit_field_def Let_def has_def PAD_SP_def PAD_0_def sc_small)

lemma and_one_bit: "f AND push_bit n 1 = (if bit f n then push_bit n 1 else (0 :: u8))"
  by (rule bit_word_eqI) (auto simp: bit_simps)

lemma pad_flags:
  "f AND (LADJUST OR ZEROPAD) = 0 \<and> f AND LADJUST = 0 \<or>
   f AND (LADJUST OR ZEROPAD) = ZEROPAD \<and> f AND LADJUST = 0 \<or>
   f AND (LADJUST OR ZEROPAD) \<noteq> 0 \<and> f AND (LADJUST OR ZEROPAD) \<noteq> ZEROPAD \<and> f AND LADJUST \<noteq> 0"
proof -
  have "f AND LADJUST = (if bit f 4 then LADJUST else 0)" "f AND ZEROPAD = (if bit f 5 then ZEROPAD else 0)"
    using and_one_bit [of f 4] and_one_bit [of f 5] by (simp_all add: LADJUST_def ZEROPAD_def)
  moreover have "f AND (LADJUST OR ZEROPAD) = (f AND LADJUST) OR (f AND ZEROPAD)"
    by (simp add: bit.conj_disj_distrib)
  ultimately show ?thesis by (simp add: LADJUST_def ZEROPAD_def)
qed

section \<open>Properties\<close>

text \<open>
  Digits: in each base the formatter uses, the digit string it builds for a 32-bit number reads
  back as that number, in lower and in upper case.
\<close>

theorem digits_roundtrip:
  assumes "base = 8 \<or> base = 10 \<or> base = 16"
  shows "number_value (unat base) 0 (digits base upper n []) = unat n"
  using assms by (intro digits_value) auto

theorem digits_roundtrip_witness:
  "number_value 16 0 (digits 16 True 0xBEEF []) = 48879"
  using digits_roundtrip [of 16 True 48879] by simp

text \<open>
  \<open>%d\<close> prints every \<open>int\<close> as an optional minus sign and the decimal digits of its absolute value,
  the smallest \<open>int\<close> included, whose negation overflows.
\<close>

theorem printf_decimal:
  "\<exists>ds. printf_P (bytes ''%d'') [AInt v] = Some ((if sint v < 0 then [45] else []) @ ds)
     \<and> int (number_value 10 0 ds) = \<bar>sint v\<bar>"
proof -
  let ?n = "if sint v < 0 then - v else v" and ?c = "if sint v < 0 then conv0\<lparr>sign := 45\<rparr> else conv0"
  let ?ds = "digits 10 False ?n []"
  have "unat ?n < 2 ^ Suc 31" using unsigned_less [of ?n] by simp
  then have len: "length ?ds \<le> 32" using length_digits [of ?n 31 10 False] by simp
  have nf: "number_field 100 10 ?c [] [] ?n = Field 100 ?c (-1) ?ds [] [] 0"
    by (simp add: number_field_def conv0_def Let_def)
  have sc: "scan_conv 100 [] [AInt v] conv0 0 = Some (Field 100 ?c (-1) ?ds [] [] 0)"
    using nf by (subst scan_conv.simps)
      (simp add: fetch_unsigned_def next_ch_def fetch_signed_def va_int_def has_def conv0_def split: if_splits)
  have em: "emit_field 100 ?c (-1) ?ds = (if sint v < 0 then [45] else []) @ ?ds"
    using emit_plain [of ?ds 100 45] emit_plain [of ?ds 100 0] len by (simp add: conv0_def split: if_splits)
  have "printf_loop [] [] 0 = Some []" by (simp add: printf_loop.simps)
  then have "printf_P (bytes ''%d'') [AInt v] = Some ((if sint v < 0 then [45] else []) @ ?ds)"
    using sc em unfolding printf_P_def
    by (subst printf_loop.simps) (simp add: bytes_def next_ch_def)
  moreover have "int (number_value 10 0 ?ds) = \<bar>sint v\<bar>"
    using digits_value [of 10 False ?n] abs_sint [of v] by simp
  ultimately show ?thesis by blast
qed

text \<open>
  Field width: a string or number of at most 100 characters is padded to exactly the requested
  width, with the sign and the prefix counted, on the left or on the right, with blanks or zeros.
\<close>

theorem emit_field_width:
  assumes "0 \<le> width c" and "width c \<le> 127" and "length cp \<le> 100" and "dprec \<le> 0" and "-1 \<le> dprec"
  shows "length (emit_field ch c dprec cp) =
     max (nat (width c)) (length cp + (if sign c \<noteq> 0 then 1 else if has c HEXPREFIX then 2 else 0))"
proof -
  let ?pre = "if sign c \<noteq> 0 then 1 else if has c HEXPREFIX then 2 else 0 :: int"
  let ?f = "int (length cp) + ?pre"
  have d: "(if sc (dprec - int (length cp)) < 0 then 0 else sc (dprec - int (length cp))) = 0"
    using assms by (simp add: sc_small)
  have f: "(if sign c \<noteq> 0 then sc (int (length cp) + 1) else if has c HEXPREFIX then sc (int (length cp) + 2) else int (length cp)) = ?f"
    using assms(3) by (simp add: sc_small)
  have f2: "sc (?f + 0) = ?f" "sc (width c - ?f) = width c - ?f" using assms by (simp_all add: sc_small)
  have cases: "flags c AND (LADJUST OR ZEROPAD) = 0 \<and> \<not> has c LADJUST \<or>
      flags c AND (LADJUST OR ZEROPAD) = ZEROPAD \<and> \<not> has c LADJUST \<or>
      flags c AND (LADJUST OR ZEROPAD) \<noteq> 0 \<and> flags c AND (LADJUST OR ZEROPAD) \<noteq> ZEROPAD \<and> has c LADJUST"
    using pad_flags [of "flags c"] by (simp add: has_def)
  have z: "ZEROPAD \<noteq> 0" by (simp add: ZEROPAD_def)
  show ?thesis
    unfolding emit_field_def Let_def d f f2 using cases z
    by (elim disjE conjE) (auto simp: PAD_SP_def PAD_0_def f2 max_def sc_def [of 0] nat_le_iff nat_diff_distrib nat_add_distrib)
qed

theorem emit_field_width_witness:
  "length (emit_field (chr CHR ''x'') \<lparr>flags = ZEROPAD OR HEXPREFIX, width = 8, prec = -1, sign = 0\<rparr> (-1) (bytes ''beef'')) = 8"
  using emit_field_width [of "\<lparr>flags = ZEROPAD OR HEXPREFIX, width = 8, prec = -1, sign = 0\<rparr>" "bytes ''beef''" "-1" "chr CHR ''x''"]
  by (simp add: bytes_def has_def ZEROPAD_def HEXPREFIX_def)

text \<open>
  \<open>%o\<close> ignores its argument: only \<open>u\<close>, \<open>x\<close> and \<open>X\<close> fetch one, so the octal conversion prints what
  the conversion before it left, which is zero, and the argument goes to the next conversion.
\<close>

theorem printf_octal_ignores_argument:
  "printf_P (bytes ''%u %o %u'') [AInt 7, AInt 9, AInt 8] = Some (bytes ''7 0 9'')"
  by code_simp

end
