(* ===== verification/Clock.thy ===== *)
theory Clock
  imports Lpc22xx
begin

text \<open>
  Clock set-up of \<^verbatim>\<open>software/startup/startosc.c\<close>: \<open>StartOsc\<close> programs the PLL, waits for
  lock and only then connects it; \<open>GetCclk\<close> and \<open>GetPclk\<close> recompute the clocks from the registers.
\<close>

definition PLOCK :: u32 where
  "PLOCK = 0x400"

definition OSCILLATOR_CLOCK_FREQUENCY :: u32 where
  "OSCILLATOR_CLOCK_FREQUENCY = 14745600"

definition pll_locked :: "u32 \<Rightarrow> bool" where
  "pll_locked v \<longleftrightarrow> v AND PLOCK \<noteq> 0"

definition feed_pll :: "'d bus \<Rightarrow> 'd machine \<Rightarrow> 'd machine" where
  "feed_pll B m = wr8 B PLLFEED 0x55 (wr8 B PLLFEED 0xAA m)"

definition StartOsc :: "'d bus \<Rightarrow> 'd machine \<Rightarrow> 'd machine option" where
  "StartOsc B m = do {
     let m = wr8 B PLLCFG 0x23 m;
     let m = feed_pll B m;
     let m = wr8 B PLLCON 0x1 m;
     let m = feed_pll B m;
     (v, m) \<leftarrow> poll B PLLSTAT pll_locked m;
     let m = wr8 B PLLCON 0x3 m;
     let m = feed_pll B m;
     let m = wr8 B MAMCR 0x2 m;
     let m = wr8 B MAMTIM 0x4 m;
     Some (wr8 B VPBDIV 0x1 m)
   }"

definition GetCclk :: "'d bus \<Rightarrow> 'd machine \<Rightarrow> u32 \<times> 'd machine" where
  "GetCclk B m =
     (let (con, m) = rd8 B PLLCON m in
      if con AND 1 \<noteq> 0 then
        let (cfg, m) = rd8 B PLLCFG m
        in (OSCILLATOR_CLOCK_FREQUENCY * ((ucast cfg AND 0xF) + 1), m)
      else (OSCILLATOR_CLOCK_FREQUENCY, m))"

text \<open>
  \<open>switch (VPBDIV & 3)\<close> has no case for 3: the divider is then never assigned, which is \<open>None\<close>.
\<close>

definition vpb_divider :: "u32 \<Rightarrow> u32 option" where
  "vpb_divider v = (if v = 0 then Some 4 else if v = 1 then Some 1 else if v = 2 then Some 2 else None)"

definition GetPclk :: "'d bus \<Rightarrow> 'd machine \<Rightarrow> u32 option \<times> 'd machine" where
  "GetPclk B m =
     (let (v, m) = rd8 B VPBDIV m;
          divider = vpb_divider (ucast v AND 3);
          (c, m) = GetCclk B m
      in (map_option (\<lambda>d. c div d) divider, m))"

section \<open>The start-up sequence\<close>

definition feed :: "(u32 \<times> u32) list" where
  "feed = [(PLLFEED, 0xAA), (PLLFEED, 0x55)]"

lemma wrs_feed_pll [simp]: "wrs (feed_pll B m) = wrs m @ feed"
  by (simp add: feed_pll_def feed_def)

text \<open>
  Both parts of the PLL contract: whatever the hardware answers, if \<open>StartOsc\<close> returns then it
  stored exactly this sequence, the PLL was reported locked before it was connected, and it does
  return when the lock bit eventually comes up.
\<close>

lemma StartOsc_split:
  "StartOsc B m = Some m' \<longleftrightarrow>
     (\<exists>v m1. poll B PLLSTAT pll_locked (feed_pll B (wr8 B PLLCON 1 (feed_pll B (wr8 B PLLCFG 0x23 m)))) = Some (v, m1)
       \<and> m' = wr8 B VPBDIV 1 (wr8 B MAMTIM 4 (wr8 B MAMCR 2 (feed_pll B (wr8 B PLLCON 3 m1)))))"
  by (auto simp: StartOsc_def Let_def split: bind_splits)

theorem StartOsc_sequence:
  assumes "StartOsc B m = Some m'"
  shows "wrs m' = wrs m @ [(PLLCFG, 0x23)] @ feed @ [(PLLCON, 1)] @ feed
           @ [(PLLCON, 3)] @ feed @ [(MAMCR, 2), (MAMTIM, 4), (VPBDIV, 1)]"
  using assms by (auto simp: StartOsc_split io_simps)

theorem StartOsc_returns: "settles B PLLSTAT pll_locked \<Longrightarrow> \<exists>m'. StartOsc B m = Some m'"
  using settlesD [of B PLLSTAT pll_locked] by (fastforce simp: StartOsc_split)

text \<open>
  On registers that read back what was stored, the clock functions then report the four-fold
  crystal frequency for the core and the peripherals.
\<close>

theorem clocks_after_StartOsc:
  assumes "pll_locked (dev m PLLSTAT)"
  shows "\<exists>m'. StartOsc ram_bus m = Some m' \<and> fst (GetCclk ram_bus m') = 58982400
            \<and> fst (GetPclk ram_bus m') = Some 58982400"
proof -
  have "poll ram_bus PLLSTAT pll_locked (feed_pll ram_bus (wr8 ram_bus PLLCON 1 (feed_pll ram_bus (wr8 ram_bus PLLCFG 0x23 m))))
    = Some (rd ram_bus PLLSTAT (feed_pll ram_bus (wr8 ram_bus PLLCON 1 (feed_pll ram_bus (wr8 ram_bus PLLCFG 0x23 m)))))"
    using assms by (intro poll_now) (simp add: rd_parts feed_pll_def)
  then show ?thesis
    by (simp add: StartOsc_def Let_def rd_parts GetCclk_def GetPclk_def rd8_def feed_pll_def
        vpb_divider_def OSCILLATOR_CLOCK_FREQUENCY_def)
qed

end
