(* ===== verification/Mmc.thy ===== *)
theory Mmc
  imports Clock
begin

text \<open>
  The SD card driver of \<^verbatim>\<open>software/sdcard/mmc.c\<close>: byte exchange over the SPI peripheral,
  commands with their response, initialisation, and reading and writing of 512-byte sectors. The
  macros that drive the chip select expand to nothing.

  The card is not code of the repository. \<open>card_step\<close> is a card as the SPI mode of the standard
  describes it (command frames, response delay, data tokens, busy signal), attached to the SPI
  registers by \<open>card_bus\<close>; the properties of the driver are proved against every such card.
\<close>

section \<open>The driver\<close>

definition BlockSize :: nat where
  "BlockSize = 512"

definition spif :: "u32 \<Rightarrow> bool" where
  "spif v \<longleftrightarrow> v AND push_bit 7 1 \<noteq> 0"

definition Read_Byte_MMC :: "'d bus \<Rightarrow> 'd machine \<Rightarrow> (u8 \<times> 'd machine) option" where
  "Read_Byte_MMC B m = do {
     let m = wr8 B SPI_SPDR 0xff m;
     (v, m) \<leftarrow> poll B SPI_SPSR spif m;
     Some (rd8 B SPI_SPDR m)
   }"

definition Write_Byte_MMC :: "'d bus \<Rightarrow> u8 \<Rightarrow> 'd machine \<Rightarrow> 'd machine option" where
  "Write_Byte_MMC B b m = do {
     let m = wr8 B SPI_SPDR b m;
     (v, m) \<leftarrow> poll B SPI_SPSR spif m;
     Some m
   }"

fun write_bytes :: "'d bus \<Rightarrow> u8 list \<Rightarrow> 'd machine \<Rightarrow> 'd machine option" where
  "write_bytes B [] m = Some m"
| "write_bytes B (b # bs) m = do { m \<leftarrow> Write_Byte_MMC B b m; write_bytes B bs m }"

fun read_bytes :: "'d bus \<Rightarrow> nat \<Rightarrow> 'd machine \<Rightarrow> (u8 list \<times> 'd machine) option" where
  "read_bytes B 0 m = Some ([], m)"
| "read_bytes B (Suc n) m = do {
     (b, m) \<leftarrow> Read_Byte_MMC B m;
     (bs, m) \<leftarrow> read_bytes B n m;
     Some (b # bs, m)
   }"

text \<open>\<open>while (tmp == 0xff) { ... if (Timeout++ > 500) break; }\<close>\<close>

partial_function (option) response_loop :: "'d bus \<Rightarrow> u8 \<Rightarrow> u16 \<Rightarrow> 'd machine \<Rightarrow> (u8 \<times> 'd machine) option" where
  "response_loop B tmp Timeout m =
     (if tmp = 0xff then
        Option.bind (Read_Byte_MMC B m) (\<lambda>(tmp, m).
          if Timeout > 500 then Some (tmp, m) else response_loop B tmp (Timeout + 1) m)
      else Some (tmp, m))"

definition Write_Command_MMC :: "'d bus \<Rightarrow> u8 list \<Rightarrow> 'd machine \<Rightarrow> (u8 \<times> 'd machine) option" where
  "Write_Command_MMC B CMD m = do {
     m \<leftarrow> Write_Byte_MMC B 0xFF m;
     m \<leftarrow> write_bytes B (take 6 CMD) m;
     response_loop B 0xff 0 m
   }"

text \<open>\<open>while (Write_Command_MMC(CMD) != ok) if (Timeout++ > 200) return code;\<close>\<close>

partial_function (option) command_loop ::
  "'d bus \<Rightarrow> u8 list \<Rightarrow> u8 \<Rightarrow> u16 \<Rightarrow> 'd machine \<Rightarrow> (bool \<times> 'd machine) option" where
  "command_loop B CMD good Timeout m =
     Option.bind (Write_Command_MMC B CMD m) (\<lambda>(r, m).
       if r \<noteq> good then (if Timeout > 200 then Some (False, m) else command_loop B CMD good (Timeout + 1) m)
       else Some (True, m))"

declare response_loop.simps [code] command_loop.simps [code]

definition select_pin :: "'d bus \<Rightarrow> nat \<Rightarrow> 'd machine \<Rightarrow> 'd machine" where
  "select_pin B n m = or_wr B PINSEL0 (push_bit n 1) (and_wr B PINSEL0 (NOT (push_bit n 3)) m)"

definition mmc_init :: "'d bus \<Rightarrow> 'd machine \<Rightarrow> (u8 \<times> 'd machine) option" where
  "mmc_init B m = do {
     let m = select_pin B 8 m;
     let m = select_pin B 10 m;
     let m = select_pin B 12 m;
     let m = select_pin B 14 m;
     let m = wr8 B SPI_SPCCR 254 m;
     let m = wr8 B SPI_SPCR (push_bit 5 1 OR push_bit 4 0 OR push_bit 3 0) m;
     m \<leftarrow> write_bytes B (replicate 10 0xff) m;
     (r, m) \<leftarrow> command_loop B [0x40, 0x00, 0x00, 0x00, 0x00, 0x95] 1 0 m;
     if \<not> r then Some (1, m)
     else do {
       (r, m) \<leftarrow> command_loop B [0x41, 0x00, 0x00, 0x00, 0x00, 0xFF] 0 0 m;
       if \<not> r then Some (2, m)
       else Some (0, wr8 B SPI_SPCCR 8 m)
     }
   }"

text \<open>The four address bytes of a command; the code fills three of them and leaves the last 0.\<close>

definition addr_bytes :: "u32 \<Rightarrow> u8 list" where
  "addr_bytes addr = [ucast (drop_bit 24 (addr AND 0xFF000000)), ucast (drop_bit 16 (addr AND 0x00FF0000)),
     ucast (drop_bit 8 (addr AND 0x0000FF00)), 0x00]"

partial_function (option) wait_byte :: "'d bus \<Rightarrow> u8 \<Rightarrow> 'd machine \<Rightarrow> 'd machine option" where
  "wait_byte B b m =
     Option.bind (Read_Byte_MMC B m) (\<lambda>(r, m). if r \<noteq> b then wait_byte B b m else Some m)"

declare wait_byte.simps [code]

definition mmc_write_sector :: "'d bus \<Rightarrow> u32 \<Rightarrow> u8 list \<Rightarrow> 'd machine \<Rightarrow> (u8 \<times> 'd machine) option" where
  "mmc_write_sector B addr Buffer m = do {
     (tmp, m) \<leftarrow> Write_Command_MMC B ([0x58] @ addr_bytes addr @ [0xFF]) m;
     if tmp \<noteq> 0 then Some (tmp, m)
     else do {
       (_, m) \<leftarrow> read_bytes B 100 m;
       m \<leftarrow> Write_Byte_MMC B 0xFE m;
       m \<leftarrow> write_bytes B (take BlockSize Buffer) m;
       m \<leftarrow> Write_Byte_MMC B 0xFF m;
       m \<leftarrow> Write_Byte_MMC B 0xFF m;
       m \<leftarrow> wait_byte B 0xff m;
       Some (0, m)
     }
   }"

text \<open>A read changes the first \<open>Bytes\<close> bytes of the buffer, or none when the card refuses.\<close>

definition MMC_Read_Block :: "'d bus \<Rightarrow> u8 list \<Rightarrow> u8 list \<Rightarrow> nat \<Rightarrow> 'd machine \<Rightarrow> (u8 list \<times> 'd machine) option" where
  "MMC_Read_Block B CMD Buffer Bytes m = do {
     (r, m) \<leftarrow> Write_Command_MMC B CMD m;
     if r \<noteq> 0 then Some (Buffer, m)
     else do {
       m \<leftarrow> wait_byte B 0xfe m;
       (bs, m) \<leftarrow> read_bytes B Bytes m;
       (_, m) \<leftarrow> read_bytes B 2 m;
       Some (bs @ drop Bytes Buffer, m)
     }
   }"

definition mmc_read_sector :: "'d bus \<Rightarrow> u32 \<Rightarrow> u8 list \<Rightarrow> 'd machine \<Rightarrow> (u8 list \<times> 'd machine) option" where
  "mmc_read_sector B addr Buffer m =
     MMC_Read_Block B ([0x51] @ addr_bytes (push_bit 9 addr) @ [0xFF]) Buffer BlockSize m"

definition Read_CID_MMC :: "'d bus \<Rightarrow> u8 list \<Rightarrow> 'd machine \<Rightarrow> (u8 list \<times> 'd machine) option" where
  "Read_CID_MMC B Buffer m = MMC_Read_Block B [0x4A, 0x00, 0x00, 0x00, 0x00, 0xFF] Buffer 16 m"

definition Read_CSD_MMC :: "'d bus \<Rightarrow> u8 list \<Rightarrow> 'd machine \<Rightarrow> (u8 list \<times> 'd machine) option" where
  "Read_CSD_MMC B Buffer m = MMC_Read_Block B [0x49, 0x00, 0x00, 0x00, 0x00, 0xFF] Buffer 16 m"

section \<open>A card in SPI mode\<close>

text \<open>
  What a card does with one exchanged byte. \<open>ncr\<close> is its response delay, \<open>nac\<close> its access delay,
  \<open>nbusy\<close> its programming time, all in bytes.
\<close>

datatype cstate =
    CIdle
  | CCmd "u8 list"
  | COut "u8 list" cstate
  | CToken u32
  | CData u32 "u8 list"

record timing =
  ncr :: nat
  nac :: nat
  nbusy :: nat

record card =
  cst :: cstate
  disk :: "u32 \<Rightarrow> u8 list"

definition be32 :: "u8 list \<Rightarrow> u32" where
  "be32 bs = push_bit 24 (ucast (bs ! 0)) OR push_bit 16 (ucast (bs ! 1)) OR push_bit 8 (ucast (bs ! 2)) OR ucast (bs ! 3)"

definition card_exec :: "timing \<Rightarrow> u8 list \<Rightarrow> (u32 \<Rightarrow> u8 list) \<Rightarrow> cstate" where
  "card_exec T f dk =
     (let a = be32 (tl f); resp = (\<lambda>r. replicate (ncr T) 0xff @ [r]) in
      if hd f = 0x40 then COut (resp 1) CIdle
      else if hd f = 0x41 then COut (resp 0) CIdle
      else if a AND 511 \<noteq> 0 then COut (resp 0x20) CIdle
      else if hd f = 0x51 then
        COut (resp 0 @ replicate (nac T) 0xff @ [0xFE] @ dk (drop_bit 9 a) @ [0xff, 0xff]) CIdle
      else if hd f = 0x58 then COut (resp 0) (CToken a)
      else COut (resp 4) CIdle)"

definition card_step :: "timing \<Rightarrow> u8 \<Rightarrow> card \<Rightarrow> u8 \<times> card" where
  "card_step T b c =
     (case cst c of
        CIdle \<Rightarrow> (0xff, c\<lparr>cst := if b AND 0xC0 = 0x40 then CCmd [b] else CIdle\<rparr>)
      | CCmd bs \<Rightarrow> (0xff, c\<lparr>cst := if length bs < 5 then CCmd (bs @ [b]) else card_exec T (bs @ [b]) (disk c)\<rparr>)
      | COut [] k \<Rightarrow> (0xff, c\<lparr>cst := k\<rparr>)
      | COut (q # qs) k \<Rightarrow> (q, c\<lparr>cst := if qs = [] then k else COut qs k\<rparr>)
      | CToken a \<Rightarrow> (0xff, c\<lparr>cst := if b = 0xFE then CData a [] else CToken a\<rparr>)
      | CData a bs \<Rightarrow>
          if length bs < 513 then (0xff, c\<lparr>cst := CData a (bs @ [b])\<rparr>)
          else (0xff, c\<lparr>cst := COut (0x05 # replicate (nbusy T) 0) CIdle,
                        disk := (disk c)(drop_bit 9 a := take 512 bs)\<rparr>))"

text \<open>The card on the bus of the board, whose serial transmitter is always ready; other loads give 0.\<close>

definition card_bus :: "timing \<Rightarrow> (u8 \<times> card) bus" where
  "card_bus T = \<lparr>
     bus_rd = (\<lambda>a d. (if a = SPI_SPSR then 0x80 else if a = SPI_SPDR then ucast (fst d) else if a = UART1_LSR then 0x60 else 0, d)),
     bus_wr = (\<lambda>a v d. if a = SPI_SPDR then card_step T (ucast v) (snd d) else d)\<rparr>"

abbreviation the_card :: "(u8 \<times> card) machine \<Rightarrow> card" where
  "the_card m \<equiv> snd (dev m)"

definition card_ready :: "(u8 \<times> card) machine \<Rightarrow> bool" where
  "card_ready m \<longleftrightarrow> cst (the_card m) = CIdle"

section \<open>One byte exchange\<close>

lemma poll_card [simp]: "poll (card_bus T) SPI_SPSR spif m = Some (0x80, m\<lparr>trace := trace m @ [RdA SPI_SPSR 0x80]\<rparr>)"
  by (subst poll_now) (simp_all add: rd_parts card_bus_def spif_def)

lemma Write_Byte_card:
  "\<exists>m'. Write_Byte_MMC (card_bus T) b m = Some m' \<and> dev m' = card_step T b (the_card m)"
  by (simp add: Write_Byte_MMC_def Let_def del: SPI_SPSR_def SPI_SPDR_def) (simp add: card_bus_def)

lemma Read_Byte_card:
  "\<exists>m'. Read_Byte_MMC (card_bus T) m = Some (fst (card_step T 0xff (the_card m)), m')
     \<and> dev m' = card_step T 0xff (the_card m)"
  by (simp add: Read_Byte_MMC_def Let_def rd8_def rd_parts del: SPI_SPSR_def SPI_SPDR_def)
    (simp add: card_bus_def)

definition feed_card :: "timing \<Rightarrow> u8 list \<Rightarrow> card \<Rightarrow> card" where
  "feed_card T bs c = fold (\<lambda>b c. snd (card_step T b c)) bs c"

lemma feed_card_simps [simp]:
  "feed_card T [] c = c" "feed_card T (b # bs) c = feed_card T bs (snd (card_step T b c))"
  by (simp_all add: feed_card_def)

lemma feed_card_append: "feed_card T (as @ bs) c = feed_card T bs (feed_card T as c)"
  by (simp add: feed_card_def)

lemma write_bytes_card:
  "\<exists>m'. write_bytes (card_bus T) bs m = Some m' \<and> the_card m' = feed_card T bs (the_card m)"
proof (induction bs arbitrary: m)
  case (Cons b bs)
  obtain m1 where m1: "Write_Byte_MMC (card_bus T) b m = Some m1" "dev m1 = card_step T b (the_card m)"
    using Write_Byte_card by blast
  then show ?case using Cons.IH [of m1] by auto
qed simp

text \<open>A card that still has \<open>qs\<close> to send and then continues as \<open>k\<close>.\<close>

definition out :: "u8 list \<Rightarrow> cstate \<Rightarrow> cstate" where
  "out qs k = (if qs = [] then k else COut qs k)"

lemma out_step [simp]:
  "card_step T b (c\<lparr>cst := out (q # qs) k\<rparr>) = (q, c\<lparr>cst := out qs k\<rparr>)"
  by (simp add: card_step_def out_def)

lemma read_out:
  assumes "the_card m = c\<lparr>cst := out (q # qs) k\<rparr>"
  shows "\<exists>m'. Read_Byte_MMC (card_bus T) m = Some (q, m') \<and> the_card m' = c\<lparr>cst := out qs k\<rparr>"
  using Read_Byte_card [of T m] assms by auto

lemma read_bytes_out:
  "the_card m = c\<lparr>cst := out (qs @ rs) k\<rparr> \<Longrightarrow>
     \<exists>m'. read_bytes (card_bus T) (length qs) m = Some (qs, m') \<and> the_card m' = c\<lparr>cst := out rs k\<rparr>"
proof (induction qs arbitrary: m)
  case (Cons q qs)
  obtain m1 where "Read_Byte_MMC (card_bus T) m = Some (q, m1)" "the_card m1 = c\<lparr>cst := out (qs @ rs) k\<rparr>"
    using read_out [OF Cons.prems [simplified]] by blast
  then show ?case using Cons.IH [of m1] by auto
qed simp

lemma wait_byte_out:
  "the_card m = c\<lparr>cst := out (qs @ b # rs) k\<rparr> \<Longrightarrow> b \<notin> set qs \<Longrightarrow>
     \<exists>m'. wait_byte (card_bus T) b m = Some m' \<and> the_card m' = c\<lparr>cst := out rs k\<rparr>"
proof (induction qs arbitrary: m)
  case Nil
  then obtain m1 where "Read_Byte_MMC (card_bus T) m = Some (b, m1)" "the_card m1 = c\<lparr>cst := out rs k\<rparr>"
    using read_out [OF Nil(1) [simplified]] by blast
  then show ?case by (subst wait_byte.simps) simp
next
  case (Cons q qs)
  then obtain m1 where m1: "Read_Byte_MMC (card_bus T) m = Some (q, m1)" "the_card m1 = c\<lparr>cst := out (qs @ b # rs) k\<rparr>"
    using read_out [OF Cons.prems(1) [simplified]] by blast
  have "wait_byte (card_bus T) b m = wait_byte (card_bus T) b m1"
    using m1(1) Cons.prems(2) by (subst wait_byte.simps) auto
  then show ?case using Cons.IH [OF m1(2)] Cons.prems by auto
qed

lemma response_loop_done: "r \<noteq> 0xff \<Longrightarrow> response_loop B r t m = Some (r, m)"
  by (subst response_loop.simps) simp

lemma response_loop_out:
  "the_card m = c\<lparr>cst := out (replicate n 0xff @ r # rs) k\<rparr> \<Longrightarrow> r \<noteq> 0xff \<Longrightarrow> n + unat t \<le> 500 \<Longrightarrow>
     \<exists>m'. response_loop (card_bus T) 0xff t m = Some (r, m') \<and> the_card m' = c\<lparr>cst := out rs k\<rparr>"
proof (induction n arbitrary: m t)
  case 0
  then obtain m1 where "Read_Byte_MMC (card_bus T) m = Some (r, m1)" "the_card m1 = c\<lparr>cst := out rs k\<rparr>"
    using read_out [OF 0(1) [simplified]] by blast
  then show ?case using 0 by (subst response_loop.simps) (simp add: response_loop_done)
next
  case (Suc n)
  then obtain m1 where m1: "Read_Byte_MMC (card_bus T) m = Some (0xff, m1)"
      "the_card m1 = c\<lparr>cst := out (replicate n 0xff @ r # rs) k\<rparr>"
    using read_out [OF Suc.prems(1) [simplified]] by blast
  have t: "unat (t + 1) = unat t + 1" "\<not> t > 500"
    using Suc.prems(3) by (simp_all add: unat_word_ariths word_less_nat_alt)
  have "response_loop (card_bus T) 0xff t m = response_loop (card_bus T) 0xff (t + 1) m1"
    using m1(1) t by (subst response_loop.simps) auto
  then show ?case using Suc.IH [OF m1(2) Suc.prems(2), of "t + 1"] Suc.prems(3) t by auto
qed

section \<open>Commands\<close>

lemma feed_frame:
  assumes "cst c = CIdle" "f0 AND 0xC0 = 0x40"
  shows "feed_card T [0xff, f0, f1, f2, f3, f4, f5] c = c\<lparr>cst := card_exec T [f0, f1, f2, f3, f4, f5] (disk c)\<rparr>"
  using assms by (simp add: card_step_def)

lemma Write_Command_card:
  assumes "card_ready m" "f0 AND 0xC0 = 0x40" "r \<noteq> 0xff" "ncr T \<le> 500"
    and "card_exec T [f0, f1, f2, f3, f4, f5] (disk (the_card m)) = out (replicate (ncr T) 0xff @ r # rs) k"
  shows "\<exists>m'. Write_Command_MMC (card_bus T) [f0, f1, f2, f3, f4, f5] m = Some (r, m')
     \<and> the_card m' = (the_card m)\<lparr>cst := out rs k\<rparr>"
proof -
  obtain m1 where m1: "Write_Byte_MMC (card_bus T) 0xff m = Some m1" "dev m1 = card_step T 0xff (the_card m)"
    using Write_Byte_card by blast
  obtain m2 where m2: "write_bytes (card_bus T) [f0, f1, f2, f3, f4, f5] m1 = Some m2"
      "the_card m2 = feed_card T [f0, f1, f2, f3, f4, f5] (the_card m1)"
    using write_bytes_card by blast
  have "the_card m2 = (the_card m)\<lparr>cst := card_exec T [f0, f1, f2, f3, f4, f5] (disk (the_card m))\<rparr>"
    using m2(2) m1(2) feed_frame [of "the_card m" f0 T f1 f2 f3 f4 f5] assms(1,2) by (simp add: card_ready_def)
  then have "the_card m2 = (the_card m)\<lparr>cst := out (replicate (ncr T) 0xff @ r # rs) k\<rparr>"
    using assms(5) by simp
  from response_loop_out [OF this assms(3), of 0 T] assms(4) show ?thesis
    using m1(1) m2(1) by (auto simp: Write_Command_MMC_def simp del: write_bytes.simps)
qed

lemma exec_out: "qs \<noteq> [] \<Longrightarrow> COut qs k = out qs k"
  by (simp add: out_def)

text \<open>The address bytes of a command are read back as the address without its last byte.\<close>

lemma be32_addr_bytes: "be32 (addr_bytes a @ r) = a AND NOT 0xff"
proof (rule bit_word_eqI)
  fix n assume n: "n < LENGTH(32)"
  have m: "(0xFF000000 :: u32) = push_bit 24 (mask 8)" "(0x00FF0000 :: u32) = push_bit 16 (mask 8)"
    "(0x0000FF00 :: u32) = push_bit 8 (mask 8)" "(0xff :: u32) = mask 8"
    by (simp_all add: mask_eq_exp_minus_1)
  show "bit (be32 (addr_bytes a @ r)) n = bit (a AND NOT 0xff) n"
    unfolding be32_def addr_bytes_def m using n
    by (cases "n < 8"; cases "n < 16"; cases "n < 24") (auto simp: bit_simps)
qed

section \<open>Reading a sector\<close>

lemma sector_addr:
  "(push_bit 9 s :: u32) AND NOT 0xff = push_bit 9 s" "(push_bit 9 s :: u32) AND 511 = 0"
  "s < 2 ^ 23 \<Longrightarrow> drop_bit 9 (push_bit 9 s :: u32) = s"
proof -
  have m: "(0xff :: u32) = mask 8" "(511 :: u32) = mask 9" by (simp_all add: mask_eq_exp_minus_1)
  show "(push_bit 9 s :: u32) AND NOT 0xff = push_bit 9 s"
    unfolding m by (rule bit_word_eqI) (auto simp: bit_simps)
  show "(push_bit 9 s :: u32) AND 511 = 0"
    unfolding m by (rule bit_word_eqI) (auto simp: bit_simps)
  assume s: "s < 2 ^ 23"
  then have hi: "\<not> bit s n" if "23 \<le> n" for n
    using small_bits [of s 23 n] that by (simp add: word_less_nat_alt)
  show "drop_bit 9 (push_bit 9 s :: u32) = s"
  proof (rule bit_word_eqI)
    fix n assume n: "n < LENGTH(32)"
    show "bit (drop_bit 9 (push_bit 9 s :: u32)) n = bit s n"
      using hi [of n] n by (cases "23 \<le> n") (auto simp: bit_simps)
  qed
qed

lemma mmc_read_card:
  assumes "card_ready m" "ncr T \<le> 500" "s < 2 ^ 23" "length (disk (the_card m) s) = 512"
  shows "\<exists>m'. mmc_read_sector (card_bus T) s Buffer m = Some (disk (the_card m) s @ drop 512 Buffer, m')
     \<and> the_card m' = the_card m"
proof -
  let ?c = "the_card m" and ?a = "push_bit 9 s :: u32"
  obtain f1 f2 f3 f4 where f: "addr_bytes ?a = [f1, f2, f3, f4]" by (simp add: addr_bytes_def)
  have be: "be32 [f1, f2, f3, f4, 0xff] = ?a"
    using be32_addr_bytes [of ?a "[0xff]"] f sector_addr(1) [of s] by simp
  have ex: "card_exec T [0x51, f1, f2, f3, f4, 0xff] (disk ?c) =
      out (replicate (ncr T) 0xff @ 0 # (replicate (nac T) 0xff @ 0xFE # disk ?c s @ [0xff, 0xff])) CIdle"
    using be sector_addr(2,3) [of s] assms(3) by (simp add: card_exec_def Let_def exec_out [symmetric])
  obtain m1 where m1: "Write_Command_MMC (card_bus T) [0x51, f1, f2, f3, f4, 0xff] m = Some (0, m1)"
      "the_card m1 = ?c\<lparr>cst := out (replicate (nac T) 0xff @ 0xFE # disk ?c s @ [0xff, 0xff]) CIdle\<rparr>"
    using Write_Command_card [OF assms(1) _ _ assms(2) ex] by auto
  obtain m2 where m2: "wait_byte (card_bus T) 0xFE m1 = Some m2"
      "the_card m2 = ?c\<lparr>cst := out (disk ?c s @ [0xff, 0xff]) CIdle\<rparr>"
    using wait_byte_out [OF m1(2)] by auto
  obtain m3 where m3: "read_bytes (card_bus T) 512 m2 = Some (disk ?c s, m3)"
      "the_card m3 = ?c\<lparr>cst := out [0xff, 0xff] CIdle\<rparr>"
    using read_bytes_out [OF m2(2)] assms(4) by auto
  obtain m4 where m4: "read_bytes (card_bus T) 2 m3 = Some ([0xff, 0xff], m4)"
      "the_card m4 = ?c\<lparr>cst := out [] CIdle\<rparr>"
    using read_bytes_out [where qs = "[0xff, 0xff]" and rs = "[]" and m = m3 and c = ?c and k = CIdle and T = T] m3(2)
    by (auto simp: numeral_2_eq_2)
  have "the_card m4 = ?c" using m4(2) assms(1) by (simp add: out_def card_ready_def)
  then show ?thesis
    using m1(1) m2(1) m3(1) m4(1) f by (simp add: mmc_read_sector_def MMC_Read_Block_def BlockSize_def)
qed

section \<open>Writing a sector\<close>

lemma wait_idle:
  "the_card m = c\<lparr>cst := out qs CIdle\<rparr> \<Longrightarrow> 0xff \<notin> set qs \<Longrightarrow>
     \<exists>m'. wait_byte (card_bus T) 0xff m = Some m' \<and> the_card m' = c\<lparr>cst := CIdle\<rparr>"
proof (induction qs arbitrary: m)
  case Nil
  then have "card_step T 0xff (the_card m) = (0xff, c\<lparr>cst := CIdle\<rparr>)"
    by (simp add: out_def card_step_def)
  then obtain m1 where "Read_Byte_MMC (card_bus T) m = Some (0xff, m1)" "the_card m1 = c\<lparr>cst := CIdle\<rparr>"
    using Read_Byte_card [of T m] by auto
  then show ?case by (subst wait_byte.simps) simp
next
  case (Cons q qs)
  obtain m1 where m1: "Read_Byte_MMC (card_bus T) m = Some (q, m1)" "the_card m1 = c\<lparr>cst := out qs CIdle\<rparr>"
    using read_out [OF Cons.prems(1)] by blast
  have "wait_byte (card_bus T) 0xff m = wait_byte (card_bus T) 0xff m1"
    using m1(1) Cons.prems(2) by (subst wait_byte.simps) auto
  then show ?case using Cons.IH [OF m1(2)] Cons.prems by auto
qed

lemma read_bytes_token:
  "the_card m = c\<lparr>cst := CToken a\<rparr> \<Longrightarrow>
     \<exists>bs m'. read_bytes (card_bus T) n m = Some (bs, m') \<and> the_card m' = c\<lparr>cst := CToken a\<rparr>"
proof (induction n arbitrary: m)
  case (Suc n)
  then have "card_step T 0xff (the_card m) = (0xff, c\<lparr>cst := CToken a\<rparr>)" by (simp add: card_step_def)
  then obtain m1 where "Read_Byte_MMC (card_bus T) m = Some (0xff, m1)" "the_card m1 = c\<lparr>cst := CToken a\<rparr>"
    using Read_Byte_card [of T m] by auto
  then show ?case using Suc.IH [of m1] by auto
qed simp

lemma feed_data:
  "length ds + length bs \<le> 513 \<Longrightarrow> feed_card T bs (c\<lparr>cst := CData a ds\<rparr>) = c\<lparr>cst := CData a (ds @ bs)\<rparr>"
  by (induction bs arbitrary: ds) (simp_all add: card_step_def)

lemma feed_block:
  assumes "length bs = 512"
  shows "feed_card T (0xFE # bs @ [0xff, 0xff]) (c\<lparr>cst := CToken a\<rparr>) =
     c\<lparr>cst := COut (0x05 # replicate (nbusy T) 0) CIdle, disk := (disk c)(drop_bit 9 a := bs)\<rparr>"
proof -
  have "feed_card T (bs @ [0xff]) (c\<lparr>cst := CData a []\<rparr>) = c\<lparr>cst := CData a (bs @ [0xff])\<rparr>"
    using feed_data [where ds = "[]" and bs = "bs @ [0xff]"] assms by simp
  then have d: "feed_card T (bs @ [0xff, 0xff]) (c\<lparr>cst := CData a []\<rparr>) =
      snd (card_step T 0xff (c\<lparr>cst := CData a (bs @ [0xff])\<rparr>))"
    using feed_card_append [of T "bs @ [0xff]" "[0xff]"] by simp
  have "snd (card_step T 0xFE (c\<lparr>cst := CToken a\<rparr>)) = c\<lparr>cst := CData a []\<rparr>" by (simp add: card_step_def)
  then have "feed_card T (0xFE # bs @ [0xff, 0xff]) (c\<lparr>cst := CToken a\<rparr>) =
      snd (card_step T 0xff (c\<lparr>cst := CData a (bs @ [0xff])\<rparr>))" using d by simp
  also have "\<dots> = c\<lparr>cst := COut (0x05 # replicate (nbusy T) 0) CIdle, disk := (disk c)(drop_bit 9 a := bs)\<rparr>"
    using assms by (simp add: card_step_def)
  finally show ?thesis .
qed

lemma write_bytes_append: "write_bytes B (as @ bs) m = Option.bind (write_bytes B as m) (write_bytes B bs)"
  by (induction as arbitrary: m) (auto split: bind_splits)

text \<open>
  The block goes to the byte address the caller passed, without its last byte.
\<close>

lemma mmc_write_card:
  assumes "card_ready m" "ncr T \<le> 500" "length Buffer = 512" "(addr AND NOT 0xff) AND 511 = 0"
  shows "\<exists>m'. mmc_write_sector (card_bus T) addr Buffer m = Some (0, m')
     \<and> the_card m' = (the_card m)\<lparr>disk := (disk (the_card m))(drop_bit 9 (addr AND NOT 0xff) := Buffer)\<rparr>"
proof -
  let ?c = "the_card m" and ?a = "addr AND NOT 0xff"
  obtain f1 f2 f3 f4 where f: "addr_bytes addr = [f1, f2, f3, f4]" by (simp add: addr_bytes_def)
  have be: "be32 [f1, f2, f3, f4, 0xff] = ?a" using be32_addr_bytes [of addr "[0xff]"] f by simp
  have ex: "card_exec T [0x58, f1, f2, f3, f4, 0xff] (disk ?c) = out (replicate (ncr T) 0xff @ 0 # []) (CToken ?a)"
    using be assms(4) by (simp add: card_exec_def Let_def exec_out [symmetric])
  obtain m1 where m1: "Write_Command_MMC (card_bus T) [0x58, f1, f2, f3, f4, 0xff] m = Some (0, m1)"
      "the_card m1 = ?c\<lparr>cst := CToken ?a\<rparr>"
    using Write_Command_card [OF assms(1) _ _ assms(2) ex] by (auto simp: out_def)
  obtain bs m2 where m2: "read_bytes (card_bus T) 100 m1 = Some (bs, m2)" "the_card m2 = ?c\<lparr>cst := CToken ?a\<rparr>"
    using read_bytes_token [OF m1(2)] by blast
  obtain m3 where m3: "write_bytes (card_bus T) ([0xFE] @ Buffer @ [0xff] @ [0xff]) m2 = Some m3"
      "the_card m3 = feed_card T (0xFE # Buffer @ [0xff, 0xff]) (the_card m2)"
    using write_bytes_card [of T "0xFE # Buffer @ [0xff, 0xff]" m2] by auto
  let ?c' = "?c\<lparr>disk := (disk ?c)(drop_bit 9 ?a := Buffer)\<rparr>"
  have c3: "the_card m3 = ?c'\<lparr>cst := out (0x05 # replicate (nbusy T) 0) CIdle\<rparr>"
    using m3(2) m2(2) feed_block [OF assms(3), where c = ?c and a = ?a and T = T] by (simp add: out_def)
  obtain m4 where m4: "wait_byte (card_bus T) 0xff m3 = Some m4" "the_card m4 = ?c'\<lparr>cst := CIdle\<rparr>"
    using wait_idle [OF c3] by auto
  have "the_card m4 = ?c'" using m4(2) assms(1) by (simp add: card_ready_def)
  moreover have "mmc_write_sector (card_bus T) addr Buffer m = Some (0, m4)"
    using m1(1) m2(1) m3(1) m4(1) f assms(3)
    by (simp add: mmc_write_sector_def BlockSize_def write_bytes_append bind_eq_Some_conv)
       (auto simp: bind_eq_Some_conv)
  ultimately show ?thesis by blast
qed

section \<open>Initialisation\<close>

lemma command_loop_first:
  "Write_Command_MMC B CMD m = Some (good, m') \<Longrightarrow> command_loop B CMD good t m = Some (True, m')"
  by (subst command_loop.simps) simp

lemma feed_idle: "cst c = CIdle \<Longrightarrow> feed_card T (replicate n 0xff) c = c"
proof -
  assume c: "cst c = CIdle"
  then have e: "snd (card_step T 0xff c) = c" by (cases c) (simp add: card_step_def)
  show "feed_card T (replicate n 0xff) c = c" by (induction n) (simp_all add: e)
qed

lemma dev_rmw [simp]:
  "dev (or_wr (card_bus T) PINSEL0 v m) = dev m" "dev (and_wr (card_bus T) PINSEL0 v m) = dev m"
  by (simp_all add: or_wr_def and_wr_def rd_parts) (simp_all add: card_bus_def)

lemma dev_select_pin [simp]: "dev (select_pin (card_bus T) n m) = dev m"
  by (simp add: select_pin_def del: PINSEL0_def)

lemma dev_wr8_card [simp]: "a \<noteq> SPI_SPDR \<Longrightarrow> dev (wr8 (card_bus T) a v m) = dev m"
  by (simp add: card_bus_def)

lemma simple_command_card:
  assumes "card_ready m" "ncr T \<le> 500" "f0 = 0x40 \<and> r = 1 \<or> f0 = 0x41 \<and> r = 0"
  shows "\<exists>m'. Write_Command_MMC (card_bus T) [f0, f1, f2, f3, f4, f5] m = Some (r, m') \<and> the_card m' = the_card m"
proof -
  have ex: "card_exec T [f0, f1, f2, f3, f4, f5] (disk (the_card m)) = out (replicate (ncr T) 0xff @ r # []) CIdle"
    using assms(3) by (auto simp: card_exec_def Let_def exec_out [symmetric])
  show ?thesis
    using Write_Command_card [OF assms(1) _ _ assms(2) ex] assms(1,3) by (auto simp: out_def card_ready_def)
qed

lemma mmc_init_card:
  assumes "card_ready m" "ncr T \<le> 500"
  shows "\<exists>m'. mmc_init (card_bus T) m = Some (0, m') \<and> the_card m' = the_card m"
proof -
  let ?B = "card_bus T"
  define m0 where "m0 = wr8 ?B SPI_SPCR (push_bit 5 1 OR push_bit 4 0 OR push_bit 3 0) (wr8 ?B SPI_SPCCR 254
    (select_pin ?B 14 (select_pin ?B 12 (select_pin ?B 10 (select_pin ?B 8 m)))))"
  have d0: "dev m0 = dev m" by (simp add: m0_def del: dev_wr8)
  obtain m1 where m1: "write_bytes ?B (replicate 10 0xff) m0 = Some m1" "the_card m1 = the_card m"
    using write_bytes_card [of T "replicate 10 0xff" m0] feed_idle [of "the_card m" T 10] d0 assms(1)
    by (auto simp: card_ready_def)
  obtain m2 where m2: "Write_Command_MMC ?B [0x40, 0x00, 0x00, 0x00, 0x00, 0x95] m1 = Some (1, m2)" "the_card m2 = the_card m"
    using simple_command_card [of m1 T 64 1 0 0 0 0 149] assms m1(2) by (auto simp: card_ready_def)
  obtain m3 where m3: "Write_Command_MMC ?B [0x41, 0x00, 0x00, 0x00, 0x00, 0xff] m2 = Some (0, m3)" "the_card m3 = the_card m"
    using simple_command_card [of m2 T 65 0 0 0 0 0 255] assms m2(2) by (auto simp: card_ready_def)
  have "mmc_init ?B m = Some (0, wr8 ?B SPI_SPCCR 8 m3)"
    unfolding mmc_init_def Let_def m0_def [symmetric] using m1 m2 m3
    by (simp add: command_loop_first)
  moreover have "dev (wr8 ?B SPI_SPCCR 8 m3) = dev m3" by (simp del: dev_wr8)
  ultimately show ?thesis using m3(2) by auto
qed

text \<open>An empty slot: every byte read is \<open>0xff\<close>.\<close>

definition empty_slot :: "'d bus \<Rightarrow> bool" where
  "empty_slot B \<longleftrightarrow> (\<forall>m. \<exists>m'. Read_Byte_MMC B m = Some (0xff, m')) \<and> (\<forall>b m. \<exists>m'. Write_Byte_MMC B b m = Some m')"

lemma write_bytes_empty: "empty_slot B \<Longrightarrow> \<exists>m'. write_bytes B bs m = Some m'"
proof (induction bs arbitrary: m)
  case (Cons b bs)
  then obtain m1 where "Write_Byte_MMC B b m = Some m1" unfolding empty_slot_def by blast
  then show ?case using Cons.IH [OF Cons.prems, of m1] by simp
qed simp

lemma response_loop_empty:
  assumes "empty_slot B"
  shows "unat t \<le> 501 \<Longrightarrow> \<exists>m'. response_loop B 0xff t m = Some (0xff, m')"
proof (induction "501 - unat t" arbitrary: t m)
  case 0
  obtain m1 where "Read_Byte_MMC B m = Some (0xff, m1)" using assms unfolding empty_slot_def by blast
  then show ?case using 0 by (subst response_loop.simps) (simp add: word_less_nat_alt)
next
  case (Suc n)
  obtain m1 where m1: "Read_Byte_MMC B m = Some (0xff, m1)" using assms unfolding empty_slot_def by blast
  have t: "unat (t + 1) = unat t + 1" using Suc.hyps(2) by (simp add: unat_word_ariths)
  have "\<exists>m'. response_loop B 0xff (t + 1) m1 = Some (0xff, m')"
    using Suc.hyps t by (intro Suc.hyps(1)) auto
  then show ?case using m1 by (subst response_loop.simps) auto
qed

lemma Write_Command_empty: "empty_slot B \<Longrightarrow> \<exists>m'. Write_Command_MMC B CMD m = Some (0xff, m')"
proof -
  assume e: "empty_slot B"
  then obtain m1 where m1: "Write_Byte_MMC B 0xff m = Some m1" unfolding empty_slot_def by blast
  obtain m2 where m2: "write_bytes B (take 6 CMD) m1 = Some m2" using write_bytes_empty [OF e] by blast
  then show ?thesis
    using response_loop_empty [OF e, of 0 m2] m1 by (auto simp: Write_Command_MMC_def)
qed

lemma command_loop_empty:
  assumes "empty_slot B" "good \<noteq> 0xff"
  shows "unat t \<le> 201 \<Longrightarrow> \<exists>m'. command_loop B CMD good t m = Some (False, m')"
proof (induction "201 - unat t" arbitrary: t m)
  case 0
  then show ?case using Write_Command_empty [OF assms(1), of CMD m] assms(2)
    by (subst command_loop.simps) (auto simp: word_less_nat_alt)
next
  case (Suc n)
  obtain m1 where m1: "Write_Command_MMC B CMD m = Some (0xff, m1)" using Write_Command_empty [OF assms(1)] by blast
  have t: "unat (t + 1) = unat t + 1" using Suc.hyps(2) by (simp add: unat_word_ariths)
  have "\<exists>m'. command_loop B CMD good (t + 1) m1 = Some (False, m')"
    using Suc.hyps t by (intro Suc.hyps(1)) auto
  then show ?case using m1 assms(2) by (subst command_loop.simps) auto
qed

section \<open>Properties\<close>

text \<open>
  C14. Reading a sector: against every card with a response delay of at most 500 bytes,
  \<open>mmc_read_sector\<close> returns, the first 512 bytes of the buffer become the contents of the sector
  with the number it was given, the rest of the buffer is untouched and the card is ready again.
\<close>

theorem mmc_read_sector_correct:
  assumes "card_ready m" and "ncr T \<le> 500" and "s < 2 ^ 23" and "length (disk (the_card m) s) = 512"
  shows "\<exists>m'. mmc_read_sector (card_bus T) s Buffer m = Some (disk (the_card m) s @ drop 512 Buffer, m')
     \<and> the_card m' = the_card m"
  using assms by (rule mmc_read_card)

definition zero_card :: "(u8 \<times> card) machine" where
  "zero_card = \<lparr>dev = (0, \<lparr>cst = CIdle, disk = (\<lambda>_. replicate 512 0)\<rparr>), trace = []\<rparr>"

theorem mmc_read_sector_correct_witness:
  "\<exists>m'. mmc_read_sector (card_bus \<lparr>ncr = 3, nac = 20, nbusy = 9\<rparr>) 7 [] zero_card = Some (replicate 512 0, m')"
  using mmc_read_sector_correct [of zero_card "\<lparr>ncr = 3, nac = 20, nbusy = 9\<rparr>" 7 "[]"]
  by (auto simp: zero_card_def card_ready_def)



text \<open>
  The two operations disagree on addresses: given a sector number below 256, as
  \<open>mmc_read_sector\<close> takes it, \<open>mmc_write_sector\<close> overwrites sector 0, the master boot record, and
  reports success.
\<close>

theorem mmc_write_sector_number_hits_mbr:
  assumes "card_ready m" and "ncr T \<le> 500" and "length Buffer = 512" and "s < 256"
  shows "\<exists>m'. mmc_write_sector (card_bus T) s Buffer m = Some (0, m') \<and> disk (the_card m') 0 = Buffer
     \<and> (\<forall>r. r \<noteq> 0 \<longrightarrow> disk (the_card m') r = disk (the_card m) r)"
proof -
  have "s AND NOT (mask 8) = 0"
    using small_bits [of s 8] assms(4) by (auto intro!: bit_word_eqI simp: bit_simps word_less_nat_alt)
  then have z: "s AND NOT 0xff = 0" by (simp add: mask_eq_exp_minus_1)
  show ?thesis using mmc_write_card [OF assms(1,2,3), of s, unfolded z] by auto
qed

theorem mmc_write_sector_number_hits_mbr_witness:
  "\<exists>m'. mmc_write_sector (card_bus \<lparr>ncr = 3, nac = 20, nbusy = 9\<rparr>) 7 (replicate 512 1) zero_card = Some (0, m')
     \<and> disk (the_card m') 0 = replicate 512 1"
  using mmc_write_sector_number_hits_mbr [of zero_card "\<lparr>ncr = 3, nac = 20, nbusy = 9\<rparr>" "replicate 512 1" 7]
  by (auto simp: zero_card_def card_ready_def)

text \<open>
  Initialisation terminates with the right verdict: 0 on a ready card, and 1 on an empty slot,
  after its two bounded retry loops.
\<close>

theorem mmc_init_verdict:
  "(card_ready m \<and> ncr T \<le> 500 \<longrightarrow> (\<exists>m'. mmc_init (card_bus T) m = Some (0, m') \<and> the_card m' = the_card m))
   \<and> (empty_slot B \<longrightarrow> (\<exists>m'. mmc_init B n = Some (1, m')))"
proof (intro conjI impI)
  show "card_ready m \<and> ncr T \<le> 500 \<Longrightarrow> \<exists>m'. mmc_init (card_bus T) m = Some (0, m') \<and> the_card m' = the_card m"
    by (simp add: mmc_init_card)
  assume e: "empty_slot B"
  let ?n = "wr8 B SPI_SPCR (push_bit 5 1 OR push_bit 4 0 OR push_bit 3 0) (wr8 B SPI_SPCCR 254
    (select_pin B 14 (select_pin B 12 (select_pin B 10 (select_pin B 8 n)))))"
  obtain m1 where m1: "write_bytes B (replicate 10 0xff) ?n = Some m1" using write_bytes_empty [OF e] by blast
  obtain m2 where "command_loop B [0x40, 0x00, 0x00, 0x00, 0x00, 0x95] 1 0 m1 = Some (False, m2)"
    using command_loop_empty [OF e, of 1 0] by auto
  then show "\<exists>m'. mmc_init B n = Some (1, m')"
    using m1 unfolding mmc_init_def Let_def by simp
qed

definition floating_bus :: "unit bus" where
  "floating_bus = const_bus (\<lambda>a. 0xff)"

theorem mmc_init_verdict_witness:
  "(\<exists>m'. mmc_init (card_bus \<lparr>ncr = 3, nac = 20, nbusy = 9\<rparr>) zero_card = Some (0, m'))
   \<and> (\<exists>m'. mmc_init floating_bus \<lparr>dev = (), trace = []\<rparr> = Some (1, m'))"
proof -
  have s: "poll floating_bus SPI_SPSR spif m = Some (rd floating_bus SPI_SPSR m)" for m
    by (rule poll_now) (simp add: floating_bus_def spif_def)
  have "empty_slot floating_bus"
    unfolding empty_slot_def Read_Byte_MMC_def Write_Byte_MMC_def Let_def s
    by (simp add: rd8_def rd_parts) (simp add: floating_bus_def const_bus_def)
  then show ?thesis
    using mmc_init_verdict [of zero_card "\<lparr>ncr = 3, nac = 20, nbusy = 9\<rparr>" floating_bus "\<lparr>dev = (), trace = []\<rparr>"]
    by (auto simp: zero_card_def card_ready_def)
qed

end
