(* ===== verification/Fat.thy ===== *)
theory Fat
  imports Mmc
begin

text \<open>
  The FAT16 reader of \<^verbatim>\<open>software/sdcard/fat.c\<close>. Its functions call \<open>mmc_read_sector\<close>; the
  definitions take the sector read routine as an argument, so that the locale \<open>block_dev\<close> can state
  what they rely on, and the properties apply them to \<open>mmc_read_sector\<close> on a card. The boot sector
  and directory structures are packed, as the build sets \<^verbatim>\<open>-fpack-struct\<close>, so a field is a fixed
  byte offset. Buffers are byte lists: name, size and cluster of a directory entry are read from the
  same buffer the name is copied into, and the copy is written out step by step.
\<close>

type_synonym 's reader = "u32 \<Rightarrow> u8 list \<Rightarrow> 's \<Rightarrow> (u8 list \<times> 's) option"

section \<open>Globals and structure fields\<close>

record fatg =
  ClusterSize :: u8
  FAT_Offset :: u16
  ClusterOffset :: u16
  Volume_Boot_Record_Addr :: u16

definition MasterBootRecord :: u32 where
  "MasterBootRecord = 0"

definition VBR_Addr :: nat where
  "VBR_Addr = 0x1C6"

definition SPACE :: u8 where
  "SPACE = 0x20"

definition DIR_ENTRY_IS_FREE :: u8 where
  "DIR_ENTRY_IS_FREE = 0xE5"

definition ATTR_LONG_NAME :: u8 where
  "ATTR_LONG_NAME = 0x0F"

definition le16 :: "u8 list \<Rightarrow> nat \<Rightarrow> u16" where
  "le16 b i = ucast (b ! i) + push_bit 8 (ucast (b ! (i + 1)))"

definition le32 :: "u8 list \<Rightarrow> nat \<Rightarrow> u32" where
  "le32 b i = ucast (b ! i) OR push_bit 8 (ucast (b ! (i + 1))) OR push_bit 16 (ucast (b ! (i + 2)))
     OR push_bit 24 (ucast (b ! (i + 3)))"

text \<open>\<open>struct BootSec\<close> and \<open>struct DirEntry\<close>: the fields the code uses.\<close>

definition BPB_BytesPerSec :: "u8 list \<Rightarrow> u16" where
  "BPB_BytesPerSec b = le16 b 11"

definition BPB_SecPerClus :: "u8 list \<Rightarrow> u8" where
  "BPB_SecPerClus b = b ! 13"

definition BPB_RsvdSecCnt :: "u8 list \<Rightarrow> u16" where
  "BPB_RsvdSecCnt b = le16 b 14"

definition BPB_NumFATs :: "u8 list \<Rightarrow> u8" where
  "BPB_NumFATs b = b ! 16"

definition BPB_FATSz16 :: "u8 list \<Rightarrow> u16" where
  "BPB_FATSz16 b = le16 b 22"

definition DIR_Attr :: "u8 list \<Rightarrow> nat \<Rightarrow> u8" where
  "DIR_Attr b a = b ! (a + 11)"

definition DIR_FstClusLO :: "u8 list \<Rightarrow> nat \<Rightarrow> u16" where
  "DIR_FstClusLO b a = le16 b (a + 26)"

definition DIR_FileSize :: "u8 list \<Rightarrow> nat \<Rightarrow> u32" where
  "DIR_FileSize b a = le32 b (a + 28)"

section \<open>Volume layout\<close>

definition FAT_Addr :: "'s reader \<Rightarrow> u8 list \<Rightarrow> 's \<Rightarrow> (u16 \<times> u8 list \<times> 's) option" where
  "FAT_Addr rs Buffer s = do {
     (Buffer, s) \<leftarrow> rs MasterBootRecord Buffer s;
     let vbr = le16 Buffer VBR_Addr;
     (Buffer, s) \<leftarrow> rs (ucast vbr) Buffer s;
     Some (vbr, Buffer, s)
   }"

definition Root_Dir_Addr :: "'s reader \<Rightarrow> fatg \<Rightarrow> u8 list \<Rightarrow> 's \<Rightarrow> (u16 \<times> u8 list \<times> 's) option" where
  "Root_Dir_Addr rs g Buffer s = do {
     (Buffer, s) \<leftarrow> rs (ucast (Volume_Boot_Record_Addr g)) Buffer s;
     let first = BPB_RsvdSecCnt Buffer + ucast (BPB_NumFATs Buffer) * BPB_FATSz16 Buffer;
     Some (first + Volume_Boot_Record_Addr g, Buffer, s)
   }"

text \<open>\<open>Buffer\<close> is a local, uninitialised array of 512 bytes; its first contents are an argument.\<close>

definition Cluster_Data_Store :: "'s reader \<Rightarrow> u8 list \<Rightarrow> fatg \<Rightarrow> 's \<Rightarrow> (fatg \<times> 's) option" where
  "Cluster_Data_Store rs Buffer g s = do {
     (vbr, Buffer, s) \<leftarrow> FAT_Addr rs Buffer s;
     let g = g\<lparr>Volume_Boot_Record_Addr := vbr\<rparr>;
     (Buffer, s) \<leftarrow> rs (ucast (Volume_Boot_Record_Addr g)) Buffer s;
     let g = g\<lparr>ClusterSize := BPB_SecPerClus Buffer\<rparr>;
     let g = g\<lparr>FAT_Offset := BPB_RsvdSecCnt Buffer\<rparr>;
     let g = g\<lparr>ClusterOffset := of_nat (unat (BPB_BytesPerSec Buffer) * 32 div BlockSize)\<rparr>;
     (r, Buffer, s) \<leftarrow> Root_Dir_Addr rs g Buffer s;
     Some (g\<lparr>ClusterOffset := ClusterOffset g + r\<rparr>, s)
   }"

section \<open>The allocation table\<close>

text \<open>The loop of \<open>Load_FAT\<close>; the second result is what \<open>*Block\<close> holds at the end.\<close>

partial_function (option) fat_loop ::
  "'s reader \<Rightarrow> fatg \<Rightarrow> u16 \<Rightarrow> u16 \<Rightarrow> u16 \<Rightarrow> u32 \<Rightarrow> u8 list \<Rightarrow> 's \<Rightarrow> (u32 \<times> u8 list \<times> 's) option" where
  "fat_loop rs g a Cluster FAT_Block_Store Block TMP_Buffer s =
     (if ucast a = Block then Some (ucast Cluster, TMP_Buffer, s)
      else if Cluster = 0xFFFF then Some (Block, TMP_Buffer, s)
      else
        let FAT_Byte_Addresse = (unat Cluster * 2) mod BlockSize;
            FAT_Block_Addresse = of_nat ((unat Cluster * 2) div BlockSize) + Volume_Boot_Record_Addr g + FAT_Offset g
        in Option.bind (if FAT_Block_Addresse \<noteq> FAT_Block_Store then rs (ucast FAT_Block_Addresse) TMP_Buffer s
                        else Some (TMP_Buffer, s))
             (\<lambda>(TMP_Buffer, s).
                fat_loop rs g (a + 1) (le16 TMP_Buffer FAT_Byte_Addresse) FAT_Block_Addresse Block TMP_Buffer s))"

declare fat_loop.simps [code]

definition Load_FAT :: "'s reader \<Rightarrow> fatg \<Rightarrow> u16 \<Rightarrow> u32 \<Rightarrow> u8 list \<Rightarrow> 's \<Rightarrow> (u32 \<times> u8 list \<times> 's) option" where
  "Load_FAT rs g Cluster Block TMP_Buffer s = fat_loop rs g 0 Cluster 0 Block TMP_Buffer s"

text \<open>A cluster size of 0 divides by zero, which is \<open>None\<close>.\<close>

definition Read_File :: "'s reader \<Rightarrow> fatg \<Rightarrow> u16 \<Rightarrow> u8 list \<Rightarrow> u32 \<Rightarrow> 's \<Rightarrow> (u8 list \<times> 's) option" where
  "Read_File rs g Cluster Buffer BlockCount s =
     (if ClusterSize g = 0 then None
      else do {
        let Block = BlockCount div ucast (ClusterSize g);
        (Block, Buffer, s) \<leftarrow> Load_FAT rs g Cluster Block Buffer s;
        let Block = (Block - 2) * ucast (ClusterSize g) + ucast (ClusterOffset g);
        let Block = Block + BlockCount mod ucast (ClusterSize g);
        rs Block Buffer s
      })"

section \<open>Directories\<close>

text \<open>
  The copy of the name: \<open>p\<close> is \<open>pointer\<close> as an index into the buffer the entry at \<open>a\<close> lies in.
\<close>

fun copy_name :: "nat \<Rightarrow> nat list \<Rightarrow> nat \<Rightarrow> u8 list \<Rightarrow> nat \<times> u8 list" where
  "copy_name a [] p buf = (p, buf)"
| "copy_name a (b # bs) p buf =
     (if buf ! (a + b) \<noteq> SPACE then
        let (p, buf) = (if b = 8 then (p + 1, buf[p := 46]) else (p, buf))
        in copy_name a bs (p + 1) (buf[p := buf ! (a + b)])
      else copy_name a bs p buf)"

text \<open>What \<open>Read_Dir_Ent\<close> hands back besides the buffer: cluster, size and attribute.\<close>

record dirent =
  de_cluster :: u16
  de_size :: u32
  de_attrib :: u8

definition take_entry :: "nat \<Rightarrow> u8 list \<Rightarrow> dirent \<times> u8 list" where
  "take_entry a buf =
     (let (p, buf) = copy_name a [0..<11] 0 buf;
          buf = buf[p := 0]
      in (\<lparr>de_cluster = DIR_FstClusLO buf a, de_size = DIR_FileSize buf a, de_attrib = DIR_Attr buf a\<rparr>, buf))"

text \<open>
  The entries of one sector. The result says how the sector ends: no more entries, the wanted entry,
  or the number of entries counted so far.
\<close>

datatype sector_end = NoMore | Found dirent "u8 list" | Counted u16

fun dir_sector :: "u8 \<Rightarrow> nat list \<Rightarrow> u16 \<Rightarrow> u8 list \<Rightarrow> sector_end" where
  "dir_sector Entry_Count [] cnt buf = Counted cnt"
| "dir_sector Entry_Count (a # as) cnt buf =
     (if buf ! a = 0 then NoMore
      else if DIR_Attr buf a \<noteq> ATTR_LONG_NAME \<and> buf ! a \<noteq> DIR_ENTRY_IS_FREE then
        (if cnt = ucast Entry_Count then (let (e, buf) = take_entry a buf in Found e buf)
         else dir_sector Entry_Count as (cnt + 1) buf)
      else dir_sector Entry_Count as cnt buf)"

definition entry_offsets :: "nat list" where
  "entry_offsets = map (\<lambda>i. 32 * i) [0..<16]"

partial_function (option) dir_loop ::
  "'s reader \<Rightarrow> u8 \<Rightarrow> u16 \<Rightarrow> u16 \<Rightarrow> u8 list \<Rightarrow> 's \<Rightarrow> (dirent option \<times> u8 list \<times> 's) option" where
  "dir_loop rs Entry_Count blk cnt Buffer s =
     Option.bind (rs (ucast blk) Buffer s) (\<lambda>(Buffer, s).
       case dir_sector Entry_Count entry_offsets cnt Buffer of
         NoMore \<Rightarrow> Some (None, Buffer, s)
       | Found e buf \<Rightarrow> Some (Some e, buf, s)
       | Counted cnt \<Rightarrow> dir_loop rs Entry_Count (blk + 1) cnt Buffer s)"

declare dir_loop.simps [code]

text \<open>
  \<open>None\<close> in the first result is the return value 0xFFFF for \<^emph>\<open>no more entries\<close>, which leaves \<open>*Size\<close>
  and \<open>*Dir_Attrib\<close> alone.
\<close>

definition Read_Dir_Ent :: "'s reader \<Rightarrow> fatg \<Rightarrow> u16 \<Rightarrow> u8 \<Rightarrow> u8 list \<Rightarrow> 's \<Rightarrow> (dirent option \<times> u8 list \<times> 's) option" where
  "Read_Dir_Ent rs g dir_cluster Entry_Count Buffer s = do {
     (Block, Buffer, s) \<leftarrow>
       (if dir_cluster = 0 then do {
          (r, Buffer, s) \<leftarrow> Root_Dir_Addr rs g Buffer s;
          Some (ucast r, Buffer, s)
        } else do {
          (Block, Buffer, s) \<leftarrow> Load_FAT rs g dir_cluster 0 Buffer s;
          Some ((Block - 2) * ucast (ClusterSize g) + ucast (ClusterOffset g), Buffer, s)
        });
     dir_loop rs Entry_Count (ucast Block) 0 Buffer s
   }"

definition ret_cluster :: "dirent option \<Rightarrow> u16" where
  "ret_cluster r = (case r of None \<Rightarrow> 0xFFFF | Some e \<Rightarrow> de_cluster e)"

text \<open>\<open>strcmp(Buffer, File_Name) == 0\<close>\<close>

definition streq :: "u8 list \<Rightarrow> u8 list \<Rightarrow> bool" where
  "streq x y \<longleftrightarrow> takeWhile (\<lambda>c. c \<noteq> 0) x = takeWhile (\<lambda>c. c \<noteq> 0) y"

fun search_loop :: "'s reader \<Rightarrow> fatg \<Rightarrow> u8 list \<Rightarrow> u16 \<Rightarrow> nat list \<Rightarrow> dirent option \<Rightarrow> u8 list \<Rightarrow> 's
     \<Rightarrow> (u8 \<times> dirent option \<times> u8 list \<times> 's) option" where
  "search_loop rs g name dir [] prev Buffer s = Some (2, prev, Buffer, s)"
| "search_loop rs g name dir (a # as) prev Buffer s = do {
     (r, Buffer, s) \<leftarrow> Read_Dir_Ent rs g dir (of_nat a) Buffer s;
     if ret_cluster r = 0xFFFF then Some (0, r, Buffer, s)
     else if streq Buffer name then Some (1, r, Buffer, s)
     else search_loop rs g name dir as r Buffer s
   }"

definition Search_File :: "'s reader \<Rightarrow> fatg \<Rightarrow> u8 list \<Rightarrow> u16 \<Rightarrow> u8 list \<Rightarrow> 's
     \<Rightarrow> (u8 \<times> dirent option \<times> u8 list \<times> 's) option" where
  "Search_File rs g File_Name Cluster Buffer s = search_loop rs g File_Name Cluster [0..<100] None Buffer s"

section \<open>What the reader relies on\<close>

text \<open>
  The contract of the sector read routine: from an \<open>ok\<close> state it returns, fills the first 512 bytes
  of the buffer with the sector, and leaves an \<open>ok\<close> state.
\<close>

locale block_dev =
  fixes rs :: "'s reader"
    and dk :: "u32 \<Rightarrow> u8 list"
    and ok :: "'s \<Rightarrow> bool"
  assumes read_ok: "ok s \<Longrightarrow> a < 2 ^ 23 \<Longrightarrow> \<exists>s'. rs a buf s = Some (dk a @ drop 512 buf, s') \<and> ok s'"
    and sector_len: "ok s \<Longrightarrow> length (dk a) = 512"

text \<open>The sector of the table that holds a cluster's entry, and that entry.\<close>

definition fat_block :: "fatg \<Rightarrow> u16 \<Rightarrow> u16" where
  "fat_block g c = of_nat ((unat c * 2) div BlockSize) + Volume_Boot_Record_Addr g + FAT_Offset g"

definition next_cluster :: "(u32 \<Rightarrow> u8 list) \<Rightarrow> fatg \<Rightarrow> u16 \<Rightarrow> u16" where
  "next_cluster dk g c = le16 (dk (ucast (fat_block g c))) ((unat c * 2) mod BlockSize)"

definition chain :: "(u32 \<Rightarrow> u8 list) \<Rightarrow> fatg \<Rightarrow> u16 \<Rightarrow> nat \<Rightarrow> u16" where
  "chain dk g c n = (next_cluster dk g ^^ n) c"

lemma chain_simps [simp]: "chain dk g c 0 = c" "chain dk g c (Suc n) = chain dk g (next_cluster dk g c) n"
  by (simp_all add: chain_def funpow_swap1)

lemma u16_sector: "(ucast (a :: u16) :: u32) < 2 ^ 23"
proof -
  have "unat (ucast a :: u32) = unat a" by (rule unat_ucast_up) simp
  moreover have "unat a < 2 ^ 16" using unsigned_less [of a] by simp
  ultimately show ?thesis by (simp add: word_less_nat_alt)
qed

lemma le16_append: "i + 1 < length x \<Longrightarrow> le16 (x @ y) i = le16 x i"
  by (simp add: le16_def nth_append)

lemma even_mod_512: "(n * 2) mod 512 + 1 < (512 :: nat)"
proof -
  have "n * 2 mod 512 = 2 * (n mod 256)" using mult_mod_right [of 2 n 256] by (simp add: mult.commute)
  moreover have "n mod 256 < 256" by simp
  ultimately show ?thesis by linarith
qed

lemma unat_u16_u32 [simp]: "unat (ucast (a :: u16) :: u32) = unat a"
  by (rule unat_ucast_up) simp

lemma u16_eq_iff: "(ucast (a :: u16) :: u32) = b \<longleftrightarrow> unat a = unat b"
  by (metis unat_u16_u32 unsigned_word_eqI)

section \<open>Entries of a directory\<close>

definition sec_live :: "u8 list \<Rightarrow> nat \<Rightarrow> bool" where
  "sec_live buf i \<longleftrightarrow> DIR_Attr buf (32 * i) \<noteq> ATTR_LONG_NAME \<and> buf ! (32 * i) \<noteq> DIR_ENTRY_IS_FREE"

lemma dir_sector_skip:
  "i \<le> t \<Longrightarrow> t \<le> 16 \<Longrightarrow>
   (\<forall>j. i \<le> j \<and> j < t \<longrightarrow> buf ! (32 * j) \<noteq> 0 \<and>
      \<not> (sec_live buf j \<and> c + of_nat (length (filter (sec_live buf) [i..<j])) = ucast n)) \<Longrightarrow>
   dir_sector n (map (\<lambda>i. 32 * i) [i..<16]) c buf =
   dir_sector n (map (\<lambda>i. 32 * i) [t..<16]) (c + of_nat (length (filter (sec_live buf) [i..<t]))) buf"
proof (induction "t - i" arbitrary: i c)
  case 0
  then show ?case by simp
next
  case (Suc d)
  then have i: "i < t" "i < 16" by simp_all
  let ?c = "if sec_live buf i then c + 1 else c"
  have here: "buf ! (32 * i) \<noteq> 0" "\<not> (sec_live buf i \<and> c = ucast n)"
    using Suc.prems(3) i by (fastforce dest: spec [of _ i])+
  have step: "dir_sector n (map (\<lambda>i. 32 * i) [i..<16]) c buf = dir_sector n (map (\<lambda>i. 32 * i) [Suc i..<16]) ?c buf"
    using here by (auto simp: upt_conv_Cons [OF i(2)] sec_live_def simp del: upt_Suc)
  have cnt: "?c + of_nat (length (filter (sec_live buf) [Suc i..<j])) = c + of_nat (length (filter (sec_live buf) [i..<j]))"
    if "i < j" for j using that by (simp add: upt_conv_Cons [OF that] del: upt_Suc)
  have "dir_sector n (map (\<lambda>i. 32 * i) [Suc i..<16]) ?c buf =
      dir_sector n (map (\<lambda>i. 32 * i) [t..<16]) (?c + of_nat (length (filter (sec_live buf) [Suc i..<t]))) buf"
    using Suc.hyps(2) Suc.prems i
    by (intro Suc.hyps(1)) (auto simp: cnt simp del: upt_Suc)
  then show ?case using step cnt [OF i(1)] by simp
qed

text \<open>
  The copied name: the characters that are not blanks, with a point before the ninth.
\<close>

definition name83 :: "u8 list \<Rightarrow> nat \<Rightarrow> nat list \<Rightarrow> u8 list" where
  "name83 buf a bs = concat (map (\<lambda>b. if buf ! (a + b) = SPACE then []
                                     else (if b = 8 then [46] else []) @ [buf ! (a + b)]) bs)"

lemma name83_Cons:
  "name83 buf a (b # bs) = (if buf ! (a + b) = SPACE then []
     else (if b = 8 then [46] else []) @ [buf ! (a + b)]) @ name83 buf a bs"
  by (simp add: name83_def)

lemma name83_cong: "(\<forall>b \<in> set bs. x ! (a + b) = y ! (a + b)) \<Longrightarrow> name83 x a bs = name83 y a bs"
  by (induction bs) (simp_all add: name83_def)

text \<open>Overwriting the front of a list.\<close>

definition overlay :: "nat \<Rightarrow> u8 list \<Rightarrow> u8 list \<Rightarrow> u8 list" where
  "overlay p xs buf = take p buf @ xs @ drop (p + length xs) buf"

lemma overlay_nth: "p + length xs \<le> i \<Longrightarrow> i < length buf \<Longrightarrow> overlay p xs buf ! i = buf ! i"
  by (auto simp: overlay_def nth_append min_def)

lemma overlay_Nil [simp]: "overlay p [] buf = buf"
  by (simp add: overlay_def)

lemma length_overlay [simp]: "p + length xs \<le> length buf \<Longrightarrow> length (overlay p xs buf) = length buf"
  by (simp add: overlay_def)

lemma overlay_one: "p < length buf \<Longrightarrow> buf[p := x] = overlay p [x] buf"
  by (simp add: overlay_def upd_conv_take_nth_drop)

lemma overlay_overlay:
  "p + length xs + length ys \<le> length buf \<Longrightarrow> overlay (p + length xs) ys (overlay p xs buf) = overlay p (xs @ ys) buf"
  by (simp add: overlay_def ac_simps)

lemma copy_name_ok:
  "(\<forall>b \<in> set bs. a + b < length buf) \<Longrightarrow> p + length (name83 buf a bs) \<le> a \<Longrightarrow> a \<le> length buf \<Longrightarrow>
     copy_name a bs p buf = (p + length (name83 buf a bs), overlay p (name83 buf a bs) buf)"
proof (induction bs arbitrary: p buf)
  case (Cons b bs)
  show ?case
  proof (cases "buf ! (a + b) = SPACE")
    case True
    then show ?thesis using Cons by (simp add: name83_Cons)
  next
    case False
    let ?pre = "if b = 8 then [46] else [] :: u8 list" and ?x = "buf ! (a + b)"
    let ?buf = "overlay p (?pre @ [?x]) buf"
    have len: "p + length (?pre @ [?x]) + length (name83 buf a bs) \<le> a"
      using Cons.prems(2) False by (simp add: name83_Cons add.assoc)
    have same: "?buf ! (a + j) = buf ! (a + j)" if "a + j < length buf" for j
      using len that by (intro overlay_nth) auto
    have nm: "name83 ?buf a bs = name83 buf a bs"
      using same Cons.prems(1) by (intro name83_cong) auto
    have lb: "length ?buf = length buf" using len Cons.prems(3) by (intro length_overlay) auto
    have fst: "copy_name a (b # bs) p buf = copy_name a bs (p + length (?pre @ [?x])) ?buf"
    proof (cases "b = 8")
      case True
      have "overlay p [46] buf ! (a + 8) = buf ! (a + 8)"
        using len True Cons.prems(1) by (intro overlay_nth) auto
      then show ?thesis
        using False True len Cons.prems(3)
        by (simp add: overlay_one overlay_overlay [of p "[46]" "[_]", simplified] numeral_2_eq_2)
    next
      case b8: False
      then show ?thesis using False len Cons.prems(3) by (simp add: overlay_one)
    qed
    have "copy_name a bs (p + length (?pre @ [?x])) ?buf =
        (p + length (?pre @ [?x]) + length (name83 buf a bs), overlay (p + length (?pre @ [?x])) (name83 buf a bs) ?buf)"
      using Cons.IH [of ?buf "p + length (?pre @ [?x])"] Cons.prems lb nm len by simp
    also have "overlay (p + length (?pre @ [?x])) (name83 buf a bs) ?buf = overlay p (name83 buf a (b # bs)) buf"
      using overlay_overlay [of p "?pre @ [?x]" "name83 buf a bs" buf] len Cons.prems(3) False
      by (simp add: name83_Cons)
    finally show ?thesis using fst False by (simp add: name83_Cons)
  qed
qed (simp add: name83_def)

text \<open>
  The entry with number \<open>k\<close> of a directory that starts at block \<open>blk\<close>: its sector, its first byte,
  whether it is a short name entry in use, and how many of these come before it.
\<close>

definition dir_sec :: "(u32 \<Rightarrow> u8 list) \<Rightarrow> u16 \<Rightarrow> nat \<Rightarrow> u8 list" where
  "dir_sec dk blk k = dk (ucast (blk + of_nat (k div 16)))"

definition ent_first :: "(u32 \<Rightarrow> u8 list) \<Rightarrow> u16 \<Rightarrow> nat \<Rightarrow> u8" where
  "ent_first dk blk k = dir_sec dk blk k ! (32 * (k mod 16))"

definition ent_live :: "(u32 \<Rightarrow> u8 list) \<Rightarrow> u16 \<Rightarrow> nat \<Rightarrow> bool" where
  "ent_live dk blk k = sec_live (dir_sec dk blk k) (k mod 16)"

definition live_before :: "(u32 \<Rightarrow> u8 list) \<Rightarrow> u16 \<Rightarrow> nat \<Rightarrow> nat" where
  "live_before dk blk k = length (filter (ent_live dk blk) [0..<k])"

lemma length_name83: "length (name83 buf a bs) \<le> 2 * length bs"
  by (induction bs) (auto simp: name83_def)

text \<open>An entry that is not the first of its sector is taken over exactly.\<close>

lemma take_entry_ok:
  assumes "32 \<le> a" "a + 32 \<le> length buf"
  shows "take_entry a buf = (\<lparr>de_cluster = DIR_FstClusLO buf a, de_size = DIR_FileSize buf a, de_attrib = DIR_Attr buf a\<rparr>,
     overlay 0 (name83 buf a [0..<11] @ [0]) buf)"
proof -
  let ?nm = "name83 buf a [0..<11]"
  have len: "length ?nm \<le> 22" using length_name83 [of buf a "[0..<11]"] by simp
  have cp: "copy_name a [0..<11] 0 buf = (length ?nm, overlay 0 ?nm buf)"
    using copy_name_ok [of "[0..<11]" a buf 0] assms len by auto
  have z: "(overlay 0 ?nm buf)[length ?nm := 0] = overlay 0 (?nm @ [0]) buf"
    using overlay_one [of "length ?nm" "overlay 0 ?nm buf" 0] overlay_overlay [of 0 ?nm "[0]" buf] assms len by simp
  have same: "overlay 0 (?nm @ [0]) buf ! (a + j) = buf ! (a + j)" if "j < 32" for j
    using that assms len by (intro overlay_nth) auto
  have "DIR_FstClusLO (overlay 0 (?nm @ [0]) buf) a = DIR_FstClusLO buf a"
    using same [of 26] same [of 27] by (simp add: DIR_FstClusLO_def le16_def add.commute)
  moreover have "DIR_FileSize (overlay 0 (?nm @ [0]) buf) a = DIR_FileSize buf a"
    using same [of 28] same [of 29] same [of 30] same [of 31] by (simp add: DIR_FileSize_def le32_def add.commute)
  moreover have "DIR_Attr (overlay 0 (?nm @ [0]) buf) a = DIR_Attr buf a"
    using same [of 11] by (simp add: DIR_Attr_def)
  ultimately show ?thesis by (simp add: take_entry_def cp z)
qed

text \<open>Where a directory starts.\<close>

definition root_block :: "(u32 \<Rightarrow> u8 list) \<Rightarrow> fatg \<Rightarrow> u16" where
  "root_block dk g = (let b = dk (ucast (Volume_Boot_Record_Addr g))
     in BPB_RsvdSecCnt b + ucast (BPB_NumFATs b) * BPB_FATSz16 b + Volume_Boot_Record_Addr g)"

definition dir_start :: "(u32 \<Rightarrow> u8 list) \<Rightarrow> fatg \<Rightarrow> u16 \<Rightarrow> u16" where
  "dir_start dk g c = (if c = 0 then root_block dk g
     else ucast ((ucast c - 2) * ucast (ClusterSize g) + ucast (ClusterOffset g) :: u32))"

text \<open>\<open>k\<close> is the number of the \<open>n\<close>-th short name entry in use, with no end mark up to it.\<close>

definition nth_entry :: "(u32 \<Rightarrow> u8 list) \<Rightarrow> u16 \<Rightarrow> nat \<Rightarrow> nat \<Rightarrow> bool" where
  "nth_entry dk blk n k \<longleftrightarrow> ent_live dk blk k \<and> live_before dk blk k = n \<and> (\<forall>j \<le> k. ent_first dk blk j \<noteq> 0)"

lemma live_before_mono: "j \<le> k \<Longrightarrow> live_before dk blk j \<le> live_before dk blk k"
  using upt_add_eq_append [of 0 j "k - j"] by (simp add: live_before_def)

lemma live_before_Suc: "ent_live dk blk j \<Longrightarrow> live_before dk blk (Suc j) = Suc (live_before dk blk j)"
  by (simp add: live_before_def)

lemma live_before_le: "live_before dk blk k \<le> k"
  using length_filter_le [of "ent_live dk blk" "[0..<k]"] by (simp add: live_before_def)

lemma u16_of_small: "x < 65536 \<Longrightarrow> (of_nat x :: u16) = ucast (n :: u8) \<longleftrightarrow> x = unat n"
proof -
  assume x: "x < 65536"
  have "unat (of_nat x :: u16) = x" using x by (simp add: unsigned_of_nat take_bit_nat_eq_self)
  moreover have "unat (ucast n :: u16) = unat n" by (rule unat_ucast_up) simp
  ultimately show ?thesis by (metis unsigned_word_eqI)
qed

lemma not_wanted_before:
  assumes "live_before dk blk k \<le> unat (n :: u8)" "j < k"
  shows "\<not> (ent_live dk blk j \<and> of_nat (live_before dk blk j) = (ucast n :: u16))"
proof
  assume h: "ent_live dk blk j \<and> of_nat (live_before dk blk j) = (ucast n :: u16)"
  have "Suc (live_before dk blk j) \<le> unat n"
    using live_before_mono [of "Suc j" k dk blk] assms live_before_Suc [of dk blk j] h by simp
  moreover have "unat n < 256" by (rule u8_less_256)
  ultimately show False using h u16_of_small [of "live_before dk blk j" n] by auto
qed

context block_dev
begin

lemma read_u16:
  assumes "ok s"
  shows "\<exists>s'. rs (ucast (a :: u16)) buf s = Some (dk (ucast a) @ drop 512 buf, s') \<and> ok s'"
  using read_ok [OF assms u16_sector] .

lemma fat_loop_step:
  assumes "ok s" "unat a \<noteq> unat Block" "c \<noteq> 0xFFFF" "fat_block g c \<noteq> 0" "st \<noteq> 0 \<longrightarrow> take 512 buf = dk (ucast st)"
  shows "\<exists>buf1 s1. ok s1 \<and> take 512 buf1 = dk (ucast (fat_block g c)) \<and> drop 512 buf1 = drop 512 buf \<and>
     fat_loop rs g a c st Block buf s = fat_loop rs g (a + 1) (next_cluster dk g c) (fat_block g c) Block buf1 s1"
proof -
  let ?fb = "fat_block g c" and ?i = "(unat c * 2) mod BlockSize"
  have len: "length (dk x) = 512" for x using sector_len [OF assms(1)] .
  obtain buf1 s1 where b1: "(if ?fb \<noteq> st then rs (ucast ?fb) buf s else Some (buf, s)) = Some (buf1, s1)"
      "ok s1" "take 512 buf1 = dk (ucast ?fb)" "drop 512 buf1 = drop 512 buf"
  proof (cases "?fb = st")
    case True
    then show ?thesis using that [of buf s] assms(1,4,5) by auto
  next
    case False
    then show ?thesis using that read_u16 [OF assms(1), of ?fb buf] len by auto
  qed
  have nx: "le16 buf1 ?i = next_cluster dk g c"
  proof -
    have "buf1 = dk (ucast ?fb) @ drop 512 buf1" using b1(3) append_take_drop_id [of 512 buf1] by simp
    then have "le16 buf1 ?i = le16 (dk (ucast ?fb) @ drop 512 buf1) ?i" by simp
    then show ?thesis
      using le16_append [of ?i "dk (ucast ?fb)" "drop 512 buf1"] even_mod_512 [of "unat c"] len
      by (simp add: next_cluster_def BlockSize_def)
  qed
  have ne: "(ucast a :: u32) \<noteq> Block" using assms(2) by (simp add: u16_eq_iff)
  have "fat_loop rs g a c st Block buf s = fat_loop rs g (a + 1) (next_cluster dk g c) ?fb Block buf1 s1"
    by (subst fat_loop.simps) (unfold Let_def fat_block_def [symmetric] b1(1), simp add: ne assms(3) nx)
  then show ?thesis using b1 by blast
qed

lemma fat_loop_chain:
  "ok s \<Longrightarrow> unat a + n = unat Block \<Longrightarrow> unat Block < 2 ^ 16 \<Longrightarrow>
   (\<forall>i < n. chain dk g c i \<noteq> 0xFFFF) \<Longrightarrow> (\<forall>i < n. fat_block g (chain dk g c i) \<noteq> 0) \<Longrightarrow>
   (st \<noteq> 0 \<longrightarrow> take 512 buf = dk (ucast st)) \<Longrightarrow>
     \<exists>buf' s'. fat_loop rs g a c st Block buf s = Some (ucast (chain dk g c n), buf', s') \<and> ok s'
       \<and> drop 512 buf' = drop 512 buf"
proof (induction n arbitrary: a c st buf s)
  case 0
  then show ?case by (subst fat_loop.simps) (simp add: u16_eq_iff)
next
  case (Suc n)
  obtain buf1 s1 where 1: "ok s1" "take 512 buf1 = dk (ucast (fat_block g c))" "drop 512 buf1 = drop 512 buf"
      "fat_loop rs g a c st Block buf s = fat_loop rs g (a + 1) (next_cluster dk g c) (fat_block g c) Block buf1 s1"
    using fat_loop_step [OF Suc.prems(1), of a Block c g st buf] Suc.prems by fastforce
  have a1: "unat (a + 1) = unat a + 1"
    using Suc.prems(2,3) by (simp add: unat_word_ariths)
  have "\<exists>buf' s'. fat_loop rs g (a + 1) (next_cluster dk g c) (fat_block g c) Block buf1 s1 =
      Some (ucast (chain dk g (next_cluster dk g c) n), buf', s') \<and> ok s' \<and> drop 512 buf' = drop 512 buf1"
    using Suc.prems a1 1 by (intro Suc.IH) (force simp: chain_simps(2) [symmetric] simp del: chain_simps(2))+
  then show ?case using 1(3,4) by auto
qed

lemma fat_loop_short:
  "ok s \<Longrightarrow> unat a + n < unat Block \<Longrightarrow> unat Block < 2 ^ 16 \<Longrightarrow> chain dk g c n = 0xFFFF \<Longrightarrow>
   (\<forall>i < n. chain dk g c i \<noteq> 0xFFFF) \<Longrightarrow> (\<forall>i < n. fat_block g (chain dk g c i) \<noteq> 0) \<Longrightarrow>
   (st \<noteq> 0 \<longrightarrow> take 512 buf = dk (ucast st)) \<Longrightarrow>
     \<exists>buf' s'. fat_loop rs g a c st Block buf s = Some (Block, buf', s')"
proof (induction n arbitrary: a c st buf s)
  case 0
  then have "(ucast a :: u32) \<noteq> Block" by (auto simp: u16_eq_iff)
  then show ?case using 0 by (subst fat_loop.simps) simp
next
  case (Suc n)
  obtain buf1 s1 where 1: "ok s1" "take 512 buf1 = dk (ucast (fat_block g c))"
      "fat_loop rs g a c st Block buf s = fat_loop rs g (a + 1) (next_cluster dk g c) (fat_block g c) Block buf1 s1"
    using fat_loop_step [OF Suc.prems(1), of a Block c g st buf] Suc.prems by fastforce
  have a1: "unat (a + 1) = unat a + 1"
    using Suc.prems(2,3) by (simp add: unat_word_ariths)
  have "\<exists>buf' s'. fat_loop rs g (a + 1) (next_cluster dk g c) (fat_block g c) Block buf1 s1 = Some (Block, buf', s')"
    using Suc.prems a1 1 by (intro Suc.IH) (force simp: chain_simps(2) [symmetric] simp del: chain_simps(2))+
  then show ?case using 1(3) by simp
qed

lemma Read_File_sector:
  assumes "ok s" "ClusterSize g \<noteq> 0" "unat (BlockCount div ucast (ClusterSize g)) = n" "n < 2 ^ 16"
    and "\<forall>i < n. chain dk g c i \<noteq> 0xFFFF" "\<forall>i < n. fat_block g (chain dk g c i) \<noteq> 0"
    and "(ucast (chain dk g c n) - 2) * ucast (ClusterSize g) + ucast (ClusterOffset g)
           + BlockCount mod ucast (ClusterSize g) < (2 ^ 23 :: u32)"
  shows "\<exists>s'. Read_File rs g c Buffer BlockCount s =
     Some (dk ((ucast (chain dk g c n) - 2) * ucast (ClusterSize g) + ucast (ClusterOffset g)
             + BlockCount mod ucast (ClusterSize g)) @ drop 512 Buffer, s') \<and> ok s'"
proof -
  let ?b = "BlockCount div ucast (ClusterSize g)"
  obtain buf1 s1 where l: "Load_FAT rs g c ?b Buffer s = Some (ucast (chain dk g c n), buf1, s1)" "ok s1"
      "drop 512 buf1 = drop 512 Buffer"
    using fat_loop_chain [OF assms(1), of 0 n ?b g c 0 Buffer] assms(3-6) by (auto simp: Load_FAT_def)
  then show ?thesis using read_ok [OF l(2) assms(7), of buf1] assms(2) by (auto simp: Read_File_def Let_def)
qed

lemma dir_sector_to:
  assumes "ok s" "t \<le> 16"
    and "\<forall>j < t. ent_first dk blk (16 * q + j) \<noteq> 0 \<and>
       \<not> (ent_live dk blk (16 * q + j) \<and> of_nat (live_before dk blk (16 * q + j)) = (ucast n :: u16))"
  shows "dir_sector n entry_offsets (of_nat (live_before dk blk (16 * q))) (dir_sec dk blk (16 * q) @ r) =
     dir_sector n (map (\<lambda>i. 32 * i) [t..<16]) (of_nat (live_before dk blk (16 * q + t))) (dir_sec dk blk (16 * q) @ r)"
proof -
  let ?b = "dir_sec dk blk (16 * q) @ r"
  have len: "length (dir_sec dk blk (16 * q)) = 512" using sector_len [OF assms(1)] by (simp add: dir_sec_def)
  have sec: "dir_sec dk blk (16 * q + j) = dir_sec dk blk (16 * q)" if "j < 16" for j
    using that by (simp add: dir_sec_def)
  have first: "?b ! (32 * j) = ent_first dk blk (16 * q + j)" if "j < 16" for j
    using that len sec [OF that] by (simp add: ent_first_def nth_append)
  have live: "sec_live ?b j = ent_live dk blk (16 * q + j)" if "j < 16" for j
    using that len sec [OF that] by (simp add: ent_live_def sec_live_def DIR_Attr_def nth_append)
  have cnt: "live_before dk blk (16 * q + j) = live_before dk blk (16 * q) + length (filter (sec_live ?b) [0..<j])" if "j \<le> 16" for j
  proof -
    have "[0..<16 * q + j] = [0..<16 * q] @ map (\<lambda>i. 16 * q + i) [0..<j]"
      using upt_add_eq_append [of 0 "16 * q" j] map_add_upt [of "16 * q" j] by (simp add: add.commute)
    moreover have "length (filter (ent_live dk blk) (map (\<lambda>i. 16 * q + i) [0..<j])) = length (filter (sec_live ?b) [0..<j])"
    proof -
      have "filter (\<lambda>i. ent_live dk blk (16 * q + i)) [0..<j] = filter (sec_live ?b) [0..<j]"
        using that live by (intro filter_cong) auto
      then show ?thesis by (simp add: filter_map comp_def)
    qed
    ultimately show ?thesis by (simp add: live_before_def)
  qed
  have "dir_sector n (map (\<lambda>i. 32 * i) [0..<16]) (of_nat (live_before dk blk (16 * q))) ?b =
      dir_sector n (map (\<lambda>i. 32 * i) [t..<16])
        (of_nat (live_before dk blk (16 * q)) + of_nat (length (filter (sec_live ?b) [0..<t]))) ?b"
    using assms(2,3) first live cnt by (intro dir_sector_skip) auto
  then show ?thesis using cnt [OF assms(2)] by (simp add: entry_offsets_def)
qed

lemma dir_loop_skip:
  "ok s \<Longrightarrow> (\<forall>j < 16 * q. ent_first dk blk j \<noteq> 0 \<and>
       \<not> (ent_live dk blk j \<and> of_nat (live_before dk blk j) = (ucast n :: u16))) \<Longrightarrow>
     \<exists>buf' s'. dir_loop rs n blk 0 buf s = dir_loop rs n (blk + of_nat q) (of_nat (live_before dk blk (16 * q))) buf' s'
       \<and> ok s' \<and> drop 512 buf' = drop 512 buf"
proof (induction q)
  case 0
  then show ?case by (auto simp: live_before_def)
next
  case (Suc q)
  obtain buf1 s1 where 1: "dir_loop rs n blk 0 buf s = dir_loop rs n (blk + of_nat q) (of_nat (live_before dk blk (16 * q))) buf1 s1"
      "ok s1" "drop 512 buf1 = drop 512 buf"
    using Suc by auto
  have sec: "dir_sec dk blk (16 * q) = dk (ucast (blk + of_nat q))" by (simp add: dir_sec_def)
  obtain s2 where 2: "rs (ucast (blk + of_nat q)) buf1 s1 = Some (dir_sec dk blk (16 * q) @ drop 512 buf1, s2)" "ok s2"
    using read_u16 [OF 1(2)] sec by auto
  have cond: "\<forall>j < 16. ent_first dk blk (16 * q + j) \<noteq> 0 \<and>
       \<not> (ent_live dk blk (16 * q + j) \<and> of_nat (live_before dk blk (16 * q + j)) = (ucast n :: u16))"
    using Suc.prems(2) by auto
  have "dir_sector n entry_offsets (of_nat (live_before dk blk (16 * q))) (dir_sec dk blk (16 * q) @ drop 512 buf1)
      = Counted (of_nat (live_before dk blk (16 * q + 16)))"
    using dir_sector_to [OF 2(2) order_refl cond] by simp
  then have "dir_loop rs n (blk + of_nat q) (of_nat (live_before dk blk (16 * q))) buf1 s1 =
      dir_loop rs n (blk + of_nat q + 1) (of_nat (live_before dk blk (16 * q + 16))) (dir_sec dk blk (16 * q) @ drop 512 buf1) s2"
    using 2(1) by (subst dir_loop.simps) simp
  moreover have "drop 512 (dir_sec dk blk (16 * q) @ drop 512 buf1) = drop 512 buf"
    using sector_len [OF 2(2)] 1(3) by (simp add: dir_sec_def)
  ultimately show ?case using 1(1) 2(2)
    by (intro exI [of _ "dir_sec dk blk (16 * q) @ drop 512 buf1"] exI [of _ s2]) (simp add: add.commute add.left_commute)
qed

text \<open>The first \<open>k\<close> entries are in use and none of them is the wanted one.\<close>

lemma dir_loop_reaches:
  assumes "ok s" "k = 16 * q + t" "t < 16"
    and "\<forall>j < k. ent_first dk blk j \<noteq> 0 \<and>
       \<not> (ent_live dk blk j \<and> of_nat (live_before dk blk j) = (ucast n :: u16))"
  shows "\<exists>s' cnt. ok s' \<and> cnt = (of_nat (live_before dk blk k) :: u16) \<and>
     dir_loop rs n blk 0 buf s =
       (case dir_sector n (map (\<lambda>i. 32 * i) [t..<16]) cnt (dir_sec dk blk k @ drop 512 buf) of
          NoMore \<Rightarrow> Some (None, dir_sec dk blk k @ drop 512 buf, s')
        | Found e b \<Rightarrow> Some (Some e, b, s')
        | Counted c \<Rightarrow> dir_loop rs n (blk + of_nat q + 1) c (dir_sec dk blk k @ drop 512 buf) s')"
proof -
  obtain buf1 s1 where 1: "dir_loop rs n blk 0 buf s = dir_loop rs n (blk + of_nat q) (of_nat (live_before dk blk (16 * q))) buf1 s1"
      "ok s1" "drop 512 buf1 = drop 512 buf"
    using dir_loop_skip [OF assms(1), of q blk n buf] assms(2,4) by auto
  have sec: "dir_sec dk blk (16 * q) = dk (ucast (blk + of_nat q))" "dir_sec dk blk k = dir_sec dk blk (16 * q)"
    using assms(2,3) by (simp_all add: dir_sec_def)
  obtain s2 where 2: "rs (ucast (blk + of_nat q)) buf1 s1 = Some (dir_sec dk blk k @ drop 512 buf, s2)" "ok s2"
    using read_u16 [OF 1(2), of "blk + of_nat q" buf1] sec 1(3) by auto
  have "dir_sector n entry_offsets (of_nat (live_before dk blk (16 * q))) (dir_sec dk blk k @ drop 512 buf) =
      dir_sector n (map (\<lambda>i. 32 * i) [t..<16]) (of_nat (live_before dk blk k)) (dir_sec dk blk k @ drop 512 buf)"
    using dir_sector_to [OF assms(1), of t blk q n "drop 512 buf"] assms(2,3,4) sec(2) by simp
  then show ?thesis
    using 2 1(1) by (intro exI [of _ s2]) (simp add: dir_loop.simps [of rs n "blk + of_nat q"])
qed

lemma Root_Dir_Addr_ok:
  assumes "ok s"
  shows "\<exists>buf s'. Root_Dir_Addr rs g Buffer s = Some (root_block dk g, buf, s') \<and> ok s' \<and> drop 512 buf = drop 512 Buffer"
proof -
  let ?b = "dk (ucast (Volume_Boot_Record_Addr g))"
  have len: "length ?b = 512" using sector_len [OF assms] .
  obtain s1 where 1: "rs (ucast (Volume_Boot_Record_Addr g)) Buffer s = Some (?b @ drop 512 Buffer, s1)" "ok s1"
    using read_u16 [OF assms] by blast
  have "BPB_RsvdSecCnt (?b @ drop 512 Buffer) = BPB_RsvdSecCnt ?b" "BPB_FATSz16 (?b @ drop 512 Buffer) = BPB_FATSz16 ?b"
    "BPB_NumFATs (?b @ drop 512 Buffer) = BPB_NumFATs ?b"
    using len by (simp_all add: BPB_RsvdSecCnt_def BPB_FATSz16_def BPB_NumFATs_def le16_append nth_append)
  then show ?thesis using 1 len by (auto simp: Root_Dir_Addr_def root_block_def Let_def)
qed

lemma Read_Dir_Ent_start:
  assumes "ok s"
  shows "\<exists>buf s'. Read_Dir_Ent rs g dir n Buffer s = dir_loop rs n (dir_start dk g dir) 0 buf s'
     \<and> ok s' \<and> drop 512 buf = drop 512 Buffer"
proof (cases "dir = 0")
  case True
  have uu: "ucast (ucast r :: u32) = r" for r :: u16 by (rule bit_word_eqI) (simp add: bit_ucast_iff)
  obtain buf s1 where "Root_Dir_Addr rs g Buffer s = Some (root_block dk g, buf, s1)" "ok s1" "drop 512 buf = drop 512 Buffer"
    using Root_Dir_Addr_ok [OF assms] by blast
  then show ?thesis using True
    by (intro exI [of _ buf] exI [of _ s1]) (simp add: Read_Dir_Ent_def dir_start_def uu)
next
  case False
  have "fat_loop rs g 0 dir 0 0 Buffer s = Some (ucast dir, Buffer, s)" by (subst fat_loop.simps) simp
  then show ?thesis using False assms by (auto simp: Read_Dir_Ent_def dir_start_def Load_FAT_def)
qed

lemma Read_Dir_Ent_found:
  assumes "ok s" "nth_entry dk (dir_start dk g dir) (unat n) k" "k mod 16 \<noteq> 0"
  defines "sec \<equiv> dir_sec dk (dir_start dk g dir) k" and "a \<equiv> 32 * (k mod 16)"
  shows "\<exists>s'. Read_Dir_Ent rs g dir n Buffer s =
     Some (Some \<lparr>de_cluster = DIR_FstClusLO sec a, de_size = DIR_FileSize sec a, de_attrib = DIR_Attr sec a\<rparr>,
       overlay 0 (name83 sec a [0..<11] @ [0]) (sec @ drop 512 Buffer), s') \<and> ok s'"
proof -
  let ?blk = "dir_start dk g dir" and ?q = "k div 16" and ?t = "k mod 16"
  obtain buf s1 where 1: "Read_Dir_Ent rs g dir n Buffer s = dir_loop rs n ?blk 0 buf s1" "ok s1" "drop 512 buf = drop 512 Buffer"
    using Read_Dir_Ent_start [OF assms(1)] by blast
  have len: "length sec = 512" using sector_len [OF assms(1)] by (simp add: sec_def dir_sec_def)
  have before: "\<forall>j < k. ent_first dk ?blk j \<noteq> 0 \<and>
       \<not> (ent_live dk ?blk j \<and> of_nat (live_before dk ?blk j) = (ucast n :: u16))"
    using assms(2) not_wanted_before [of dk ?blk k n] by (auto simp: nth_entry_def)
  have kq: "k = 16 * ?q + ?t" and t: "?t < 16" by simp_all
  obtain s2 where 2: "ok s2" "dir_loop rs n ?blk 0 buf s1 =
       (case dir_sector n (map (\<lambda>i. 32 * i) [?t..<16]) (of_nat (live_before dk ?blk k)) (sec @ drop 512 buf) of
          NoMore \<Rightarrow> Some (None, sec @ drop 512 buf, s2)
        | Found e b \<Rightarrow> Some (Some e, b, s2)
        | Counted c \<Rightarrow> dir_loop rs n (?blk + of_nat ?q + 1) c (sec @ drop 512 buf) s2)"
    using dir_loop_reaches [OF 1(2) kq t before, of buf, folded sec_def] by blast
  have a: "a \<le> 480" unfolding a_def using t by linarith
  have app: "(sec @ r) ! (a + j) = sec ! (a + j)" if "j < 32" for j r
    using that a len by (simp add: nth_append)
  have "live_before dk ?blk k = unat n" using assms(2) by (simp add: nth_entry_def)
  moreover have "unat n < 256" by (rule u8_less_256)
  ultimately have cnt: "(of_nat (live_before dk ?blk k) :: u16) = ucast n"
    using u16_of_small [of "live_before dk ?blk k" n] by simp
  have hit: "sec ! a \<noteq> 0" "sec_live sec ?t"
    using assms(2) by (auto simp: nth_entry_def ent_first_def ent_live_def sec_def a_def)
  have here: "(sec @ r) ! a \<noteq> 0" "DIR_Attr (sec @ r) a \<noteq> ATTR_LONG_NAME" "(sec @ r) ! a \<noteq> DIR_ENTRY_IS_FREE" for r
    using hit app [of 0] app [of 11] by (simp_all add: sec_live_def DIR_Attr_def a_def)
  have ds: "dir_sector n (map (\<lambda>i. 32 * i) [?t..<16]) (ucast n) (sec @ drop 512 buf) =
      (let (e, b) = take_entry a (sec @ drop 512 buf) in Found e b)"
    using here [of "drop 512 buf"] by (simp add: upt_conv_Cons [OF t] a_def [symmetric])
  have te: "take_entry a (sec @ drop 512 buf) =
     (\<lparr>de_cluster = DIR_FstClusLO sec a, de_size = DIR_FileSize sec a, de_attrib = DIR_Attr sec a\<rparr>,
      overlay 0 (name83 sec a [0..<11] @ [0]) (sec @ drop 512 buf))"
  proof -
    have "32 \<le> a" "a + 32 \<le> length (sec @ drop 512 buf)" using assms(3) a len by (auto simp: a_def)
    moreover have "name83 (sec @ drop 512 buf) a [0..<11] = name83 sec a [0..<11]"
      using app by (intro name83_cong) auto
    moreover have "DIR_FstClusLO (sec @ drop 512 buf) a = DIR_FstClusLO sec a"
      using app [of 26] app [of 27] by (simp add: DIR_FstClusLO_def le16_def add.commute)
    moreover have "DIR_FileSize (sec @ drop 512 buf) a = DIR_FileSize sec a"
      using app [of 28] app [of 29] app [of 30] app [of 31] by (simp add: DIR_FileSize_def le32_def add.commute)
    moreover have "DIR_Attr (sec @ drop 512 buf) a = DIR_Attr sec a" using app [of 11] by (simp add: DIR_Attr_def)
    ultimately show ?thesis by (simp add: take_entry_ok)
  qed
  show ?thesis using 1 2 cnt ds te by simp
qed

lemma Read_Dir_Ent_none:
  assumes "ok s" "ent_first dk (dir_start dk g dir) k = 0" "\<forall>j < k. ent_first dk (dir_start dk g dir) j \<noteq> 0"
    and "live_before dk (dir_start dk g dir) k \<le> unat n"
  shows "\<exists>buf' s'. Read_Dir_Ent rs g dir n Buffer s = Some (None, buf', s') \<and> ok s'"
proof -
  let ?blk = "dir_start dk g dir" and ?q = "k div 16" and ?t = "k mod 16" and ?sec = "dir_sec dk (dir_start dk g dir) k"
  obtain buf s1 where 1: "Read_Dir_Ent rs g dir n Buffer s = dir_loop rs n ?blk 0 buf s1" "ok s1"
    using Read_Dir_Ent_start [OF assms(1)] by blast
  have before: "\<forall>j < k. ent_first dk ?blk j \<noteq> 0 \<and>
       \<not> (ent_live dk ?blk j \<and> of_nat (live_before dk ?blk j) = (ucast n :: u16))"
    using assms(3,4) not_wanted_before [of dk ?blk k n] by auto
  have kq: "k = 16 * ?q + ?t" and t: "?t < 16" by simp_all
  obtain s2 c where 2: "ok s2" "dir_loop rs n ?blk 0 buf s1 =
       (case dir_sector n (map (\<lambda>i. 32 * i) [?t..<16]) c (?sec @ drop 512 buf) of
          NoMore \<Rightarrow> Some (None, ?sec @ drop 512 buf, s2)
        | Found e b \<Rightarrow> Some (Some e, b, s2)
        | Counted c \<Rightarrow> dir_loop rs n (?blk + of_nat ?q + 1) c (?sec @ drop 512 buf) s2)"
    using dir_loop_reaches [OF 1(2) kq t before, of buf] by blast
  have "(?sec @ drop 512 buf) ! (32 * ?t) = 0"
    using assms(2) sector_len [OF assms(1)] t by (simp add: ent_first_def nth_append dir_sec_def)
  then have "dir_sector n (map (\<lambda>i. 32 * i) [?t..<16]) c (?sec @ drop 512 buf) = NoMore"
    by (simp add: upt_conv_Cons [OF t])
  then show ?thesis using 1 2 by auto
qed

end

section \<open>The SD card driver keeps the contract\<close>

definition sd_ok :: "timing \<Rightarrow> card \<Rightarrow> (u8 \<times> card) machine \<Rightarrow> bool" where
  "sd_ok T c m \<longleftrightarrow> the_card m = c \<and> cst c = CIdle \<and> ncr T \<le> 500 \<and> (\<forall>s. length (disk c s) = 512)"

interpretation sd: block_dev "mmc_read_sector (card_bus T)" "disk c" "sd_ok T c" for T c
proof
  fix s a buf
  assume ok: "sd_ok T c s"
  show "length (disk c a) = 512" using ok by (simp add: sd_ok_def)
  assume "a < 2 ^ 23"
  then show "\<exists>s'. mmc_read_sector (card_bus T) a buf s = Some (disk c a @ drop 512 buf, s') \<and> sd_ok T c s'"
    using mmc_read_card [of s T a buf] ok by (auto simp: sd_ok_def card_ready_def)
qed

text \<open>The sector of the card that holds block \<open>i\<close> of the file starting at cluster \<open>c\<close>.\<close>

definition file_sector :: "(u32 \<Rightarrow> u8 list) \<Rightarrow> fatg \<Rightarrow> u16 \<Rightarrow> u32 \<Rightarrow> u32" where
  "file_sector dk g c i =
     (ucast (chain dk g c (unat (i div ucast (ClusterSize g)))) - 2) * ucast (ClusterSize g)
     + ucast (ClusterOffset g) + i mod ucast (ClusterSize g)"

section \<open>Properties\<close>

text \<open>
  C12. Reading a file: on a card, \<open>Read_File\<close> follows the allocation table from the start cluster for
  \<open>BlockCount / ClusterSize\<close> links, however these are spread over the sectors of the table, and
  leaves the right 512-byte block of the right cluster in the buffer. The chain must be long enough
  and no table sector used may be sector 0.
\<close>

theorem Read_File_correct:
  assumes "sd_ok T cd m" and "ClusterSize g \<noteq> 0" and "unat (BlockCount div ucast (ClusterSize g)) = n" and "n < 2 ^ 16"
    and "\<forall>i < n. chain (disk cd) g c i \<noteq> 0xFFFF" and "\<forall>i < n. fat_block g (chain (disk cd) g c i) \<noteq> 0"
    and "file_sector (disk cd) g c BlockCount < 2 ^ 23"
  shows "\<exists>m'. Read_File (mmc_read_sector (card_bus T)) g c Buffer BlockCount m =
     Some (disk cd (file_sector (disk cd) g c BlockCount) @ drop 512 Buffer, m') \<and> sd_ok T cd m'"
  using sd.Read_File_sector [OF assms(1-6)] assms(3,7) by (simp add: file_sector_def)

definition tiny_card :: card where
  "tiny_card = \<lparr>cst = CIdle, disk = (\<lambda>s. if s = 1 then [0, 0, 0, 0, 3, 0, 0xFF, 0xFF] @ replicate 504 0
                                        else replicate 512 (ucast s))\<rparr>"

definition tiny_fat :: fatg where
  "tiny_fat = \<lparr>ClusterSize = 2, FAT_Offset = 1, ClusterOffset = 10, Volume_Boot_Record_Addr = 0\<rparr>"

theorem Read_File_correct_witness:
  "\<exists>m'. Read_File (mmc_read_sector (card_bus \<lparr>ncr = 3, nac = 20, nbusy = 9\<rparr>)) tiny_fat 2 [] 3
     \<lparr>dev = (0, tiny_card), trace = []\<rparr> = Some (replicate 512 13, m')"
proof -
  have fb: "fat_block tiny_fat 2 = 1" by (simp add: fat_block_def tiny_fat_def BlockSize_def)
  have nx: "next_cluster (disk tiny_card) tiny_fat 2 = 3"
    by (simp add: next_cluster_def fb) (simp add: tiny_card_def le16_def BlockSize_def)
  have fs: "file_sector (disk tiny_card) tiny_fat 2 3 = 13"
    using nx by (simp add: file_sector_def tiny_fat_def)
  have "\<exists>m'. Read_File (mmc_read_sector (card_bus \<lparr>ncr = 3, nac = 20, nbusy = 9\<rparr>)) tiny_fat 2 [] 3
     \<lparr>dev = (0, tiny_card), trace = []\<rparr> = Some (disk tiny_card (file_sector (disk tiny_card) tiny_fat 2 3) @ drop 512 [], m')
      \<and> sd_ok \<lparr>ncr = 3, nac = 20, nbusy = 9\<rparr> tiny_card m'"
    by (rule Read_File_correct [where n = 1])
      (simp_all add: sd_ok_def fs fb, simp_all add: tiny_card_def tiny_fat_def)
  moreover have "disk tiny_card 13 = replicate 512 13" by (simp add: tiny_card_def)
  ultimately show ?thesis by (auto simp: fs)
qed

text \<open>
  Reading a directory: on a card, \<open>Read_Dir_Ent\<close> with the number \<open>n\<close> passes over free and long
  name entries and over sector borders, and for an entry that is not the first of its sector returns
  its start cluster, size and attribute and leaves its name in 8.3 form, terminated by NUL, in the
  buffer.
\<close>

theorem Read_Dir_Ent_correct:
  assumes "sd_ok T cd m" and "blk = dir_start (disk cd) g dir" and "nth_entry (disk cd) blk (unat n) k" and "k mod 16 \<noteq> 0"
    and "sec = dir_sec (disk cd) blk k" and "a = 32 * (k mod 16)"
  shows "\<exists>m'. Read_Dir_Ent (mmc_read_sector (card_bus T)) g dir n Buffer m =
     Some (Some \<lparr>de_cluster = DIR_FstClusLO sec a, de_size = DIR_FileSize sec a, de_attrib = DIR_Attr sec a\<rparr>,
       overlay 0 (name83 sec a [0..<11] @ [0]) (sec @ drop 512 Buffer), m') \<and> sd_ok T cd m'"
  using sd.Read_Dir_Ent_found [OF assms(1), of g dir n k Buffer] assms(2-) by simp

definition dir_sector_bytes :: "u8 list" where
  "dir_sector_bytes = replicate 32 0xE5 @ bytes ''README  TXT'' @ [0x20] @ replicate 14 0 @ [5, 0, 10, 0, 0, 0] @ replicate 448 0"

definition dir_card :: card where
  "dir_card = \<lparr>cst = CIdle, disk = (\<lambda>s. if s = 12 then dir_sector_bytes else replicate 512 0)\<rparr>"

theorem Read_Dir_Ent_correct_witness:
  "\<exists>m' buf. Read_Dir_Ent (mmc_read_sector (card_bus \<lparr>ncr = 3, nac = 20, nbusy = 9\<rparr>)) tiny_fat 3 0 [] \<lparr>dev = (0, dir_card), trace = []\<rparr> =
     Some (Some \<lparr>de_cluster = 5, de_size = 10, de_attrib = 0x20\<rparr>, buf, m') \<and> take 11 buf = bytes ''README.TXT'' @ [0]"
proof -
  have st: "dir_start (disk dir_card) tiny_fat 3 = 12" by (simp add: dir_start_def tiny_fat_def)
  have sec: "dir_sec (disk dir_card) 12 k = dir_sector_bytes" if "k < 16" for k
    using that by (simp add: dir_sec_def dir_card_def)
  have b: "dir_sector_bytes ! 0 = 0xE5" "dir_sector_bytes ! 11 = 0xE5" "dir_sector_bytes ! 32 = 82" "dir_sector_bytes ! 43 = 0x20"
    by (simp_all add: dir_sector_bytes_def bytes_def nth_append)
  have nth: "nth_entry (disk dir_card) 12 (unat (0 :: u8)) 1"
    by (auto simp: nth_entry_def ent_live_def ent_first_def live_before_def sec sec_live_def DIR_Attr_def b
        ATTR_LONG_NAME_def DIR_ENTRY_IS_FREE_def le_Suc_eq)
  have ok: "sd_ok \<lparr>ncr = 3, nac = 20, nbusy = 9\<rparr> dir_card \<lparr>dev = (0, dir_card), trace = []\<rparr>"
    by (simp add: sd_ok_def dir_card_def dir_sector_bytes_def bytes_def)
  have "\<exists>m'. Read_Dir_Ent (mmc_read_sector (card_bus \<lparr>ncr = 3, nac = 20, nbusy = 9\<rparr>)) tiny_fat 3 0 [] \<lparr>dev = (0, dir_card), trace = []\<rparr> =
     Some (Some \<lparr>de_cluster = DIR_FstClusLO dir_sector_bytes 32, de_size = DIR_FileSize dir_sector_bytes 32, de_attrib = DIR_Attr dir_sector_bytes 32\<rparr>,
       overlay 0 (name83 dir_sector_bytes 32 [0..<11] @ [0]) (dir_sector_bytes @ drop 512 []), m')
     \<and> sd_ok \<lparr>ncr = 3, nac = 20, nbusy = 9\<rparr> dir_card m'"
    by (rule Read_Dir_Ent_correct [OF ok st [symmetric], where k = 1]) (use nth in \<open>simp_all add: sec\<close>)
  moreover have "DIR_FstClusLO dir_sector_bytes 32 = 5" "DIR_FileSize dir_sector_bytes 32 = 10" "DIR_Attr dir_sector_bytes 32 = 0x20"
    by (simp_all add: DIR_FstClusLO_def DIR_FileSize_def DIR_Attr_def le16_def le32_def dir_sector_bytes_def bytes_def nth_append)
  moreover have "name83 dir_sector_bytes 32 [0..<11] = bytes ''README.TXT''"
    by code_simp
  ultimately show ?thesis by (auto simp: overlay_def bytes_def)
qed

text \<open>
  The end of a directory: when the entry with first byte 0 comes before the wanted one,
  \<open>Read_Dir_Ent\<close> returns and reports that there is no such entry.
\<close>

theorem Read_Dir_Ent_end:
  assumes "sd_ok T cd m" and "blk = dir_start (disk cd) g dir" and "ent_first (disk cd) blk k = 0"
    and "\<forall>j < k. ent_first (disk cd) blk j \<noteq> 0" and "live_before (disk cd) blk k \<le> unat n"
  shows "\<exists>buf' m'. Read_Dir_Ent (mmc_read_sector (card_bus T)) g dir n Buffer m = Some (None, buf', m')
     \<and> ret_cluster None = 0xFFFF"
  using sd.Read_Dir_Ent_none [OF assms(1), of g dir k n Buffer] assms(2-) by (auto simp: ret_cluster_def)

theorem Read_Dir_Ent_end_witness:
  "\<exists>buf' m'. Read_Dir_Ent (mmc_read_sector (card_bus \<lparr>ncr = 3, nac = 20, nbusy = 9\<rparr>)) tiny_fat 0 0 [] \<lparr>dev = (0, dir_card), trace = []\<rparr>
     = Some (None, buf', m')"
proof -
  have ok: "sd_ok \<lparr>ncr = 3, nac = 20, nbusy = 9\<rparr> dir_card \<lparr>dev = (0, dir_card), trace = []\<rparr>"
    by (simp add: sd_ok_def dir_card_def dir_sector_bytes_def bytes_def)
  have st: "dir_start (disk dir_card) tiny_fat 0 = 0"
    by (simp add: dir_start_def root_block_def tiny_fat_def dir_card_def BPB_RsvdSecCnt_def BPB_NumFATs_def le16_def)
  have "ent_first (disk dir_card) 0 0 = 0" by (simp add: ent_first_def dir_sec_def dir_card_def)
  from Read_Dir_Ent_end [OF ok st [symmetric] this, of 0 "[]"] show ?thesis
    by (auto simp: live_before_def)
qed

text \<open>
  The first entry of a sector is returned wrongly when its name has eight characters: the point
  the code inserts overwrites the extension while it is being copied, in the same buffer. The entry
  \<^verbatim>\<open>DATAFILE.TXT\<close> comes back as \<^verbatim>\<open>DATAFILE....\<close>, and its attribute as the point's code 46.
\<close>

theorem take_entry_first_clobbers:
  "let (e, buf) = take_entry 0 (bytes ''DATAFILETXT'' @ [0x20] @ replicate 14 0 @ [5, 0, 10, 0, 0, 0] @ replicate 480 0)
   in take 13 buf = bytes ''DATAFILE....'' @ [0] \<and> de_attrib e = 46 \<and> de_cluster e = 5"
  by code_simp

text \<open>
  Asking for a block beyond the end of the chain is not reported: when the chain ends after \<open>n\<close>
  links, \<open>Load_FAT\<close> leaves the requested link count itself as the cluster number.
\<close>

theorem Load_FAT_past_end:
  assumes "sd_ok T cd m" and "n < unat Block" and "unat Block < 2 ^ 16" and "chain (disk cd) g c n = 0xFFFF"
    and "\<forall>i < n. chain (disk cd) g c i \<noteq> 0xFFFF" and "\<forall>i < n. fat_block g (chain (disk cd) g c i) \<noteq> 0"
  shows "\<exists>buf' m'. Load_FAT (mmc_read_sector (card_bus T)) g c Block Buffer m = Some (Block, buf', m')"
  using sd.fat_loop_short [OF assms(1), of 0 n Block g c 0 Buffer] assms(2-) by (auto simp: Load_FAT_def)

theorem Load_FAT_past_end_witness:
  "\<exists>buf' m'. Load_FAT (mmc_read_sector (card_bus \<lparr>ncr = 3, nac = 20, nbusy = 9\<rparr>)) tiny_fat 2 7 [] \<lparr>dev = (0, tiny_card), trace = []\<rparr>
     = Some (7, buf', m')"
proof -
  have fb: "fat_block tiny_fat 2 = 1" "fat_block tiny_fat 3 = 1" by (simp_all add: fat_block_def tiny_fat_def BlockSize_def)
  have nx: "next_cluster (disk tiny_card) tiny_fat 2 = 3" "next_cluster (disk tiny_card) tiny_fat 3 = 0xFFFF"
    by (simp_all add: next_cluster_def fb) (simp_all add: tiny_card_def le16_def BlockSize_def)
  have ok: "sd_ok \<lparr>ncr = 3, nac = 20, nbusy = 9\<rparr> tiny_card \<lparr>dev = (0, tiny_card), trace = []\<rparr>"
    by (simp add: sd_ok_def tiny_card_def)
  show ?thesis
    by (rule Load_FAT_past_end [OF ok, where n = "Suc (Suc 0)"]) (auto simp: less_Suc_eq fb nx)
qed

end
