(* ===== verification/Uart_Polled.thy ===== *)
theory Uart_Polled
  imports Clock
begin

text \<open>
  The polled serial ports: \<^verbatim>\<open>software/uart/main.c\<close> (the board's UART bridge), the console
  output of \<^verbatim>\<open>software/barcode/main.c\<close>, \<^verbatim>\<open>software/lan/main.c\<close>, and the
  driver \<^verbatim>\<open>software/sdcard/uart.c\<close> with its baud rate set-up. A C string is the list of its
  bytes before the terminating NUL; a NUL inside the list ends it early, as in C.

  The locale \<open>polled_tx\<close> is the contract between a character output routine and the string
  routines on top of it; every port interprets it.
\<close>

section \<open>The contract of a polled transmitter\<close>

definition tx_ready :: "u32 \<Rightarrow> bool" where
  "tx_ready v \<longleftrightarrow> v AND ULSR_THRE \<noteq> 0"

definition rx_ready :: "u32 \<Rightarrow> bool" where
  "rx_ready v \<longleftrightarrow> v AND ULSR_RDR \<noteq> 0"

text \<open>What a C string routine sends: everything before the first NUL.\<close>

abbreviation c_str :: "u8 list \<Rightarrow> u8 list" where
  "c_str s \<equiv> takeWhile (\<lambda>c. c \<noteq> 0) s"

locale polled_tx =
  fixes putc :: "u8 \<Rightarrow> 'd machine \<Rightarrow> 'd machine option"
    and puts :: "u8 list \<Rightarrow> 'd machine \<Rightarrow> 'd machine option"
    and bytes_of :: "u8 \<Rightarrow> u32 list"
    and thr :: u32
    and live :: bool
  assumes putc_sends: "putc c m = Some m' \<Longrightarrow> wrs m' = wrs m @ map (Pair thr) (bytes_of c)"
    and putc_live: "live \<Longrightarrow> \<exists>m'. putc c m = Some m'"
    and puts_nil: "puts [] m = Some m"
    and puts_cons: "puts (c # s) m = (if c = 0 then Some m else Option.bind (putc c m) (puts s))"
begin

lemma puts_sends:
  "puts s m = Some m' \<Longrightarrow> wrs m' = wrs m @ map (Pair thr) (concat (map bytes_of (c_str s)))"
proof (induction s arbitrary: m)
  case (Cons c s)
  then show ?case
    by (auto simp: puts_cons split: if_splits bind_splits dest!: putc_sends)
qed (simp add: puts_nil)

lemma puts_live: "live \<Longrightarrow> \<exists>m'. puts s m = Some m'"
proof (induction s arbitrary: m)
  case (Cons c s)
  obtain m1 where "putc c m = Some m1" using putc_live [OF Cons.prems] by blast
  then show ?case using Cons.IH [OF Cons.prems, of m1] by (simp add: puts_cons)
qed (simp add: puts_nil)

end

section \<open>uart/main.c\<close>

definition Uart0PutChar :: "'d bus \<Rightarrow> u8 \<Rightarrow> 'd machine \<Rightarrow> 'd machine option" where
  "Uart0PutChar B c m = do {
     (v, m) \<leftarrow> poll B UART0_LSR tx_ready m;
     Some (wr8 B UART0_THR c m)
   }"

fun Uart0PutStr :: "'d bus \<Rightarrow> u8 list \<Rightarrow> 'd machine \<Rightarrow> 'd machine option" where
  "Uart0PutStr B [] m = Some m"
| "Uart0PutStr B (c # s) m =
     (if c = 0 then Some m else do { m \<leftarrow> Uart0PutChar B c m; Uart0PutStr B s m })"

text \<open>
  \<open>for (;len;len--)\<close>: the count runs down through the 32-bit values, so a negative \<open>len\<close> makes
  more than two billion turns. The pointer is the memory from it on.
\<close>

fun put_len :: "'d bus \<Rightarrow> (nat \<Rightarrow> u8) \<Rightarrow> nat \<Rightarrow> nat \<Rightarrow> 'd machine \<Rightarrow> 'd machine option" where
  "put_len B s i 0 m = Some m"
| "put_len B s i (Suc len) m = do { m \<leftarrow> Uart0PutChar B (s i) m; put_len B s (Suc i) len m }"

definition Uart0PutStrLen :: "'d bus \<Rightarrow> (nat \<Rightarrow> u8) \<Rightarrow> u32 \<Rightarrow> 'd machine \<Rightarrow> 'd machine option" where
  "Uart0PutStrLen B s len m = put_len B s 0 (unat len) m"

definition Uart0HasCh :: "'d bus \<Rightarrow> 'd machine \<Rightarrow> u32 \<times> 'd machine" where
  "Uart0HasCh B m =
     (let (v, m) = rd B UART0_LSR m
      in if v AND 1 \<noteq> 0 then let (c, m) = rd8 B UART0_RBR m in (ucast c, m) else (0, m))"

definition Uart0GetCh :: "'d bus \<Rightarrow> 'd machine \<Rightarrow> (u32 \<times> 'd machine) option" where
  "Uart0GetCh B m = do {
     (v, m) \<leftarrow> poll B UART0_LSR rx_ready m;
     let (c, m) = rd8 B UART0_RBR m;
     Some (ucast c, m)
   }"

definition Uart1PutChar :: "'d bus \<Rightarrow> u8 \<Rightarrow> 'd machine \<Rightarrow> 'd machine option" where
  "Uart1PutChar B c m = do {
     (v, m) \<leftarrow> poll B UART1_LSR tx_ready m;
     Some (wr8 B UART1_THR c m)
   }"

fun Uart1PutStr :: "'d bus \<Rightarrow> u8 list \<Rightarrow> 'd machine \<Rightarrow> 'd machine option" where
  "Uart1PutStr B [] m = Some m"
| "Uart1PutStr B (c # s) m =
     (if c = 0 then Some m else do { m \<leftarrow> Uart1PutChar B c m; Uart1PutStr B s m })"

definition Uart1GetCh :: "'d bus \<Rightarrow> 'd machine \<Rightarrow> (u32 \<times> 'd machine) option" where
  "Uart1GetCh B m = do {
     (v, m) \<leftarrow> poll B UART1_LSR rx_ready m;
     let (c, m) = rd8 B UART1_RBR m;
     Some (ucast c, m)
   }"

definition BAUDRATEDIVISOR :: u32 where
  "BAUDRATEDIVISOR = (14745600 * 4) div (9600 * 16)"

text \<open>The set-up half of \<open>main\<close>, and one turn of its bridging loop.\<close>

definition bridge_setup :: "'d bus \<Rightarrow> 'd machine \<Rightarrow> 'd machine" where
  "bridge_setup B m =
     (let m = and_wr B PINSEL0 (NOT 0x50005) m;
          m = or_wr B PINSEL0 0x50005 m;
          m = wr8 B UART1_LCR 0x80 m;
          m = wr8 B UART1_DLM (ucast (drop_bit 8 BAUDRATEDIVISOR AND 0x00ff)) m;
          m = wr8 B UART1_DLL (ucast (BAUDRATEDIVISOR AND 0x00ff)) m;
          m = wr8 B UART1_LCR 3 m;
          m = wr8 B UART0_LCR 0x80 m;
          m = wr8 B UART0_DLM (ucast (drop_bit 8 BAUDRATEDIVISOR AND 0x00ff)) m;
          m = wr8 B UART0_DLL (ucast (BAUDRATEDIVISOR AND 0x00ff)) m
      in wr8 B UART0_LCR 3 m)"

definition bridge_step :: "'d bus \<Rightarrow> 'd machine \<Rightarrow> 'd machine option" where
  "bridge_step B m = do {
     let (v, m) = rd B UART1_LSR m;
     m \<leftarrow> (if v AND 1 \<noteq> 0
           then let (c, m) = rd8 B UART1_RBR m in Uart0PutChar B c m
           else Some m);
     let (v, m) = rd B UART0_LSR m;
     if v AND 1 \<noteq> 0
     then let (c, m) = rd8 B UART0_RBR m in Uart1PutChar B c m
     else Some m
   }"

section \<open>Console output of lan/main.c: a line feed is followed by a carriage return\<close>

definition PutChar :: "'d bus \<Rightarrow> u8 \<Rightarrow> 'd machine \<Rightarrow> 'd machine option" where
  "PutChar B c m = do {
     (v, m) \<leftarrow> poll B UART1_LSR tx_ready m;
     let m = wr8 B UART1_THR c m;
     if c = 10 then do {
       (v, m) \<leftarrow> poll B UART1_LSR tx_ready m;
       Some (wr8 B UART1_THR 13 m)
     } else Some m
   }"

fun PutStr :: "'d bus \<Rightarrow> u8 list \<Rightarrow> 'd machine \<Rightarrow> 'd machine option" where
  "PutStr B [] m = Some m"
| "PutStr B (c # s) m = (if c = 0 then Some m else do { m \<leftarrow> PutChar B c m; PutStr B s m })"

section \<open>The transmitters keep their contract\<close>

lemma putchar_sends [io_simps]:
  "Uart0PutChar B c m = Some m' \<Longrightarrow> wrs m' = wrs m @ [(UART0_THR, ucast c)]"
  "Uart1PutChar B c m = Some m' \<Longrightarrow> wrs m' = wrs m @ [(UART1_THR, ucast c)]"
  by (auto simp: Uart0PutChar_def Uart1PutChar_def io_simps split: bind_splits)

lemma putchar_live:
  "settles B UART0_LSR tx_ready \<Longrightarrow> \<exists>m'. Uart0PutChar B c m = Some m'"
  "settles B UART1_LSR tx_ready \<Longrightarrow> \<exists>m'. Uart1PutChar B c m = Some m'"
  using settlesD [of B UART0_LSR tx_ready m] settlesD [of B UART1_LSR tx_ready m]
  by (auto simp: Uart0PutChar_def Uart1PutChar_def)

interpretation u0: polled_tx "Uart0PutChar B" "Uart0PutStr B" "\<lambda>c. [ucast c]" UART0_THR
    "settles B UART0_LSR tx_ready" for B
  by unfold_locales (auto simp: putchar_sends putchar_live simp del: UART0_THR_def UART0_LSR_def)

interpretation u1: polled_tx "Uart1PutChar B" "Uart1PutStr B" "\<lambda>c. [ucast c]" UART1_THR
    "settles B UART1_LSR tx_ready" for B
  by unfold_locales (auto simp: putchar_sends putchar_live simp del: UART1_THR_def UART1_LSR_def)

definition crlf :: "u8 \<Rightarrow> u32 list" where
  "crlf c = (if c = 10 then [10, 13] else [ucast c])"

lemma PutChar_sends: "PutChar B c m = Some m' \<Longrightarrow> wrs m' = wrs m @ map (Pair UART1_THR) (crlf c)"
  by (auto simp: PutChar_def crlf_def io_simps split: bind_splits if_splits)

lemma PutChar_live: "settles B UART1_LSR tx_ready \<Longrightarrow> \<exists>m'. PutChar B c m = Some m'"
proof -
  assume s: "settles B UART1_LSR tx_ready"
  obtain v m1 where 1: "poll B UART1_LSR tx_ready m = Some (v, m1)" using settlesD [OF s] by blast
  obtain w m2 where "poll B UART1_LSR tx_ready (wr8 B UART1_THR c m1) = Some (w, m2)"
    using settlesD [OF s] by blast
  with 1 show ?thesis by (auto simp: PutChar_def Let_def)
qed

interpretation con: polled_tx "PutChar B" "PutStr B" crlf UART1_THR "settles B UART1_LSR tx_ready" for B
  by unfold_locales (auto simp: PutChar_sends PutChar_live simp del: UART1_THR_def UART1_LSR_def)

section \<open>sdcard/uart.c\<close>

text \<open>
  The divisor is an integer division by an expression the caller controls; a zero divisor and an
  unassigned peripheral clock divider are undefined in C and \<open>None\<close> here.
\<close>

definition baud_divisor :: "u32 option \<Rightarrow> u32 \<Rightarrow> u32 option" where
  "baud_divisor pclk d = (if d = 0 then None else map_option (\<lambda>p. p div d) pclk)"

definition UART0Initialize :: "'d bus \<Rightarrow> u32 \<Rightarrow> 'd machine \<Rightarrow> 'd machine option" where
  "UART0Initialize B baud m = do {
     let (p, m) = GetPclk B m;
     divisor \<leftarrow> baud_divisor p (16 * (baud div 4));
     let m = wr8 B UART0_LCR 0x83 m;
     let m = wr8 B UART0_DLL (ucast (divisor AND 0xFF)) m;
     let m = wr8 B UART0_DLM (ucast (drop_bit 8 divisor AND 0xFF)) m;
     let m = and_wr8 B UART0_LCR (NOT 0x80) m;
     let (s, m) = rd B PINSEL0 m;
     Some (wr B PINSEL0 ((s AND NOT 0xF) OR 0x5) m)
   }"

definition UART0WriteChar :: "'d bus \<Rightarrow> u8 \<Rightarrow> 'd machine \<Rightarrow> 'd machine option" where
  "UART0WriteChar B ch m = do {
     (v, m) \<leftarrow> poll B UART0_LSR (\<lambda>v. v AND 0x20 \<noteq> 0) m;
     Some (wr8 B UART0_THR ch m)
   }"

definition UART0ReadChar :: "'d bus \<Rightarrow> 'd machine \<Rightarrow> (u8 \<times> 'd machine) option" where
  "UART0ReadChar B m = do {
     (v, m) \<leftarrow> poll B UART0_LSR (\<lambda>v. v AND 0x01 \<noteq> 0) m;
     Some (rd8 B UART0_RBR m)
   }"

fun UART0WriteStr :: "'d bus \<Rightarrow> u8 list \<Rightarrow> 'd machine \<Rightarrow> 'd machine option" where
  "UART0WriteStr B [] m = Some m"
| "UART0WriteStr B (c # s) m =
     (if c = 0 then Some m else do { m \<leftarrow> UART0WriteChar B c m; UART0WriteStr B s m })"

definition UART1Initialize :: "'d bus \<Rightarrow> u32 \<Rightarrow> 'd machine \<Rightarrow> 'd machine option" where
  "UART1Initialize B baud m = do {
     let (p, m) = GetPclk B m;
     divisor \<leftarrow> baud_divisor p (16 * baud);
     let m = wr8 B UART1_LCR 0x83 m;
     let m = wr8 B UART1_DLL (ucast (divisor AND 0xFF)) m;
     let m = wr8 B UART1_DLM (ucast (drop_bit 8 divisor AND 0xFF)) m;
     let m = and_wr8 B UART1_LCR (NOT 0x80) m;
     let (s, m) = rd B PINSEL0 m;
     Some (wr B PINSEL0 ((s AND NOT 0xF) OR 0x5) m)
   }"

definition UART1WriteChar :: "'d bus \<Rightarrow> u8 \<Rightarrow> 'd machine \<Rightarrow> 'd machine option" where
  "UART1WriteChar B ch m = do {
     (v, m) \<leftarrow> poll B UART1_LSR (\<lambda>v. v AND 0x20 \<noteq> 0) m;
     Some (wr8 B UART1_THR ch m)
   }"

definition UART1ReadChar :: "'d bus \<Rightarrow> 'd machine \<Rightarrow> (u8 \<times> 'd machine) option" where
  "UART1ReadChar B m = do {
     (v, m) \<leftarrow> poll B UART1_LSR (\<lambda>v. v AND 0x01 \<noteq> 0) m;
     Some (rd8 B UART1_RBR m)
   }"

fun UART1WriteStr :: "'d bus \<Rightarrow> u8 list \<Rightarrow> 'd machine \<Rightarrow> 'd machine option" where
  "UART1WriteStr B [] m = Some m"
| "UART1WriteStr B (c # s) m =
     (if c = 0 then Some m else do { m \<leftarrow> UART1WriteChar B c m; UART1WriteStr B s m })"

lemma tx_ready_alt: "(\<lambda>v. v AND 0x20 \<noteq> 0) = tx_ready"
  by (simp add: tx_ready_def fun_eq_iff)

text \<open>The two drivers' character and string routines are the same functions.\<close>

lemma UART0WriteChar_eq: "UART0WriteChar B c m = Uart0PutChar B c m"
  by (simp only: UART0WriteChar_def Uart0PutChar_def tx_ready_alt)

lemma UART1WriteChar_eq: "UART1WriteChar B c m = Uart1PutChar B c m"
  by (simp only: UART1WriteChar_def Uart1PutChar_def tx_ready_alt)

lemma UART0WriteStr_eq: "UART0WriteStr B s m = Uart0PutStr B s m"
  by (induction s arbitrary: m) (auto simp: UART0WriteChar_eq split: bind_splits)

lemma UART1WriteStr_eq: "UART1WriteStr B s m = Uart1PutStr B s m"
  by (induction s arbitrary: m) (auto simp: UART1WriteChar_eq split: bind_splits)

section \<open>Properties\<close>

theorem console_string_sent:
  assumes "settles B UART1_LSR tx_ready"
  shows "\<exists>m'. PutStr B s m = Some m' \<and> sent UART1_THR m' = sent UART1_THR m @ concat (map crlf (c_str s))"
proof -
  obtain m' where m': "PutStr B s m = Some m'" using con.puts_live [OF assms] by blast
  have "stores_to UART1_THR (map (Pair UART1_THR) xs) = xs" for xs
    by (induction xs) simp_all
  then show ?thesis using con.puts_sends [OF m'] m' by (simp del: UART1_THR_def)
qed

end
