(* ===== verification/Sdcard_Main.thy ===== *)
theory Sdcard_Main
  imports Fat Uart_Polled
begin

text \<open>
  The SD card program, \<^verbatim>\<open>software/sdcard/main.c\<close>, with the formatted output of \<^verbatim>\<open>sdcard/uart.c\<close>, and the older main of
  \<^verbatim>\<open>sdcard/sdcard.c\<close>: wait for a card, read the volume layout and list the root directory on the serial port.
  \<^verbatim>\<open>vsprintf\<close> of the C library is modelled for the conversions the program uses; a conversion without an argument
  is undefined in C and a fault here, and so is a text that does not fit the buffer of 100 characters.
\<close>

section \<open>Formatted output\<close>

definition digit_ascii :: "nat \<Rightarrow> u8" where
  "digit_ascii d = (if d < 10 then 48 + of_nat d else 87 + of_nat d)"

fun num_str :: "nat \<Rightarrow> nat \<Rightarrow> u8 list" where
  "num_str base n = (if base < 2 \<or> n < base then [digit_ascii n] else num_str base (n div base) @ [digit_ascii (n mod base)])"

declare num_str.simps [simp del]

definition int_str :: "int \<Rightarrow> u8 list" where
  "int_str i = (if i < 0 then 45 # num_str 10 (nat (- i)) else num_str 10 (nat i))"

definition pad_left :: "nat \<Rightarrow> u8 list \<Rightarrow> u8 list" where
  "pad_left w s = replicate (w - length s) 32 @ s"

fun fmt_width :: "nat \<Rightarrow> u8 list \<Rightarrow> nat \<times> u8 list" where
  "fmt_width w [] = (w, [])"
| "fmt_width w (c # s) = (if 48 \<le> c \<and> c \<le> 57 then fmt_width (10 * w + unat (c - 48)) s else (w, c # s))"

lemma fmt_width_length: "length (snd (fmt_width w s)) \<le> length s"
  by (induction w s rule: fmt_width.induct) auto

text \<open>\<open>long\<close> has the width of \<open>int\<close>, so that the length modifier \<open>l\<close> changes nothing.\<close>

fun skip_long :: "u8 list \<Rightarrow> u8 list" where
  "skip_long [] = []"
| "skip_long (c # s) = (if c = 108 then s else c # s)"

lemma skip_long_length: "length (skip_long s) \<le> length s"
  by (cases s) auto

function vsprintf_c :: "u8 list \<Rightarrow> u32 list \<Rightarrow> fault + u8 list" where
  "vsprintf_c [] args = Inr []"
| "vsprintf_c (c # s) args =
     (if c \<noteq> 37 then bindE (vsprintf_c s args) (\<lambda>r. Inr (c # r))
      else case map_prod id skip_long (fmt_width 0 s) of
        (w, []) \<Rightarrow> Inl Uninit
      | (w, k # s') \<Rightarrow>
          if k = 37 then bindE (vsprintf_c s' args) (\<lambda>r. Inr (37 # r))
          else (case args of
            [] \<Rightarrow> Inl Uninit
          | v # vs \<Rightarrow>
              if k = 120 then bindE (vsprintf_c s' vs) (\<lambda>r. Inr (pad_left w (num_str 16 (unat v)) @ r))
              else if k = 100 then bindE (vsprintf_c s' vs) (\<lambda>r. Inr (pad_left w (int_str (sint v)) @ r))
              else Inl Uninit))"
  by pat_completeness auto

lemma fmt_width_shorter: "(w', k # s') = map_prod id skip_long (fmt_width w s) \<Longrightarrow> length s' < Suc (length s)"
  using fmt_width_length [of w s] skip_long_length [of "snd (fmt_width w s)"] by (cases "fmt_width w s") (auto dest: arg_cong [of _ _ length])

termination vsprintf_c
  by (relation "measure (\<lambda>(s, _). length s)") (auto dest: fmt_width_shorter)

text \<open>The buffer of \<^verbatim>\<open>UART0Printf\<close> and \<^verbatim>\<open>UART1Printf\<close> has 100 characters, the terminating NUL included.\<close>

definition print_buffer :: "u8 list \<Rightarrow> u32 list \<Rightarrow> fault + u8 list" where
  "print_buffer format args = bindE (vsprintf_c (c_str format) args) (\<lambda>s. if length s + 1 > 100 then Inl OutOfBounds else Inr s)"

definition UART0Printf :: "'d bus \<Rightarrow> u8 list \<Rightarrow> u32 list \<Rightarrow> 'd machine \<Rightarrow> (fault + unit \<times> 'd machine) option" where
  "UART0Printf B format args m =
     (case print_buffer format args of Inl f \<Rightarrow> Some (Inl f) | Inr s \<Rightarrow> map_option (\<lambda>m. Inr ((), m)) (UART0WriteStr B s m))"

definition UART1Printf :: "'d bus \<Rightarrow> u8 list \<Rightarrow> u32 list \<Rightarrow> 'd machine \<Rightarrow> (fault + unit \<times> 'd machine) option" where
  "UART1Printf B format args m =
     (case print_buffer format args of Inl f \<Rightarrow> Some (Inl f) | Inr s \<Rightarrow> map_option (\<lambda>m. Inr ((), m)) (UART1WriteStr B s m))"

section \<open>The program\<close>

partial_function (option) card_wait :: "'d bus \<Rightarrow> 'd machine \<Rightarrow> (fault + unit \<times> 'd machine) option" where
  "card_wait B m = Option.bind (mmc_init B m) (\<lambda>(r, m).
     if r \<noteq> 0 then bind_run (UART1Printf B (bytes ''** No Card Present. **'' @ [10, 13]) [] m) (\<lambda>u m. card_wait B m)
     else Some (Inr ((), m)))"

declare card_wait.simps [code]

text \<open>One entry: cluster, attribute, the low half of the size, and the name, which is the format itself.\<close>

definition entry_format :: "u8 list" where
  "entry_format = bytes ''Cluster = %4x DirA = %2x Size= %8d FileName = ''"

definition print_entry :: "'d bus \<Rightarrow> dirent \<Rightarrow> u8 list \<Rightarrow> 'd machine \<Rightarrow> (fault + unit \<times> 'd machine) option" where
  "print_entry B e Buffer m =
     bind_run (UART1Printf B entry_format [ucast (de_cluster e), ucast (de_attrib e), de_size e AND 0xFFFF] m) (\<lambda>u m.
     bind_run (UART1Printf B Buffer [] m) (\<lambda>u m.
     UART1Printf B [10, 13] [] m))"

fun list_loop :: "'d bus \<Rightarrow> fatg \<Rightarrow> nat list \<Rightarrow> u8 list \<Rightarrow> 'd machine \<Rightarrow> (fault + unit \<times> 'd machine) option" where
  "list_loop B g [] Buffer m = Some (Inr ((), m))"
| "list_loop B g (a # as) Buffer m =
     Option.bind (Read_Dir_Ent (mmc_read_sector B) g 0 (of_nat a) Buffer m) (\<lambda>(r, Buffer, m).
       case r of None \<Rightarrow> Some (Inr ((), m))
       | Some e \<Rightarrow> if de_cluster e = 0xFFFF then Some (Inr ((), m))
                   else bind_run (print_entry B e Buffer m) (\<lambda>u m. list_loop B g as Buffer m))"

text \<open>The program up to its endless loop at the end; \<open>tmp\<close> and \<open>Buffer\<close> are uninitialised arrays.\<close>

definition sd_main :: "'d bus \<Rightarrow> fatg \<Rightarrow> u8 list \<Rightarrow> u8 list \<Rightarrow> 'd machine \<Rightarrow> (fault + unit \<times> 'd machine) option" where
  "sd_main B g tmp Buffer m =
     Option.bind (UART1Initialize B 9600 m) (\<lambda>m.
     bind_run (UART1Printf B ([10, 13] @ bytes ''*** START ***'' @ [10, 13]) [] m) (\<lambda>u m.
     bind_run (card_wait B m) (\<lambda>u m.
     bind_run (UART1Printf B (bytes ''Card Present'' @ [10, 13]) [] m) (\<lambda>u m.
     Option.bind (Cluster_Data_Store (mmc_read_sector B) tmp g m) (\<lambda>(g, m).
     bind_run (UART1Printf B ([10] @ bytes ''Directory'' @ [10, 10, 13]) [] m) (\<lambda>u m.
     bind_run (list_loop B g [0..<240] Buffer m) (\<lambda>u m.
     UART1Printf B ([10] @ bytes ''Directory Ende'' @ [10, 10, 13]) [] m)))))))"

text \<open>The older program lists nothing.\<close>

definition SPI_Configure :: "'d bus \<Rightarrow> 'd machine \<Rightarrow> 'd machine" where
  "SPI_Configure B m =
     (let m = and_wr B PINSEL0 (NOT 0xFF00) m;
          m = wr B PINSEL0 0x5500 m;
          m = wr8 B SPI_SPCCR 254 m;
          m = wr8 B SPI_SPCR (push_bit 5 1) m
      in touch B SPI_SPSR m)"

partial_function (option) init_wait :: "'d bus \<Rightarrow> 'd machine \<Rightarrow> 'd machine option" where
  "init_wait B m = Option.bind (mmc_init B m) (\<lambda>(r, m). if r \<noteq> 0 then init_wait B m else Some m)"

declare init_wait.simps [code]

fun scan_loop_sd :: "'d bus \<Rightarrow> fatg \<Rightarrow> nat list \<Rightarrow> u8 list \<Rightarrow> 'd machine \<Rightarrow> 'd machine option" where
  "scan_loop_sd B g [] Buffer m = Some m"
| "scan_loop_sd B g (a # as) Buffer m =
     Option.bind (Read_Dir_Ent (mmc_read_sector B) g 0 (of_nat a) Buffer m) (\<lambda>(r, Buffer, m).
       if ret_cluster r = 0xFFFF then Some m else scan_loop_sd B g as Buffer m)"

definition sdcard_main :: "'d bus \<Rightarrow> fatg \<Rightarrow> u8 list \<Rightarrow> u8 list \<Rightarrow> 'd machine \<Rightarrow> 'd machine option" where
  "sdcard_main B g tmp Buffer m = do {
     m \<leftarrow> init_wait B (SPI_Configure B m);
     (g, m) \<leftarrow> Cluster_Data_Store (mmc_read_sector B) tmp g m;
     scan_loop_sd B g [0..<240] Buffer m
   }"

section \<open>The card driver does not touch the serial port\<close>

abbreviation printed :: "'d machine \<Rightarrow> u32 list" where
  "printed m \<equiv> sent UART1_THR m"

lemma byte_quiet:
  "Write_Byte_MMC B b m = Some m' \<Longrightarrow> printed m' = printed m"
  "Read_Byte_MMC B m = Some (r, m') \<Longrightarrow> printed m' = printed m"
  by (auto simp: Write_Byte_MMC_def Read_Byte_MMC_def Let_def io_simps dest: wrs_rd8 split: bind_splits)

lemma bytes_quiet:
  "write_bytes B bs m = Some m' \<Longrightarrow> printed m' = printed m"
  "read_bytes B n m = Some (rs, m') \<Longrightarrow> printed m' = printed m"
proof -
  show "write_bytes B bs m = Some m' \<Longrightarrow> printed m' = printed m"
    by (induction bs arbitrary: m) (auto split: bind_splits dest!: byte_quiet)
  show "read_bytes B n m = Some (rs, m') \<Longrightarrow> printed m' = printed m"
    by (induction n arbitrary: m rs m') (auto split: bind_splits dest!: byte_quiet)
qed

lemma response_quiet:
  assumes "response_loop B t n m = Some r"
  shows "printed (snd r) = printed m"
proof (rule response_loop.raw_induct [where P = "\<lambda>B t n m r. printed (snd r) = printed m", OF _ assms])
  fix f :: "'d bus \<Rightarrow> u8 \<Rightarrow> u16 \<Rightarrow> 'd machine \<Rightarrow> (u8 \<times> 'd machine) option" and B t n m r
  assume IH: "\<And>B t n m r. f B t n m = Some r \<Longrightarrow> printed (snd r) = printed m"
    and eq: "(if t = 0xff then Option.bind (Read_Byte_MMC B m) (\<lambda>(tmp, m). if 500 < n then Some (tmp, m) else f B tmp (n + 1) m) else Some (t, m)) = Some r"
  show "printed (snd r) = printed m"
    using eq by (auto split: if_splits bind_splits dest!: IH byte_quiet)
qed

lemma wait_byte_quiet:
  assumes "wait_byte B b m = Some m'"
  shows "printed m' = printed m"
proof (rule wait_byte.raw_induct [where P = "\<lambda>B b m r. printed r = printed m", OF _ assms])
  fix f :: "'d bus \<Rightarrow> u8 \<Rightarrow> 'd machine \<Rightarrow> 'd machine option" and B b m r
  assume IH: "\<And>B b m r. f B b m = Some r \<Longrightarrow> printed r = printed m"
    and eq: "Option.bind (Read_Byte_MMC B m) (\<lambda>(x, m). if x \<noteq> b then f B b m else Some m) = Some r"
  show "printed r = printed m"
    using eq by (auto split: if_splits bind_splits dest!: IH byte_quiet)
qed

lemma command_quiet: "Write_Command_MMC B cmd m = Some (r, m') \<Longrightarrow> printed m' = printed m"
  by (auto simp: Write_Command_MMC_def split: bind_splits dest!: response_quiet bytes_quiet byte_quiet)

lemma command_loop_quiet:
  assumes "command_loop B cmd g n m = Some r"
  shows "printed (snd r) = printed m"
proof (rule command_loop.raw_induct [where P = "\<lambda>B cmd g n m r. printed (snd r) = printed m", OF _ assms])
  fix f :: "'d bus \<Rightarrow> u8 list \<Rightarrow> u8 \<Rightarrow> u16 \<Rightarrow> 'd machine \<Rightarrow> (bool \<times> 'd machine) option" and B cmd g n m r
  assume IH: "\<And>B cmd g n m r. f B cmd g n m = Some r \<Longrightarrow> printed (snd r) = printed m"
    and eq: "Option.bind (Write_Command_MMC B cmd m) (\<lambda>(r, m). if r \<noteq> g then (if 200 < n then Some (False, m) else f B cmd g (n + 1) m) else Some (True, m)) = Some r"
  show "printed (snd r) = printed m"
    using eq by (auto split: if_splits bind_splits dest!: IH command_quiet)
qed

lemma read_sector_quiet: "mmc_read_sector B a buf m = Some (b, m') \<Longrightarrow> printed m' = printed m"
  by (auto simp: mmc_read_sector_def MMC_Read_Block_def split: bind_splits if_splits dest!: command_quiet bytes_quiet wait_byte_quiet)

lemma init_quiet: "mmc_init B m = Some (r, m') \<Longrightarrow> printed m' = printed m"
  by (auto simp: mmc_init_def Let_def select_pin_def split: bind_splits if_splits dest!: command_loop_quiet bytes_quiet)

section \<open>Printing on the board\<close>

lemma put_card: "\<exists>m'. UART1WriteChar (card_bus T) c m = Some m' \<and> dev m' = dev m \<and> printed m' = printed m @ [ucast c]"
proof -
  have "poll (card_bus T) UART1_LSR (\<lambda>v. v AND 0x20 \<noteq> 0) m = Some (rd (card_bus T) UART1_LSR m)"
    by (rule poll_now) (simp add: rd_parts card_bus_def)
  then show ?thesis by (simp add: UART1WriteChar_def rd_parts) (simp add: card_bus_def)
qed

lemma write_str_card:
  "0 \<notin> set s \<Longrightarrow> \<exists>m'. UART1WriteStr (card_bus T) s m = Some m' \<and> dev m' = dev m \<and> printed m' = printed m @ map ucast s"
proof (induction s arbitrary: m)
  case (Cons c s)
  obtain m1 where "UART1WriteChar (card_bus T) c m = Some m1" "dev m1 = dev m" "printed m1 = printed m @ [ucast c]" using put_card by blast
  then show ?case using Cons.IH [of m1] Cons.prems by auto
qed simp

lemma printf_card:
  assumes "print_buffer f args = Inr s" "0 \<notin> set s"
  shows "\<exists>m'. UART1Printf (card_bus T) f args m = Some (Inr ((), m')) \<and> dev m' = dev m \<and> printed m' = printed m @ map ucast s"
  using write_str_card [OF assms(2), of T m] assms(1) by (auto simp: UART1Printf_def)

text \<open>A text without a percent sign and without a NUL prints as it is.\<close>

lemma vsprintf_plain: "37 \<notin> set s \<Longrightarrow> vsprintf_c s args = Inr s"
  by (induction s) auto

lemma c_str_id: "0 \<notin> set s \<Longrightarrow> c_str s = s"
  by (auto simp: takeWhile_eq_all_conv)

lemma print_plain:
  assumes "37 \<notin> set s" "0 \<notin> set s" "length s < 100"
  shows "print_buffer s args = Inr s"
  unfolding print_buffer_def c_str_id [OF assms(2)] vsprintf_plain [OF assms(1)] using assms(3) by simp

text \<open>The line of an entry.\<close>

definition entry_text :: "dirent \<Rightarrow> u8 list" where
  "entry_text e = bytes ''Cluster = '' @ pad_left 4 (num_str 16 (unat (de_cluster e))) @ bytes '' DirA = '' @
     pad_left 2 (num_str 16 (unat (de_attrib e))) @ bytes '' Size= '' @ pad_left 8 (num_str 10 (unat (de_size e) mod 0x10000)) @
     bytes '' FileName = ''"

lemma int_str_low16: "int_str (sint (v AND 0xFFFF :: u32)) = num_str 10 (unat v mod 0x10000)"
proof -
  have m: "v AND 0xFFFF = take_bit 16 v" using take_bit_eq_mask [of 16 v] by (simp add: mask_eq_exp_minus_1)
  have "unat (take_bit 16 v) = take_bit 16 (unat v)" by (simp only: unsigned_take_bit_eq)
  then have u: "unat (v AND 0xFFFF) = unat v mod 0x10000"
    unfolding m by (simp only: take_bit_eq_mod) simp
  have "unat (v AND 0xFFFF) < 2 ^ 31" unfolding u by (rule less_le_trans [OF mod_less_divisor]) simp_all
  then show ?thesis using u by (simp add: sint_small int_str_def del: of_nat_unat int_nat_eq)
qed

lemma unat_ucast_u8 [simp]: "unat (ucast (a :: u8) :: u32) = unat a"
  by (rule unat_ucast_up) simp

lemma vs_lit: "37 \<notin> set s \<Longrightarrow> vsprintf_c (s @ r) args = bindE (vsprintf_c r args) (\<lambda>x. Inr (s @ x))"
  by (induction s) (auto simp: bindE_def split: sum.splits)

lemma vs_conv:
  "vsprintf_c (37 # 52 # 120 # r) (v # vs) = bindE (vsprintf_c r vs) (\<lambda>x. Inr (pad_left 4 (num_str 16 (unat v)) @ x))"
  "vsprintf_c (37 # 50 # 120 # r) (v # vs) = bindE (vsprintf_c r vs) (\<lambda>x. Inr (pad_left 2 (num_str 16 (unat v)) @ x))"
  "vsprintf_c (37 # 56 # 100 # r) (v # vs) = bindE (vsprintf_c r vs) (\<lambda>x. Inr (pad_left 8 (int_str (sint v)) @ x))"
  by simp_all (simp add: numeral_2_eq_2)

lemma entry_format_parts:
  "entry_format = bytes ''Cluster = '' @ 37 # 52 # 120 # bytes '' DirA = '' @ 37 # 50 # 120 # bytes '' Size= '' @ 37 # 56 # 100 # bytes '' FileName = '' @ []"
  by (simp add: entry_format_def bytes_def)

lemma entry_literals:
  "37 \<notin> set (bytes ''Cluster = '')" "37 \<notin> set (bytes '' DirA = '')" "37 \<notin> set (bytes '' Size= '')" "37 \<notin> set (bytes '' FileName = '')"
  by (simp_all add: bytes_def)

lemma vsprintf_entry: "vsprintf_c entry_format [ucast (de_cluster e), ucast (de_attrib e), de_size e AND 0xFFFF] = Inr (entry_text e)"
  unfolding entry_format_parts vs_lit [OF entry_literals(1)] vs_conv vs_lit [OF entry_literals(2)] vs_lit [OF entry_literals(3)]
    vs_lit [OF entry_literals(4)]
  by (simp add: entry_text_def int_str_low16 bindE_def)

text \<open>The line fits the buffer, and no digit is a NUL.\<close>

lemma digit_nonzero: "d < 16 \<Longrightarrow> digit_ascii d \<noteq> 0"
proof -
  have "\<forall>d \<in> set [0..<16]. digit_ascii d \<noteq> 0" by code_simp
  then show "d < 16 \<Longrightarrow> digit_ascii d \<noteq> 0" by simp
qed

lemma num_str_nonzero: "2 \<le> base \<Longrightarrow> base \<le> 16 \<Longrightarrow> 0 \<notin> set (num_str base n)"
proof (induction base n rule: num_str.induct)
  case (1 base n)
  have "n mod base < 16" using 1 by (intro less_le_trans [OF mod_less_divisor]) simp_all
  then show ?case using 1 digit_nonzero [of n] digit_nonzero [of "n mod base"]
    by (subst num_str.simps) (auto simp: eq_commute [of 0])
qed

lemma num_str_length: "2 \<le> base \<Longrightarrow> n < base ^ Suc k \<Longrightarrow> length (num_str base n) \<le> Suc k"
proof (induction k arbitrary: n)
  case 0
  then show ?case by (subst num_str.simps) simp
next
  case (Suc k)
  have "n div base < base ^ Suc k" using Suc.prems by (simp add: less_mult_imp_div_less mult.commute)
  then have "length (num_str base (n div base)) \<le> Suc k" using Suc.IH Suc.prems(1) by blast
  then show ?case by (subst num_str.simps) simp
qed

lemma entry_text_fits: "0 \<notin> set (entry_text e) \<and> length (entry_text e) < 100"
proof -
  have c: "unat (de_cluster e) < 16 ^ Suc 3" using unsigned_less [of "de_cluster e"] by simp
  have a: "unat (de_attrib e) < 16 ^ Suc 1" using unsigned_less [of "de_attrib e"] by simp
  have "unat (de_size e) mod 0x10000 < 0x10000" by simp
  then have z: "unat (de_size e) mod 0x10000 < 10 ^ Suc 4" by (simp add: order_less_trans)
  have "length (num_str 16 (unat (de_cluster e))) \<le> 4" "length (num_str 16 (unat (de_attrib e))) \<le> 2"
    "length (num_str 10 (unat (de_size e) mod 0x10000)) \<le> 5"
    using num_str_length [OF _ c] num_str_length [OF _ a] num_str_length [OF _ z] by simp_all
  then show ?thesis by (simp add: entry_text_def pad_left_def bytes_def num_str_nonzero)
qed

section \<open>Listing the root directory\<close>

text \<open>
  The contract of the sector read again, with the characters printed so far in the state: reading the card prints nothing.
\<close>

definition sd_quiet :: "timing \<Rightarrow> card \<Rightarrow> u32 list \<Rightarrow> (u8 \<times> card) machine \<Rightarrow> bool" where
  "sd_quiet T c pr m \<longleftrightarrow> sd_ok T c m \<and> printed m = pr"

interpretation sq: block_dev "mmc_read_sector (card_bus T)" "disk c" "sd_quiet T c pr" for T c pr
proof
  fix s a buf
  assume ok: "sd_quiet T c pr s"
  then have sd: "sd_ok T c s" by (simp add: sd_quiet_def)
  then show "length (disk c a) = 512" by (rule sd.sector_len)
  assume "a < 2 ^ 23"
  then obtain s' where "mmc_read_sector (card_bus T) a buf s = Some (disk c a @ drop 512 buf, s')" "sd_ok T c s'"
    using sd.read_ok [OF sd] by blast
  then show "\<exists>s'. mmc_read_sector (card_bus T) a buf s = Some (disk c a @ drop 512 buf, s') \<and> sd_quiet T c pr s'"
    using ok read_sector_quiet by (fastforce simp: sd_quiet_def)
qed

text \<open>The layout \<open>Cluster_Data_Store\<close> computes: the volume's boot record is found through the master boot record.\<close>

definition volume :: "(u32 \<Rightarrow> u8 list) \<Rightarrow> fatg" where
  "volume dk =
     (let vbr = le16 (dk 0) VBR_Addr; b = dk (ucast vbr);
          g = \<lparr>ClusterSize = BPB_SecPerClus b, FAT_Offset = BPB_RsvdSecCnt b,
               ClusterOffset = of_nat (unat (BPB_BytesPerSec b) * 32 div BlockSize), Volume_Boot_Record_Addr = vbr\<rparr>
      in g\<lparr>ClusterOffset := ClusterOffset g + root_block dk g\<rparr>)"

context block_dev
begin

lemma Cluster_Data_Store_volume:
  assumes "ok s"
  shows "\<exists>s'. Cluster_Data_Store rs Buffer g s = Some (volume dk, s') \<and> ok s'"
proof -
  let ?v = "le16 (dk 0) VBR_Addr" and ?b = "dk (ucast (le16 (dk 0) VBR_Addr))"
  have len: "length (dk a) = 512" for a using sector_len [OF assms] .
  obtain s1 where 1: "rs 0 Buffer s = Some (dk 0 @ drop 512 Buffer, s1)" "ok s1" using read_ok [OF assms, of 0] by auto
  obtain s2 where 2: "rs (ucast ?v) (dk 0 @ drop 512 Buffer) s1 = Some (?b @ drop 512 Buffer, s2)" "ok s2"
    using read_u16 [OF 1(2), of ?v "dk 0 @ drop 512 Buffer"] len by auto
  obtain s3 where 3: "rs (ucast ?v) (?b @ drop 512 Buffer) s2 = Some (?b @ drop 512 Buffer, s3)" "ok s3"
    using read_u16 [OF 2(2), of ?v "?b @ drop 512 Buffer"] len by auto
  have v: "le16 (dk 0 @ drop 512 Buffer) VBR_Addr = ?v" using len by (simp add: le16_append VBR_Addr_def)
  have "FAT_Addr rs Buffer s = Some (?v, ?b @ drop 512 Buffer, s2)"
    using 1 2 v by (simp add: FAT_Addr_def MasterBootRecord_def Let_def)
  moreover have "BPB_SecPerClus (?b @ r) = BPB_SecPerClus ?b" "BPB_RsvdSecCnt (?b @ r) = BPB_RsvdSecCnt ?b"
    "BPB_BytesPerSec (?b @ r) = BPB_BytesPerSec ?b" for r
    using len by (simp_all add: BPB_SecPerClus_def BPB_RsvdSecCnt_def BPB_BytesPerSec_def le16_append nth_append)
  moreover obtain b4 s4 where "Root_Dir_Addr rs (g\<lparr>Volume_Boot_Record_Addr := ?v, ClusterSize := BPB_SecPerClus ?b, FAT_Offset := BPB_RsvdSecCnt ?b,
      ClusterOffset := of_nat (unat (BPB_BytesPerSec ?b) * 32 div BlockSize)\<rparr>) (?b @ drop 512 Buffer) s3 =
      Some (root_block dk (g\<lparr>Volume_Boot_Record_Addr := ?v, ClusterSize := BPB_SecPerClus ?b, FAT_Offset := BPB_RsvdSecCnt ?b,
      ClusterOffset := of_nat (unat (BPB_BytesPerSec ?b) * 32 div BlockSize)\<rparr>), b4, s4)" "ok s4"
    using Root_Dir_Addr_ok [OF 3(2)] by blast
  ultimately show ?thesis using 3 by (simp add: Cluster_Data_Store_def volume_def root_block_def Let_def)
qed

end

text \<open>The entries in use before the end mark \<open>K\<close>, what \<open>Read_Dir_Ent\<close> says of one of them, and the text printed for it.\<close>

definition live_entries :: "(u32 \<Rightarrow> u8 list) \<Rightarrow> u16 \<Rightarrow> nat \<Rightarrow> nat list" where
  "live_entries dk blk K = filter (ent_live dk blk) [0..<K]"

definition dirent_at :: "(u32 \<Rightarrow> u8 list) \<Rightarrow> u16 \<Rightarrow> nat \<Rightarrow> dirent" where
  "dirent_at dk blk k = (let sec = dir_sec dk blk k; a = 32 * (k mod 16)
     in \<lparr>de_cluster = DIR_FstClusLO sec a, de_size = DIR_FileSize sec a, de_attrib = DIR_Attr sec a\<rparr>)"

definition name_at :: "(u32 \<Rightarrow> u8 list) \<Rightarrow> u16 \<Rightarrow> nat \<Rightarrow> u8 list" where
  "name_at dk blk k = name83 (dir_sec dk blk k) (32 * (k mod 16)) [0..<11]"

definition entry_line :: "(u32 \<Rightarrow> u8 list) \<Rightarrow> u16 \<Rightarrow> nat \<Rightarrow> u8 list" where
  "entry_line dk blk k = entry_text (dirent_at dk blk k) @ name_at dk blk k @ [10, 13]"

text \<open>An entry the program lists as it is: not the first of its sector, with a start cluster, and a name without a percent sign.\<close>

definition listable :: "(u32 \<Rightarrow> u8 list) \<Rightarrow> u16 \<Rightarrow> nat \<Rightarrow> bool" where
  "listable dk blk k \<longleftrightarrow> k mod 16 \<noteq> 0 \<and> de_cluster (dirent_at dk blk k) \<noteq> 0xFFFF
     \<and> 37 \<notin> set (name_at dk blk k) \<and> 0 \<notin> set (name_at dk blk k)"

lemma filter_upt_nth:
  "i < length (filter f [0..<K]) \<Longrightarrow> filter f [0..<K] ! i = k \<Longrightarrow> k < K \<and> f k \<and> length (filter f [0..<k]) = i"
proof (induction K)
  case (Suc K)
  then show ?case by (cases "i < length (filter f [0..<K])") (auto simp: nth_append less_Suc_eq split: if_splits)
qed simp

lemma print_entry_card:
  assumes "sd_quiet T c pr m" "37 \<notin> set nm" "0 \<notin> set nm" "length nm \<le> 22"
  shows "\<exists>m'. print_entry (card_bus T) e (nm @ 0 # r) m = Some (Inr ((), m'))
     \<and> sd_quiet T c (pr @ map ucast (entry_text e @ nm @ [10, 13])) m'"
proof -
  have f: "print_buffer entry_format [ucast (de_cluster e), ucast (de_attrib e), de_size e AND 0xFFFF] = Inr (entry_text e)"
  proof -
    have z: "c_str entry_format = entry_format" by (rule c_str_id) (simp add: entry_format_def bytes_def)
    show ?thesis unfolding print_buffer_def z vsprintf_entry using entry_text_fits [of e] by simp
  qed
  have n: "print_buffer (nm @ 0 # r) [] = Inr nm"
  proof -
    have "c_str (nm @ 0 # r) = nm" using assms(3) by (induction nm) auto
    then show ?thesis using vsprintf_plain [OF assms(2)] assms(4) by (simp add: print_buffer_def bindE_def)
  qed
  have l: "print_buffer [10, 13] [] = Inr [10, 13]" by (rule print_plain) simp_all
  have t: "0 \<notin> set (entry_text e)" "0 \<notin> set [10 :: u8, 13]" using entry_text_fits [of e] by simp_all
  obtain m1 where 1: "UART1Printf (card_bus T) entry_format [ucast (de_cluster e), ucast (de_attrib e), de_size e AND 0xFFFF] m = Some (Inr ((), m1))"
    "dev m1 = dev m" "printed m1 = printed m @ map ucast (entry_text e)" using printf_card [OF f t(1)] by blast
  obtain m2 where 2: "UART1Printf (card_bus T) (nm @ 0 # r) [] m1 = Some (Inr ((), m2))"
    "dev m2 = dev m1" "printed m2 = printed m1 @ map ucast nm" using printf_card [OF n assms(3)] by blast
  obtain m3 where 3: "UART1Printf (card_bus T) [10, 13] [] m2 = Some (Inr ((), m3))"
    "dev m3 = dev m2" "printed m3 = printed m2 @ map ucast [10 :: u8, 13]" using printf_card [OF l t(2)] by blast
  show ?thesis using 1 2 3 assms(1) by (simp add: print_entry_def sd_quiet_def sd_ok_def)
qed

lemma nth_live:
  assumes "\<forall>j < K. ent_first dk blk j \<noteq> 0" "i < length (live_entries dk blk K)"
  shows "nth_entry dk blk i (live_entries dk blk K ! i)"
  using filter_upt_nth [of i "ent_live dk blk" K, OF _ refl] assms by (auto simp: live_entries_def nth_entry_def live_before_def)

lemma list_loop_card:
  assumes "ent_first (disk c) blk K = 0" "\<forall>j < K. ent_first (disk c) blk j \<noteq> 0" "blk = dir_start (disk c) g 0"
    and "ks = live_entries (disk c) blk K" "\<forall>k \<in> set ks. listable (disk c) blk k" "length ks \<le> 240"
  shows "sd_quiet T c pr m \<Longrightarrow> i \<le> length ks \<Longrightarrow>
    \<exists>m'. list_loop (card_bus T) g [i..<240] Buffer m = Some (Inr ((), m'))
      \<and> sd_quiet T c (pr @ map ucast (concat (map (entry_line (disk c) blk) (drop i ks)))) m'"
proof (induction "length ks - i" arbitrary: i m Buffer pr)
  case 0
  then have i: "i = length ks" by simp
  show ?case
  proof (cases "i < 240")
    case True
    have "live_before (disk c) blk K \<le> unat (of_nat i :: u8)"
      using True assms(4) i by (simp add: live_before_def live_entries_def unat_of_nat)
    then obtain buf m' where "Read_Dir_Ent (mmc_read_sector (card_bus T)) g 0 (of_nat i) Buffer m = Some (None, buf, m')" "sd_quiet T c pr m'"
      using sq.Read_Dir_Ent_none [OF 0(2), of g 0 K "of_nat i" Buffer] assms(1-3) by auto
    then show ?thesis using True i by (simp add: upt_conv_Cons del: upt_Suc)
  qed (use 0 i assms(6) in simp)
next
  case (Suc n)
  then have i: "i < length ks" "i < 240" using assms(6) by simp_all
  let ?k = "ks ! i"
  have "nth_entry (disk c) blk (unat (of_nat i :: u8)) ?k"
    using nth_live [OF assms(2), of i] i assms(4) by (simp add: unat_of_nat)
  moreover have lis: "listable (disk c) blk ?k" using assms(5) i by simp
  ultimately obtain m1 where 1: "Read_Dir_Ent (mmc_read_sector (card_bus T)) g 0 (of_nat i) Buffer m =
      Some (Some (dirent_at (disk c) blk ?k), overlay 0 (name_at (disk c) blk ?k @ [0]) (dir_sec (disk c) blk ?k @ drop 512 Buffer), m1)"
      "sd_quiet T c pr m1"
    using sq.Read_Dir_Ent_found [OF Suc.prems(1), of g 0 "of_nat i" ?k Buffer] assms(3)
    by (auto simp: listable_def dirent_at_def name_at_def Let_def)
  obtain r where r: "overlay 0 (name_at (disk c) blk ?k @ [0]) (dir_sec (disk c) blk ?k @ drop 512 Buffer) = name_at (disk c) blk ?k @ 0 # r"
    by (simp add: overlay_def)
  have "length (name_at (disk c) blk ?k) \<le> 22"
    using length_name83 [of _ _ "[0..<11]"] by (simp add: name_at_def)
  then obtain m2 where 2: "print_entry (card_bus T) (dirent_at (disk c) blk ?k) (name_at (disk c) blk ?k @ 0 # r) m1 = Some (Inr ((), m2))"
      "sd_quiet T c (pr @ map ucast (entry_line (disk c) blk ?k)) m2"
    using print_entry_card [OF 1(2)] lis by (fastforce simp: listable_def entry_line_def)
  have "de_cluster (dirent_at (disk c) blk ?k) \<noteq> 0xFFFF" using lis by (simp add: listable_def)
  then have "list_loop (card_bus T) g [i..<240] Buffer m = list_loop (card_bus T) g [Suc i..<240] (name_at (disk c) blk ?k @ 0 # r) m2"
    using 1(1) 2(1) r i(2) by (simp add: upt_conv_Cons del: upt_Suc)
  then show ?case
    using Suc.hyps(1) [OF _ 2(2), of "Suc i" "name_at (disk c) blk ?k @ 0 # r"] Suc.hyps(2) i
    by (simp add: Cons_nth_drop_Suc [symmetric])
qed

lemma printf_plain_card:
  assumes "sd_quiet T c pr m" "37 \<notin> set s" "0 \<notin> set s" "length s < 100"
  shows "\<exists>m'. UART1Printf (card_bus T) s [] m = Some (Inr ((), m')) \<and> sd_quiet T c (pr @ map ucast s) m'"
  using printf_card [OF print_plain [OF assms(2-4), of "[]"] assms(3), of T m] assms(1) by (auto simp: sd_quiet_def sd_ok_def)

lemma card_wait_card:
  assumes "sd_quiet T c pr m"
  shows "\<exists>m'. card_wait (card_bus T) m = Some (Inr ((), m')) \<and> sd_quiet T c pr m'"
proof -
  have "card_ready m" "ncr T \<le> 500" using assms by (auto simp: sd_quiet_def sd_ok_def card_ready_def)
  then obtain m' where m': "mmc_init (card_bus T) m = Some (0, m')" "the_card m' = the_card m" using mmc_init_card by blast
  then have "card_wait (card_bus T) m = Some (Inr ((), m'))" by (subst card_wait.simps) simp
  then show ?thesis using m' init_quiet [OF m'(1)] assms by (auto simp: sd_quiet_def sd_ok_def)
qed

text \<open>Setting up the port also stores the divisor, in the register that shares its address with the transmitter.\<close>

lemma card_bus_quiet [simp]:
  "dev (snd (rd (card_bus T) a m)) = dev m"
  "a \<noteq> SPI_SPDR \<Longrightarrow> bus_wr (card_bus T) a v d = d"
  by (simp_all add: rd_parts card_bus_def)

lemma GetPclk_card: "\<exists>p m'. GetPclk (card_bus T) m = (Some p, m') \<and> dev m' = dev m \<and> wrs m' = wrs m"
proof -
  have "fst (rd8 (card_bus T) VPBDIV m) = 0" by (simp add: rd8_def rd_parts card_bus_def split: prod.splits)
  then have "vpb_divider (ucast (fst (rd8 (card_bus T) VPBDIV m)) AND 3) = Some 4" by (simp add: vpb_divider_def)
  then show ?thesis
    by (simp add: GetPclk_def GetCclk_def rd8_def Let_def io_simps split: prod.splits) (auto simp: rd_parts card_bus_def)
qed

lemma UART1Initialize_card:
  "\<exists>d m'. UART1Initialize (card_bus T) 9600 m = Some m' \<and> dev m' = dev m \<and> printed m' = printed m @ [d]"
proof -
  obtain p m1 where 1: "GetPclk (card_bus T) m = (Some p, m1)" "dev m1 = dev m" "wrs m1 = wrs m" using GetPclk_card by blast
  show ?thesis
    unfolding UART1Initialize_def 1(1) using 1(2,3)
    by (simp add: baud_divisor_def and_wr8_def rd8_def Let_def case_prod_unfold)
qed

section \<open>Properties\<close>

definition listing :: "(u32 \<Rightarrow> u8 list) \<Rightarrow> nat \<Rightarrow> u8 list" where
  "listing dk K = (let blk = root_block dk (volume dk) in
     [10, 13] @ bytes ''*** START ***'' @ [10, 13] @ bytes ''Card Present'' @ [10, 13] @ [10] @ bytes ''Directory'' @ [10, 10, 13]
     @ concat (map (entry_line dk blk) (live_entries dk blk K)) @ [10] @ bytes ''Directory Ende'' @ [10, 10, 13])"


definition list_card :: card where
  "list_card = \<lparr>cst = CIdle, disk = (\<lambda>s. if s = 0 then replicate 0x1C6 0 @ [1] @ replicate 57 0
     else if s = 1 then replicate 11 0 @ [0, 2, 2, 1, 0, 2] @ replicate 5 0 @ [4, 0] @ replicate 488 0
     else if s = 10 then dir_sector_bytes else replicate 512 0)\<rparr>"


text \<open>
  A file name is printed as a format: for a name with a percent sign after which no conversion of the program's kind follows an argument,
  the output is undefined, which is a fault here.
\<close>

lemma print_entry_percent:
  "print_buffer (bytes ''A%D.TXT'' @ [0]) [] = Inl Uninit"
  by code_simp

end
