(* ===== verification/I2c.thy ===== *)
theory I2c
  imports Clock
begin

text \<open>
  The I2C master of \<^verbatim>\<open>software/accelerometer/accelerometer.c\<close> and its copy in
  \<^verbatim>\<open>software/touchscreen/touchscreen.c\<close>: a polled state machine over the status codes of the
  peripheral. The two copies differ in the address byte and the lengths; \<open>i2c_step\<close> is one turn of
  the loop with the address byte as an argument. The accelerometer functions on top follow.

  The peripheral and the slave are hardware: \<open>i2c_bus\<close> is a controller as the data sheet describes it
  with a slave that has a register file and an auto-incrementing register pointer.
\<close>

section \<open>The state machine\<close>

text \<open>
  The globals of the driver and the locals of \<open>i2c_transfer\<close>. The receive buffer has 19 bytes and the
  send buffer 10; a store or load outside is the fault \<open>OutOfBounds\<close>.
\<close>

record i2c =
  i2c_bytesRemaining :: int
  i2c_pos :: nat
  i2c_buffer :: "u8 list"
  i2c_rxBuffer :: "u8 list"
  i2c_RdnWr :: u8
  i2c_rxWrPos :: nat
  i2c_rxComplete :: bool
  i2c_rxBytesRemaining :: int
  transferComplete :: bool

definition I2C_SEND_START :: "'d bus \<Rightarrow> 'd machine \<Rightarrow> 'd machine" where
  "I2C_SEND_START B m = or_wr8 B I2C_I2CONSET (push_bit 5 1) m"

definition I2C_SEND_STOP :: "'d bus \<Rightarrow> 'd machine \<Rightarrow> 'd machine" where
  "I2C_SEND_STOP B m = wr8 B I2C_I2CONSET (push_bit 4 1) m"

definition I2C_CLR_START :: "'d bus \<Rightarrow> 'd machine \<Rightarrow> 'd machine" where
  "I2C_CLR_START B m = wr8 B I2C_I2CONCLR (push_bit 5 1) m"

definition I2C_CLR_SI :: "'d bus \<Rightarrow> 'd machine \<Rightarrow> 'd machine" where
  "I2C_CLR_SI B m = wr8 B I2C_I2CONCLR (push_bit 3 1) m"

definition set_AA :: "'d bus \<Rightarrow> bool \<Rightarrow> 'd machine \<Rightarrow> 'd machine" where
  "set_AA B on m = (if on then or_wr8 B I2C_I2CONSET (push_bit 2 1) m else wr8 B I2C_I2CONCLR (push_bit 2 1) m)"

definition CLR_SI_START :: "'d bus \<Rightarrow> 'd machine \<Rightarrow> 'd machine" where
  "CLR_SI_START B m = wr8 B I2C_I2CONCLR (push_bit 3 1 OR push_bit 5 1) m"

definition i2c_step :: "'d bus \<Rightarrow> (u8 \<Rightarrow> u8) \<Rightarrow> u8 \<Rightarrow> i2c \<times> 'd machine \<Rightarrow> fault + i2c \<times> 'd machine" where
  "i2c_step B addr code s =
     (let (i, m) = s in
      if code = 0x08 \<or> code = 0x10 then
        Inr (i, I2C_CLR_SI B (wr8 B I2C_I2DAT (addr (i2c_RdnWr i)) m))
      else if code = 0x18 \<or> code = 0x20 \<or> code = 0x28 \<or> code = 0x30 then
        (if i2c_bytesRemaining i > 0 then
           (if length (i2c_buffer i) \<le> i2c_pos i then Inl OutOfBounds
            else let m = wr8 B I2C_I2DAT (i2c_buffer i ! i2c_pos i) m;
                     i = i\<lparr>i2c_pos := i2c_pos i + 1, i2c_bytesRemaining := i2c_bytesRemaining i - 1\<rparr>
                 in Inr (i, I2C_CLR_SI B (I2C_CLR_START B m)))
         else if i2c_rxBytesRemaining i = 0 then
           Inr (i\<lparr>transferComplete := True\<rparr>, I2C_CLR_SI B (I2C_CLR_START B (I2C_SEND_STOP B m)))
         else
           Inr (i\<lparr>i2c_RdnWr := NOT (i2c_RdnWr i) AND 1, i2c_pos := 0, i2c_rxWrPos := 0, i2c_rxComplete := False\<rparr>,
                I2C_CLR_SI B (I2C_SEND_START B m)))
      else if code = 0x38 then Inr (i, I2C_CLR_SI B (I2C_SEND_START B m))
      else if code = 0x40 then
        Inr (i, CLR_SI_START B (set_AA B (i2c_rxBytesRemaining i \<noteq> 0) m))
      else if code = 0x48 then Inr (i, I2C_CLR_SI B (I2C_SEND_START B m))
      else if code = 0x50 then
        (let (d, m) = rd8 B I2C_I2DAT m in
         if length (i2c_rxBuffer i) \<le> i2c_rxWrPos i then Inl OutOfBounds
         else let i = i\<lparr>i2c_rxBuffer := (i2c_rxBuffer i)[i2c_rxWrPos i := d], i2c_rxWrPos := i2c_rxWrPos i + 1,
                         i2c_rxBytesRemaining := i2c_rxBytesRemaining i - 1\<rparr>
              in Inr (i, CLR_SI_START B (set_AA B (i2c_rxBytesRemaining i \<noteq> 0) m)))
      else if code = 0x58 then
        Inr (i\<lparr>i2c_rxComplete := True, transferComplete := True\<rparr>,
             I2C_CLR_SI B (I2C_SEND_STOP B (I2C_CLR_START B m)))
      else Inr (i, m))"

partial_function (option) i2c_loop ::
  "'d bus \<Rightarrow> (u8 \<Rightarrow> u8) \<Rightarrow> i2c \<times> 'd machine \<Rightarrow> (fault + i2c \<times> 'd machine) option" where
  "i2c_loop B addr s =
     (if transferComplete (fst s) then Some (Inr s)
      else let (code, m) = rd8 B I2C_I2STAT (snd s) in
           (case i2c_step B addr code (fst s, m) of
              Inl f \<Rightarrow> Some (Inl f)
            | Inr s' \<Rightarrow> i2c_loop B addr s'))"

declare i2c_loop.simps [code]

section \<open>The accelerometer\<close>

definition LIS3L :: u8 where
  "LIS3L = 0x3A"

definition LIS3L_AUTOINC :: u8 where
  "LIS3L_AUTOINC = 0x80"

definition LIS3L_CTRL_REG1 :: u8 where
  "LIS3L_CTRL_REG1 = 0x20"

definition LIS3L_WHO_AM_I :: u8 where
  "LIS3L_WHO_AM_I = 0x0F"

definition LIS3L_OUTX_L :: u8 where
  "LIS3L_OUTX_L = 0x28"

definition i2c_transfer :: "'d bus \<Rightarrow> int \<Rightarrow> int \<Rightarrow> i2c \<times> 'd machine \<Rightarrow> (fault + i2c \<times> 'd machine) option" where
  "i2c_transfer B len rx s =
     (let (i, m) = s;
          i = i\<lparr>i2c_rxBytesRemaining := rx, transferComplete := False, i2c_RdnWr := 0, i2c_pos := 0,
                i2c_rxWrPos := 0, i2c_bytesRemaining := len\<rparr>;
          m = I2C_SEND_START B m
      in i2c_loop B (\<lambda>r. LIS3L OR r) (i, m))"

definition send_byte :: "nat \<Rightarrow> u8 \<Rightarrow> i2c \<Rightarrow> i2c" where
  "send_byte n b i = i\<lparr>i2c_buffer := (i2c_buffer i)[n := b]\<rparr>"

definition LIS3LEnable :: "'d bus \<Rightarrow> i2c \<times> 'd machine \<Rightarrow> (fault + i2c \<times> 'd machine) option" where
  "LIS3LEnable B s = i2c_transfer B 2 0 (send_byte 1 0xC7 (send_byte 0 LIS3L_CTRL_REG1 (fst s)), snd s)"

definition LIS3LWhoAmI :: "'d bus \<Rightarrow> i2c \<times> 'd machine \<Rightarrow> (fault + i2c \<times> 'd machine) option" where
  "LIS3LWhoAmI B s = i2c_transfer B 1 1 (send_byte 0 LIS3L_WHO_AM_I (fst s), snd s)"

text \<open>\<open>*v = lo; *v += hi << 8;\<close> on a \<open>short\<close>.\<close>

definition two_bytes :: "u8 \<Rightarrow> u8 \<Rightarrow> u16" where
  "two_bytes lo hi = ucast lo + push_bit 8 (ucast hi)"

definition LIS3LGetXYZ :: "'d bus \<Rightarrow> i2c \<times> 'd machine \<Rightarrow> (fault + (u16 \<times> u16 \<times> u16) \<times> i2c \<times> 'd machine) option" where
  "LIS3LGetXYZ B s =
     map_option (map_sum id (\<lambda>(i, m). let rx = i2c_rxBuffer i in
         ((two_bytes (rx ! 0) (rx ! 1), two_bytes (rx ! 2) (rx ! 3), two_bytes (rx ! 4) (rx ! 5)), i, m)))
       (i2c_transfer B 1 6 (send_byte 0 (LIS3L_OUTX_L OR LIS3L_AUTOINC) (fst s), snd s))"

definition InitAccelerometer :: "'d bus \<Rightarrow> i2c \<times> 'd machine \<Rightarrow> (fault + i2c \<times> 'd machine) option" where
  "InitAccelerometer B s =
     (let (i, m) = s;
          m = or_wr B PINSEL0 0x0050 m;
          m = or_wr8 B I2C_I2CONSET 0x40 m;
          m = wr B I2C_I2SCLH 25 m;
          m = wr B I2C_I2SCLL 25 m
      in Option.bind (LIS3LEnable B (i, m)) (case_sum (\<lambda>f. Some (Inl f)) (LIS3LWhoAmI B)))"

section \<open>A controller with a slave\<close>

text \<open>
  The peripheral advances when the SI flag is cleared. In the slave the first byte written after the
  address sets the register pointer (without the auto-increment flag), every further byte is stored
  and every byte read comes from the register the pointer shows, which then moves on.
\<close>

record i2cdev =
  stat :: u8
  sta :: bool
  aa :: bool
  dat :: u8
  sla :: u8
  regs :: "u8 \<Rightarrow> u8"
  rp :: u8

definition i2c_advance :: "i2cdev \<Rightarrow> i2cdev" where
  "i2c_advance d =
     (if stat d = 0x08 \<or> stat d = 0x10 then
        (if dat d AND 0xFE \<noteq> sla d then d\<lparr>stat := if dat d AND 1 = 0 then 0x20 else 0x48\<rparr>
         else d\<lparr>stat := if dat d AND 1 = 0 then 0x18 else 0x40\<rparr>)
      else if stat d = 0x18 \<or> stat d = 0x28 then
        (if sta d then d\<lparr>stat := 0x10\<rparr>
         else if stat d = 0x18 then d\<lparr>rp := dat d AND 0x7F, stat := 0x28\<rparr>
         else d\<lparr>regs := (regs d)(rp d := dat d), rp := rp d + 1, stat := 0x28\<rparr>)
      else if stat d = 0x40 \<or> stat d = 0x50 then
        d\<lparr>dat := regs d (rp d), rp := rp d + 1, stat := if aa d then 0x50 else 0x58\<rparr>
      else d)"

definition i2c_bus :: "i2cdev bus" where
  "i2c_bus = \<lparr>
     bus_rd = (\<lambda>a d. (if a = I2C_I2STAT then ucast (stat d) else if a = I2C_I2DAT then ucast (dat d)
                      else if a = I2C_I2CONSET then (if sta d then 0x20 else 0) OR (if aa d then 0x04 else 0) OR 0x40
                      else if a = UART1_LSR then 0x60 else 0, d)),
     bus_wr = (\<lambda>a v d.
        if a = I2C_I2DAT then d\<lparr>dat := ucast v\<rparr>
        else if a = I2C_I2CONSET then
          let d = d\<lparr>sta := sta d \<or> bit v 5, aa := aa d \<or> bit v 2\<rparr> in
          if bit v 4 then d\<lparr>stat := 0xF8, sta := False\<rparr>
          else if bit v 5 \<and> stat d = 0xF8 then d\<lparr>stat := 0x08\<rparr> else d
        else if a = I2C_I2CONCLR then
          let d = d\<lparr>sta := sta d \<and> \<not> bit v 5, aa := aa d \<and> \<not> bit v 2\<rparr> in
          if bit v 3 then i2c_advance d else d
        else d)\<rparr>"

section \<open>The driver's register operations on the controller\<close>

lemma i2c_bus_simps [simp]:
  "dev (wr8 i2c_bus I2C_I2DAT v m) = (dev m)\<lparr>dat := v\<rparr>"
  "dev (I2C_SEND_STOP i2c_bus m) = (dev m)\<lparr>stat := 0xF8, sta := False\<rparr>"
  "dev (I2C_CLR_START i2c_bus m) = (dev m)\<lparr>sta := False\<rparr>"
  "dev (I2C_CLR_SI i2c_bus m) = i2c_advance (dev m)"
  "dev (CLR_SI_START i2c_bus m) = i2c_advance ((dev m)\<lparr>sta := False\<rparr>)"
  by (simp_all add: I2C_SEND_STOP_def I2C_CLR_START_def I2C_CLR_SI_def CLR_SI_START_def)
    (simp_all add: i2c_bus_def bit_simps Let_def)

lemma consets:
  "dev (I2C_SEND_START i2c_bus m) = (dev m)\<lparr>sta := True, stat := if stat (dev m) = 0xF8 then 0x08 else stat (dev m)\<rparr>"
  "stat (dev m) \<noteq> 0xF8 \<Longrightarrow> dev (set_AA i2c_bus b m) = (dev m)\<lparr>aa := b\<rparr>"
  by (simp_all add: I2C_SEND_START_def set_AA_def or_wr8_def rd8_def rd_parts)
    (auto simp: i2c_bus_def bit_simps Let_def)

lemma rd8_stat: "rd8 i2c_bus I2C_I2STAT m = (v, m') \<longleftrightarrow> v = stat (dev m) \<and> m' = m\<lparr>trace := trace m @ [RdA I2C_I2STAT (ucast v)]\<rparr>"
  by (auto simp: rd8_def rd_parts i2c_bus_def)

lemma rd8_dat: "rd8 i2c_bus I2C_I2DAT m = (dat (dev m), m\<lparr>trace := trace m @ [RdA I2C_I2DAT (ucast (dat (dev m)))]\<rparr>)"
  by (simp add: rd8_def rd_parts i2c_bus_def)

lemma bus_wr_dat: "bus_wr i2c_bus I2C_I2DAT (ucast v) d = d\<lparr>dat := v\<rparr>"
  by (simp add: i2c_bus_def)

lemmas dat_simps [simp] = bus_wr_dat [unfolded I2C_I2DAT_def] rd8_dat [unfolded I2C_I2DAT_def]

section \<open>One turn of the loop per status\<close>

lemma loop_turn:
  "\<not> transferComplete i \<Longrightarrow> \<exists>m1. dev m1 = dev m \<and>
     i2c_loop i2c_bus addr (i, m) =
       (case i2c_step i2c_bus addr (stat (dev m)) (i, m1) of
          Inl f \<Rightarrow> Some (Inl f) | Inr s' \<Rightarrow> i2c_loop i2c_bus addr s')"
  by (rule exI [of _ "m\<lparr>trace := trace m @ [RdA I2C_I2STAT (ucast (stat (dev m)))]\<rparr>"], subst i2c_loop.simps)
    (simp add: rd8_def rd_parts i2c_bus_def)

lemma loop_done: "transferComplete i \<Longrightarrow> i2c_loop B addr (i, m) = Some (Inr (i, m))"
  by (subst i2c_loop.simps) simp

lemma turn_address:
  assumes "\<not> transferComplete i" "stat (dev m) = 0x08 \<or> stat (dev m) = 0x10"
    "addr (i2c_RdnWr i) AND 0xFE = sla (dev m)"
  shows "\<exists>m'. i2c_loop i2c_bus addr (i, m) = i2c_loop i2c_bus addr (i, m') \<and>
    dev m' = (dev m)\<lparr>dat := addr (i2c_RdnWr i), stat := if addr (i2c_RdnWr i) AND 1 = 0 then 0x18 else 0x40\<rparr>"
  using loop_turn [OF assms(1), of m addr] assms(2,3)
  by (auto simp: i2c_step_def i2c_advance_def)

lemma turn_transmit:
  assumes "\<not> transferComplete i" "stat (dev m) = 0x18 \<or> stat (dev m) = 0x28"
    "0 < i2c_bytesRemaining i" "i2c_pos i < length (i2c_buffer i)"
  shows "\<exists>m'. i2c_loop i2c_bus addr (i, m) =
      i2c_loop i2c_bus addr (i\<lparr>i2c_pos := i2c_pos i + 1, i2c_bytesRemaining := i2c_bytesRemaining i - 1\<rparr>, m') \<and>
    dev m' = i2c_advance ((dev m)\<lparr>dat := i2c_buffer i ! i2c_pos i, sta := False\<rparr>)"
  using loop_turn [OF assms(1), of m addr] assms(2-4)
  by (auto simp: i2c_step_def Let_def)

lemma turn_stop:
  assumes "\<not> transferComplete i" "stat (dev m) = 0x18 \<or> stat (dev m) = 0x28"
    "i2c_bytesRemaining i = 0" "i2c_rxBytesRemaining i = 0"
  shows "\<exists>m'. i2c_loop i2c_bus addr (i, m) = Some (Inr (i\<lparr>transferComplete := True\<rparr>, m')) \<and>
    dev m' = (dev m)\<lparr>stat := 0xF8, sta := False\<rparr>"
  using loop_turn [OF assms(1), of m addr] assms(2-4)
  by (auto simp: i2c_step_def loop_done i2c_advance_def)

lemma turn_around:
  assumes "\<not> transferComplete i" "stat (dev m) = 0x18 \<or> stat (dev m) = 0x28"
    "i2c_bytesRemaining i = 0" "i2c_rxBytesRemaining i \<noteq> 0"
  shows "\<exists>m'. i2c_loop i2c_bus addr (i, m) =
      i2c_loop i2c_bus addr (i\<lparr>i2c_RdnWr := NOT (i2c_RdnWr i) AND 1, i2c_pos := 0, i2c_rxWrPos := 0, i2c_rxComplete := False\<rparr>, m') \<and>
    dev m' = (dev m)\<lparr>stat := 0x10, sta := True\<rparr>"
  using loop_turn [OF assms(1), of m addr] assms(2-4)
  by (auto simp: i2c_step_def consets i2c_advance_def)

lemma turn_receiver:
  assumes "\<not> transferComplete i" "stat (dev m) = 0x40" "i2c_rxBytesRemaining i \<noteq> 0"
  shows "\<exists>m'. i2c_loop i2c_bus addr (i, m) = i2c_loop i2c_bus addr (i, m') \<and>
    dev m' = (dev m)\<lparr>sta := False, aa := True, dat := regs (dev m) (rp (dev m)), rp := rp (dev m) + 1, stat := 0x50\<rparr>"
  using loop_turn [OF assms(1), of m addr] assms(2-3)
  by (auto simp: i2c_step_def consets i2c_advance_def)

lemma turn_byte:
  assumes "\<not> transferComplete i" "stat (dev m) = 0x50" "i2c_rxWrPos i < length (i2c_rxBuffer i)"
  shows "\<exists>m'. i2c_loop i2c_bus addr (i, m) =
      i2c_loop i2c_bus addr (i\<lparr>i2c_rxBuffer := (i2c_rxBuffer i)[i2c_rxWrPos i := dat (dev m)],
        i2c_rxWrPos := i2c_rxWrPos i + 1, i2c_rxBytesRemaining := i2c_rxBytesRemaining i - 1\<rparr>, m') \<and>
    dev m' = (dev m)\<lparr>sta := False, aa := i2c_rxBytesRemaining i \<noteq> 1, dat := regs (dev m) (rp (dev m)),
      rp := rp (dev m) + 1, stat := if i2c_rxBytesRemaining i \<noteq> 1 then 0x50 else 0x58\<rparr>"
  using loop_turn [OF assms(1), of m addr] assms(2-3)
  by (auto simp: i2c_step_def consets i2c_advance_def Let_def)

lemma turn_last:
  assumes "\<not> transferComplete i" "stat (dev m) = 0x58"
  shows "\<exists>m'. i2c_loop i2c_bus addr (i, m) = Some (Inr (i\<lparr>i2c_rxComplete := True, transferComplete := True\<rparr>, m')) \<and>
    dev m' = (dev m)\<lparr>sta := False, stat := 0xF8\<rparr>"
  using loop_turn [OF assms(1), of m addr] assms(2)
  by (auto simp: i2c_step_def loop_done i2c_advance_def)

section \<open>Receiving\<close>

text \<open>
  Once the first byte is in the data register the loop stores as many bytes as were asked for, one
  per register of the slave, lets the controller refuse one byte more and stops.
\<close>

definition burst :: "(u8 \<Rightarrow> u8) \<Rightarrow> u8 \<Rightarrow> nat \<Rightarrow> u8 list" where
  "burst f p n = map (\<lambda>k. f (p + of_nat k)) [0..<n]"

lemma burst_Suc: "burst f p (Suc n) = f p # burst f (p + 1) n"
  by (rule nth_equalityI) (auto simp: burst_def nth_Cons' add.assoc simp del: upt_Suc)

lemma burst_length [simp]: "length (burst f p n) = n"
  by (simp add: burst_def)

lemma burst_nth: "k < n \<Longrightarrow> burst f p n ! k = f (p + of_nat k)"
  by (simp add: burst_def)

lemma receive:
  assumes "\<not> transferComplete i" "stat (dev m) = 0x50" "i2c_rxBytesRemaining i = int (Suc n)"
    "i2c_rxWrPos i + Suc n \<le> length (i2c_rxBuffer i)"
    "dat (dev m) = regs (dev m) p" "rp (dev m) = p + 1"
  shows "\<exists>i' m'. i2c_loop i2c_bus addr (i, m) = Some (Inr (i', m')) \<and>
    i2c_rxBuffer i' = patch (i2c_rxBuffer i) (i2c_rxWrPos i) (burst (regs (dev m)) p (Suc n)) \<and>
    i2c_rxComplete i' \<and> i2c_buffer i' = i2c_buffer i \<and> i2c_RdnWr i' = i2c_RdnWr i \<and>
    regs (dev m') = regs (dev m) \<and> sla (dev m') = sla (dev m) \<and> stat (dev m') = 0xF8"
  using assms
proof (induction n arbitrary: i m p)
  case 0
  let ?i = "i\<lparr>i2c_rxBuffer := (i2c_rxBuffer i)[i2c_rxWrPos i := dat (dev m)],
        i2c_rxWrPos := i2c_rxWrPos i + 1, i2c_rxBytesRemaining := i2c_rxBytesRemaining i - 1\<rparr>"
  have one: "i2c_rxBytesRemaining i = 1" and lt: "i2c_rxWrPos i < length (i2c_rxBuffer i)" using 0 by simp_all
  from turn_byte [OF "0"(1,2) lt, of addr] obtain m1 where
    m1: "i2c_loop i2c_bus addr (i, m) = i2c_loop i2c_bus addr (?i, m1)"
    and D1: "dev m1 = (dev m)\<lparr>sta := False, aa := i2c_rxBytesRemaining i \<noteq> 1, dat := regs (dev m) (rp (dev m)),
      rp := rp (dev m) + 1, stat := if i2c_rxBytesRemaining i \<noteq> 1 then 0x50 else 0x58\<rparr>"
    by blast
  then have d1: "stat (dev m1) = 0x58" "regs (dev m1) = regs (dev m)" "sla (dev m1) = sla (dev m)"
    by (simp_all add: one)
  have nc: "\<not> transferComplete ?i" using 0 by simp
  from turn_last [OF nc d1(1), of addr] obtain m2 where
    m2: "i2c_loop i2c_bus addr (?i, m1) = Some (Inr (?i\<lparr>i2c_rxComplete := True, transferComplete := True\<rparr>, m2))"
    and d2: "dev m2 = (dev m1)\<lparr>sta := False, stat := 0xF8\<rparr>"
    by blast
  show ?case
    unfolding m1 m2 using patch_Cons [OF lt, of _ "[]"] 0 d1 d2 by (simp add: burst_def)
next
  case (Suc n)
  let ?i = "i\<lparr>i2c_rxBuffer := (i2c_rxBuffer i)[i2c_rxWrPos i := dat (dev m)],
        i2c_rxWrPos := i2c_rxWrPos i + 1, i2c_rxBytesRemaining := i2c_rxBytesRemaining i - 1\<rparr>"
  have more: "i2c_rxBytesRemaining i \<noteq> 1" and lt: "i2c_rxWrPos i < length (i2c_rxBuffer i)"
    using Suc.prems by simp_all
  from turn_byte [OF Suc.prems(1,2) lt, of addr] obtain m1 where
    m1: "i2c_loop i2c_bus addr (i, m) = i2c_loop i2c_bus addr (?i, m1)"
    and D1: "dev m1 = (dev m)\<lparr>sta := False, aa := i2c_rxBytesRemaining i \<noteq> 1, dat := regs (dev m) (rp (dev m)),
      rp := rp (dev m) + 1, stat := if i2c_rxBytesRemaining i \<noteq> 1 then 0x50 else 0x58\<rparr>"
    by blast
  then have d1: "stat (dev m1) = 0x50" "dat (dev m1) = regs (dev m) (rp (dev m))" "rp (dev m1) = rp (dev m) + 1"
      "regs (dev m1) = regs (dev m)" "sla (dev m1) = sla (dev m)"
    by (simp_all add: more)
  have "patch (i2c_rxBuffer ?i) (i2c_rxWrPos ?i) (burst (regs (dev m1)) (p + 1) (Suc n)) =
      patch (i2c_rxBuffer i) (i2c_rxWrPos i) (burst (regs (dev m)) p (Suc (Suc n)))"
    using Suc.prems(5) lt d1 by (simp add: patch_Cons burst_Suc [of _ _ "Suc n"])
  then show ?case
    unfolding m1 using Suc.IH [of ?i m1 "p + 1"] Suc.prems d1 by simp
qed

lemma receive_from_address:
  assumes "\<not> transferComplete i" "stat (dev m) = 0x40" "i2c_rxBytesRemaining i = int n" "0 < n"
    "i2c_rxWrPos i = 0" "n \<le> length (i2c_rxBuffer i)"
  shows "\<exists>i' m'. i2c_loop i2c_bus addr (i, m) = Some (Inr (i', m')) \<and>
    i2c_rxBuffer i' = patch (i2c_rxBuffer i) 0 (burst (regs (dev m)) (rp (dev m)) n) \<and>
    i2c_rxComplete i' \<and> i2c_buffer i' = i2c_buffer i \<and> i2c_RdnWr i' = i2c_RdnWr i \<and>
    regs (dev m') = regs (dev m) \<and> sla (dev m') = sla (dev m) \<and> stat (dev m') = 0xF8"
proof -
  obtain m1 where m1: "i2c_loop i2c_bus addr (i, m) = i2c_loop i2c_bus addr (i, m1)"
    and d1: "dev m1 = (dev m)\<lparr>sta := False, aa := True, dat := regs (dev m) (rp (dev m)), rp := rp (dev m) + 1, stat := 0x50\<rparr>"
    using turn_receiver [of i m addr] assms by auto
  show ?thesis
    using receive [of i m1 "n - 1" "rp (dev m)" addr] assms d1 by (simp add: m1)
qed

section \<open>Accelerometer transfers\<close>

abbreviation lis_addr :: "u8 \<Rightarrow> u8" where
  "lis_addr \<equiv> \<lambda>r. LIS3L OR r"

text \<open>The state after the start condition, the address and the first byte: the register pointer is set.\<close>

lemma transfer_starts:
  assumes "stat (dev m) = 0xF8" "sla (dev m) = LIS3L" "0 < len" "0 < length (i2c_buffer i)"
  shows "\<exists>m'. i2c_transfer i2c_bus len rx (i, m) =
      i2c_loop i2c_bus lis_addr (i\<lparr>i2c_rxBytesRemaining := rx, transferComplete := False, i2c_RdnWr := 0, i2c_rxWrPos := 0,
                i2c_pos := Suc 0, i2c_bytesRemaining := len - 1\<rparr>, m') \<and>
    stat (dev m') = 0x28 \<and> \<not> sta (dev m') \<and> rp (dev m') = i2c_buffer i ! 0 AND 0x7F \<and>
    regs (dev m') = regs (dev m) \<and> sla (dev m') = LIS3L"
proof -
  let ?i = "i\<lparr>i2c_rxBytesRemaining := rx, transferComplete := False, i2c_RdnWr := 0, i2c_pos := 0,
                i2c_rxWrPos := 0, i2c_bytesRemaining := len\<rparr>"
  let ?m = "I2C_SEND_START i2c_bus m"
  obtain m1 where m1: "i2c_loop i2c_bus lis_addr (?i, ?m) = i2c_loop i2c_bus lis_addr (?i, m1)"
    and d1: "dev m1 = (dev ?m)\<lparr>dat := 0x3A, stat := 0x18\<rparr>"
    using turn_address [of ?i ?m lis_addr] assms by (auto simp: consets LIS3L_def)
  show ?thesis
    using turn_transmit [of ?i m1 lis_addr] assms d1
    by (auto simp: i2c_transfer_def m1 i2c_advance_def consets)
qed

lemma transfer_write:
  assumes "stat (dev m) = 0xF8" "sla (dev m) = LIS3L" "1 < length (i2c_buffer i)"
  shows "\<exists>i' m'. i2c_transfer i2c_bus 2 0 (i, m) = Some (Inr (i', m')) \<and> i2c_buffer i' = i2c_buffer i \<and>
    i2c_rxBuffer i' = i2c_rxBuffer i \<and> stat (dev m') = 0xF8 \<and> sla (dev m') = LIS3L \<and>
    regs (dev m') = (regs (dev m))(i2c_buffer i ! 0 AND 0x7F := i2c_buffer i ! 1)"
proof -
  obtain m1 where m1: "i2c_transfer i2c_bus 2 0 (i, m) =
      i2c_loop i2c_bus lis_addr (i\<lparr>i2c_rxBytesRemaining := 0, transferComplete := False, i2c_RdnWr := 0, i2c_rxWrPos := 0,
                i2c_pos := Suc 0, i2c_bytesRemaining := 1\<rparr>, m1)" (is "_ = i2c_loop _ _ (?i, _)")
    and d1: "stat (dev m1) = 0x28" "\<not> sta (dev m1)" "rp (dev m1) = i2c_buffer i ! 0 AND 0x7F"
      "regs (dev m1) = regs (dev m)" "sla (dev m1) = LIS3L"
    using transfer_starts [of m 2 i 0] assms by fastforce
  obtain m2 where m2: "i2c_loop i2c_bus lis_addr (?i, m1) =
      i2c_loop i2c_bus lis_addr (?i\<lparr>i2c_pos := 2, i2c_bytesRemaining := 0\<rparr>, m2)"
      (is "_ = i2c_loop _ _ (?j, _)")
    and d2: "dev m2 = i2c_advance ((dev m1)\<lparr>dat := i2c_buffer i ! 1, sta := False\<rparr>)"
    using turn_transmit [of ?i m1 lis_addr] assms d1 by (auto simp: numeral_2_eq_2)
  show ?thesis
    unfolding m1 m2 using turn_stop [of ?j m2 lis_addr] d1 d2 by (auto simp: i2c_advance_def)
qed

lemma transfer_read:
  assumes "stat (dev m) = 0xF8" "sla (dev m) = LIS3L" "0 < length (i2c_buffer i)"
    "0 < n" "n \<le> length (i2c_rxBuffer i)"
  shows "\<exists>i' m'. i2c_transfer i2c_bus 1 (int n) (i, m) = Some (Inr (i', m')) \<and>
    i2c_rxBuffer i' = patch (i2c_rxBuffer i) 0 (burst (regs (dev m)) (i2c_buffer i ! 0 AND 0x7F) n) \<and>
    i2c_rxComplete i' \<and> i2c_buffer i' = i2c_buffer i \<and>
    regs (dev m') = regs (dev m) \<and> sla (dev m') = LIS3L \<and> stat (dev m') = 0xF8"
proof -
  obtain m1 where m1: "i2c_transfer i2c_bus 1 (int n) (i, m) =
      i2c_loop i2c_bus lis_addr (i\<lparr>i2c_rxBytesRemaining := int n, transferComplete := False, i2c_RdnWr := 0, i2c_rxWrPos := 0,
                i2c_pos := Suc 0, i2c_bytesRemaining := 0\<rparr>, m1)" (is "_ = i2c_loop _ _ (?i, _)")
    and d1: "stat (dev m1) = 0x28" "\<not> sta (dev m1)" "rp (dev m1) = i2c_buffer i ! 0 AND 0x7F"
      "regs (dev m1) = regs (dev m)" "sla (dev m1) = LIS3L"
    using transfer_starts [of m 1 i "int n"] assms by auto
  obtain m2 where m2: "i2c_loop i2c_bus lis_addr (?i, m1) =
      i2c_loop i2c_bus lis_addr (?i\<lparr>i2c_RdnWr := 1, i2c_pos := 0, i2c_rxWrPos := 0, i2c_rxComplete := False\<rparr>, m2)"
      (is "_ = i2c_loop _ _ (?j, _)")
    and d2: "dev m2 = (dev m1)\<lparr>stat := 0x10, sta := True\<rparr>"
    using turn_around [of ?i m1 lis_addr] assms d1 by auto
  obtain m3 where m3: "i2c_loop i2c_bus lis_addr (?j, m2) = i2c_loop i2c_bus lis_addr (?j, m3)"
    and d3: "dev m3 = (dev m2)\<lparr>dat := 0x3B, stat := 0x40\<rparr>"
    using turn_address [of ?j m2 lis_addr] d1 d2 by (auto simp: LIS3L_def)
  show ?thesis
    unfolding m1 m2 m3 using receive_from_address [of ?j m3 n lis_addr] assms d1 d2 d3 by fastforce
qed

section \<open>What the accelerometer functions do\<close>

definition i2c_idle :: "i2c \<Rightarrow> i2cdev machine \<Rightarrow> bool" where
  "i2c_idle i m \<longleftrightarrow> length (i2c_buffer i) = 10 \<and> length (i2c_rxBuffer i) = 19 \<and> stat (dev m) = 0xF8 \<and> sla (dev m) = LIS3L"

lemma LIS3LEnable_idle:
  assumes "i2c_idle i m"
  shows "\<exists>i' m'. LIS3LEnable i2c_bus (i, m) = Some (Inr (i', m')) \<and> i2c_idle i' m' \<and>
    i2c_rxBuffer i' = i2c_rxBuffer i \<and> regs (dev m') = (regs (dev m))(0x20 := 0xC7)"
  using assms transfer_write [of m "send_byte 1 0xC7 (send_byte 0 LIS3L_CTRL_REG1 i)"]
  by (auto simp: LIS3LEnable_def i2c_idle_def send_byte_def LIS3L_CTRL_REG1_def nth_list_update)

lemma LIS3LWhoAmI_idle:
  assumes "i2c_idle i m"
  shows "\<exists>i' m'. LIS3LWhoAmI i2c_bus (i, m) = Some (Inr (i', m')) \<and> i2c_idle i' m' \<and>
    i2c_rxBuffer i' ! 0 = regs (dev m) 0x0F \<and> regs (dev m') = regs (dev m)"
  using assms transfer_read [of m "send_byte 0 LIS3L_WHO_AM_I i" 1]
  by (auto simp: LIS3LWhoAmI_def i2c_idle_def send_byte_def LIS3L_WHO_AM_I_def patch_length patch_nth burst_nth)

lemma two_bytes_value: "unat (two_bytes lo hi) = unat lo + 256 * unat hi"
proof -
  have "unat (push_bit 8 (ucast hi :: u16)) = 256 * unat hi"
    using u8_less_256 [of hi]
    by (simp add: push_bit_eq_mult unat_mult_lem [THEN iffD1] unat_ucast_up unat_word_ariths)
  then show ?thesis
    using u8_less_256 [of hi] u8_less_256 [of lo]
    by (simp add: two_bytes_def unat_word_ariths unat_ucast_up)
qed

text \<open>
  C24. \<^verbatim>\<open>LIS3LGetXYZ\<close>: on an idle bus with the accelerometer at address 0x3A the transfer
  terminates without a fault, and the three values are the little-endian pairs of the output registers
  0x28 to 0x2D; the bus is idle again and the sensor's registers are untouched.
\<close>

theorem LIS3LGetXYZ_reads_axes:
  assumes "i2c_idle i m"
  shows "\<exists>x y z i' m'. LIS3LGetXYZ i2c_bus (i, m) = Some (Inr ((x, y, z), i', m')) \<and> i2c_idle i' m' \<and>
    unat x = unat (regs (dev m) 0x28) + 256 * unat (regs (dev m) 0x29) \<and>
    unat y = unat (regs (dev m) 0x2A) + 256 * unat (regs (dev m) 0x2B) \<and>
    unat z = unat (regs (dev m) 0x2C) + 256 * unat (regs (dev m) 0x2D) \<and>
    regs (dev m') = regs (dev m)"
proof -
  let ?i = "send_byte 0 (LIS3L_OUTX_L OR LIS3L_AUTOINC) i"
  have "?i = i\<lparr>i2c_buffer := (i2c_buffer i)[0 := 0xA8]\<rparr>"
    by (simp add: send_byte_def LIS3L_OUTX_L_def LIS3L_AUTOINC_def)
  with assms transfer_read [of m ?i 6] obtain i' m' where
    *: "i2c_transfer i2c_bus 1 6 (?i, m) = Some (Inr (i', m'))"
      "i2c_rxBuffer i' = patch (i2c_rxBuffer i) 0 (burst (regs (dev m)) 0x28 6)"
      "i2c_buffer i' = (i2c_buffer i)[0 := 0xA8]"
      "regs (dev m') = regs (dev m)" "sla (dev m') = LIS3L" "stat (dev m') = 0xF8"
    by (auto simp: i2c_idle_def)
  have "length (i2c_rxBuffer i) = 19" using assms by (simp add: i2c_idle_def)
  then have "i2c_rxBuffer i' ! k = regs (dev m) (0x28 + of_nat k)" if "k < 6" for k
    using that by (simp add: * patch_nth burst_nth)
  from this [of 0] this [of 1] this [of 2] this [of 3] this [of 4] this [of 5]
  show ?thesis
    using assms * by (simp add: LIS3LGetXYZ_def two_bytes_value i2c_idle_def patch_length)
qed

definition demo_sensor :: i2cdev where
  "demo_sensor = \<lparr>stat = 0xF8, sta = False, aa = False, dat = 0, sla = 0x3A, regs = (\<lambda>r. r), rp = 0\<rparr>"

definition i2c_reset :: i2c where
  "i2c_reset = \<lparr>i2c_bytesRemaining = 0, i2c_pos = 0, i2c_buffer = replicate 10 0, i2c_rxBuffer = replicate 19 0,
     i2c_RdnWr = 0, i2c_rxWrPos = 0, i2c_rxComplete = False, i2c_rxBytesRemaining = 0, transferComplete = False\<rparr>"

lemma i2c_idle_demo: "i2c_idle i2c_reset \<lparr>dev = demo_sensor, trace = []\<rparr>"
  by (simp add: i2c_idle_def i2c_reset_def demo_sensor_def LIS3L_def)

theorem LIS3LGetXYZ_reads_axes_witness:
  "i2c_idle i2c_reset \<lparr>dev = demo_sensor, trace = []\<rparr> \<and>
   (\<exists>x y z i' m'. LIS3LGetXYZ i2c_bus (i2c_reset, \<lparr>dev = demo_sensor, trace = []\<rparr>) = Some (Inr ((x, y, z), i', m')) \<and>
      unat x = 0x28 + 256 * 0x29)"
  using LIS3LGetXYZ_reads_axes [OF i2c_idle_demo] i2c_idle_demo by (fastforce simp: demo_sensor_def)

text \<open>
  \<^verbatim>\<open>InitAccelerometer\<close> terminates on an idle bus with no start request pending:
  control register 1 of the sensor holds 0xC7, every other register keeps its value, and the identity
  register was read into the receive buffer.
\<close>

theorem InitAccelerometer_enables:
  assumes "i2c_idle i m" "\<not> sta (dev m)"
  shows "\<exists>i' m'. InitAccelerometer i2c_bus (i, m) = Some (Inr (i', m')) \<and> i2c_idle i' m' \<and>
    regs (dev m') = (regs (dev m))(0x20 := 0xC7) \<and> i2c_rxBuffer i' ! 0 = regs (dev m) 0x0F"
proof -
  let ?m = "wr i2c_bus I2C_I2SCLL 25 (wr i2c_bus I2C_I2SCLH 25
              (or_wr8 i2c_bus I2C_I2CONSET 0x40 (or_wr i2c_bus PINSEL0 0x0050 m)))"
  have d: "stat (dev ?m) = stat (dev m)" "sla (dev ?m) = sla (dev m)" "regs (dev ?m) = regs (dev m)"
    using assms by (auto simp: i2c_idle_def or_wr8_def or_wr_def rd8_def rd_parts i2c_bus_def bit_simps Let_def)
  then have "i2c_idle i ?m" using assms by (simp add: i2c_idle_def)
  then obtain i1 m1 where 1: "LIS3LEnable i2c_bus (i, ?m) = Some (Inr (i1, m1))" "i2c_idle i1 m1"
    "regs (dev m1) = (regs (dev m))(0x20 := 0xC7)"
    using LIS3LEnable_idle d by fastforce
  then show ?thesis
    using LIS3LWhoAmI_idle [of i1 m1] by (auto simp: InitAccelerometer_def)
qed

theorem InitAccelerometer_enables_witness:
  "\<exists>i' m'. InitAccelerometer i2c_bus (i2c_reset, \<lparr>dev = demo_sensor, trace = []\<rparr>) = Some (Inr (i', m')) \<and>
     regs (dev m') 0x20 = 0xC7 \<and> i2c_rxBuffer i' ! 0 = 0x0F"
  using InitAccelerometer_enables [OF i2c_idle_demo] by (fastforce simp: demo_sensor_def)

end
