(* ===== verification/Touchscreen.thy ===== *)
theory Touchscreen
  imports I2c
begin

text \<open>
  The resistive touch screen of \<^verbatim>\<open>software/touchscreen/touchscreen.c\<close>: an I2C converter is
  read while the plates of the panel are polarised one way and the other, ten times, and the forty
  readings are reduced to a position and a touched flag.

  \<open>unsigned long\<close> and \<open>int\<close> are both words of 32 bits here: the source mixes them, and a comparison is
  signed or unsigned as the C conversion rules make it (\<open><s\<close> and \<open><\<close>). The delay loops have no effect
  but time and are left out.
\<close>

section \<open>The converter\<close>

definition ts_address :: u8 where
  "ts_address = push_bit 1 0x28 OR 0x01"

definition ts_transfer :: "'d bus \<Rightarrow> i2c \<times> 'd machine \<Rightarrow> (fault + i2c \<times> 'd machine) option" where
  "ts_transfer B s =
     (let (i, m) = s;
          i = i\<lparr>i2c_rxBytesRemaining := 2 * 4, transferComplete := False, i2c_pos := 0,
                i2c_rxWrPos := 0, i2c_bytesRemaining := 1\<rparr>;
          m = I2C_SEND_START B m
      in i2c_loop B (\<lambda>_. ts_address) (i, m))"

definition adc_word :: "u8 \<Rightarrow> u8 \<Rightarrow> u32" where
  "adc_word hi lo = push_bit 8 (ucast hi) OR ucast lo"

definition adc_channel :: "u32 \<Rightarrow> u32" where
  "adc_channel j = drop_bit 12 (0x3000 AND j)"

fun adc_pick :: "u32 \<Rightarrow> u8 list \<Rightarrow> u32" where
  "adc_pick channel (hi # lo # rest) =
     (let j = adc_word hi lo in
      if adc_channel j = channel then j AND 0x0FFC else adc_pick channel rest)"
| "adc_pick channel _ = - 1"

definition GetADC :: "'d bus \<Rightarrow> u32 \<Rightarrow> i2c \<times> 'd machine \<Rightarrow> (fault + u32 \<times> i2c \<times> 'd machine) option" where
  "GetADC B channel s =
     map_option (map_sum id (\<lambda>s'. (adc_pick channel (take 8 (i2c_rxBuffer (fst s'))), s')))
       (ts_transfer B s)"

section \<open>The panel\<close>

definition YU :: u32 where
  "YU = push_bit 20 1"

definition XL :: u32 where
  "XL = push_bit 21 1"

definition YD :: u32 where
  "YD = push_bit 22 1"

definition XR :: u32 where
  "XR = push_bit 23 1"

definition polarizeXx :: "'d bus \<Rightarrow> 'd machine \<Rightarrow> 'd machine" where
  "polarizeXx B m =
     (let m = or_wr B IO1DIR (XL OR XR) m;
          m = and_wr B IO1DIR (NOT (YU OR YD)) m;
          m = or_wr B IO1SET XL m
      in or_wr B IO1CLR XR m)"

definition polarizexX :: "'d bus \<Rightarrow> 'd machine \<Rightarrow> 'd machine" where
  "polarizexX B m =
     (let m = or_wr B IO1DIR (XL OR XR) m;
          m = and_wr B IO1DIR (NOT (YU OR YD)) m;
          m = or_wr B IO1CLR XL m
      in or_wr B IO1SET XR m)"

definition polarizeYy :: "'d bus \<Rightarrow> 'd machine \<Rightarrow> 'd machine" where
  "polarizeYy B m =
     (let m = and_wr B IO1DIR (XL OR XR) m;
          m = or_wr B IO1DIR (NOT (YU OR YD)) m;
          m = or_wr B IO1SET YU m
      in or_wr B IO1CLR YD m)"

definition polarizeyY :: "'d bus \<Rightarrow> 'd machine \<Rightarrow> 'd machine" where
  "polarizeyY B m =
     (let m = and_wr B IO1DIR (XL OR XR) m;
          m = or_wr B IO1DIR (NOT (YU OR YD)) m;
          m = or_wr B IO1CLR YU m
      in or_wr B IO1SET YD m)"

record touchscreen_data =
  xvalue :: u32
  yvalue :: u32
  pvalue :: u32

definition X_DEFAULT_RESOLUTION :: u32 where
  "X_DEFAULT_RESOLUTION = 320"

definition Y_DEFAULT_RESOLUTION :: u32 where
  "Y_DEFAULT_RESOLUTION = 240"

definition P_DEFAULT_RESOLUTION :: u32 where
  "P_DEFAULT_RESOLUTION = 100"

definition InitTS :: "'d bus \<Rightarrow> touchscreen_data \<Rightarrow> 'd machine \<Rightarrow> touchscreen_data \<times> 'd machine" where
  "InitTS B ts_resolution m =
     (let m = or_wr B PINSEL0 0x0050 m;
          m = or_wr8 B I2C_I2CONSET 0x40 m;
          m = wr B I2C_I2SCLH 25 m;
          m = wr B I2C_I2SCLL 25 m
      in (\<lparr>xvalue = if xvalue ts_resolution \<noteq> 0 then xvalue ts_resolution else X_DEFAULT_RESOLUTION,
           yvalue = if yvalue ts_resolution \<noteq> 0 then yvalue ts_resolution else Y_DEFAULT_RESOLUTION,
           pvalue = if pvalue ts_resolution \<noteq> 0 then pvalue ts_resolution else P_DEFAULT_RESOLUTION\<rparr>, m))"

section \<open>Sampling\<close>

definition TS_Y_CHANNEL :: u32 where
  "TS_Y_CHANNEL = 1"

definition TS_X_CHANNEL :: u32 where
  "TS_X_CHANNEL = 3"

definition TS_NUM_SAMPLES :: nat where
  "TS_NUM_SAMPLES = 10"

type_synonym 'd ts_run = "i2c \<times> 'd machine \<Rightarrow> (fault + u32 \<times> i2c \<times> 'd machine) option"

text \<open>Polarise, wait, convert.\<close>

definition reading :: "'d bus \<Rightarrow> ('d machine \<Rightarrow> 'd machine) \<Rightarrow> u32 \<Rightarrow> 'd ts_run" where
  "reading B polarize channel s = GetADC B channel (fst s, polarize (snd s))"

text \<open>One turn of the sampling loop fills the entries \<open>2 i\<close> and \<open>2 i + 1\<close> of the array.\<close>

definition sample_turn :: "'d bus \<Rightarrow> i2c \<times> 'd machine \<Rightarrow>
    (fault + (touchscreen_data \<times> touchscreen_data) \<times> i2c \<times> 'd machine) option" where
  "sample_turn B s =
     bind_run (reading B (polarizeXx B) TS_Y_CHANNEL s) (\<lambda>x0 s.
     bind_run (reading B (polarizeYy B) TS_X_CHANNEL s) (\<lambda>y0 s.
     bind_run (reading B (polarizexX B) TS_Y_CHANNEL s) (\<lambda>x1 s.
     bind_run (reading B (polarizeyY B) TS_X_CHANNEL s) (\<lambda>y1 s.
       Some (Inr ((\<lparr>xvalue = x0, yvalue = y0, pvalue = 0\<rparr>, \<lparr>xvalue = x1, yvalue = y1, pvalue = 0\<rparr>), s))))))"

fun sample_loop :: "'d bus \<Rightarrow> nat \<Rightarrow> i2c \<times> 'd machine \<Rightarrow>
    (fault + (touchscreen_data \<times> touchscreen_data) list \<times> i2c \<times> 'd machine) option" where
  "sample_loop B 0 s = Some (Inr ([], s))"
| "sample_loop B (Suc n) s =
     bind_run (sample_turn B s) (\<lambda>p s. bind_run (sample_loop B n s) (\<lambda>ps s. Some (Inr (p # ps, s))))"

section \<open>Reduction\<close>

definition ts_max_value :: u32 where
  "ts_max_value = push_bit (12 - 1) 2"

record ts_acc =
  xsum :: u32
  ysum :: u32
  xvalue_min :: u32
  xvalue_max :: u32
  yvalue_min :: u32
  yvalue_max :: u32

text \<open>
  The four comparisons of one axis: the direct reading \<open>v\<close> is \<open>unsigned long\<close>, the mirrored one \<open>t\<close> is
  \<open>int\<close>, and the last comparison is against the minimum.
\<close>

definition track :: "u32 \<Rightarrow> u32 \<Rightarrow> u32 \<times> u32 \<Rightarrow> u32 \<times> u32" where
  "track v t mm =
     (let (mn, mx) = mm;
          mn = if mn > v then v else mn;
          mx = if mx < v then v else mx;
          mn = if t <s mn then t else mn;
          mx = if mn <s t then t else mx
      in (mn, mx))"

definition reduce_step :: "touchscreen_data \<times> touchscreen_data \<Rightarrow> ts_acc \<Rightarrow> ts_acc" where
  "reduce_step p a =
     (let (s0, s1) = p;
          tempyval = ts_max_value - yvalue s1;
          tempxval = ts_max_value - xvalue s1;
          (ymin, ymax) = track (yvalue s0) tempyval (yvalue_min a, yvalue_max a);
          (xmin, xmax) = track (xvalue s0) tempxval (xvalue_min a, xvalue_max a)
      in \<lparr>xsum = xsum a + xvalue s0 + (ts_max_value - xvalue s1),
          ysum = ysum a + yvalue s0 + (ts_max_value - yvalue s1),
          xvalue_min = xmin, xvalue_max = xmax, yvalue_min = ymin, yvalue_max = ymax\<rparr>)"

definition reduce_init :: ts_acc where
  "reduce_init = \<lparr>xsum = 0, ysum = 0, xvalue_min = 4095, xvalue_max = 0, yvalue_min = 4095, yvalue_max = 0\<rparr>"

definition XDELTA_MAX :: u32 where
  "XDELTA_MAX = 100"

definition YDELTA_MAX :: u32 where
  "YDELTA_MAX = 100"

definition ts_reduce :: "(touchscreen_data \<times> touchscreen_data) list \<Rightarrow> touchscreen_data" where
  "ts_reduce ps =
     (let a = fold reduce_step ps reduce_init;
          x = xsum a div (of_nat TS_NUM_SAMPLES * 2);
          y = ysum a div (of_nat TS_NUM_SAMPLES * 2);
          xdelta = xvalue_max a - xvalue_min a;
          ydelta = yvalue_max a - yvalue_min a;
          p = (if x < 910 \<and> y < 910 \<and> xdelta <s XDELTA_MAX \<and> ydelta <s YDELTA_MAX then 1024 else 0)
      in \<lparr>xvalue = x, yvalue = ts_max_value - y, pvalue = p\<rparr>)"

definition GetTS :: "'d bus \<Rightarrow> i2c \<times> 'd machine \<Rightarrow> (fault + touchscreen_data \<times> i2c \<times> 'd machine) option" where
  "GetTS B s = bind_run (sample_loop B TS_NUM_SAMPLES s) (\<lambda>ps s. Some (Inr (ts_reduce ps, s)))"

section \<open>The plates\<close>

lemma plates_disjoint: "(XL OR XR) AND (YU OR YD) = 0"
  by (simp add: YU_def YD_def XL_def XR_def)

lemma disjoint_masks:
  fixes x y d :: u32
  assumes "x AND y = 0"
  shows "((d OR x) AND NOT y) AND (x OR y) = x" "(d AND x) OR NOT y = NOT y"
proof -
  have "\<not> (bit x n \<and> bit y n)" for n
    using assms bit_and_iff [of x y n] by simp
  then show "((d OR x) AND NOT y) AND (x OR y) = x" "(d AND x) OR NOT y = NOT y"
    by (auto intro!: bit_word_eqI simp: bit_simps)
qed

lemma polarize_X_dir:
  "dev (polarizeXx ram_bus m) IO1DIR = (dev m IO1DIR OR (XL OR XR)) AND NOT (YU OR YD)"
  "dev (polarizexX ram_bus m) IO1DIR = (dev m IO1DIR OR (XL OR XR)) AND NOT (YU OR YD)"
  by (simp_all add: polarizeXx_def polarizexX_def or_wr_def and_wr_def rd_parts Let_def)

text \<open>
  The X polarisation makes the X plates outputs and the Y plates inputs, whatever the direction
  register held. The Y polarisation does the opposite of its purpose: after it the two Y plates are the
  only inputs of port 1 and every other pin, the X plates and the pins of other devices included, is an
  output.
\<close>

theorem polarize_directions:
  "dev (polarizeXx ram_bus m) IO1DIR AND (XL OR XR OR YU OR YD) = XL OR XR \<and>
   dev (polarizexX ram_bus m) IO1DIR AND (XL OR XR OR YU OR YD) = XL OR XR \<and>
   dev (polarizeYy ram_bus m) IO1DIR = NOT (YU OR YD) \<and>
   dev (polarizeyY ram_bus m) IO1DIR = NOT (YU OR YD)"
proof -
  have "dev (polarizeYy ram_bus m) IO1DIR = (dev m IO1DIR AND (XL OR XR)) OR NOT (YU OR YD)"
    "dev (polarizeyY ram_bus m) IO1DIR = (dev m IO1DIR AND (XL OR XR)) OR NOT (YU OR YD)"
    by (simp_all add: polarizeYy_def polarizeyY_def or_wr_def and_wr_def rd_parts Let_def)
  moreover have "XL OR XR OR YU OR YD = (XL OR XR) OR (YU OR YD)"
    by (simp add: or.assoc)
  ultimately show ?thesis
    using disjoint_masks [OF plates_disjoint] by (simp only: polarize_X_dir)
qed

section \<open>Converting\<close>

definition ts_idle :: "i2c \<Rightarrow> i2cdev machine \<Rightarrow> bool" where
  "ts_idle i m \<longleftrightarrow> length (i2c_rxBuffer i) = 19 \<and> stat (dev m) = 0xF8 \<and> sla (dev m) = 0x50"

lemma ts_transfer_burst:
  assumes "ts_idle i m"
  shows "\<exists>i' m'. ts_transfer i2c_bus (i, m) = Some (Inr (i', m')) \<and> ts_idle i' m' \<and>
    take 8 (i2c_rxBuffer i') = burst (regs (dev m)) (rp (dev m)) 8 \<and> regs (dev m') = regs (dev m)"
proof -
  let ?i = "i\<lparr>i2c_rxBytesRemaining := 2 * 4, transferComplete := False, i2c_pos := 0,
                i2c_rxWrPos := 0, i2c_bytesRemaining := 1\<rparr>"
  let ?m = "I2C_SEND_START i2c_bus m"
  obtain m1 where m1: "i2c_loop i2c_bus (\<lambda>_. ts_address) (?i, ?m) = i2c_loop i2c_bus (\<lambda>_. ts_address) (?i, m1)"
    and d1: "dev m1 = (dev ?m)\<lparr>dat := 0x51, stat := 0x40\<rparr>"
    using turn_address [of ?i ?m "\<lambda>_. ts_address"] assms by (auto simp: consets ts_address_def ts_idle_def)
  have *: "ts_transfer i2c_bus (i, m) = i2c_loop i2c_bus (\<lambda>_. ts_address) (?i, m1)"
    unfolding m1 [symmetric] by (simp add: ts_transfer_def)
  show ?thesis
    unfolding * using receive_from_address [of ?i m1 8 "\<lambda>_. ts_address"] assms d1
    by (auto simp: ts_idle_def consets patch_length patch_def)
qed

lemma adc_pick_cases: "adc_pick c bs = - 1 \<or> adc_pick c bs \<le> 0x0FFC \<and> adc_pick c bs AND 3 = 0"
proof (induction c bs rule: adc_pick.induct)
  case (1 c hi lo rest)
  have "j AND 0x0FFC \<le> 0x0FFC" for j :: u32
    by (rule word_and_le1)
  moreover have "(j AND 0x0FFC) AND 3 = 0" for j :: u32
  proof -
    have "(j AND 0x0FFC) AND 3 = j AND (0x0FFC AND 3)" by (rule and.assoc)
    then show ?thesis by simp
  qed
  ultimately show ?case using 1 by (auto simp: Let_def)
qed auto

lemma GetADC_burst:
  assumes "ts_idle i m"
  shows "\<exists>i' m'. GetADC i2c_bus c (i, m) = Some (Inr (adc_pick c (burst (regs (dev m)) (rp (dev m)) 8), i', m')) \<and>
    ts_idle i' m' \<and> regs (dev m') = regs (dev m)"
  using ts_transfer_burst [OF assms] by (auto simp: GetADC_def)

definition conversion :: "i2cdev \<Rightarrow> nat \<Rightarrow> u32" where
  "conversion d k = adc_word (regs d (rp d + of_nat (2 * k))) (regs d (rp d + of_nat (2 * k + 1)))"

lemma adc_pick_burst:
  "adc_pick c (burst (regs d) (rp d) 8) =
     (if adc_channel (conversion d 0) = c then conversion d 0 AND 0x0FFC
      else if adc_channel (conversion d 1) = c then conversion d 1 AND 0x0FFC
      else if adc_channel (conversion d 2) = c then conversion d 2 AND 0x0FFC
      else if adc_channel (conversion d 3) = c then conversion d 3 AND 0x0FFC else - 1)"
  by (simp add: burst_def upt_rec conversion_def)

text \<open>
  \<^verbatim>\<open>GetADC\<close> with the converter at its address: the transfer ends without a fault, and when the
  four big-endian words the converter sends carry four distinct channel numbers, the value returned is
  the 12-bit result of the word of the asked channel with its two low bits cleared.
\<close>

theorem GetADC_channel:
  assumes "ts_idle i m" "inj_on (\<lambda>k. adc_channel (conversion (dev m) k)) {0, 1, 2, 3}" "n \<in> {0, 1, 2, 3}"
  shows "\<exists>i' m'. GetADC i2c_bus (adc_channel (conversion (dev m) n)) (i, m) =
      Some (Inr (conversion (dev m) n AND 0x0FFC, i', m')) \<and> ts_idle i' m'"
proof -
  have "adc_pick (adc_channel (conversion (dev m) n)) (burst (regs (dev m)) (rp (dev m)) 8) = conversion (dev m) n AND 0x0FFC"
    unfolding adc_pick_burst using assms(2,3) by (auto simp: inj_on_def)
  then show ?thesis
    using GetADC_burst [OF assms(1), of "adc_channel (conversion (dev m) n)"] by auto
qed

definition demo_adc :: i2cdev where
  "demo_adc = \<lparr>stat = 0xF8, sta = False, aa = False, dat = 0, sla = 0x50,
     regs = (\<lambda>r. [0x01, 0x00, 0x12, 0x34, 0x20, 0x00, 0x3A, 0xBC] ! (unat r mod 8)), rp = 0\<rparr>"

lemma demo_adc_conversions:
  "conversion demo_adc 0 = 0x0100" "conversion demo_adc 1 = 0x1234"
  "conversion demo_adc 2 = 0x2000" "conversion demo_adc 3 = 0x3ABC"
  by (simp_all add: conversion_def demo_adc_def adc_word_def)

lemma ts_idle_demo: "ts_idle i2c_reset \<lparr>dev = demo_adc, trace = []\<rparr>"
  by (simp add: ts_idle_def i2c_reset_def demo_adc_def)

theorem GetADC_channel_witness:
  "\<exists>i' m'. GetADC i2c_bus 3 (i2c_reset, \<lparr>dev = demo_adc, trace = []\<rparr>) = Some (Inr (0xABC, i', m'))"
  using GetADC_channel [OF ts_idle_demo, of 3] demo_adc_conversions
  by (auto simp: inj_on_def adc_channel_def)

section \<open>A whole measurement\<close>

definition valid_reading :: "u32 \<Rightarrow> bool" where
  "valid_reading v \<longleftrightarrow> v = - 1 \<or> v \<le> 0x0FFC \<and> v AND 3 = 0"

definition valid_pair :: "touchscreen_data \<times> touchscreen_data \<Rightarrow> bool" where
  "valid_pair p \<longleftrightarrow> (case p of (a, b) \<Rightarrow> valid_reading (xvalue a) \<and> valid_reading (yvalue a) \<and>
     valid_reading (xvalue b) \<and> valid_reading (yvalue b))"

lemma ports_leave_converter:
  "dev (polarizeXx i2c_bus m) = dev m" "dev (polarizexX i2c_bus m) = dev m"
  "dev (polarizeYy i2c_bus m) = dev m" "dev (polarizeyY i2c_bus m) = dev m"
  by (simp_all add: polarizeXx_def polarizexX_def polarizeYy_def polarizeyY_def or_wr_def and_wr_def rd_parts Let_def i2c_bus_def)

lemma reading_valid:
  assumes "ts_idle i m" "\<And>m. dev (pol m) = dev m"
  shows "\<exists>v i' m'. reading i2c_bus pol c (i, m) = Some (Inr (v, i', m')) \<and> ts_idle i' m' \<and> valid_reading v"
proof -
  have "ts_idle i (pol m)" using assms by (simp add: ts_idle_def)
  from GetADC_burst [OF this, of c] show ?thesis
    using adc_pick_cases by (fastforce simp: reading_def valid_reading_def)
qed

lemma sample_turn_valid:
  assumes "ts_idle i m"
  shows "\<exists>p i' m'. sample_turn i2c_bus (i, m) = Some (Inr (p, i', m')) \<and> ts_idle i' m' \<and> valid_pair p"
proof -
  obtain x0 i1 m1 where 1: "reading i2c_bus (polarizeXx i2c_bus) TS_Y_CHANNEL (i, m) = Some (Inr (x0, i1, m1))"
    "ts_idle i1 m1" "valid_reading x0" using reading_valid [OF assms] ports_leave_converter by metis
  obtain y0 i2 m2 where 2: "reading i2c_bus (polarizeYy i2c_bus) TS_X_CHANNEL (i1, m1) = Some (Inr (y0, i2, m2))"
    "ts_idle i2 m2" "valid_reading y0" using reading_valid [OF 1(2)] ports_leave_converter by metis
  obtain x1 i3 m3 where 3: "reading i2c_bus (polarizexX i2c_bus) TS_Y_CHANNEL (i2, m2) = Some (Inr (x1, i3, m3))"
    "ts_idle i3 m3" "valid_reading x1" using reading_valid [OF 2(2)] ports_leave_converter by metis
  obtain y1 i4 m4 where 4: "reading i2c_bus (polarizeyY i2c_bus) TS_X_CHANNEL (i3, m3) = Some (Inr (y1, i4, m4))"
    "ts_idle i4 m4" "valid_reading y1" using reading_valid [OF 3(2)] ports_leave_converter by metis
  show ?thesis
    using 1 2 3 4 by (simp add: sample_turn_def bind_run_def valid_pair_def)
qed

lemma sample_loop_valid:
  assumes "ts_idle i m"
  shows "\<exists>ps i' m'. sample_loop i2c_bus n (i, m) = Some (Inr (ps, i', m')) \<and> ts_idle i' m' \<and>
    length ps = n \<and> list_all valid_pair ps"
  using assms
proof (induction n arbitrary: i m)
  case (Suc n)
  obtain p i1 m1 where 1: "sample_turn i2c_bus (i, m) = Some (Inr (p, i1, m1))" "ts_idle i1 m1" "valid_pair p"
    using sample_turn_valid [OF Suc.prems] by blast
  then show ?case
    using Suc.IH [OF 1(2)] by (auto simp: bind_run_def)
qed (simp add: bind_run_def)

text \<open>
  \<^verbatim>\<open>GetTS\<close> returns: with the converter on the bus all forty transfers end, no access is outside the
  arrays, and the result is the reduction of ten pairs of samples, every reading of which is a 10-bit
  value in a 12-bit field or the failure value -1.
\<close>

theorem GetTS_returns:
  assumes "ts_idle i m"
  shows "\<exists>ps i' m'. GetTS i2c_bus (i, m) = Some (Inr (ts_reduce ps, i', m')) \<and> ts_idle i' m' \<and>
    length ps = 10 \<and> list_all valid_pair ps"
  using sample_loop_valid [OF assms, of TS_NUM_SAMPLES] by (auto simp: GetTS_def bind_run_def TS_NUM_SAMPLES_def)

theorem GetTS_returns_witness:
  "ts_idle i2c_reset \<lparr>dev = demo_adc, trace = []\<rparr> \<and>
   (\<exists>ps r. GetTS i2c_bus (i2c_reset, \<lparr>dev = demo_adc, trace = []\<rparr>) = Some (Inr (ts_reduce ps, r)) \<and> length ps = 10)"
  using GetTS_returns [OF ts_idle_demo] ts_idle_demo by blast

section \<open>What the reduction computes\<close>

text \<open>The readings of an axis as numbers: the direct one and the mirror image of the reversed one.\<close>

definition direct :: "(touchscreen_data \<Rightarrow> u32) \<Rightarrow> touchscreen_data \<times> touchscreen_data \<Rightarrow> nat" where
  "direct f p = unat (f (fst p))"

definition mirrored :: "(touchscreen_data \<Rightarrow> u32) \<Rightarrow> touchscreen_data \<times> touchscreen_data \<Rightarrow> nat" where
  "mirrored f p = 4096 - unat (f (snd p))"

definition axis_sum :: "(touchscreen_data \<Rightarrow> u32) \<Rightarrow> (touchscreen_data \<times> touchscreen_data) list \<Rightarrow> nat" where
  "axis_sum f ps = (\<Sum>p\<leftarrow>ps. direct f p + mirrored f p)"

definition in_range :: "touchscreen_data \<times> touchscreen_data \<Rightarrow> bool" where
  "in_range p \<longleftrightarrow> xvalue (fst p) \<le> 0x0FFC \<and> yvalue (fst p) \<le> 0x0FFC \<and> xvalue (snd p) \<le> 0x0FFC \<and> yvalue (snd p) \<le> 0x0FFC"

lemma ts_max_value [simp]: "ts_max_value = 4096"
  by (simp add: ts_max_value_def)

lemma unat_mirror: "(v :: u32) \<le> 0x0FFC \<Longrightarrow> unat (4096 - v) = 4096 - unat v"
proof -
  assume v: "v \<le> 0x0FFC"
  then have "v \<le> 4096" by (rule order_trans) simp
  then show ?thesis by (simp add: unat_sub)
qed

lemma axis_sum_bound: "list_all in_range ps \<Longrightarrow> axis_sum xvalue ps \<le> 8192 * length ps \<and> axis_sum yvalue ps \<le> 8192 * length ps"
proof (induction ps)
  case (Cons p ps)
  then have "unat (xvalue (fst p)) \<le> 0xFFC" "unat (yvalue (fst p)) \<le> 0xFFC"
    by (auto simp: in_range_def word_le_nat_alt)
  with Cons show ?case by (auto simp: axis_sum_def direct_def mirrored_def)
qed (simp add: axis_sum_def)

lemma unat_add3:
  assumes "unat (a :: u32) + unat b + unat c < 2 ^ 32"
  shows "unat (a + b + c) = unat a + unat b + unat c"
  using assms by (simp add: unat_word_ariths)

lemma reduce_sums:
  assumes "list_all in_range ps" "unat (xsum a) + 8192 * length ps < 2 ^ 32" "unat (ysum a) + 8192 * length ps < 2 ^ 32"
  shows "unat (xsum (fold reduce_step ps a)) = unat (xsum a) + axis_sum xvalue ps \<and>
    unat (ysum (fold reduce_step ps a)) = unat (ysum a) + axis_sum yvalue ps"
  using assms
proof (induction ps arbitrary: a)
  case (Cons p ps)
  obtain s0 s1 where p: "p = (s0, s1)" by (cases p)
  have r: "xvalue s0 \<le> 0xFFC" "yvalue s0 \<le> 0xFFC" "xvalue s1 \<le> 0xFFC" "yvalue s1 \<le> 0xFFC"
    using Cons.prems(1) by (auto simp: p in_range_def)
  then have u: "unat (xvalue s0) \<le> 0xFFC" "unat (yvalue s0) \<le> 0xFFC" by (simp_all add: word_le_nat_alt)
  have "unat (xsum (reduce_step p a)) = unat (xsum a) + direct xvalue p + mirrored xvalue p"
    "unat (ysum (reduce_step p a)) = unat (ysum a) + direct yvalue p + mirrored yvalue p"
    using r u Cons.prems(2,3)
    by (simp_all add: p reduce_step_def unat_add3 unat_mirror direct_def mirrored_def split: prod.split)
  moreover have "direct xvalue p + mirrored xvalue p \<le> 8192" "direct yvalue p + mirrored yvalue p \<le> 8192"
    using u by (auto simp: p direct_def mirrored_def)
  ultimately show ?case
    using Cons.IH [of "reduce_step p a"] Cons.prems by (auto simp: axis_sum_def)
qed (simp add: axis_sum_def)

text \<open>
  The position: for ten pairs of samples in the converter's range no sum wraps, the x value is the
  integer mean of the ten direct and the ten mirrored readings, and the y value is that mean reflected
  in 4096.
\<close>

theorem ts_reduce_position:
  assumes "length ps = 10" "list_all in_range ps"
  shows "unat (xvalue (ts_reduce ps)) = axis_sum xvalue ps div 20 \<and>
    unat (yvalue (ts_reduce ps)) = 4096 - axis_sum yvalue ps div 20"
proof -
  have s: "unat (xsum (fold reduce_step ps reduce_init)) = axis_sum xvalue ps"
    "unat (ysum (fold reduce_step ps reduce_init)) = axis_sum yvalue ps"
    using reduce_sums [OF assms(2), of reduce_init] assms(1) by (simp_all add: reduce_init_def)
  have b: "axis_sum yvalue ps div 20 \<le> 4096"
    using axis_sum_bound [OF assms(2)] assms(1) by auto
  have q: "unat (xsum (fold reduce_step ps reduce_init) div 20) = axis_sum xvalue ps div 20"
    "unat (ysum (fold reduce_step ps reduce_init) div 20) = axis_sum yvalue ps div 20"
    by (simp_all add: unat_div s)
  have "ysum (fold reduce_step ps reduce_init) div 20 \<le> 4096"
    using b q(2) by (simp add: word_le_nat_alt)
  then show ?thesis
    using q by (simp add: ts_reduce_def Let_def TS_NUM_SAMPLES_def unat_sub)
qed

theorem ts_reduce_position_witness:
  "unat (xvalue (ts_reduce (replicate 10 (\<lparr>xvalue = 800, yvalue = 400, pvalue = 0\<rparr>, \<lparr>xvalue = 3200, yvalue = 3600, pvalue = 0\<rparr>)))) = 848 \<and>
   unat (yvalue (ts_reduce (replicate 10 (\<lparr>xvalue = 800, yvalue = 400, pvalue = 0\<rparr>, \<lparr>xvalue = 3200, yvalue = 3600, pvalue = 0\<rparr>)))) = 3648"
  using ts_reduce_position [of "replicate 10 (\<lparr>xvalue = 800, yvalue = 400, pvalue = 0\<rparr>, \<lparr>xvalue = 3200, yvalue = 3600, pvalue = 0\<rparr>)"]
  by (simp add: list_all_iff in_range_def axis_sum_def direct_def mirrored_def sum_list_replicate)

lemma signed_less_small:
  assumes "unat (a :: u32) < 2 ^ 31" "unat b < 2 ^ 31"
  shows "a <s b \<longleftrightarrow> unat a < unat b"
  unfolding word_sless_alt sint_small [OF assms(1)] sint_small [OF assms(2)] by (rule of_nat_less_iff)

lemma track_nat:
  assumes "unat v \<le> 4096" "unat t \<le> 4096" "unat mn \<le> 4096"
  shows "unat (fst (track v t (mn, mx))) = min (min (unat mn) (unat v)) (unat t)"
    "unat (fst (track v t (mn, mx))) < unat t \<Longrightarrow> unat (snd (track v t (mn, mx))) = unat t"
  using assms by (auto simp: track_def Let_def signed_less_small word_less_nat_alt split: if_splits)

definition track_axis :: "(touchscreen_data \<Rightarrow> u32) \<Rightarrow> touchscreen_data \<times> touchscreen_data \<Rightarrow> u32 \<times> u32 \<Rightarrow> u32 \<times> u32" where
  "track_axis f p = track (f (fst p)) (4096 - f (snd p))"

lemma reduce_extrema:
  "(xvalue_min (fold reduce_step ps a), xvalue_max (fold reduce_step ps a)) =
     fold (track_axis xvalue) ps (xvalue_min a, xvalue_max a)"
  "(yvalue_min (fold reduce_step ps a), yvalue_max (fold reduce_step ps a)) =
     fold (track_axis yvalue) ps (yvalue_min a, yvalue_max a)"
  by (induction ps arbitrary: a) (auto simp: reduce_step_def track_axis_def Let_def split: prod.splits)

definition lowest :: "(touchscreen_data \<Rightarrow> u32) \<Rightarrow> (touchscreen_data \<times> touchscreen_data) list \<Rightarrow> nat" where
  "lowest f ps = fold (\<lambda>p n. min (min n (direct f p)) (mirrored f p)) ps 4095"

lemma lowest_le: "lowest f ps \<le> 4095"
proof -
  have "fold (\<lambda>p n. min (min n (direct f p)) (mirrored f p)) ps b \<le> b" for b
  proof (induction ps arbitrary: b)
    case (Cons p ps)
    show ?case using Cons.IH [of "min (min b (direct f p)) (mirrored f p)"] by simp
  qed simp
  then show ?thesis by (simp add: lowest_def)
qed

lemma lowest_snoc: "lowest f (ps @ [p]) = min (min (lowest f ps) (direct f p)) (mirrored f p)"
  by (simp add: lowest_def)

lemma track_axis_extrema:
  assumes "list_all (\<lambda>p. f (fst p) \<le> 0x0FFC \<and> f (snd p) \<le> 0x0FFC) ps"
  shows "unat (fst (fold (track_axis f) ps (4095, 0))) = lowest f ps \<and>
    (ps \<noteq> [] \<and> lowest f ps < mirrored f (last ps) \<longrightarrow> unat (snd (fold (track_axis f) ps (4095, 0))) = mirrored f (last ps))"
  using assms
proof (induction ps rule: rev_induct)
  case (snoc p ps)
  obtain mn mx where st: "fold (track_axis f) ps (4095, 0) = (mn, mx)" by (cases "fold (track_axis f) ps (4095, 0)")
  have IH: "unat mn = lowest f ps" using snoc by (simp add: st)
  have le: "f (fst p) \<le> 0xFFC" "f (snd p) \<le> 0xFFC" using snoc.prems by simp_all
  then have b: "unat (f (fst p)) \<le> 4096" "unat (4096 - f (snd p)) = 4096 - unat (f (snd p))"
    by (auto simp: word_le_nat_alt unat_mirror)
  have mn: "unat mn \<le> 4096" using IH lowest_le [of f ps] by simp
  have "fold (track_axis f) (ps @ [p]) (4095, 0) = track (f (fst p)) (4096 - f (snd p)) (mn, mx)"
    by (simp add: st) (simp add: track_axis_def)
  then show ?case
    using track_nat [OF b(1) _ mn, of "4096 - f (snd p)" mx] b
    by (simp add: IH lowest_snoc del: fold_append) (simp add: direct_def mirrored_def)
qed (simp add: lowest_def)

text \<open>
  The touched flag: when the last mirrored reading of each axis lies above the lowest reading, the
  spread that is compared with 100 is the distance of that last reading from the lowest one, because
  the maximum is compared with the minimum and overwritten on every turn. So a touch is reported
  exactly when both means are below 910 and the last pair is close to the lowest reading, however far
  the other nineteen readings lie.
\<close>

theorem ts_reduce_touch:
  assumes "length ps = 10" "list_all in_range ps"
    and "lowest xvalue ps < mirrored xvalue (last ps)" "lowest yvalue ps < mirrored yvalue (last ps)"
  shows "pvalue (ts_reduce ps) = 1024 \<longleftrightarrow>
    axis_sum xvalue ps div 20 < 910 \<and> axis_sum yvalue ps div 20 < 910 \<and>
    mirrored xvalue (last ps) - lowest xvalue ps < 100 \<and> mirrored yvalue (last ps) - lowest yvalue ps < 100"
proof -
  let ?a = "fold reduce_step ps reduce_init"
  have ne: "ps \<noteq> []" using assms(1) by auto
  have rx: "list_all (\<lambda>p. xvalue (fst p) \<le> 0x0FFC \<and> xvalue (snd p) \<le> 0x0FFC) ps"
    and ry: "list_all (\<lambda>p. yvalue (fst p) \<le> 0x0FFC \<and> yvalue (snd p) \<le> 0x0FFC) ps"
    using assms(2) by (simp_all add: list_all_iff in_range_def)
  have x: "unat (xvalue_min ?a) = lowest xvalue ps" "unat (xvalue_max ?a) = mirrored xvalue (last ps)"
    using track_axis_extrema [OF rx] reduce_extrema(1) [of ps reduce_init, symmetric] ne assms(3)
    by (simp_all add: reduce_init_def)
  have y: "unat (yvalue_min ?a) = lowest yvalue ps" "unat (yvalue_max ?a) = mirrored yvalue (last ps)"
    using track_axis_extrema [OF ry] reduce_extrema(2) [of ps reduce_init, symmetric] ne assms(4)
    by (simp_all add: reduce_init_def)
  have d: "mx - mn <s 100 \<longleftrightarrow> unat mx - unat mn < 100" if "unat mn < unat mx" "unat mx \<le> 4096" for mx mn :: u32
  proof -
    have "unat (mx - mn) = unat mx - unat mn" using that by (simp add: unat_sub word_le_nat_alt)
    then show ?thesis using that by (simp add: signed_less_small)
  qed
  have m: "mirrored f p \<le> 4096" for f p by (simp add: mirrored_def)
  have s: "unat (xsum ?a) = axis_sum xvalue ps" "unat (ysum ?a) = axis_sum yvalue ps"
    using reduce_sums [OF assms(2), of reduce_init] assms(1) by (simp_all add: reduce_init_def)
  have q: "xsum ?a div 20 < 910 \<longleftrightarrow> axis_sum xvalue ps div 20 < 910" "ysum ?a div 20 < 910 \<longleftrightarrow> axis_sum yvalue ps div 20 < 910"
    by (simp_all add: word_less_nat_alt unat_div s)
  show ?thesis
    using d [of "xvalue_min ?a" "xvalue_max ?a"] d [of "yvalue_min ?a" "yvalue_max ?a"] assms(3,4)
    by (simp add: ts_reduce_def Let_def TS_NUM_SAMPLES_def XDELTA_MAX_def YDELTA_MAX_def x y m q)
qed

definition jump_samples :: "(touchscreen_data \<times> touchscreen_data) list" where
  "jump_samples = (\<lparr>xvalue = 2000, yvalue = 400, pvalue = 0\<rparr>, \<lparr>xvalue = 3696, yvalue = 3600, pvalue = 0\<rparr>) #
     replicate 9 (\<lparr>xvalue = 400, yvalue = 400, pvalue = 0\<rparr>, \<lparr>xvalue = 3600, yvalue = 3600, pvalue = 0\<rparr>)"

theorem ts_reduce_touch_witness:
  "direct xvalue (hd jump_samples) - lowest xvalue jump_samples = 1600 \<and> pvalue (ts_reduce jump_samples) = 1024"
proof -
  have r: "replicate 9 x = [x, x, x, x, x, x, x, x, x]" for x :: "touchscreen_data \<times> touchscreen_data"
    by (simp add: numeral_eq_Suc)
  have "lowest xvalue jump_samples = 400" "lowest yvalue jump_samples = 400"
    "axis_sum xvalue jump_samples = 10464" "axis_sum yvalue jump_samples = 8960"
    by (simp_all add: lowest_def axis_sum_def jump_samples_def r direct_def mirrored_def)
  then show ?thesis
    using ts_reduce_touch [of jump_samples]
    by (simp add: jump_samples_def r in_range_def direct_def mirrored_def)
qed

end
