(* ===== verification/Lan_Regs.thy ===== *)
theory Lan_Regs
  imports Prelude
begin

text \<open>
  Register map, command bits and limits of the LAN9118 from \<^verbatim>\<open>software/lan/smsc9118.h\<close>, as far as the
  driver uses them. A directly addressed register is its address; the MAC and PHY registers are
  indices.
\<close>

definition PKTSIZE_ALIGN :: nat where
  [simp]: "PKTSIZE_ALIGN = 1536"

definition PKTSIZE :: nat where
  [simp]: "PKTSIZE = 1518"

definition MAC_TIMEOUT :: nat where
  [simp]: "MAC_TIMEOUT = 200"

definition PHY_TIMEOUT :: nat where
  [simp]: "PHY_TIMEOUT = 200"

definition PHY_AN_TIMEOUT :: nat where
  [simp]: "PHY_AN_TIMEOUT = 10"

definition TX_TIMEOUT :: u32 where
  [simp]: "TX_TIMEOUT = 3000"

definition FFWD_TIMEOUT :: nat where
  [simp]: "FFWD_TIMEOUT = 100"

definition PHY_ADDR :: u32 where
  [simp]: "PHY_ADDR = 1"

definition RX_FIFO_PORT :: u32 where
  [simp]: "RX_FIFO_PORT = 0x82000000"

definition TX_FIFO_PORT :: u32 where
  [simp]: "TX_FIFO_PORT = 0x82000020"

definition RX_STATUS_FIFO_PORT :: u32 where
  [simp]: "RX_STATUS_FIFO_PORT = 0x82000040"

definition TX_STATUS_FIFO_PORT :: u32 where
  [simp]: "TX_STATUS_FIFO_PORT = 0x82000048"

definition TX_STATUS_FIFO_ES :: u32 where
  [simp]: "TX_STATUS_FIFO_ES = 0x00008000"

definition ID_REV :: u32 where
  [simp]: "ID_REV = 0x82000050"

definition ID_REV_ID_MASK :: u32 where
  [simp]: "ID_REV_ID_MASK = 0xFFFF0000"

definition IRQ_CFG :: u32 where
  [simp]: "IRQ_CFG = 0x82000054"

definition INT_STS :: u32 where
  [simp]: "INT_STS = 0x82000058"

definition INT_EN :: u32 where
  [simp]: "INT_EN = 0x8200005C"

definition INT_EN_RXDFH_INT_EN :: u32 where
  [simp]: "INT_EN_RXDFH_INT_EN = 0x00800000"

definition INT_EN_RXE_INT_EN :: u32 where
  [simp]: "INT_EN_RXE_INT_EN = 0x00004000"

definition INT_EN_TDFA_INT_EN :: u32 where
  [simp]: "INT_EN_TDFA_INT_EN = 0x00000200"

definition INT_EN_RSFL_INT_EN :: u32 where
  [simp]: "INT_EN_RSFL_INT_EN = 0x00000008"

definition BYTE_TEST :: u32 where
  [simp]: "BYTE_TEST = 0x82000064"

definition FIFO_INT :: u32 where
  [simp]: "FIFO_INT = 0x82000068"

definition FIFO_INT_TDAL_MSK :: u32 where
  [simp]: "FIFO_INT_TDAL_MSK = 0xFF000000"

definition RX_CFG :: u32 where
  [simp]: "RX_CFG = 0x8200006C"

definition RX_CFG_FORCE_DISCARD :: u32 where
  [simp]: "RX_CFG_FORCE_DISCARD = 0x00008000"

definition TX_CFG :: u32 where
  [simp]: "TX_CFG = 0x82000070"

definition TX_CFG_TXS_DUMP :: u32 where
  [simp]: "TX_CFG_TXS_DUMP = 0x00008000"

definition TX_CFG_TXD_DUMP :: u32 where
  [simp]: "TX_CFG_TXD_DUMP = 0x00004000"

definition TX_CFG_TX_ON :: u32 where
  [simp]: "TX_CFG_TX_ON = 0x00000002"

definition TX_CFG_STOP_TX :: u32 where
  [simp]: "TX_CFG_STOP_TX = 0x00000001"

definition HW_CFG :: u32 where
  [simp]: "HW_CFG = 0x82000074"

definition HW_CFG_MBO :: u32 where
  [simp]: "HW_CFG_MBO = 0x00100000"

definition HW_CFG_TX_FIF_SZ_MSK :: u32 where
  [simp]: "HW_CFG_TX_FIF_SZ_MSK = 0x000F0000"

definition HW_CFG_SRST :: u32 where
  [simp]: "HW_CFG_SRST = 0x00000001"

definition RX_DP_CTL :: u32 where
  [simp]: "RX_DP_CTL = 0x82000078"

definition RX_DP_FFWD :: u32 where
  [simp]: "RX_DP_FFWD = 0x80000000"

definition RX_FIFO_INF :: u32 where
  [simp]: "RX_FIFO_INF = 0x8200007C"

definition TX_FIFO_INF :: u32 where
  [simp]: "TX_FIFO_INF = 0x82000080"

definition TX_FIFO_TXSUSED_MSK :: u32 where
  [simp]: "TX_FIFO_TXSUSED_MSK = 0x00FF0000"

definition PWR_MGMT :: u32 where
  [simp]: "PWR_MGMT = 0x82000084"

definition PWR_MGMT_PM_MODE_MSK :: u32 where
  [simp]: "PWR_MGMT_PM_MODE_MSK = 0x00030000"

definition PWR_MGMT_PME_READY :: u32 where
  [simp]: "PWR_MGMT_PME_READY = 0x00000001"

definition GPIO_CFG :: u32 where
  [simp]: "GPIO_CFG = 0x82000088"

definition GPT_CFG :: u32 where
  [simp]: "GPT_CFG = 0x8200008C"

definition GPT_CNT :: u32 where
  [simp]: "GPT_CNT = 0x82000090"

definition FPGA_REV :: u32 where
  [simp]: "FPGA_REV = 0x82000094"

definition ENDIAN :: u32 where
  [simp]: "ENDIAN = 0x82000098"

definition FREE_RUN :: u32 where
  [simp]: "FREE_RUN = 0x8200009C"

definition RX_DROP :: u32 where
  [simp]: "RX_DROP = 0x820000A0"

definition MAC_CSR_CMD :: u32 where
  [simp]: "MAC_CSR_CMD = 0x820000A4"

definition MAC_CSR_CMD_CSR_BUSY :: u32 where
  [simp]: "MAC_CSR_CMD_CSR_BUSY = 0x80000000"

definition MAC_CSR_CMD_RNW :: u32 where
  [simp]: "MAC_CSR_CMD_RNW = 0x40000000"

definition MAC_CSR_DATA :: u32 where
  [simp]: "MAC_CSR_DATA = 0x820000A8"

definition AFC_CFG :: u32 where
  [simp]: "AFC_CFG = 0x820000AC"

definition MAC_CR :: u32 where
  [simp]: "MAC_CR = 0x1"

definition MAC_CR_HBDIS :: u32 where
  [simp]: "MAC_CR_HBDIS = 0x10000000"

definition MAC_CR_PRMS :: u32 where
  [simp]: "MAC_CR_PRMS = 0x00040000"

definition MAC_CR_BCAST :: u32 where
  [simp]: "MAC_CR_BCAST = 0x00000800"

definition MAC_CR_TXEN :: u32 where
  [simp]: "MAC_CR_TXEN = 0x00000008"

definition MAC_CR_RXEN :: u32 where
  [simp]: "MAC_CR_RXEN = 0x00000004"

definition MAC_ADDRH :: u32 where
  [simp]: "MAC_ADDRH = 0x2"

definition MAC_ADDRL :: u32 where
  [simp]: "MAC_ADDRL = 0x3"

definition MAC_HASHH :: u32 where
  [simp]: "MAC_HASHH = 0x4"

definition MAC_HASHL :: u32 where
  [simp]: "MAC_HASHL = 0x5"

definition MAC_MIIACC :: u32 where
  [simp]: "MAC_MIIACC = 0x6"

definition MAC_MIIACC_MII_WRITE :: u32 where
  [simp]: "MAC_MIIACC_MII_WRITE = 0x00000002"

definition MAC_MIIACC_MII_BUSY :: u32 where
  [simp]: "MAC_MIIACC_MII_BUSY = 0x00000001"

definition MAC_MIIDATA :: u32 where
  [simp]: "MAC_MIIDATA = 0x7"

definition MAC_FLOW :: u32 where
  [simp]: "MAC_FLOW = 0x8"

definition MAC_VLAN1 :: u32 where
  [simp]: "MAC_VLAN1 = 0x9"

definition MAC_VLAN2 :: u32 where
  [simp]: "MAC_VLAN2 = 0xA"

definition MAC_WUFF :: u32 where
  [simp]: "MAC_WUFF = 0xB"

definition MAC_WUCSR :: u32 where
  [simp]: "MAC_WUCSR = 0xC"

definition PHY_BCR :: u8 where
  [simp]: "PHY_BCR = 0x0"

definition PHY_BCR_RST :: u16 where
  [simp]: "PHY_BCR_RST = 0x8000"

definition PHY_BCR_SS :: u16 where
  [simp]: "PHY_BCR_SS = 0x2000"

definition PHY_BCR_ANE :: u16 where
  [simp]: "PHY_BCR_ANE = 0x1000"

definition PHY_BCR_RSTAN :: u16 where
  [simp]: "PHY_BCR_RSTAN = 0x0200"

definition PHY_BCR_FDPLX :: u16 where
  [simp]: "PHY_BCR_FDPLX = 0x0100"

definition PHY_BSR :: u8 where
  [simp]: "PHY_BSR = 0x1"

definition PHY_BSR_ANC :: u16 where
  [simp]: "PHY_BSR_ANC = 0x0020"

definition PHY_BSR_LINK_STATUS :: u16 where
  [simp]: "PHY_BSR_LINK_STATUS = 0x0004"

definition PHY_ID1 :: u8 where
  [simp]: "PHY_ID1 = 0x2"

definition PHY_ID1_LAN9118 :: u16 where
  [simp]: "PHY_ID1_LAN9118 = 0x0007"

definition PHY_ID2 :: u8 where
  [simp]: "PHY_ID2 = 0x3"

definition PHY_ID2_LAN9118 :: u16 where
  [simp]: "PHY_ID2_LAN9118 = 0xC0D1"

definition PHY_ID2_LAN9218 :: u16 where
  [simp]: "PHY_ID2_LAN9218 = 0xC0C3"

definition PHY_ANAR :: u8 where
  [simp]: "PHY_ANAR = 0x4"

definition PHY_ANAR_PAUSE_OP_MSK :: u16 where
  [simp]: "PHY_ANAR_PAUSE_OP_MSK = 0x0C00"

definition PHY_ANAR_PAUSE_OP_BOTH :: u16 where
  [simp]: "PHY_ANAR_PAUSE_OP_BOTH = 0x0C00"

definition PHY_ANAR_100_TX_FDPLX :: u16 where
  [simp]: "PHY_ANAR_100_TX_FDPLX = 0x0100"

definition PHY_ANAR_100_TX_ABLE :: u16 where
  [simp]: "PHY_ANAR_100_TX_ABLE = 0x0080"

definition PHY_ANAR_10_FDPLX :: u16 where
  [simp]: "PHY_ANAR_10_FDPLX = 0x0040"

definition PHY_ANAR_10_ABLE :: u16 where
  [simp]: "PHY_ANAR_10_ABLE = 0x0020"

definition PHY_ANLPAR :: u8 where
  [simp]: "PHY_ANLPAR = 0x5"

definition PHY_ANEXPR :: u8 where
  [simp]: "PHY_ANEXPR = 0x6"

definition PHY_SILREV :: u8 where
  [simp]: "PHY_SILREV = 0x10"

definition PHY_MCSR :: u8 where
  [simp]: "PHY_MCSR = 0x11"

definition PHY_SPMODES :: u8 where
  [simp]: "PHY_SPMODES = 0x12"

definition PHY_CSIR :: u8 where
  [simp]: "PHY_CSIR = 0x1B"

definition PHY_ISR :: u8 where
  [simp]: "PHY_ISR = 0x1C"

definition PHY_IMR :: u8 where
  [simp]: "PHY_IMR = 0x1E"

definition PHY_PHYSCSR :: u8 where
  [simp]: "PHY_PHYSCSR = 0x1F"

definition PHY_PHYSCSR_SPEED_MSK :: u16 where
  [simp]: "PHY_PHYSCSR_SPEED_MSK = 0x001C"

definition PKTBUFSRX :: nat where
  [simp]: "PKTBUFSRX = 32"

definition ENET_MAX_MTU :: nat where
  [simp]: "ENET_MAX_MTU = PKTSIZE"

definition ENET_MAX_MTU_ALIGNED :: nat where
  [simp]: "ENET_MAX_MTU_ALIGNED = PKTSIZE_ALIGN"

definition PHY_ID1_LAN9218 :: u16 where
  [simp]: "PHY_ID1_LAN9218 = PHY_ID1_LAN9118"

definition MAC_RD_CMD :: "u32 \<Rightarrow> u32" where
  "MAC_RD_CMD Reg = (Reg AND 0x000000FF) OR (MAC_CSR_CMD_CSR_BUSY OR MAC_CSR_CMD_RNW)"

definition MAC_WR_CMD :: "u32 \<Rightarrow> u32" where
  "MAC_WR_CMD Reg = (Reg AND 0x000000FF) OR MAC_CSR_CMD_CSR_BUSY"

definition MAC_MII_RD_CMD :: "u32 \<Rightarrow> u32 \<Rightarrow> u32" where
  "MAC_MII_RD_CMD Addr Reg = push_bit 11 (Addr AND 0x1F) OR push_bit 6 (Reg AND 0x1F)"

definition MAC_MII_WR_CMD :: "u32 \<Rightarrow> u32 \<Rightarrow> u32" where
  "MAC_MII_WR_CMD Addr Reg = push_bit 11 (Addr AND 0x1F) OR push_bit 6 (Reg AND 0x1F) OR MAC_MIIACC_MII_WRITE"

end
