(* ===== verification/Smsc9118.thy ===== *)
theory Smsc9118
  imports Lan_Regs
begin

text \<open>
  The LAN9118 driver \<^verbatim>\<open>software/lan/smsc9118.c\<close>: delays on the controller's free-running counter,
  access to the MAC registers through a command and a data register and to the PHY registers through
  two MAC registers, bring-up of the controller, reception into the buffers of the upper layer and
  transmission.

  The controller is the bus. A function that only touches bounded loops is total; one that waits on
  the free-running counter or on the transmit status is of option type. The warnings expand to nothing
  and the \<open>printf\<close> of the register dumps is of the C library: of a dump only the loads remain.
\<close>

section \<open>Delays\<close>

definition DELAY :: "'d bus \<Rightarrow> nat \<Rightarrow> 'd machine \<Rightarrow> 'd machine" where
  "DELAY B n = (touch B BYTE_TEST ^^ n)"

definition run_delta :: "u32 \<Rightarrow> u32 \<Rightarrow> u32" where
  "run_delta start delta = (if delta \<ge> start then delta - start else (delta - start) + 1)"

partial_function (option) udelay_loop :: "'d bus \<Rightarrow> u32 \<Rightarrow> u32 \<Rightarrow> 'd machine \<Rightarrow> 'd machine option" where
  "udelay_loop B start usec m =
     (let (delta, m) = rd B FREE_RUN m in
      if run_delta start delta < usec then udelay_loop B start usec m else Some m)"

declare udelay_loop.simps [code]

definition lan9118_udelay :: "'d bus \<Rightarrow> u32 \<Rightarrow> 'd machine \<Rightarrow> 'd machine option" where
  "lan9118_udelay B delta m =
     (let (start, m) = rd B FREE_RUN m in udelay_loop B start (delta * (25000000 div 1000000)) m)"

section \<open>MAC registers\<close>

text \<open>The result is \<open>True\<close> on a timeout.\<close>

fun MacBusy :: "'d bus \<Rightarrow> nat \<Rightarrow> 'd machine \<Rightarrow> bool \<times> 'd machine" where
  "MacBusy B 0 m = (True, m)"
| "MacBusy B (Suc timeout) m =
     (let (v, m) = rd B MAC_CSR_CMD m in
      if v AND MAC_CSR_CMD_CSR_BUSY = 0 then (False, m) else MacBusy B timeout m)"

definition GetMacReg :: "'d bus \<Rightarrow> u32 \<Rightarrow> 'd machine \<Rightarrow> u32 \<times> 'd machine" where
  "GetMacReg B Reg m =
     (let (v, m) = rd B MAC_CSR_CMD m in
      if v AND MAC_CSR_CMD_CSR_BUSY \<noteq> 0 then (0xFFFFFFFF, m)
      else
        let m = wr B MAC_CSR_CMD (MAC_RD_CMD Reg) m;
            m = DELAY B 1 m;
            (timedout, m) = MacBusy B MAC_TIMEOUT m
        in if timedout then (0xFFFFFFFF, m) else rd B MAC_CSR_DATA m)"

definition SetMacReg :: "'d bus \<Rightarrow> u32 \<Rightarrow> u32 \<Rightarrow> 'd machine \<Rightarrow> bool \<times> 'd machine" where
  "SetMacReg B Reg Value m =
     (let (v, m) = rd B MAC_CSR_CMD m in
      if v AND MAC_CSR_CMD_CSR_BUSY \<noteq> 0 then (False, m)
      else
        let m = wr B MAC_CSR_DATA Value m;
            m = DELAY B 1 m;
            m = wr B MAC_CSR_CMD (MAC_WR_CMD Reg) m;
            m = DELAY B 1 m;
            (timedout, m) = MacBusy B MAC_TIMEOUT m
        in (\<not> timedout, m))"

section \<open>PHY registers\<close>

fun PhyBusy :: "'d bus \<Rightarrow> nat \<Rightarrow> 'd machine \<Rightarrow> bool \<times> 'd machine" where
  "PhyBusy B 0 m = (True, m)"
| "PhyBusy B (Suc timeout) m =
     (let (v, m) = GetMacReg B MAC_MIIACC m in
      if v AND MAC_MIIACC_MII_BUSY = 0 then (False, m) else PhyBusy B timeout m)"

definition GetPhyReg :: "'d bus \<Rightarrow> u8 \<Rightarrow> 'd machine \<Rightarrow> u16 \<times> 'd machine" where
  "GetPhyReg B Reg m =
     (let (v, m) = GetMacReg B MAC_MIIACC m in
      if v AND MAC_MIIACC_MII_BUSY \<noteq> 0 then (0, m)
      else
        let (_, m) = SetMacReg B MAC_MIIACC (MAC_MII_RD_CMD PHY_ADDR (ucast Reg)) m;
            m = DELAY B 1 m;
            (timedout, m) = PhyBusy B PHY_TIMEOUT m
        in if timedout then (0xFFFF, m)
           else let (v, m) = GetMacReg B MAC_MIIDATA m in (ucast v, m))"

definition SetPhyReg :: "'d bus \<Rightarrow> u8 \<Rightarrow> u16 \<Rightarrow> 'd machine \<Rightarrow> bool \<times> 'd machine" where
  "SetPhyReg B Reg Value m =
     (let (v, m) = GetMacReg B MAC_MIIACC m in
      if v AND MAC_MIIACC_MII_BUSY \<noteq> 0 then (False, m)
      else
        let (_, m) = SetMacReg B MAC_MIIDATA (ucast Value) m;
            m = DELAY B 1 m;
            (_, m) = SetMacReg B MAC_MIIACC (MAC_MII_WR_CMD PHY_ADDR (ucast Reg)) m;
            m = DELAY B 1 m;
            (timedout, m) = PhyBusy B PHY_TIMEOUT m
        in (\<not> timedout, m))"

section \<open>Dumps\<close>

definition DumpCsrRegs :: "'d bus \<Rightarrow> 'd machine \<Rightarrow> 'd machine" where
  "DumpCsrRegs B = fold (touch B)
     [ID_REV, IRQ_CFG, INT_STS, INT_EN, BYTE_TEST, FIFO_INT, RX_CFG, TX_CFG, HW_CFG, RX_DP_CTL, RX_FIFO_INF,
      TX_FIFO_INF, PWR_MGMT, GPIO_CFG, GPT_CFG, GPT_CNT, FPGA_REV, ENDIAN, FREE_RUN, RX_DROP, MAC_CSR_CMD,
      MAC_CSR_DATA, AFC_CFG]"

definition DumpMacRegs :: "'d bus \<Rightarrow> 'd machine \<Rightarrow> 'd machine" where
  "DumpMacRegs B = fold (\<lambda>r m. snd (GetMacReg B r m))
     [MAC_CR, MAC_ADDRH, MAC_ADDRL, MAC_HASHH, MAC_HASHL, MAC_MIIACC, MAC_MIIDATA, MAC_FLOW, MAC_VLAN1,
      MAC_VLAN2, MAC_WUFF, MAC_WUCSR]"

definition DumpPhyRegs :: "'d bus \<Rightarrow> 'd machine \<Rightarrow> 'd machine" where
  "DumpPhyRegs B = fold (\<lambda>r m. snd (GetPhyReg B r m))
     [PHY_BCR, PHY_BSR, PHY_ID1, PHY_ID2, PHY_ANAR, PHY_ANLPAR, PHY_ANEXPR, PHY_SILREV, PHY_MCSR, PHY_SPMODES,
      PHY_CSIR, PHY_ISR, PHY_IMR, PHY_PHYSCSR]"

section \<open>The driver's variables\<close>

record rxQue =
  rx_index :: int
  rx_len :: int

text \<open>
  \<open>txbp\<close> points to the static array \<open>ent_mtu\<close> or is null. \<open>NetRxPackets\<close> holds the receive buffers of the upper layer as 32-bit words, and \<open>received\<close> records the calls of
  \<open>NetReceive\<close>, the upper layer's entry, with the words of the buffer and the length passed.
\<close>

record lan =
  txbp :: bool
  ent_mtu :: "u8 list"
  NetRxPackets :: "u32 list list"
  rxAvlQue :: "rxQue list"
  rxNdx :: nat
  rxNdxIn :: nat
  rxNdxOut :: nat
  lastTxTag :: u16
  macAddr :: "u8 list"
  MaxRxFifoSz :: u32
  TotalRxPackets :: u32
  TotalBytes :: u32
  EmptyReads :: u32
  received :: "(u32 list \<times> int) list"

section \<open>Bring-up\<close>

text \<open>\<open>while (timeout-- && cond) body\<close>: the value of \<open>timeout\<close> after the loop and the machine.\<close>

fun timed_wait :: "('d machine \<Rightarrow> bool \<times> 'd machine) \<Rightarrow> ('d machine \<Rightarrow> 'd machine option) \<Rightarrow> nat \<Rightarrow> 'd machine \<Rightarrow> (int \<times> 'd machine) option" where
  "timed_wait cond body 0 m = Some (- 1, m)"
| "timed_wait cond body (Suc timeout) m =
     (let (c, m) = cond m in
      if c then Option.bind (body m) (timed_wait cond body timeout) else Some (int timeout, m))"

definition flag_clear :: "'d bus \<Rightarrow> u32 \<Rightarrow> u32 \<Rightarrow> 'd machine \<Rightarrow> bool \<times> 'd machine" where
  "flag_clear B a msk m = (let (v, m) = rd B a m in (v AND msk = 0, m))"

definition known_chip :: "u32 \<Rightarrow> bool" where
  "known_chip v \<longleftrightarrow> v AND ID_REV_ID_MASK \<in> {0x01180000, 0x01170000, 0x01160000, 0x01150000, 0x118A0000, 0x117A0000,
     0x116A0000, 0x115A0000, 0x92100000, 0x92110000, 0x92200000, 0x92210000}"

definition open_reset :: "'d bus \<Rightarrow> 'd machine \<Rightarrow> (bool \<times> 'd machine) option" where
  "open_reset B m =
     (let (v, m) = rd B ID_REV m in
      if \<not> known_chip v then Some (False, m)
      else
        let m = wr B HW_CFG HW_CFG_SRST m;
            m = DELAY B 10 m;
            (v, m) = rd B PWR_MGMT m
        in if v AND PWR_MGMT_PM_MODE_MSK \<noteq> 0 then
             let m = wr B BYTE_TEST 0 m;
                 m = DELAY B 1 m
             in Option.bind (timed_wait (flag_clear B PWR_MGMT PWR_MGMT_PME_READY) (lan9118_udelay B 1) PHY_TIMEOUT m) (\<lambda>(_, m).
                  let (v, m) = rd B PWR_MGMT m in Some (v AND PWR_MGMT_PME_READY \<noteq> 0, m))
           else Some (True, m))"

definition open_vars :: "lan \<Rightarrow> lan" where
  "open_vars s = s\<lparr>txbp := True, rxAvlQue := map (\<lambda>q. q\<lparr>rx_index := - 1\<rparr>) (rxAvlQue s),
     rxNdx := 0, rxNdxIn := 0, rxNdxOut := 0, lastTxTag := 0\<rparr>"

definition mac_addrh :: "u8 list \<Rightarrow> u32" where
  "mac_addrh a = push_bit 8 (ucast (a ! 5)) OR ucast (a ! 4)"

definition mac_addrl :: "u8 list \<Rightarrow> u32" where
  "mac_addrl a = push_bit 24 (ucast (a ! 3)) OR push_bit 16 (ucast (a ! 2)) OR push_bit 8 (ucast (a ! 1)) OR ucast (a ! 0)"

text \<open>\<open>bis\<close> is the board record's Ethernet address, \<open>None\<close> for a null pointer.\<close>

definition open_mac :: "'d bus \<Rightarrow> u8 list option \<Rightarrow> lan \<times> 'd machine \<Rightarrow> fault + lan \<times> 'd machine" where
  "open_mac B bis sm =
     (let (s, m) = sm;
          m = wr B HW_CFG 0x00040000 m;
          s = s\<lparr>MaxRxFifoSz := 13440\<rparr>;
          m = wr B AFC_CFG 0x008C46AF m;
          m = wr B GPIO_CFG 0x70700000 m;
          m = wr B INT_EN 0x0 m;
          m = wr B INT_STS 0xFFFFFFFF m;
          m = wr B IRQ_CFG 0x00000001 m;
          (_, m) = SetMacReg B MAC_FLOW 0xFFFF0002 m
      in case bis of
           None \<Rightarrow> Inl NullDeref
         | Some a \<Rightarrow>
             let s = s\<lparr>macAddr := take 6 a\<rparr>;
                 h = mac_addrh (macAddr s);
                 l = mac_addrl (macAddr s)
             in if h \<noteq> 0 \<or> l \<noteq> 0
                then Inr (s, snd (SetMacReg B MAC_ADDRL l (snd (SetMacReg B MAC_ADDRH h m))))
                else Inr (s, m))"

definition open_fifos :: "'d bus \<Rightarrow> 'd machine \<Rightarrow> 'd machine" where
  "open_fifos B m =
     (let m = wr B TX_CFG (TX_CFG_TXS_DUMP OR TX_CFG_TXD_DUMP) m;
          m = wr B RX_CFG RX_CFG_FORCE_DISCARD m;
          (hw, m) = rd B HW_CFG m;
          m = wr B HW_CFG ((hw AND HW_CFG_TX_FIF_SZ_MSK) OR HW_CFG_MBO) m;
          m = wr B FIFO_INT FIFO_INT_TDAL_MSK m;
          m = or_wr B INT_EN INT_EN_TDFA_INT_EN m;
          (macCR, m) = GetMacReg B MAC_CR m;
          macCR = macCR OR (MAC_CR_TXEN OR MAC_CR_HBDIS);
          macCR = macCR AND NOT MAC_CR_PRMS;
          macCR = macCR OR MAC_CR_BCAST;
          (_, m) = SetMacReg B MAC_CR macCR m;
          m = wr B RX_CFG 0x00000000 m;
          (macCR, m) = GetMacReg B MAC_CR m;
          (_, m) = SetMacReg B MAC_CR (macCR OR MAC_CR_RXEN) m;
          (fi, m) = rd B FIFO_INT m;
          m = wr B FIFO_INT ((fi AND 0xFFFF0000) OR 0x00000001) m;
          m = or_wr B INT_EN (INT_EN_RSFL_INT_EN OR INT_EN_RXE_INT_EN) m
      in or_wr B INT_EN INT_EN_RXDFH_INT_EN m)"

text \<open>\<open>GetPhyReg(r) == v\<close> and the short-circuit test of the two identities.\<close>

definition phy_is :: "'d bus \<Rightarrow> u8 \<Rightarrow> u16 \<Rightarrow> 'd machine \<Rightarrow> bool \<times> 'd machine" where
  "phy_is B r v m = (let (x, m) = GetPhyReg B r m in (x = v, m))"

definition phy_both :: "'d bus \<Rightarrow> u16 \<Rightarrow> u16 \<Rightarrow> 'd machine \<Rightarrow> bool \<times> 'd machine" where
  "phy_both B id1 id2 m = (let (a, m) = phy_is B PHY_ID1 id1 m in if a then phy_is B PHY_ID2 id2 m else (False, m))"

definition phy_known :: "'d bus \<Rightarrow> 'd machine \<Rightarrow> bool \<times> 'd machine" where
  "phy_known B m =
     (let (a, m) = phy_both B PHY_ID1_LAN9118 PHY_ID2_LAN9118 m in
      if a then (True, m) else phy_both B PHY_ID1_LAN9218 PHY_ID2_LAN9218 m)"

definition phy_flag :: "'d bus \<Rightarrow> u8 \<Rightarrow> u16 \<Rightarrow> bool \<Rightarrow> 'd machine \<Rightarrow> bool \<times> 'd machine" where
  "phy_flag B r msk on m = (let (v, m) = GetPhyReg B r m in ((v AND msk \<noteq> 0) = on, m))"

definition reset_phy :: "'d bus \<Rightarrow> 'd machine \<Rightarrow> (bool \<times> 'd machine) option" where
  "reset_phy B m =
     (let (_, m) = SetPhyReg B PHY_BCR PHY_BCR_RST m in
      Option.bind (lan9118_udelay B (50 * 1000) m) (\<lambda>m.
      Option.bind (timed_wait (phy_flag B PHY_BCR PHY_BCR_RST True) (lan9118_udelay B 10) PHY_TIMEOUT m) (\<lambda>(timeout, m).
        Some (timeout \<noteq> 0, m))))"

definition negotiate :: "'d bus \<Rightarrow> 'd machine \<Rightarrow> (bool \<times> 'd machine) option" where
  "negotiate B m =
     (let (anar, m) = GetPhyReg B PHY_ANAR m;
          anar = anar AND NOT PHY_ANAR_PAUSE_OP_MSK;
          anar = anar OR PHY_ANAR_PAUSE_OP_BOTH;
          anar = anar OR (PHY_ANAR_10_FDPLX OR PHY_ANAR_10_ABLE OR PHY_ANAR_100_TX_FDPLX OR PHY_ANAR_100_TX_ABLE);
          (_, m) = SetPhyReg B PHY_ANAR anar m;
          m = DELAY B 2 m;
          (bcr, m) = GetPhyReg B PHY_BCR m;
          (_, m) = SetPhyReg B PHY_BCR (bcr OR (PHY_BCR_SS OR PHY_BCR_FDPLX)) m;
          m = DELAY B 2 m;
          (bcr, m) = GetPhyReg B PHY_BCR m;
          (_, m) = SetPhyReg B PHY_BCR (bcr OR (PHY_BCR_ANE OR PHY_BCR_RSTAN)) m;
          m = DELAY B 2 m
      in Option.bind (timed_wait (phy_flag B PHY_BSR PHY_BSR_ANC False) (lan9118_udelay B 500000) PHY_AN_TIMEOUT m) (\<lambda>(_, m).
           let (failed, m) = phy_flag B PHY_BSR PHY_BSR_ANC False m in
           if failed then Some (False, m)
           else
             let (down, m) = phy_flag B PHY_BSR PHY_BSR_LINK_STATUS False m in
             if down then Some (False, m)
             else let (_, m) = GetPhyReg B PHY_PHYSCSR m in Some (True, m)))"

definition full_duplex :: "'d bus \<Rightarrow> 'd machine \<Rightarrow> 'd machine" where
  "full_duplex B m =
     (let (a, m) = GetPhyReg B PHY_ANAR m;
          (b, m) = GetPhyReg B PHY_ANLPAR m
      in if (a AND b) AND 0x0140 \<noteq> 0
         then let (cr, m) = GetMacReg B MAC_CR m in snd (SetMacReg B MAC_CR (cr OR 0x00100000) m)
         else m)"

definition open_phy :: "'d bus \<Rightarrow> 'd machine \<Rightarrow> (bool \<times> 'd machine) option" where
  "open_phy B m =
     (let (known, m) = phy_known B m in
      if \<not> known then Some (True, m)
      else Option.bind (reset_phy B m) (\<lambda>(ok, m).
             if \<not> ok then Some (False, m)
             else Option.bind (negotiate B m) (\<lambda>(ok, m).
                    if \<not> ok then Some (False, m) else Some (True, full_duplex B m))))"

definition lan9118_open :: "'d bus \<Rightarrow> u8 list option \<Rightarrow> lan \<times> 'd machine \<Rightarrow> (fault + bool \<times> lan \<times> 'd machine) option" where
  "lan9118_open B bis sm =
     (let (s, m) = sm in
      Option.bind (open_reset B m) (\<lambda>(ok, m).
        if \<not> ok then Some (Inr (False, s, m))
        else case open_mac B bis (open_vars s, m) of
               Inl f \<Rightarrow> Some (Inl f)
             | Inr (s, m) \<Rightarrow>
                 Option.bind (open_phy B (open_fifos B m)) (\<lambda>(ok, m). Some (Inr (ok, s, m)))))"

text \<open>\<open>free\<close> of a pointer to a static array is undefined.\<close>

definition lan9118_close :: "lan \<Rightarrow> fault + lan" where
  "lan9118_close s = (if txbp s then Inl BadFree else Inr s)"

section \<open>Reception\<close>

definition wrap_inc :: "nat \<Rightarrow> nat" where
  "wrap_inc i = (if i + 1 \<ge> PKTBUFSRX then 0 else i + 1)"

text \<open>\<open>*rxbpl++ = *RX_FIFO_PORT\<close>, \<open>n\<close> times from word \<open>k\<close> on.\<close>

fun fill :: "'d bus \<Rightarrow> nat \<Rightarrow> nat \<Rightarrow> u32 list \<Rightarrow> 'd machine \<Rightarrow> fault + u32 list \<times> 'd machine" where
  "fill B k 0 buf m = Inr (buf, m)"
| "fill B k (Suc n) buf m =
     (let (v, m) = rd B RX_FIFO_PORT m in
      if length buf \<le> k then Inl OutOfBounds else fill B (k + 1) n (buf[k := v]) m)"

definition drain :: "'d bus \<Rightarrow> nat \<Rightarrow> 'd machine \<Rightarrow> 'd machine" where
  "drain B n = (touch B RX_FIFO_PORT ^^ n)"

datatype flow = Break | Again

definition fast_forward :: "'d bus \<Rightarrow> 'd machine \<Rightarrow> (flow \<times> 'd machine) option" where
  "fast_forward B m =
     (let m = wr B RX_DP_CTL RX_DP_FFWD m in
      Option.bind (timed_wait (\<lambda>m. let (v, m) = rd B RX_DP_CTL m in (v AND RX_DP_FFWD \<noteq> 0, m)) (lan9118_udelay B 1) FFWD_TIMEOUT m) (\<lambda>(_, m).
        let (v, m) = rd B RX_DP_CTL m in
        Some (if v AND RX_DP_FFWD \<noteq> 0 then Break else Again, m)))"

text \<open>The length of a packet that is kept; 0 for one that is tossed.\<close>

definition kept_length :: "u32 \<Rightarrow> nat" where
  "kept_length rxStatus =
     (let count = unat (drop_bit 16 rxStatus) in
      if count > ENET_MAX_MTU \<or> rxStatus AND TX_STATUS_FIFO_ES \<noteq> 0 then 0 else count)"

definition store_packet :: "'d bus \<Rightarrow> nat \<Rightarrow> nat \<Rightarrow> lan \<times> 'd machine \<Rightarrow> fault + lan \<times> 'd machine" where
  "store_packet B curBufNdx count sm =
     (let (s, m) = sm;
          s = s\<lparr>TotalRxPackets := TotalRxPackets s + 1, TotalBytes := TotalBytes s + of_nat count,
                rxAvlQue := (rxAvlQue s)[rxNdxIn s := \<lparr>rx_index = int curBufNdx, rx_len = int count\<rparr>],
                rxNdxIn := wrap_inc (rxNdxIn s), EmptyReads := 0\<rparr>
      in case fill B 0 ((count + 3) div 4) (NetRxPackets s ! curBufNdx) m of
           Inl f \<Rightarrow> Inl f
         | Inr (buf, m) \<Rightarrow> Inr (s\<lparr>NetRxPackets := (NetRxPackets s)[curBufNdx := buf]\<rparr>, DELAY B 3 m))"

definition rx_turn :: "'d bus \<Rightarrow> bool \<Rightarrow> lan \<times> 'd machine \<Rightarrow> (fault + flow \<times> bool \<times> lan \<times> 'd machine) option" where
  "rx_turn B handled sm =
     (let (s, m) = sm;
          curBufNdx = rxNdx s;
          s = s\<lparr>rxNdx := wrap_inc (rxNdx s)\<rparr>;
          (rxStatus, m) = rd B RX_STATUS_FIFO_PORT m;
          len = unat (drop_bit 16 rxStatus);
          ffwdOk = (len \<ge> 4 * 4);
          count = kept_length rxStatus
      in if count = 0 then
           (if ffwdOk then Option.bind (fast_forward B m) (\<lambda>(fl, m). Some (Inr (fl, handled, s, m)))
            else Some (Inr (Again, handled, s, drain B len m)))
         else if rx_index (rxAvlQue s ! rxNdxIn s) \<noteq> - 1 then Some (Inr (Break, handled, s, m))
         else case store_packet B curBufNdx count (s, m) of
                Inl f \<Rightarrow> Some (Inl f)
              | Inr (s, m) \<Rightarrow> Some (Inr (Again, True, s, m)))"

text \<open>\<open>n\<close> is what is left of the \<open>NUM_RX_BUFF\<close> turns.\<close>

fun rx_loop :: "'d bus \<Rightarrow> nat \<Rightarrow> bool \<Rightarrow> lan \<times> 'd machine \<Rightarrow> (fault + bool \<times> lan \<times> 'd machine) option" where
  "rx_loop B n handled (s, m) =
     (let (v, m) = rd B RX_FIFO_INF m in
      if v AND 0x00FF0000 = 0 then Some (Inr (handled, s, m))
      else case n of
             0 \<Rightarrow> Some (Inr (handled, s, m))
           | Suc k \<Rightarrow>
               Option.bind (rx_turn B handled (s, m)) (\<lambda>r.
                 case r of
                   Inl f \<Rightarrow> Some (Inl f)
                 | Inr (Break, handled, s, m) \<Rightarrow> Some (Inr (handled, s, m))
                 | Inr (Again, handled, s, m) \<Rightarrow> rx_loop B k handled (s, m)))"

partial_function (option) deliver :: "lan \<Rightarrow> (fault + lan) option" where
  "deliver s =
     (let q = rxAvlQue s ! rxNdxOut s in
      if rx_index q = - 1 then Some (Inr s)
      else if rx_index q < 0 \<or> int (length (NetRxPackets s)) \<le> rx_index q then Some (Inl OutOfBounds)
      else deliver (s\<lparr>received := received s @ [(NetRxPackets s ! nat (rx_index q), rx_len q - 4)],
                      rxAvlQue := (rxAvlQue s)[rxNdxOut s := q\<lparr>rx_index := - 1\<rparr>],
                      rxNdxOut := wrap_inc (rxNdxOut s)\<rparr>))"

declare deliver.simps [code]

definition lan9118_read :: "'d bus \<Rightarrow> lan \<times> 'd machine \<Rightarrow> (fault + int \<times> lan \<times> 'd machine) option" where
  "lan9118_read B sm =
     Option.bind (rx_loop B PKTBUFSRX False sm) (\<lambda>r.
       case r of
         Inl f \<Rightarrow> Some (Inl f)
       | Inr (handled, s, m) \<Rightarrow>
           if handled then
             Option.bind (deliver s) (\<lambda>r.
               case r of Inl f \<Rightarrow> Some (Inl f) | Inr s \<Rightarrow> Some (Inr (- 1, s, m)))
           else Some (Inr (- 1, s\<lparr>EmptyReads := EmptyReads s + 1\<rparr>, m)))"

section \<open>Transmission\<close>

definition le_word :: "u8 list \<Rightarrow> nat \<Rightarrow> u32" where
  "le_word bs k = ucast (bs ! (4 * k)) OR push_bit 8 (ucast (bs ! (4 * k + 1))) OR
     push_bit 16 (ucast (bs ! (4 * k + 2))) OR push_bit 24 (ucast (bs ! (4 * k + 3)))"

text \<open>\<open>txaddr\<close> is the address of the static buffer.\<close>

definition sendToNet :: "'d bus \<Rightarrow> u32 \<Rightarrow> nat \<Rightarrow> lan \<times> 'd machine \<Rightarrow> lan \<times> 'd machine" where
  "sendToNet B txaddr len sm =
     (let (s, m) = sm;
          s = s\<lparr>lastTxTag := lastTxTag s + 1\<rparr>;
          tx_cmd_a = push_bit 16 (txaddr AND 0x3) OR 0x00003000 OR of_nat len;
          tx_cmd_b = push_bit 16 (ucast (lastTxTag s)) OR of_nat len;
          m = wr B TX_FIFO_PORT tx_cmd_a m;
          m = wr B TX_FIFO_PORT tx_cmd_b m;
          m = fold (\<lambda>k. wr B TX_FIFO_PORT (le_word (ent_mtu s) k)) [0..<(len + 3) div 4] m;
          m = wr B TX_CFG TX_CFG_TX_ON m
      in (s, m))"

definition get_timer :: "u32 \<Rightarrow> u32" where
  "get_timer base = 0"

fun drain_status :: "'d bus \<Rightarrow> nat \<Rightarrow> 'd machine \<Rightarrow> bool \<times> 'd machine" where
  "drain_status B 0 m = (True, m)"
| "drain_status B (Suc n) m =
     (let (v, m) = rd B TX_FIFO_INF m in if v AND TX_FIFO_TXSUSED_MSK = 0 then (False, m) else drain_status B n m)"

partial_function (option) tx_wait :: "'d bus \<Rightarrow> u32 \<Rightarrow> int \<Rightarrow> 'd machine \<Rightarrow> (int \<times> 'd machine) option" where
  "tx_wait B startTime len m =
     (let (v, m) = rd B TX_FIFO_INF m in
      if v AND TX_FIFO_TXSUSED_MSK = 0 then
        (if get_timer 0 - startTime > TX_TIMEOUT then Some (- 1, m) else tx_wait B startTime len m)
      else
        let (txStatus, m) = rd B TX_STATUS_FIFO_PORT m in
        if txStatus AND TX_STATUS_FIFO_ES = TX_STATUS_FIFO_ES then Some (- 1, m)
        else Some (len, or_wr B TX_CFG TX_CFG_STOP_TX m))"

declare tx_wait.simps [code]

definition TX_TIMEOUT_COUNT :: nat where
  "TX_TIMEOUT_COUNT = 30"

text \<open>\<open>ptr\<close> is the caller's packet; a length it does not have is an access outside it.\<close>

definition lan9118_write :: "'d bus \<Rightarrow> u32 \<Rightarrow> u8 list \<Rightarrow> int \<Rightarrow> lan \<times> 'd machine \<Rightarrow> (fault + int \<times> lan \<times> 'd machine) option" where
  "lan9118_write B txaddr ptr len sm =
     (let (s, m) = sm;
          len = (if len > int ENET_MAX_MTU then int ENET_MAX_MTU else len)
      in if \<not> txbp s then Some (Inl NullDeref)
         else if len < 0 \<or> int (length ptr) < len \<or> int (length (ent_mtu s)) < len then Some (Inl OutOfBounds)
         else
           let s = s\<lparr>ent_mtu := patch (ent_mtu s) 0 (take (nat len) ptr)\<rparr>;
               (timedout, m) = drain_status B TX_TIMEOUT_COUNT m;
               m = (if timedout then DumpPhyRegs B (DumpMacRegs B (DumpCsrRegs B m)) else m);
               (s, m) = sendToNet B txaddr (nat len) (s, m)
           in map_option (\<lambda>(r, m). Inr (r, s, m)) (tx_wait B (get_timer 0) len m))"

definition eth_init :: "'d bus \<Rightarrow> u8 list option \<Rightarrow> lan \<times> 'd machine \<Rightarrow> (fault + bool \<times> lan \<times> 'd machine) option" where
  "eth_init B bd = lan9118_open B bd"

definition eth_halt :: "lan \<Rightarrow> fault + lan" where
  "eth_halt = lan9118_close"

definition eth_rx :: "'d bus \<Rightarrow> lan \<times> 'd machine \<Rightarrow> (fault + int \<times> lan \<times> 'd machine) option" where
  "eth_rx B = lan9118_read B"

definition eth_send :: "'d bus \<Rightarrow> u32 \<Rightarrow> u8 list \<Rightarrow> int \<Rightarrow> lan \<times> 'd machine \<Rightarrow> (fault + int \<times> lan \<times> 'd machine) option" where
  "eth_send B txaddr packet len = lan9118_write B txaddr packet len"

end
