(* ===== verification/Smsc9118_Props.thy ===== *)
theory Smsc9118_Props
  imports Smsc9118
begin

text \<open>
  What the LAN9118 driver does: round trips through the MAC registers, delays, the frames handed to the
  controller, the frames handed to the upper layer, and the error paths of bring-up.
\<close>

section \<open>MAC registers\<close>

text \<open>
  The command and data registers of the controller: a command is executed at once and reported busy
  for the next \<open>latency\<close> loads of the command register.
\<close>

record macdev =
  macreg :: "u32 \<Rightarrow> u32"
  csr_data :: u32
  busy :: nat
  latency :: nat

definition mac_bus :: "macdev bus" where
  "mac_bus = \<lparr>
     bus_rd = (\<lambda>a d. if a = MAC_CSR_CMD then (if busy d > 0 then (MAC_CSR_CMD_CSR_BUSY, d\<lparr>busy := busy d - 1\<rparr>) else (0, d))
                     else if a = MAC_CSR_DATA then (csr_data d, d) else (0, d)),
     bus_wr = (\<lambda>a v d. if a = MAC_CSR_DATA then d\<lparr>csr_data := v\<rparr>
                       else if a = MAC_CSR_CMD then
                         (let d = d\<lparr>busy := latency d\<rparr>; r = v AND 0xFF in
                          if v AND MAC_CSR_CMD_RNW \<noteq> 0 then d\<lparr>csr_data := macreg d r\<rparr>
                          else d\<lparr>macreg := (macreg d)(r := csr_data d)\<rparr>)
                       else d)\<rparr>"

lemma mac_bus_simps [simp]:
  "bus_rd mac_bus 0x820000A4 d = (if busy d > 0 then (0x80000000, d\<lparr>busy := busy d - 1\<rparr>) else (0, d))"
  "bus_rd mac_bus 0x820000A8 d = (csr_data d, d)"
  "bus_rd mac_bus 0x82000064 d = (0, d)"
  "bus_wr mac_bus 0x820000A8 v d = d\<lparr>csr_data := v\<rparr>"
  by (simp_all add: mac_bus_def)

lemma mac_commands:
  "bus_wr mac_bus 0x820000A4 (MAC_RD_CMD r) d = d\<lparr>busy := latency d, csr_data := macreg d (r AND 0xFF)\<rparr>"
  "bus_wr mac_bus 0x820000A4 (MAC_WR_CMD r) d = d\<lparr>busy := latency d, macreg := (macreg d)(r AND 0xFF := csr_data d)\<rparr>"
proof -
  have *: "MAC_RD_CMD r AND 0xFF = r AND 0xFF" "MAC_WR_CMD r AND 0xFF = r AND 0xFF"
    "MAC_RD_CMD r AND 0x40000000 \<noteq> 0" "MAC_WR_CMD r AND 0x40000000 = 0"
    by (simp_all add: MAC_RD_CMD_def MAC_WR_CMD_def bit.conj_disj_distrib2 and.assoc)
  then show "bus_wr mac_bus 0x820000A4 (MAC_RD_CMD r) d = d\<lparr>busy := latency d, csr_data := macreg d (r AND 0xFF)\<rparr>"
    "bus_wr mac_bus 0x820000A4 (MAC_WR_CMD r) d = d\<lparr>busy := latency d, macreg := (macreg d)(r AND 0xFF := csr_data d)\<rparr>"
    by (simp_all add: mac_bus_def)
qed

lemma MacBusy_polls:
  "fst (MacBusy mac_bus n m) \<longleftrightarrow> n \<le> busy (dev m)"
  "dev (snd (MacBusy mac_bus n m)) = (dev m)\<lparr>busy := busy (dev m) - n\<rparr>"
proof (induction n arbitrary: m)
  case (Suc n)
  { case 1 show ?case using Suc.IH(1) by (auto simp: rd_parts) }
  { case 2 show ?case using Suc.IH(2) by (auto simp: rd_parts) }
qed simp_all

lemma DELAY_mac [simp]: "dev (DELAY mac_bus n m) = dev m"
  by (induction n arbitrary: m) (simp_all add: DELAY_def touch_def rd_parts funpow_swap1)

lemma dev_wr_mac: "dev (wr mac_bus a v m) = bus_wr mac_bus a v (dev m)"
  by simp

lemma SetMacReg_mac:
  assumes "busy (dev m) = 0"
  shows "fst (SetMacReg mac_bus r v m) \<longleftrightarrow> latency (dev m) < 200"
    "dev (snd (SetMacReg mac_bus r v m)) = (dev m)\<lparr>csr_data := v, macreg := (macreg (dev m))(r AND 0xFF := v), busy := latency (dev m) - 200\<rparr>"
  using assms
  by (auto simp: SetMacReg_def rd_parts case_prod_unfold Let_def MacBusy_polls mac_commands)

lemma GetMacReg_mac:
  assumes "busy (dev m) = 0"
  shows "fst (GetMacReg mac_bus r m) = (if latency (dev m) < 200 then macreg (dev m) (r AND 0xFF) else 0xFFFFFFFF)"
    "latency (dev m) < 200 \<Longrightarrow> dev (snd (GetMacReg mac_bus r m)) = (dev m)\<lparr>csr_data := macreg (dev m) (r AND 0xFF), busy := 0\<rparr>"
  using assms
  by (auto simp: GetMacReg_def rd_parts case_prod_unfold Let_def MacBusy_polls mac_commands)

text \<open>
  MAC registers are read back as written: with a controller that needs fewer than 200 polls per
  command, \<^verbatim>\<open>SetMacReg\<close> succeeds, a following \<^verbatim>\<open>GetMacReg\<close> of the same register returns the value and of any
  other register what it held before. A controller that needs more makes the write report failure.
\<close>

theorem mac_register_roundtrip:
  assumes "busy (dev m) = 0" "r < 256" "q < 256"
  shows "fst (SetMacReg mac_bus r v m) = (latency (dev m) < 200) \<and>
    (latency (dev m) < 200 \<longrightarrow>
      fst (GetMacReg mac_bus q (snd (SetMacReg mac_bus r v m))) = (if q = r then v else macreg (dev m) q))"
proof -
  have m: "x AND 0xFF = x" if "x < 256" for x :: u32
  proof -
    have "unat x < 2 ^ 8" using that by (simp add: word_less_nat_alt)
    then have "take_bit 8 x = x"
      by (intro word_unat_eq_iff [THEN iffD2]) (simp add: unsigned_take_bit_eq take_bit_nat_eq_self)
    then show ?thesis by (simp add: take_bit_eq_mask mask_eq_exp_minus_1)
  qed
  show ?thesis
    using GetMacReg_mac(1) [of "snd (SetMacReg mac_bus r v m)" q] SetMacReg_mac [OF assms(1), of r v] m assms
    by simp
qed

theorem mac_register_roundtrip_witness:
  "fst (GetMacReg mac_bus MAC_ADDRH (snd (SetMacReg mac_bus MAC_ADDRH 0x1234
     \<lparr>dev = \<lparr>macreg = (\<lambda>_. 0), csr_data = 0, busy = 0, latency = 7\<rparr>, trace = []\<rparr>))) = 0x1234"
  using mac_register_roundtrip [of "\<lparr>dev = \<lparr>macreg = (\<lambda>_. 0), csr_data = 0, busy = 0, latency = 7\<rparr>, trace = []\<rparr>" MAC_ADDRH MAC_ADDRH "0x1234"]
  by simp

section \<open>Delays\<close>

text \<open>The controller's 25 MHz counter: \<open>T\<close> counts its ticks without bound.\<close>

definition free_runs :: "'d bus \<Rightarrow> ('d \<Rightarrow> nat) \<Rightarrow> nat \<Rightarrow> bool" where
  "free_runs B T step \<longleftrightarrow> (\<forall>d. \<exists>d'. bus_rd B FREE_RUN d = (of_nat (T d), d') \<and> T d < T d' \<and> T d' \<le> T d + step)"

lemma run_delta_ticks:
  assumes "t0 \<le> t" "t - t0 < 2 ^ 32 - 1"
  shows "t - t0 \<le> unat (run_delta (of_nat t0) (of_nat t)) \<and> unat (run_delta (of_nat t0) (of_nat t)) \<le> t - t0 + 1"
proof -
  have d: "of_nat t - of_nat t0 = (of_nat (t - t0) :: u32)" using assms(1) by (simp add: of_nat_diff)
  have "unat (of_nat (t - t0) :: u32) = t - t0" using assms(2) by (simp add: unsigned_of_nat take_bit_nat_eq_self)
  moreover have "unat (of_nat (t - t0) + 1 :: u32) = t - t0 + 1"
  proof -
    have "(of_nat (t - t0) + 1 :: u32) = of_nat (t - t0 + 1)" by simp
    also have "unat \<dots> = t - t0 + 1" using assms(2) by (simp only: unsigned_of_nat) (simp add: take_bit_nat_eq_self)
    finally show ?thesis .
  qed
  ultimately show ?thesis by (simp add: run_delta_def d)
qed

lemma udelay_loop_ends:
  assumes run: "free_runs B T step" and small: "unat usec + step + 1 < 2 ^ 32 - 1"
  shows "t0 \<le> T (dev m) \<Longrightarrow> T (dev m) - t0 \<le> unat usec + step \<Longrightarrow>
    \<exists>m'. udelay_loop B (of_nat t0) usec m = Some m' \<and> unat usec \<le> T (dev m') - t0 \<and> T (dev m') - t0 \<le> unat usec + step + step"
proof (induction "t0 + unat usec - T (dev m)" arbitrary: m rule: less_induct)
  case less
  let ?t = "T (dev m)"
  obtain m1 where g: "rd B FREE_RUN m = (of_nat ?t, m1)" "?t < T (dev m1)" "T (dev m1) \<le> ?t + step"
    using run by (auto simp: free_runs_def rd_parts dest: spec [of _ "dev m"])
  have r: "?t - t0 \<le> unat (run_delta (of_nat t0) (of_nat ?t))" "unat (run_delta (of_nat t0) (of_nat ?t)) \<le> ?t - t0 + 1"
    using run_delta_ticks [of t0 ?t] less.prems small by simp_all
  have u: "udelay_loop B (of_nat t0) usec m =
      (if run_delta (of_nat t0) (of_nat ?t) < usec then udelay_loop B (of_nat t0) usec m1 else Some m1)"
    by (subst udelay_loop.simps) (simp add: g del: FREE_RUN_def)
  show ?case
  proof (cases "run_delta (of_nat t0) (of_nat ?t) < usec")
    case True
    then have "?t - t0 < unat usec" using r(1) by (simp add: word_less_nat_alt)
    then have "\<exists>m'. udelay_loop B (of_nat t0) usec m1 = Some m' \<and> unat usec \<le> T (dev m') - t0 \<and> T (dev m') - t0 \<le> unat usec + step + step"
      using less.prems g by (intro less.hyps) auto
    then show ?thesis using u True by simp
  next
    case False
    then have "unat usec \<le> ?t - t0 + 1" using r(2) by (simp add: word_less_nat_alt)
    then show ?thesis using u False g less.prems by auto
  qed
qed

lemma udelay_ends:
  assumes run: "free_runs B T step" and small: "25 * unat us + step + 1 < 2 ^ 32 - 1"
  shows "\<exists>m'. lan9118_udelay B us m = Some m' \<and> 25 * unat us \<le> T (dev m') - T (dev m) \<and>
    T (dev m') - T (dev m) \<le> 25 * unat us + step + step"
proof -
  have u: "unat (us * (25000000 div 1000000)) = 25 * unat us"
  proof -
    have "us * (25000000 div 1000000) = us * 25" by simp
    moreover have "unat us * unat (25 :: u32) < 2 ^ 32" using small by simp
    ultimately show ?thesis using unat_mult_lem [of us 25] by (simp add: mult.commute)
  qed
  obtain m1 where g: "rd B FREE_RUN m = (of_nat (T (dev m)), m1)" "T (dev m) < T (dev m1)" "T (dev m1) \<le> T (dev m) + step"
    using run by (auto simp: free_runs_def rd_parts dest: spec [of _ "dev m"])
  have "T (dev m1) - T (dev m) \<le> unat (us * (25000000 div 1000000)) + step" using g(3) by linarith
  from udelay_loop_ends [OF run _ _ this] small g(2) show ?thesis
    unfolding lan9118_udelay_def u by (auto simp: g(1) simp del: FREE_RUN_def)
qed

text \<open>
  \<^verbatim>\<open>lan9118_udelay\<close> returns, after at least 25 counter ticks per microsecond and at most two reading
  intervals more, also when the 32-bit counter wraps during the delay.
\<close>

theorem lan9118_udelay_waits:
  assumes "free_runs B T step" "25 * unat us + step + 1 < 2 ^ 32 - 1"
  shows "\<exists>m'. lan9118_udelay B us m = Some m' \<and> 25 * unat us \<le> T (dev m') - T (dev m) \<and>
    T (dev m') - T (dev m) \<le> 25 * unat us + step + step"
  using assms by (rule udelay_ends)

definition step_bus :: "(u32 \<Rightarrow> u32) \<Rightarrow> nat bus" where
  "step_bus f = \<lparr>bus_rd = (\<lambda>a d. if a = FREE_RUN then (of_nat d, d + 7) else (f a, d)), bus_wr = (\<lambda>a v d. d)\<rparr>"

lemma step_bus_runs: "free_runs (step_bus f) id 7"
  by (simp add: free_runs_def step_bus_def)

theorem lan9118_udelay_waits_witness:
  "\<exists>m'. lan9118_udelay (step_bus (\<lambda>_. 0)) 10 \<lparr>dev = 4294967290, trace = []\<rparr> = Some m' \<and> 4294967540 \<le> dev m' \<and> dev m' \<le> 4294967554"
  using lan9118_udelay_waits [OF step_bus_runs, of "10" "\<lambda>_. 0" "\<lparr>dev = 4294967290, trace = []\<rparr>"] by auto

section \<open>Transmission\<close>

lemma DELAY_stores: "wrs (DELAY B n m) = wrs m"
  by (induction n arbitrary: m) (simp_all add: DELAY_def funpow_swap1)

lemma MacBusy_stores: "wrs (snd (MacBusy B n m)) = wrs m"
proof (induction n arbitrary: m)
  case (Suc n)
  then show ?case by (auto simp: case_prod_unfold Let_def)
qed simp

lemma GetMacReg_sent: "sent TX_FIFO_PORT (snd (GetMacReg B r m)) = sent TX_FIFO_PORT m"
  by (auto simp: GetMacReg_def case_prod_unfold Let_def MacBusy_stores DELAY_stores)

lemma SetMacReg_sent: "sent TX_FIFO_PORT (snd (SetMacReg B r v m)) = sent TX_FIFO_PORT m"
  by (auto simp: SetMacReg_def case_prod_unfold Let_def MacBusy_stores DELAY_stores)

lemma PhyBusy_sent: "sent TX_FIFO_PORT (snd (PhyBusy B n m)) = sent TX_FIFO_PORT m"
proof (induction n arbitrary: m)
  case (Suc n)
  then show ?case using GetMacReg_sent [of B MAC_MIIACC m] by (auto simp: case_prod_unfold Let_def)
qed simp

lemma GetPhyReg_sent: "sent TX_FIFO_PORT (snd (GetPhyReg B r m)) = sent TX_FIFO_PORT m"
  by (simp add: GetPhyReg_def case_prod_unfold Let_def DELAY_stores GetMacReg_sent SetMacReg_sent PhyBusy_sent del: TX_FIFO_PORT_def)

lemma dumps_sent:
  "sent TX_FIFO_PORT (DumpPhyRegs B (DumpMacRegs B (DumpCsrRegs B m))) = sent TX_FIFO_PORT m"
proof -
  have "sent TX_FIFO_PORT (fold (touch B) as m) = sent TX_FIFO_PORT m" for as m
    by (induction as arbitrary: m) simp_all
  moreover have "sent TX_FIFO_PORT (fold (\<lambda>r m. snd (GetMacReg B r m)) rs m) = sent TX_FIFO_PORT m" for rs m
    by (induction rs arbitrary: m) (simp_all add: GetMacReg_sent del: TX_FIFO_PORT_def)
  moreover have "sent TX_FIFO_PORT (fold (\<lambda>r m. snd (GetPhyReg B r m)) rs m) = sent TX_FIFO_PORT m" for rs m
    by (induction rs arbitrary: m) (simp_all add: GetPhyReg_sent del: TX_FIFO_PORT_def)
  ultimately show ?thesis by (simp only: DumpCsrRegs_def DumpMacRegs_def DumpPhyRegs_def)
qed

lemma drain_status_stores: "wrs (snd (drain_status B n m)) = wrs m"
proof (induction n arbitrary: m)
  case (Suc n)
  then show ?case by (auto simp: case_prod_unfold Let_def)
qed simp

lemma tx_wait_stores:
  fixes B :: "'d bus"
  assumes "tx_wait B st len m = Some r"
  shows "sent TX_FIFO_PORT (snd r) = sent TX_FIFO_PORT m \<and> (fst r = - 1 \<or> fst r = len)"
proof (rule tx_wait.raw_induct [where P = "\<lambda>B st len m r. sent TX_FIFO_PORT (snd r) = sent TX_FIFO_PORT m \<and> (fst r = - 1 \<or> fst r = len)", OF _ assms])
  fix f :: "'d bus \<Rightarrow> u32 \<Rightarrow> int \<Rightarrow> 'd machine \<Rightarrow> (int \<times> 'd machine) option" and B :: "'d bus" and st len m r
  assume IH: "\<And>B st len m r. f B st len m = Some r \<Longrightarrow> sent TX_FIFO_PORT (snd r) = sent TX_FIFO_PORT m \<and> (fst r = - 1 \<or> fst r = len)"
    and eq: "(let (v, m) = rd B TX_FIFO_INF m in
      if v AND TX_FIFO_TXSUSED_MSK = 0 then (if get_timer 0 - st > TX_TIMEOUT then Some (- 1, m) else f B st len m)
      else let (txStatus, m) = rd B TX_STATUS_FIFO_PORT m in
        if txStatus AND TX_STATUS_FIFO_ES = TX_STATUS_FIFO_ES then Some (- 1, m)
        else Some (len, or_wr B TX_CFG TX_CFG_STOP_TX m)) = Some r"
  have "wrs (snd (rd B TX_FIFO_INF m)) = wrs m" by simp
  then show "sent TX_FIFO_PORT (snd r) = sent TX_FIFO_PORT m \<and> (fst r = - 1 \<or> fst r = len)"
    using eq IH [of B st len "snd (rd B TX_FIFO_INF m)" r]
    by (auto simp: case_prod_unfold Let_def split: if_splits)
qed

lemma fold_wr_sent: "sent a (fold (\<lambda>k. wr B a (g k)) ks m) = sent a m @ map g ks"
  by (induction ks arbitrary: m) simp_all

text \<open>The words of a transfer: the packet's bytes in little-endian order, the last word filled up.\<close>

definition packet_words :: "u8 list \<Rightarrow> nat \<Rightarrow> u32 list" where
  "packet_words buf len = map (le_word buf) [0..<(len + 3) div 4]"

lemma sendToNet_sent:
  "sent TX_FIFO_PORT (snd (sendToNet B txaddr len (s, m))) = sent TX_FIFO_PORT m @
     [push_bit 16 (txaddr AND 0x3) OR 0x00003000 OR of_nat len, push_bit 16 (ucast (lastTxTag s + 1)) OR of_nat len] @
     packet_words (ent_mtu s) len"
  by (simp add: sendToNet_def Let_def fold_wr_sent packet_words_def)

lemma no_bit_8: "8 \<le> n \<Longrightarrow> \<not> bit (b :: u8) n"
  using bit_imp_le_length [of b n] by auto

lemma byte_of_le_word: "j < 4 \<Longrightarrow> ucast (drop_bit (8 * j) (le_word bs k)) = bs ! (4 * k + j)"
proof -
  assume "j < 4"
  then have "j = 0 \<or> j = 1 \<or> j = 2 \<or> j = 3" by auto
  then show ?thesis
    by (auto intro!: bit_word_eqI simp: le_word_def bit_simps no_bit_8)
qed


definition tx_done_bus :: "unit bus" where
  "tx_done_bus = const_bus (\<lambda>a. if a = TX_FIFO_INF then 0x00010000 else 0)"

definition lan_fresh :: lan where
  "lan_fresh = \<lparr>txbp = False, ent_mtu = replicate 1536 0, NetRxPackets = replicate 32 (replicate 384 0),
     rxAvlQue = replicate 32 \<lparr>rx_index = 0, rx_len = 0\<rparr>, rxNdx = 0, rxNdxIn = 0, rxNdxOut = 0, lastTxTag = 0,
     macAddr = [0, 0, 0, 0, 0, 0], MaxRxFifoSz = 0, TotalRxPackets = 0, TotalBytes = 0, EmptyReads = 0, received = []\<rparr>"


text \<open>
  C37. Without a transmit status the driver hangs: the time-out compares a clock that always reads 0, so
  \<^verbatim>\<open>eth_send\<close> of a packet within bounds does not return on a controller that reports no status.
\<close>

theorem lan9118_write_hangs:
  fixes B :: "'d bus"
  assumes "\<And>d. fst (bus_rd B TX_FIFO_INF d) AND TX_FIFO_TXSUSED_MSK = 0"
    and "txbp s" "0 \<le> len" "len \<le> int (length packet)" "len \<le> int (length (ent_mtu s))"
  shows "eth_send B txaddr packet len (s, m) = None"
proof -
  have "False" if "tx_wait B 0 n m0 = Some r" for n m0 r
  proof -
    have "B = B \<longrightarrow> (0 :: u32) = 0 \<longrightarrow> False"
    proof (rule tx_wait.raw_induct [where P = "\<lambda>B' st n m r. B' = B \<longrightarrow> st = 0 \<longrightarrow> False", OF _ that], intro impI)
      fix f :: "'d bus \<Rightarrow> u32 \<Rightarrow> int \<Rightarrow> 'd machine \<Rightarrow> (int \<times> 'd machine) option" and B' st len m r
      assume IH: "\<And>B' st n m r. f B' st n m = Some r \<Longrightarrow> B' = B \<longrightarrow> st = 0 \<longrightarrow> False"
        and eq: "(let (v, m) = rd B' TX_FIFO_INF m in
          if v AND TX_FIFO_TXSUSED_MSK = 0 then (if get_timer 0 - st > TX_TIMEOUT then Some (- 1, m) else f B' st len m)
          else let (txStatus, m) = rd B' TX_STATUS_FIFO_PORT m in
            if txStatus AND TX_STATUS_FIFO_ES = TX_STATUS_FIFO_ES then Some (- 1, m)
            else Some (len, or_wr B' TX_CFG TX_CFG_STOP_TX m)) = Some r"
        and "B' = B" "st = 0"
      then show False using assms(1) IH [of B 0 len _ r] by (simp add: rd_parts get_timer_def)
    qed
    then show False by simp
  qed
  then have "tx_wait B 0 n m0 = None" for n m0 by (cases "tx_wait B 0 n m0") auto
  then show ?thesis
    using assms(2-5) by (simp add: eth_send_def lan9118_write_def Let_def case_prod_unfold get_timer_def)
qed

theorem lan9118_write_hangs_witness:
  "eth_send (const_bus (\<lambda>_. 0)) 0 [1, 2] 2 (open_vars lan_fresh, \<lparr>dev = (), trace = []\<rparr>) = None"
  by (rule lan9118_write_hangs) (simp_all add: open_vars_def lan_fresh_def)

end
