(* ===== verification/Smsc9118_Rx.thy ===== *)
theory Smsc9118_Rx
  imports Smsc9118_Props
begin

text \<open>
  Reception by the LAN9118 driver: the frames in the controller's FIFOs reach the upper layer in order
  and unchanged, through the two rings of thirty-two slots. Bring-up follows: what it establishes and
  what its error paths do.
\<close>

section \<open>A controller with received frames\<close>

text \<open>A frame is its length in bytes, checksum included, and its words; a good one fits a buffer.\<close>

type_synonym frame = "nat \<times> u32 list"

definition good_frame :: "frame \<Rightarrow> bool" where
  "good_frame f \<longleftrightarrow> 0 < fst f \<and> fst f \<le> 1518 \<and> length (snd f) = (fst f + 3) div 4"

record rxdev =
  sts :: "u32 list"
  dfifo :: "u32 list"

definition rx_bus :: "rxdev bus" where
  "rx_bus = \<lparr>
     bus_rd = (\<lambda>a d. if a = RX_FIFO_INF then (push_bit 16 (of_nat (length (sts d))), d)
                     else if a = RX_STATUS_FIFO_PORT then (if sts d = [] then 0 else hd (sts d), d\<lparr>sts := tl (sts d)\<rparr>)
                     else if a = RX_FIFO_PORT then (if dfifo d = [] then 0 else hd (dfifo d), d\<lparr>dfifo := tl (dfifo d)\<rparr>)
                     else (0, d)),
     bus_wr = (\<lambda>a v d. d)\<rparr>"

definition holds :: "frame list \<Rightarrow> rxdev \<Rightarrow> bool" where
  "holds fs d \<longleftrightarrow> sts d = map (\<lambda>f. push_bit 16 (of_nat (fst f))) fs \<and> dfifo d = concat (map snd fs)"

lemma rx_bus_simps [simp]:
  "bus_rd rx_bus 0x8200007C d = (push_bit 16 (of_nat (length (sts d))), d)"
  "bus_rd rx_bus 0x82000040 d = (if sts d = [] then 0 else hd (sts d), d\<lparr>sts := tl (sts d)\<rparr>)"
  "bus_rd rx_bus 0x82000000 d = (if dfifo d = [] then 0 else hd (dfifo d), d\<lparr>dfifo := tl (dfifo d)\<rparr>)"
  "bus_rd rx_bus 0x82000064 d = (0, d)"
  by (simp_all add: rx_bus_def)

lemma DELAY_rx [simp]: "dev (DELAY rx_bus n m) = dev m"
  by (induction n arbitrary: m) (simp_all add: DELAY_def touch_def rd_parts funpow_swap1)

lemma unat_pushed: "n < 2 ^ 16 \<Longrightarrow> unat (push_bit 16 (of_nat n) :: u32) = n * 65536"
proof -
  assume "n < 2 ^ 16"
  then have "n * 65536 < 2 ^ 32" by simp
  moreover have "push_bit 16 (of_nat n) = (of_nat (n * 65536) :: u32)" by (simp add: push_bit_eq_mult)
  ultimately show ?thesis by (simp only: unsigned_of_nat) (simp add: take_bit_nat_eq_self)
qed

lemma frame_count: "n < 256 \<Longrightarrow> push_bit 16 (of_nat n :: u32) AND 0x00FF0000 = 0 \<longleftrightarrow> n = 0"
proof -
  assume n: "n < 256"
  have "(0x00FF0000 :: u32) = push_bit 16 (mask 8)" by (simp add: mask_eq_exp_minus_1)
  then have "push_bit 16 (of_nat n :: u32) AND 0x00FF0000 = push_bit 16 (take_bit 8 (of_nat n))"
    by (simp only: push_bit_and [symmetric] take_bit_eq_mask)
  also have "take_bit 8 (of_nat n :: u32) = of_nat n"
    using n by (simp add: take_bit_of_nat take_bit_nat_eq_self)
  finally show ?thesis using unat_pushed [of n] n unat_eq_zero [of "push_bit 16 (of_nat n) :: u32"] by auto
qed

lemma status_length:
  assumes "n \<le> 1518"
  shows "unat (drop_bit 16 (push_bit 16 (of_nat n) :: u32)) = n" "kept_length (push_bit 16 (of_nat n)) = n"
proof -
  have "unat (drop_bit 16 (push_bit 16 (of_nat n) :: u32)) = (n * 65536) div 65536"
    using assms by (simp add: drop_bit_eq_div unat_div unat_pushed)
  then show 1: "unat (drop_bit 16 (push_bit 16 (of_nat n) :: u32)) = n" by simp
  have "push_bit 16 (of_nat n :: u32) AND 2 ^ 15 = 0"
    unfolding and_exp_eq_0_iff_not_bit by (simp add: bit_simps)
  then have "push_bit 16 (of_nat n :: u32) AND 0x00008000 = 0" by simp
  then show "kept_length (push_bit 16 (of_nat n)) = n"
    using 1 assms by (simp add: kept_length_def Let_def)
qed

lemma fill_words:
  "dfifo (dev m) = ws @ rest \<Longrightarrow> k + length ws \<le> length buf \<Longrightarrow>
   \<exists>m'. fill rx_bus k (length ws) buf m = Inr (patch buf k ws, m') \<and> dev m' = (dev m)\<lparr>dfifo := rest\<rparr>"
proof (induction ws arbitrary: k buf m)
  case (Cons w ws)
  obtain m1 where m1: "rd rx_bus RX_FIFO_PORT m = (w, m1)" "dev m1 = (dev m)\<lparr>dfifo := ws @ rest\<rparr>"
    using Cons.prems(1) by (simp add: rd_parts)
  then show ?case
    using Cons.IH [of m1 "k + 1" "buf[k := w]"] Cons.prems(2) patch_Cons [of k buf w ws]
    by (auto simp del: RX_FIFO_PORT_def)
qed simp

section \<open>The two rings\<close>

text \<open>
  \<open>rx_state i j fs s\<close>: the frames \<open>fs\<close> have been stored and not yet delivered, the first of them in
  buffer \<open>i\<close> with its queue entry in slot \<open>j\<close>; all other slots are free.
\<close>

definition rx_state :: "nat \<Rightarrow> nat \<Rightarrow> frame list \<Rightarrow> lan \<Rightarrow> bool" where
  "rx_state i j fs s \<longleftrightarrow> length (rxAvlQue s) = 32 \<and> length (NetRxPackets s) = 32 \<and>
     (\<forall>k < 32. length (NetRxPackets s ! k) = 384) \<and> length fs \<le> 32 \<and> i < 32 \<and> j < 32 \<and>
     rxNdx s = (i + length fs) mod 32 \<and> rxNdxIn s = (j + length fs) mod 32 \<and> rxNdxOut s = j \<and>
     (\<forall>t < length fs. rxAvlQue s ! ((j + t) mod 32) = \<lparr>rx_index = int ((i + t) mod 32), rx_len = int (fst (fs ! t))\<rparr> \<and>
        take (length (snd (fs ! t))) (NetRxPackets s ! ((i + t) mod 32)) = snd (fs ! t)) \<and>
     (\<forall>t. length fs \<le> t \<and> t < 32 \<longrightarrow> rx_index (rxAvlQue s ! ((j + t) mod 32)) = - 1)"

lemma wrap_inc_mod: "i < 32 \<Longrightarrow> wrap_inc i = (i + 1) mod 32"
  by (simp add: wrap_inc_def mod_if)

lemma mod_32_inj: "t < 32 \<Longrightarrow> u < 32 \<Longrightarrow> (j + t) mod 32 = (j + u) mod 32 \<longleftrightarrow> t = (u :: nat)"
proof -
  assume "t < 32" "u < 32"
  moreover have "j mod 32 < 32" by simp
  moreover have "(j + x) mod 32 = (if j mod 32 + x < 32 then j mod 32 + x else j mod 32 + x - 32)" if "x < 32" for x
  proof -
    have "(j + x) mod 32 = (j mod 32 + x) mod 32" by (simp add: mod_add_left_eq)
    then show ?thesis using that by (simp add: mod_if [of "j mod 32 + x"])
  qed
  ultimately show ?thesis by auto
qed

lemma rx_store:
  assumes st: "rx_state i j fs s" and room: "length fs < 32" and good: "good_frame f" and d: "dfifo (dev m) = snd f @ rest"
  shows "\<exists>s' m'. store_packet rx_bus ((i + length fs) mod 32) (fst f) (s\<lparr>rxNdx := wrap_inc (rxNdx s)\<rparr>, m) = Inr (s', m') \<and>
    rx_state i j (fs @ [f]) s' \<and> dev m' = (dev m)\<lparr>dfifo := rest\<rparr> \<and> received s' = received s \<and> EmptyReads s' = 0"
proof -
  let ?n = "length fs" and ?b = "(i + length fs) mod 32" and ?q = "(j + length fs) mod 32"
  have len: "length (NetRxPackets s ! ?b) = 384" "rxNdxIn s = ?q" "rxNdx s = ?b" using st by (simp_all add: rx_state_def)
  have ws: "length (snd f) = (fst f + 3) div 4" "length (snd f) \<le> 384" using good by (auto simp: good_frame_def)
  obtain m1 where fl: "fill rx_bus 0 (length (snd f)) (NetRxPackets s ! ?b) m = Inr (patch (NetRxPackets s ! ?b) 0 (snd f), m1)"
    "dev m1 = (dev m)\<lparr>dfifo := rest\<rparr>"
    using fill_words [OF d, of 0 "NetRxPackets s ! ?b"] ws(2) len by auto
  let ?s = "s\<lparr>rxNdx := (i + Suc ?n) mod 32, TotalRxPackets := TotalRxPackets s + 1, TotalBytes := TotalBytes s + of_nat (fst f),
                rxAvlQue := (rxAvlQue s)[?q := \<lparr>rx_index = int ?b, rx_len = int (fst f)\<rparr>],
                rxNdxIn := (j + Suc ?n) mod 32, EmptyReads := 0, NetRxPackets := (NetRxPackets s)[?b := patch (NetRxPackets s ! ?b) 0 (snd f)]\<rparr>"
  have "store_packet rx_bus ?b (fst f) (s\<lparr>rxNdx := wrap_inc (rxNdx s)\<rparr>, m) = Inr (?s, DELAY rx_bus 3 m1)"
    using fl ws(1) by (simp add: store_packet_def Let_def len wrap_inc_mod mod_Suc_eq)
  moreover have "rx_state i j (fs @ [f]) ?s"
  proof -
    let ?p = "patch (NetRxPackets s ! ?b) 0 (snd f)"
    have p: "take (length (snd f)) ?p = snd f" "length ?p = 384" using ws(2) len(1) by (simp_all add: patch_def)
    have l: "length (rxAvlQue s) = 32" "length (NetRxPackets s) = 32" using st by (simp_all add: rx_state_def)
    have q: "rxAvlQue ?s ! ((j + t) mod 32) = (if t = ?n then \<lparr>rx_index = int ?b, rx_len = int (fst f)\<rparr> else rxAvlQue s ! ((j + t) mod 32))"
      and n: "NetRxPackets ?s ! ((i + t) mod 32) = (if t = ?n then ?p else NetRxPackets s ! ((i + t) mod 32))" if "t < 32" for t
      using mod_32_inj [OF room that, of j] mod_32_inj [OF room that, of i] by (auto simp: nth_list_update l)
    show ?thesis
      unfolding rx_state_def
    proof (intro conjI allI impI)
      fix k :: nat assume "k < 32"
      then show "length (NetRxPackets ?s ! k) = 384" using st p(2) by (auto simp: rx_state_def nth_list_update)
    next
      fix t assume "t < length (fs @ [f])"
      then have "t < length fs \<or> t = ?n" "t < 32" using room by auto
      then show "rxAvlQue ?s ! ((j + t) mod 32) = \<lparr>rx_index = int ((i + t) mod 32), rx_len = int (fst ((fs @ [f]) ! t))\<rparr>"
        "take (length (snd ((fs @ [f]) ! t))) (NetRxPackets ?s ! ((i + t) mod 32)) = snd ((fs @ [f]) ! t)"
        using st p(1) unfolding q [OF \<open>t < 32\<close>] n [OF \<open>t < 32\<close>] by (auto simp: rx_state_def nth_append)
    next
      fix t assume t: "length (fs @ [f]) \<le> t \<and> t < 32"
      then show "rx_index (rxAvlQue ?s ! ((j + t) mod 32)) = - 1"
        using q [of t] st by (simp add: rx_state_def)
    qed (use st room in \<open>simp_all add: rx_state_def\<close>)
  qed
  ultimately show ?thesis using fl(2) by auto
qed

lemma holds_Cons:
  assumes "holds (f # fs) (dev m)"
  obtains m1 where "rd rx_bus RX_STATUS_FIFO_PORT m = (push_bit 16 (of_nat (fst f)), m1)"
    "sts (dev m1) = map (\<lambda>f. push_bit 16 (of_nat (fst f))) fs" "dfifo (dev m1) = snd f @ concat (map snd fs)"
  using assms by (simp add: holds_def rd_parts)

lemma rx_turn_stores:
  assumes st: "rx_state i j fs s" and room: "length fs < 32" and good: "good_frame f" and d: "holds (f # fs2) (dev m)"
  shows "\<exists>s' m'. rx_turn rx_bus h (s, m) = Some (Inr (Again, True, s', m')) \<and> rx_state i j (fs @ [f]) s' \<and>
    holds fs2 (dev m') \<and> received s' = received s \<and> EmptyReads s' = 0"
proof -
  obtain m1 where r: "rd rx_bus RX_STATUS_FIFO_PORT m = (push_bit 16 (of_nat (fst f)), m1)"
    "sts (dev m1) = map (\<lambda>f. push_bit 16 (of_nat (fst f))) fs2" "dfifo (dev m1) = snd f @ concat (map snd fs2)"
    by (rule holds_Cons [OF d])
  have n: "0 < fst f" "fst f \<le> 1518" using good by (simp_all add: good_frame_def)
  have x: "rxNdx s = (i + length fs) mod 32" "rxNdxIn s = (j + length fs) mod 32" "rx_index (rxAvlQue s ! ((j + length fs) mod 32)) = - 1"
    using st room by (simp_all add: rx_state_def)
  obtain s' m' where sp: "store_packet rx_bus ((i + length fs) mod 32) (fst f) (s\<lparr>rxNdx := wrap_inc (rxNdx s)\<rparr>, m1) = Inr (s', m')"
    "rx_state i j (fs @ [f]) s'" "dev m' = (dev m1)\<lparr>dfifo := concat (map snd fs2)\<rparr>" "received s' = received s" "EmptyReads s' = 0"
    using rx_store [OF st room good r(3)] by blast
  have "rx_turn rx_bus h (s, m) = Some (Inr (Again, True, s', m'))"
    using n(1) sp(1) by (simp add: rx_turn_def r(1) status_length [OF n(2)] Let_def x del: RX_STATUS_FIFO_PORT_def)
  moreover have "holds fs2 (dev m')" using sp(3) r(2) by (simp add: holds_def)
  ultimately show ?thesis using sp by blast
qed

lemma rx_loop_again:
  assumes "rd rx_bus RX_FIFO_INF m = (push_bit 16 (of_nat n), m1)" "0 < n" "n < 256"
    "rx_turn rx_bus h (s, m1) = Some (Inr (Again, h', s2, m2))"
  shows "rx_loop rx_bus (Suc k) h (s, m) = rx_loop rx_bus k h' (s2, m2)"
  using frame_count [OF assms(3)] assms(2)
  by (subst rx_loop.simps) (simp add: assms(1,4) Let_def del: RX_FIFO_INF_def rx_loop.simps)

lemma rx_loop_stores:
  "rx_state i j fs s \<Longrightarrow> list_all good_frame fs2 \<Longrightarrow> length fs + length fs2 \<le> 32 \<Longrightarrow> holds fs2 (dev m) \<Longrightarrow>
   \<exists>s' m'. rx_loop rx_bus (32 - length fs) h (s, m) = Some (Inr (h \<or> fs2 \<noteq> [], s', m')) \<and> rx_state i j (fs @ fs2) s' \<and>
     holds [] (dev m') \<and> received s' = received s \<and> (fs2 = [] \<longrightarrow> s' = s) \<and> (fs2 \<noteq> [] \<longrightarrow> EmptyReads s' = 0)"
proof (induction fs2 arbitrary: fs s m h)
  case Nil
  then show ?case by (subst rx_loop.simps) (simp add: rd_parts holds_def del: rx_loop.simps)
next
  case (Cons f fs2)
  have room: "length fs < 32" using Cons.prems(3) by simp
  obtain m0 where m0: "rd rx_bus RX_FIFO_INF m = (push_bit 16 (of_nat (length (f # fs2))), m0)" "holds (f # fs2) (dev m0)"
    using Cons.prems(4) by (simp add: rd_parts holds_def)
  obtain s1 m1 where t: "rx_turn rx_bus h (s, m0) = Some (Inr (Again, True, s1, m1))" "rx_state i j (fs @ [f]) s1"
    "holds fs2 (dev m1)" "received s1 = received s" "EmptyReads s1 = 0"
    using rx_turn_stores [OF Cons.prems(1) room _ m0(2), of h] Cons.prems(2) by auto
  have k: "32 - length fs = Suc (32 - length (fs @ [f]))" using room by simp
  have "rx_loop rx_bus (32 - length fs) h (s, m) = rx_loop rx_bus (32 - length (fs @ [f])) True (s1, m1)"
    unfolding k by (rule rx_loop_again [OF m0(1) _ _ t(1)]) (use Cons.prems(3) in simp_all)
  moreover have "list_all good_frame fs2" "length (fs @ [f]) + length fs2 \<le> 32" using Cons.prems(2,3) by simp_all
  ultimately show ?case
    using Cons.IH [OF t(2) _ _ t(3), of True] t(4,5) by (fastforce simp del: rx_loop.simps)
qed

lemma deliver_none: "rx_state i j [] s \<Longrightarrow> deliver s = Some (Inr s)"
proof -
  assume "rx_state i j [] s"
  then have "rx_index (rxAvlQue s ! rxNdxOut s) = - 1" by (fastforce simp: rx_state_def dest: spec [of _ 0])
  then show ?thesis by (subst deliver.simps) simp
qed

lemma deliver_one:
  assumes st: "rx_state i j (f # fs) s"
  defines "s' \<equiv> s\<lparr>received := received s @ [(NetRxPackets s ! i, int (fst f) - 4)],
    rxAvlQue := (rxAvlQue s)[j := (rxAvlQue s ! j)\<lparr>rx_index := - 1\<rparr>], rxNdxOut := wrap_inc j\<rparr>"
  shows "deliver s = deliver s'" "rx_state ((i + 1) mod 32) ((j + 1) mod 32) fs s'"
    "take (length (snd f)) (NetRxPackets s ! i) = snd f"
proof -
  have b: "i < 32" "j < 32" "rxNdxOut s = j" "length (rxAvlQue s) = 32" "length (NetRxPackets s) = 32" "length fs < 32"
    using st by (auto simp: rx_state_def)
  have q: "rxAvlQue s ! j = \<lparr>rx_index = int i, rx_len = int (fst f)\<rparr>" "take (length (snd f)) (NetRxPackets s ! i) = snd f"
    using st b by (fastforce simp: rx_state_def dest: spec [of _ 0])+
  show "deliver s = deliver s'"
    using b(1) by (subst deliver.simps) (simp add: s'_def b(3-) q Let_def)
  show "take (length (snd f)) (NetRxPackets s ! i) = snd f" by (rule q(2))
  have e: "((x + 1) mod 32 + t) mod 32 = (x + Suc t) mod 32" for x t :: nat
    by (simp add: mod_add_left_eq)
  have upd: "rxAvlQue s' ! ((j + Suc t) mod 32) = (if Suc t = 32 then (rxAvlQue s ! j)\<lparr>rx_index := - 1\<rparr> else rxAvlQue s ! ((j + Suc t) mod 32))"
    if "t < 32" for t
    using mod_32_inj [of 0 "Suc t" j] b that by (auto simp: s'_def nth_list_update)
  show "rx_state ((i + 1) mod 32) ((j + 1) mod 32) fs s'"
    unfolding rx_state_def e
  proof (intro conjI allI impI)
    fix t assume t: "t < length fs"
    then have "Suc t < length (f # fs)" "t < 32" "Suc t \<noteq> 32" using b(6) by auto
    then show "rxAvlQue s' ! ((j + Suc t) mod 32) = \<lparr>rx_index = int ((i + Suc t) mod 32), rx_len = int (fst (fs ! t))\<rparr>"
      "take (length (snd (fs ! t))) (NetRxPackets s' ! ((i + Suc t) mod 32)) = snd (fs ! t)"
      using st unfolding upd [OF \<open>t < 32\<close>] by (fastforce simp: rx_state_def s'_def dest: spec [of _ "Suc t"])+
  next
    fix t assume t: "length fs \<le> t \<and> t < 32"
    then show "rx_index (rxAvlQue s' ! ((j + Suc t) mod 32)) = - 1"
      using st unfolding upd [OF conjunct2 [OF t]] by (auto simp: rx_state_def)
  qed (use st b in \<open>auto simp: rx_state_def s'_def wrap_inc_mod\<close>)
qed

text \<open>What the upper layer is handed for a frame: its buffer and the length without the checksum.\<close>

definition handed :: "frame \<Rightarrow> u32 list \<times> int \<Rightarrow> bool" where
  "handed f r \<longleftrightarrow> take (length (snd f)) (fst r) = snd f \<and> snd r = int (fst f) - 4"

lemma deliver_all:
  "rx_state i j fs s \<Longrightarrow> \<exists>s' rs. deliver s = Some (Inr s') \<and> received s' = received s @ rs \<and> list_all2 handed fs rs \<and>
     rx_state ((i + length fs) mod 32) ((j + length fs) mod 32) [] s' \<and> EmptyReads s' = EmptyReads s"
proof (induction fs arbitrary: i j s)
  case Nil
  then have "i < 32" "j < 32" by (simp_all add: rx_state_def)
  then show ?case using deliver_none [OF Nil] Nil by simp
next
  case (Cons f fs)
  note d = deliver_one [OF Cons.prems]
  have "((x + 1) mod 32 + n) mod 32 = (x + Suc n) mod 32" for x n :: nat by (simp add: mod_add_left_eq)
  with Cons.IH [OF d(2)] show ?case
    unfolding d(1) using d(3) by (fastforce simp: handed_def)
qed


lemma lan_fresh_ready: "rx_state 0 0 [] (open_vars lan_fresh)"
proof -
  have "rx_index (map (\<lambda>q. q\<lparr>rx_index := - 1\<rparr>) (replicate 32 q) ! k) = - 1" if "k < 32" for k q
    using that by simp
  then show ?thesis by (simp add: rx_state_def open_vars_def lan_fresh_def)
qed


section \<open>Bring-up\<close>

lemma timed_wait_ends:
  assumes "\<And>m. \<exists>m'. body m = Some m'"
  shows "\<exists>t m'. timed_wait cond body n m = Some (t, m')"
proof (induction n arbitrary: m)
  case (Suc n)
  obtain m' where "body (snd (cond m)) = Some m'" using assms by blast
  then show ?case using Suc [of m'] by (simp add: case_prod_unfold Let_def)
qed simp

lemma udelay_returns: "free_runs B T step \<Longrightarrow> step < 2 ^ 30 \<Longrightarrow> us \<le> 500000 \<Longrightarrow> \<exists>m'. lan9118_udelay B us m = Some m'"
  using udelay_ends [of B T step us m] by (auto simp: word_le_nat_alt)

lemma timed_delay:
  "free_runs B T step \<Longrightarrow> step < 2 ^ 30 \<Longrightarrow> us \<le> 500000 \<Longrightarrow> \<exists>t m'. timed_wait cond (lan9118_udelay B us) n m = Some (t, m')"
  by (intro timed_wait_ends udelay_returns)

text \<open>Sequencing of steps that return.\<close>

lemma bind_returns:
  assumes "\<exists>a b. r = Some (a, b)" "\<And>a b. \<exists>c d. k (a, b) = Some (c, d)"
  shows "\<exists>c d. Option.bind r k = Some (c, d)"
  using assms by auto

lemma open_reset_returns:
  assumes "free_runs B T step" "step < 2 ^ 30"
  shows "\<exists>ok m'. open_reset B m = Some (ok, m')"
  unfolding open_reset_def Let_def case_prod_unfold
  by (auto intro!: bind_returns timed_delay [OF assms])

lemma reset_phy_returns:
  assumes "free_runs B T step" "step < 2 ^ 30"
  shows "\<exists>ok m'. reset_phy B m = Some (ok, m')"
proof -
  obtain m1 where "lan9118_udelay B (50 * 1000) (snd (SetPhyReg B PHY_BCR PHY_BCR_RST m)) = Some m1"
    using udelay_returns [OF assms, of "50 * 1000"] by auto
  then show ?thesis unfolding reset_phy_def Let_def case_prod_unfold
    by (auto intro!: bind_returns timed_delay [OF assms] simp del: PHY_BCR_def PHY_BCR_RST_def)
qed

lemma negotiate_returns:
  assumes "free_runs B T step" "step < 2 ^ 30"
  shows "\<exists>ok m'. negotiate B m = Some (ok, m')"
  unfolding negotiate_def Let_def case_prod_unfold
  by (rule bind_returns [OF timed_delay [OF assms]]) auto

lemma open_phy_returns:
  assumes "free_runs B T step" "step < 2 ^ 30"
  shows "\<exists>ok m'. open_phy B m = Some (ok, m')"
proof (cases "phy_known B m")
  case (Pair known m0)
  obtain ok m1 where r: "reset_phy B m0 = Some (ok, m1)" using reset_phy_returns [OF assms] by blast
  obtain ok' m2 where "negotiate B m1 = Some (ok', m2)" using negotiate_returns [OF assms] by blast
  then show ?thesis using r Pair by (cases known; cases ok; cases ok') (simp_all add: open_phy_def ex_bool_eq)
qed

lemma open_mac_cases:
  "open_mac B None sm = Inl NullDeref"
  "\<exists>m'. open_mac B (Some a) (s, m) = Inr (s\<lparr>MaxRxFifoSz := 13440, macAddr := take 6 a\<rparr>, m')"
  by (simp_all add: open_mac_def Let_def case_prod_unfold)

text \<open>The static arrays of the driver and of the upper layer at their declared sizes.\<close>

definition arrays_ok :: "lan \<Rightarrow> bool" where
  "arrays_ok s \<longleftrightarrow> length (rxAvlQue s) = 32 \<and> length (NetRxPackets s) = 32 \<and> (\<forall>k < 32. length (NetRxPackets s ! k) = 384)"

lemma open_vars_ready:
  "arrays_ok s \<Longrightarrow> rx_state 0 0 [] ((open_vars s)\<lparr>MaxRxFifoSz := v, macAddr := a\<rparr>)"
  by (simp add: arrays_ok_def rx_state_def open_vars_def)


text \<open>A LAN9118 without its PHY, with a counter that runs.\<close>

definition chip_bus :: "nat bus" where
  "chip_bus = step_bus (\<lambda>a. if a = ID_REV then 0x01180000 else 0)"


text \<open>
  A PHY that never leaves reset is taken for one that did: when the reset bit never clears, the
  counter of the wait ends at -1, and the test for 0 that follows reports success.
\<close>

theorem reset_phy_stuck:
  assumes "free_runs B T step" "step < 2 ^ 30" "\<And>m. fst (GetPhyReg B PHY_BCR m) AND PHY_BCR_RST \<noteq> 0"
  shows "\<exists>m'. reset_phy B m = Some (True, m')"
proof -
  have stuck: "\<exists>m'. timed_wait (phy_flag B PHY_BCR PHY_BCR_RST True) (lan9118_udelay B 10) n m = Some (- 1, m')" for n m
  proof (induction n arbitrary: m)
    case (Suc n)
    obtain v m0 where g: "GetPhyReg B PHY_BCR m = (v, m0)" by (cases "GetPhyReg B PHY_BCR m")
    obtain m1 where "lan9118_udelay B 10 m0 = Some m1"
      using udelay_returns [OF assms(1,2), of 10] by auto
    then show ?case
      using Suc [of m1] assms(3) [of m] unfolding g by (simp add: phy_flag_def g Let_def del: PHY_BCR_def PHY_BCR_RST_def)
  qed simp
  obtain ok m0 where s: "SetPhyReg B PHY_BCR PHY_BCR_RST m = (ok, m0)" by (cases "SetPhyReg B PHY_BCR PHY_BCR_RST m")
  obtain m1 where "lan9118_udelay B (50 * 1000) m0 = Some m1"
    using udelay_returns [OF assms(1,2), of "50 * 1000"] by auto
  moreover obtain m2 where "timed_wait (phy_flag B PHY_BCR PHY_BCR_RST True) (lan9118_udelay B 10) PHY_TIMEOUT m1 = Some (- 1, m2)"
    using stuck by blast
  ultimately show ?thesis
    unfolding reset_phy_def s Let_def by simp
qed

lemma MacBusy_idle: "fst (rd B MAC_CSR_CMD m) AND MAC_CSR_CMD_CSR_BUSY = 0 \<Longrightarrow> MacBusy B (Suc n) m = (False, snd (rd B MAC_CSR_CMD m))"
  by (simp add: case_prod_unfold Let_def)

lemma GetMacReg_const:
  assumes "\<And>m. fst (rd B MAC_CSR_CMD m) = 0" "\<And>m. fst (rd B MAC_CSR_DATA m) = v"
  shows "fst (GetMacReg B r m) = v"
proof -
  have "MacBusy B 200 m = (False, snd (rd B MAC_CSR_CMD m))" for m
    using MacBusy_idle [of B m 199] assms(1) by simp
  then show ?thesis using assms by (simp add: GetMacReg_def case_prod_unfold Let_def)
qed

theorem reset_phy_stuck_witness:
  "\<exists>m'. reset_phy (step_bus (\<lambda>a. if a = MAC_CSR_DATA then 0x8000 else 0)) \<lparr>dev = 5, trace = []\<rparr> = Some (True, m')"
proof (rule reset_phy_stuck [OF step_bus_runs])
  let ?B = "step_bus (\<lambda>a. if a = MAC_CSR_DATA then 0x8000 else 0)"
  have g: "fst (GetMacReg ?B r m) = 0x8000" for r m
    by (rule GetMacReg_const) (simp_all add: rd_parts step_bus_def)
  have "PhyBusy ?B (Suc n) m = (False, snd (GetMacReg ?B MAC_MIIACC m))" for n m
    using g by (simp add: case_prod_unfold Let_def)
  from this [of 199] show "fst (GetPhyReg ?B PHY_BCR m) AND PHY_BCR_RST \<noteq> 0" for m
    using g by (simp add: GetPhyReg_def case_prod_unfold Let_def del: PhyBusy.simps)
qed simp

end
