(* ===== verification/Board_Programs.thy ===== *)
theory Board_Programs
  imports Sdcard_Main Touchscreen Smsc9118_Rx
begin

text \<open>
  The mains of the small test programs: \<^verbatim>\<open>gpio/main.c\<close>, which copies a button to a light, \<^verbatim>\<open>touchscreen/main.c\<close>, which prints
  the measurements of the touch screen driver, and \<^verbatim>\<open>lan/main.c\<close>, which brings the network controller up and down once. The console routines
  of the three files are the ones of the theory Uart\_Polled; \<open>Delay\<close> takes time only and is left out.
\<close>

section \<open>The light\<close>

definition LCD_INSTR :: u32 where
  "LCD_INSTR = 0x83000000"

definition LCD_DATA :: u32 where
  "LCD_DATA = 0x83000004"

definition led_setup :: "'d bus \<Rightarrow> 'd machine \<Rightarrow> 'd machine" where
  "led_setup B m =
     (let m = wr B PINSEL2 0x0F810924 m;
          m = wr B BCFG3 0x20001C80 m;
          m = wr B LCD_INSTR 0 m;
          m = touch B LCD_DATA m;
          m = or_wr B IO0DIR (push_bit 23 1) m;
          m = wr B IO0SET (push_bit 23 1) m
      in wr B IO0CLR (push_bit 23 1) m)"

definition led_turn :: "'d bus \<Rightarrow> 'd machine \<Rightarrow> 'd machine" where
  "led_turn B m =
     (let (v, m) = rd B IO1PIN m in
      if v AND push_bit 24 1 \<noteq> 0 then wr B IO0SET (push_bit 23 1) m else wr B IO0CLR (push_bit 23 1) m)"

section \<open>The touch screen program\<close>

definition BAUDRATEDIVISOR_ts :: u32 where
  "BAUDRATEDIVISOR_ts = (14745000 * 4) div (9600 * 16)"

text \<open>\<open>sprintf\<close> into the array \<open>s\<close> of twenty characters, and its output.\<close>

definition sprintf_s :: "u8 list \<Rightarrow> u32 list \<Rightarrow> fault + u8 list" where
  "sprintf_s format args = bindE (vsprintf_c format args) (\<lambda>t. if length t + 1 > 20 then Inl OutOfBounds else Inr t)"

definition show_value :: "'d bus \<Rightarrow> u8 list \<Rightarrow> u32 \<Rightarrow> i2c \<times> 'd machine \<Rightarrow> (fault + unit \<times> i2c \<times> 'd machine) option" where
  "show_value B format v s =
     (case sprintf_s format [v] of Inl f \<Rightarrow> Some (Inl f) | Inr t \<Rightarrow> map_option (\<lambda>m. Inr ((), fst s, m)) (PutStr B t (snd s)))"

definition touch_setup :: "'d bus \<Rightarrow> 'd machine \<Rightarrow> (touchscreen_data \<times> 'd machine) option" where
  "touch_setup B m =
     (let m = or_wr B PINSEL0 0x50000 m;
          m = wr8 B UART1_LCR 0x80 m;
          m = wr8 B UART1_DLM (ucast (drop_bit 8 BAUDRATEDIVISOR_ts AND 0x00FF)) m;
          m = wr8 B UART1_DLL (ucast (BAUDRATEDIVISOR_ts AND 0x00FF)) m;
          m = wr8 B UART1_LCR 3 m
      in map_option (InitTS B \<lparr>xvalue = 0, yvalue = 0, pvalue = 0\<rparr>) (PutStr B (bytes ''TESTE'' @ [10]) m))"

definition touch_turn :: "'d bus \<Rightarrow> i2c \<times> 'd machine \<Rightarrow> (fault + unit \<times> i2c \<times> 'd machine) option" where
  "touch_turn B s =
     bind_run (GetTS B s) (\<lambda>tsData s.
     bind_run (show_value B (bytes '' X: %6ld'') (xvalue tsData) s) (\<lambda>u s.
     bind_run (show_value B (bytes '' Y: %6ld'') (yvalue tsData) s) (\<lambda>u s.
     show_value B (bytes '' P: %6ld  '' @ [13]) (pvalue tsData) s)))"

section \<open>The LAN test program\<close>

definition lan_setup :: "'d bus \<Rightarrow> 'd machine \<Rightarrow> 'd machine option" where
  "lan_setup B m =
     (let m = or_wr B PINSEL0 0x50000 m;
          m = wr8 B UART1_LCR 0x80 m;
          m = wr8 B UART1_DLM (ucast (drop_bit 8 BAUDRATEDIVISOR AND 0x00FF)) m;
          m = wr8 B UART1_DLL (ucast (BAUDRATEDIVISOR AND 0x00FF)) m;
          m = wr8 B UART1_LCR 3 m
      in Option.bind (PutStr B (bytes ''TESTE LAN'' @ [10]) m) (\<lambda>m.
           let m = wr B PINSEL2 0x0F814924 m;
               m = wr B BCFG2 0x2000FFE0 m;
               m = touch B 0x82000064 m;
               m = touch B 0x82000084 m
           in Some (touch B 0x82000050 m)))"

text \<open>The board record passed is null.\<close>

definition lan_main :: "'d bus \<Rightarrow> lan \<times> 'd machine \<Rightarrow> (fault + lan \<times> 'd machine) option" where
  "lan_main B sm =
     (let (s, m) = sm in
      Option.bind (lan_setup B m) (\<lambda>m.
      Option.bind (eth_init B None (s, m)) (\<lambda>r.
        case r of
          Inl f \<Rightarrow> Some (Inl f)
        | Inr (_, s, m) \<Rightarrow> Some (case eth_halt s of Inl f \<Rightarrow> Inl f | Inr s \<Rightarrow> Inr (s, m)))))"

section \<open>What they do\<close>

text \<open>Each turn of the light stores to the register that makes the light follow the button it has just read.\<close>

lemma led_follows:
  "wrs (led_turn B m) = wrs m @ [(if bit (fst (rd B IO1PIN m)) 24 then IO0SET else IO0CLR, 0x800000)]"
  using and_exp_eq_0_iff_not_bit [of "fst (rd B IO1PIN m)" 24]
  by (auto simp: led_turn_def case_prod_unfold Let_def push_bit_of_1 simp del: IO1PIN_def)

text \<open>
  The network test never gets past bring-up: the board record it passes is null, so that a controller which wakes up makes the driver
  dereference the null pointer, and one which does not leaves the driver as it was.
\<close>

lemma lan_main_outcome:
  assumes "settles B UART1_LSR tx_ready" "free_runs B T step" "step < 2 ^ 30" "\<not> txbp s"
  shows "lan_main B (s, m) = Some (Inl NullDeref) \<or> (\<exists>m'. lan_main B (s, m) = Some (Inr (s, m')))"
proof -
  have "PutStr B t n \<noteq> None" for t n using con.puts_live [OF assms(1), of t n] by auto
  then have "\<exists>m1. lan_setup B m = Some m1"
    unfolding lan_setup_def Let_def by (auto simp: bind_eq_Some_conv simp del: PutStr.simps)
  then obtain m1 where "lan_setup B m = Some m1" by blast
  moreover obtain ok m2 where "open_reset B m1 = Some (ok, m2)" using open_reset_returns [OF assms(2,3)] by blast
  ultimately show ?thesis
    using assms(4) by (cases ok) (simp_all add: lan_main_def eth_init_def lan9118_open_def open_mac_cases eth_halt_def lan9118_close_def)
qed

lemma num_str_chars: "2 \<le> base \<Longrightarrow> base \<le> 16 \<Longrightarrow> set (num_str base n) \<subseteq> digit_ascii ` {..<16}"
proof (induction base n rule: num_str.induct)
  case (1 base n)
  have "n mod base < 16" using 1 by (intro less_le_trans [OF mod_less_divisor]) simp_all
  then show ?case using 1 by (subst num_str.simps) auto
qed

lemma digit_printable: "d < 16 \<Longrightarrow> digit_ascii d \<noteq> 0 \<and> digit_ascii d \<noteq> 10"
proof -
  have "\<forall>d \<in> set [0..<16]. digit_ascii d \<noteq> 0 \<and> digit_ascii d \<noteq> 10" by code_simp
  then show "d < 16 \<Longrightarrow> digit_ascii d \<noteq> 0 \<and> digit_ascii d \<noteq> 10" by simp
qed

lemma int_str_word: "set (int_str (sint (v :: u32))) \<inter> {0, 10} = {} \<and> length (int_str (sint v)) \<le> 11"
proof -
  have b: "- (2 ^ 31) \<le> sint v" "sint v < 2 ^ 31" using sint_greater_eq [of v] sint_less [of v] by simp_all
  then have n: "nat (- sint v) < 10 ^ Suc 9" "nat (sint v) < 10 ^ Suc 9" by (simp_all add: nat_less_iff)
  have "x \<noteq> 0 \<and> x \<noteq> 10" if "x \<in> set (num_str 10 k)" for x k
    using num_str_chars [of 10 k] digit_printable that by auto
  then show ?thesis using num_str_length [of 10, OF _ n(1)] num_str_length [of 10, OF _ n(2)] by (auto simp: int_str_def)
qed

text \<open>The line of a measurement.\<close>

definition value_text :: "u32 \<Rightarrow> u8 list" where
  "value_text v = pad_left 6 (int_str (sint v))"

lemma value_text_length: "length (value_text v) \<le> 11"
  using int_str_word [of v] by (auto simp: value_text_def pad_left_def)

definition measurement_text :: "touchscreen_data \<Rightarrow> u8 list" where
  "measurement_text d = bytes '' X: '' @ value_text (xvalue d) @ bytes '' Y: '' @ value_text (yvalue d) @ bytes '' P: '' @ value_text (pvalue d) @ [32, 32, 13]"

lemma value_formats:
  "sprintf_s (bytes '' X: %6ld'') [v] = Inr (bytes '' X: '' @ value_text v)"
  "sprintf_s (bytes '' Y: %6ld'') [v] = Inr (bytes '' Y: '' @ value_text v)"
  "sprintf_s (bytes '' P: %6ld  '' @ [13]) [v] = Inr (bytes '' P: '' @ value_text v @ [32, 32, 13])"
  using value_text_length [of v] by (simp_all add: sprintf_s_def bytes_def value_text_def [symmetric] bindE_def)

lemma plain_console: "0 \<notin> set t \<Longrightarrow> 10 \<notin> set t \<Longrightarrow> concat (map crlf (c_str t)) = map ucast t"
  by (induction t) (auto simp: crlf_def)

text \<open>Output on the bus of the converter, whose transmitter is always ready, leaves the converter alone.\<close>

lemma i2c_transmits:
  "rd i2c_bus UART1_LSR m = (0x60, m\<lparr>trace := trace m @ [RdA UART1_LSR 0x60]\<rparr>)" "dev (wr8 i2c_bus UART1_THR c m) = dev m"
  by (simp_all add: rd_parts i2c_bus_def)

lemma PutStr_i2c:
  "0 \<notin> set t \<Longrightarrow> 10 \<notin> set t \<Longrightarrow> \<exists>m'. PutStr i2c_bus t m = Some m' \<and> dev m' = dev m \<and> sent UART1_THR m' = sent UART1_THR m @ map ucast t"
proof (induction t arbitrary: m)
  case (Cons c t)
  let ?m = "m\<lparr>trace := trace m @ [RdA UART1_LSR 0x60]\<rparr>"
  have "poll i2c_bus UART1_LSR tx_ready m = Some (0x60, ?m)" by (subst poll_now) (simp_all add: i2c_transmits(1) tx_ready_def del: UART1_LSR_def)
  then have "PutChar i2c_bus c m = Some (wr8 i2c_bus UART1_THR c ?m)" using Cons.prems by (simp add: PutChar_def del: UART1_LSR_def UART1_THR_def)
  then show ?case using Cons.IH [of "wr8 i2c_bus UART1_THR c ?m"] Cons.prems i2c_transmits(2) [of c ?m] by auto
qed simp

lemma show_value_i2c:
  assumes "ts_idle i m" "sprintf_s format [v] = Inr t" "0 \<notin> set t" "10 \<notin> set t"
  shows "\<exists>m'. show_value i2c_bus format v (i, m) = Some (Inr ((), i, m')) \<and> ts_idle i m' \<and> sent UART1_THR m' = sent UART1_THR m @ map ucast t"
  using PutStr_i2c [OF assms(3,4), of m] assms(1,2) by (auto simp: show_value_def ts_idle_def)

text \<open>
  C25. The touch screen program shows what the driver measured: with the converter on the bus every turn of its loop returns, leaves the converter
  ready for the next turn, never overruns the buffer of twenty characters whatever the values are, and sends after the measurement exactly the line with
  the reduced position and pressure of the ten pairs of samples.
\<close>

theorem touch_turn_shows:
  assumes "ts_idle i m"
  shows "\<exists>ps i' m1 m'. GetTS i2c_bus (i, m) = Some (Inr (ts_reduce ps, i', m1)) \<and> length ps = 10 \<and> list_all valid_pair ps \<and>
    touch_turn i2c_bus (i, m) = Some (Inr ((), i', m')) \<and> ts_idle i' m' \<and>
    sent UART1_THR m' = sent UART1_THR m1 @ map ucast (measurement_text (ts_reduce ps))"
proof -
  obtain ps i1 m1 where 1: "GetTS i2c_bus (i, m) = Some (Inr (ts_reduce ps, i1, m1))" "ts_idle i1 m1" "length ps = 10" "list_all valid_pair ps"
    using sample_loop_valid [OF assms, of TS_NUM_SAMPLES] by (auto simp: GetTS_def bind_run_def TS_NUM_SAMPLES_def)
  have t: "0 \<notin> set (value_text v)" "10 \<notin> set (value_text v)" for v
    using int_str_word [of v] by (auto simp: value_text_def pad_left_def)
  let ?d = "ts_reduce ps"
  obtain m2 where 2: "show_value i2c_bus (bytes '' X: %6ld'') (xvalue ?d) (i1, m1) = Some (Inr ((), i1, m2))" "ts_idle i1 m2"
    "sent UART1_THR m2 = sent UART1_THR m1 @ map ucast (bytes '' X: '' @ value_text (xvalue ?d))"
    using show_value_i2c [OF 1(2) value_formats(1), of "xvalue ?d"] t by (auto simp: bytes_def)
  obtain m3 where 3: "show_value i2c_bus (bytes '' Y: %6ld'') (yvalue ?d) (i1, m2) = Some (Inr ((), i1, m3))" "ts_idle i1 m3"
    "sent UART1_THR m3 = sent UART1_THR m2 @ map ucast (bytes '' Y: '' @ value_text (yvalue ?d))"
    using show_value_i2c [OF 2(2) value_formats(2), of "yvalue ?d"] t by (auto simp: bytes_def)
  obtain m4 where 4: "show_value i2c_bus (bytes '' P: %6ld  '' @ [13]) (pvalue ?d) (i1, m3) = Some (Inr ((), i1, m4))" "ts_idle i1 m4"
    "sent UART1_THR m4 = sent UART1_THR m3 @ map ucast (bytes '' P: '' @ value_text (pvalue ?d) @ [32, 32, 13])"
    using show_value_i2c [OF 3(2) value_formats(3), of "pvalue ?d"] t by (auto simp: bytes_def)
  have "touch_turn i2c_bus (i, m) = Some (Inr ((), i1, m4))"
    unfolding touch_turn_def using 1(1) 2(1) 3(1) 4(1) by simp
  moreover have "sent UART1_THR m4 = sent UART1_THR m1 @ map ucast (measurement_text ?d)"
    using 2(3) 3(3) 4(3) by (simp add: measurement_text_def del: UART1_THR_def)
  ultimately show ?thesis using 1 4(2) by blast
qed

theorem touch_turn_shows_witness:
  "\<exists>ps i' m1 m'. touch_turn i2c_bus (i2c_reset, \<lparr>dev = demo_adc, trace = []\<rparr>) = Some (Inr ((), i', m')) \<and> ts_idle i' m' \<and>
     sent UART1_THR m' = sent UART1_THR (m1 :: i2cdev machine) @ map ucast (measurement_text (ts_reduce ps))"
  using touch_turn_shows [OF ts_idle_demo] by blast

end
