(* ===== verification/Barcode.thy ===== *)
theory Barcode
  imports Prelude
begin

text \<open>
  The EAN-13 decoder of \<^verbatim>\<open>software/barcode/main.c\<close>: the run-length tables and \<open>Decode\<close> with
  its helpers \<open>Find\<close> and \<open>EanCode\<close>. The specification side builds the 95 modules of a symbol from
  the bit patterns of the EAN standard and takes their run lengths; the properties are the round
  trip in both scanning directions and what a successful decode can have stored.
\<close>

section \<open>Tables and table search\<close>

definition leftOdd :: "u8 list list" where
  "leftOdd = [[3,2,1,1], [2,2,2,1], [2,1,2,2], [1,4,1,1], [1,1,3,2], [1,2,3,1],
              [1,1,1,4], [1,3,1,2], [1,2,1,3], [3,1,1,2]]"

definition leftEven :: "u8 list list" where
  "leftEven = [[1,1,2,3], [1,2,2,2], [2,2,1,2], [1,1,4,1], [2,3,1,1], [1,3,2,1],
               [4,1,1,1], [2,1,3,1], [3,1,2,1], [2,1,1,3]]"

definition right_tab :: "u8 list list" where
  "right_tab = [[3,2,1,1], [2,2,2,1], [2,1,2,2], [1,4,1,1], [1,1,3,2], [1,2,3,1],
                [1,1,1,4], [1,3,2,1], [1,2,1,3], [3,1,1,2]]"

text \<open>\<open>memcmp(p, q, n) == 0\<close>.\<close>

definition memeq :: "'a list \<Rightarrow> 'a list \<Rightarrow> nat \<Rightarrow> bool" where
  "memeq p q n \<longleftrightarrow> take n p = take n q"

fun find_row :: "int \<Rightarrow> u8 list \<Rightarrow> u8 list list \<Rightarrow> int" where
  "find_row i s [] = -1"
| "find_row i s (row # rows) = (if memeq s row 4 then i else find_row (i + 1) s rows)"

definition Find :: "u8 list \<Rightarrow> u8 list list \<Rightarrow> int" where
  "Find s tab = find_row 0 s tab"

definition eanCodeSeq :: "string list" where
  "eanCodeSeq = [''LLLLLL'', ''LLGLGG'', ''LLGGLG'', ''LLGGGL'', ''LGLLGG'', ''LGGLLG'',
                 ''LGGGLL'', ''LGLGLG'', ''LGLGGL'', ''LGGLGL'']"

fun ean_row :: "int \<Rightarrow> string \<Rightarrow> string list \<Rightarrow> int" where
  "ean_row i s [] = -1"
| "ean_row i s (row # rows) = (if memeq s row 6 then i else ean_row (i + 1) s rows)"

definition EanCode :: "string \<Rightarrow> int" where
  "EanCode s = ean_row 0 s eanCodeSeq"

section \<open>Decode\<close>

text \<open>
  The local variables of \<open>Decode\<close> that its two loops share, with the global \<open>validData\<close>. The
  pointer is the rest of the code array. \<open>ean_code\<close> is not initialised by the source, so its first
  contents are an argument.
\<close>

record dec =
  ean_code :: string
  reverse :: bool
  pos :: int
  ptr :: "u8 list"
  valid :: "u8 list"

definition store_digit :: "int \<Rightarrow> dec \<Rightarrow> dec" where
  "store_digit d s = s\<lparr>valid := (valid s)[nat (pos s) := word_of_int d],
                       pos := pos s + (if reverse s then -1 else 1),
                       ptr := drop 4 (ptr s)\<rparr>"

definition left_step :: "nat \<Rightarrow> dec \<Rightarrow> int \<times> dec" where
  "left_step i s =
     (let d = Find (ptr s) leftOdd in
      if d = -1 then
        let d = Find (ptr s) leftEven in
        if d = -1 then
          let d = Find (ptr s) right_tab in
          if d = -1 then (-2, s) else (0, store_digit d s)
        else
          let s = (if i = 0 then s\<lparr>reverse := True, pos := 12\<rparr> else s)
          in (0, store_digit d (s\<lparr>ean_code := (ean_code s)[i := CHR ''G'']\<rparr>))
      else (0, store_digit d (s\<lparr>ean_code := (ean_code s)[i := CHR ''L'']\<rparr>)))"

definition right_step :: "nat \<Rightarrow> dec \<Rightarrow> int \<times> dec" where
  "right_step i s =
     (let d = Find (ptr s) leftOdd in
      if d = -1 then
        let d = Find (ptr s) leftEven in
        if d = -1 then
          let d = Find (ptr s) right_tab in
          if d = -1 then (-4, s) else (0, store_digit d s)
        else (0, store_digit d (s\<lparr>ean_code := (ean_code s)[5 - i := CHR ''L'']\<rparr>))
      else (0, store_digit d (s\<lparr>ean_code := (ean_code s)[5 - i := CHR ''G'']\<rparr>)))"

text \<open>\<open>for (i = 0; i < 6; i++)\<close> with the early return of the body.\<close>

fun six_loop :: "(nat \<Rightarrow> dec \<Rightarrow> int \<times> dec) \<Rightarrow> nat list \<Rightarrow> dec \<Rightarrow> int \<times> dec" where
  "six_loop step [] s = (0, s)"
| "six_loop step (i # is) s =
     (let (r, s') = step i s in if r = 0 then six_loop step is s' else (r, s'))"

definition set_first :: "dec \<Rightarrow> dec" where
  "set_first s = s\<lparr>valid := (valid s)[0 := word_of_int (EanCode (ean_code s))]\<rparr>"

definition Decode :: "u8 list \<Rightarrow> string \<Rightarrow> u8 list \<Rightarrow> int \<times> u8 list" where
  "Decode code ec vd =
     (if \<not> memeq code [1,1,1,1,1] 3 then (-1, vd)
      else
        let (r, s) = six_loop left_step [0..<6]
                       \<lparr>ean_code = ec, reverse = False, pos = 1, ptr = drop 3 code, valid = vd\<rparr>
        in if r \<noteq> 0 then (r, valid s)
        else let s = (if \<not> reverse s then set_first s else s)
        in if \<not> memeq (ptr s) [1,1,1,1,1] 5 then (-3, valid s)
        else let (r, s) = six_loop right_step [0..<6] (s\<lparr>ptr := drop 5 (ptr s)\<rparr>)
        in if r \<noteq> 0 then (r, valid s)
        else (0, valid (if reverse s then set_first s else s)))"

section \<open>The EAN-13 symbol of the standard\<close>

text \<open>
  The right-hand code set of the standard as seven modules per digit (1 is a bar); set L is its
  complement and set G its mirror image.
\<close>

definition R_modules :: "nat \<Rightarrow> bool list" where
  "R_modules d = map (\<lambda>c. c = CHR ''1'')
     ([''1110010'', ''1100110'', ''1101100'', ''1000010'', ''1011100'',
       ''1001110'', ''1010000'', ''1000100'', ''1001000'', ''1110100''] ! d)"

definition code_modules :: "char \<Rightarrow> nat \<Rightarrow> bool list" where
  "code_modules c d = (if c = CHR ''L'' then map Not (R_modules d)
                       else if c = CHR ''G'' then rev (R_modules d) else R_modules d)"

text \<open>The parity of the six left digits encodes the first digit.\<close>

definition parity :: "nat \<Rightarrow> string" where
  "parity d = [''LLLLLL'', ''LLGLGG'', ''LLGGLG'', ''LLGGGL'', ''LGLLGG'', ''LGGLLG'',
               ''LGGGLL'', ''LGLGLG'', ''LGLGGL'', ''LGGLGL''] ! d"

definition ean13_modules :: "nat list \<Rightarrow> bool list" where
  "ean13_modules ds =
     [True, False, True] @ concat (map2 code_modules (parity (ds ! 0)) (take 6 (drop 1 ds)))
     @ [False, True, False, True, False] @ concat (map (code_modules CHR ''R'') (drop 7 ds))
     @ [True, False, True]"

fun runs_from :: "bool \<Rightarrow> nat \<Rightarrow> bool list \<Rightarrow> nat list" where
  "runs_from b n [] = [n]"
| "runs_from b n (c # cs) = (if c = b then runs_from b (n + 1) cs else n # runs_from c 1 cs)"

fun runs :: "bool list \<Rightarrow> nat list" where
  "runs [] = []"
| "runs (c # cs) = runs_from c 1 cs"

definition ean13 :: "nat list \<Rightarrow> u8 list" where
  "ean13 ds = map of_nat (runs (ean13_modules ds))"

definition ean_digits :: "nat list \<Rightarrow> bool" where
  "ean_digits ds \<longleftrightarrow> length ds = 13 \<and> (\<forall>d \<in> set ds. d < 10)"

section \<open>Run lengths of a symbol\<close>

lemma runs_from_append:
  "last (b # cs) \<noteq> c \<Longrightarrow> runs_from b n (cs @ c # ds) = runs_from b n cs @ runs_from c 1 ds"
  by (induction b n cs rule: runs_from.induct) (auto split: if_splits)

lemma runs_append:
  "xs \<noteq> [] \<Longrightarrow> ys \<noteq> [] \<Longrightarrow> last xs \<noteq> hd ys \<Longrightarrow> runs (xs @ ys) = runs xs @ runs ys"
  by (cases xs; cases ys) (auto simp: runs_from_append)

text \<open>Blocks that all start with the same module and end with the other one.\<close>

definition block :: "bool \<Rightarrow> bool list \<Rightarrow> bool" where
  "block a bs \<longleftrightarrow> bs \<noteq> [] \<and> hd bs = a \<and> last bs = (\<not> a)"

lemma block_concat: "bss \<noteq> [] \<Longrightarrow> (\<forall>bs \<in> set bss. block a bs) \<Longrightarrow> block a (concat bss)"
  by (induction bss rule: list_nonempty_induct) (auto simp: block_def)

lemma runs_concat:
  "bss \<noteq> [] \<Longrightarrow> (\<forall>bs \<in> set bss. block a bs) \<Longrightarrow> runs (concat bss) = concat (map runs bss)"
proof (induction bss rule: list_nonempty_induct)
  case (cons bs bss)
  then have "block a bs" "block a (concat bss)" by (auto intro: block_concat)
  then have "runs (bs @ concat bss) = runs bs @ runs (concat bss)"
    by (intro runs_append) (auto simp: block_def)
  with cons show ?case by simp
qed simp

lemma digit_cases:
  "d < (10::nat) \<Longrightarrow> d = 0 \<or> d = 1 \<or> d = 2 \<or> d = 3 \<or> d = 4 \<or> d = 5 \<or> d = 6 \<or> d = 7 \<or> d = 8 \<or> d = 9"
  by arith

lemma code_L: "d < 10 \<Longrightarrow> block False (code_modules CHR ''L'' d) \<and>
    map of_nat (runs (code_modules CHR ''L'' d)) = leftOdd ! d"
  by (drule digit_cases, elim disjE)
    (simp_all add: code_modules_def R_modules_def block_def leftOdd_def)

lemma code_G: "d < 10 \<Longrightarrow> block False (code_modules CHR ''G'' d) \<and>
    map of_nat (runs (code_modules CHR ''G'' d)) = leftEven ! d"
  by (drule digit_cases, elim disjE)
    (simp_all add: code_modules_def R_modules_def block_def leftEven_def)

lemma code_R: "d < 10 \<Longrightarrow> block True (code_modules CHR ''R'' d) \<and>
    map of_nat (runs (code_modules CHR ''R'' d)) = leftOdd ! d"
  by (drule digit_cases, elim disjE)
    (simp_all add: code_modules_def R_modules_def block_def leftOdd_def)

text \<open>The run lengths of one left-hand digit under a parity letter.\<close>

definition left_row :: "char \<Rightarrow> nat \<Rightarrow> u8 list" where
  "left_row c d = (if c = CHR ''L'' then leftOdd ! d else leftEven ! d)"

lemma code_left:
  "c = CHR ''L'' \<or> c = CHR ''G'' \<Longrightarrow> d < 10 \<Longrightarrow> block False (code_modules c d) \<and>
     map of_nat (runs (code_modules c d)) = left_row c d"
  using code_L code_G by (auto simp: left_row_def)

lemma parity_letters: "d < 10 \<Longrightarrow> length (parity d) = 6 \<and> set (parity d) \<subseteq> {CHR ''L'', CHR ''G''}
    \<and> hd (parity d) = CHR ''L''"
  by (drule digit_cases, elim disjE) (simp_all add: parity_def)

lemma map2_left_rows:
  assumes "set ps \<subseteq> {CHR ''L'', CHR ''G''}" "\<forall>d \<in> set ds. d < 10"
  shows "map (map of_nat) (map runs (map2 code_modules ps ds)) = map2 left_row ps ds
       \<and> (\<forall>b \<in> set (map2 code_modules ps ds). block False b)"
proof -
  have "block False (code_modules c d) \<and> map of_nat (runs (code_modules c d)) = left_row c d"
    if "(c, d) \<in> set (zip ps ds)" for c d
    using that assms by (intro code_left) (auto dest: set_zip_leftD set_zip_rightD)
  then show ?thesis by fastforce
qed

lemma ean13_eq:
  assumes "ean_digits ds"
  shows "ean13 ds = [1,1,1] @ concat (map2 left_row (parity (ds ! 0)) (take 6 (drop 1 ds)))
     @ [1,1,1,1,1] @ concat (map (\<lambda>d. leftOdd ! d) (drop 7 ds)) @ [1,1,1]"
proof -
  let ?ls = "map2 code_modules (parity (ds ! 0)) (take 6 (drop 1 ds))"
  let ?rs = "map (code_modules CHR ''R'') (drop 7 ds)"
  from assms have len: "length ds = 13" and dig: "\<forall>d \<in> set ds. d < 10"
    by (auto simp: ean_digits_def)
  have p: "length (parity (ds ! 0)) = 6" "set (parity (ds ! 0)) \<subseteq> {CHR ''L'', CHR ''G''}"
    using parity_letters [of "ds ! 0"] len dig by auto
  have dig': "\<forall>d \<in> set (take 6 (drop 1 ds)). d < 10" "\<forall>d \<in> set (drop 7 ds). d < 10"
    using dig by (auto dest: in_set_takeD in_set_dropD)
  note L = map2_left_rows [OF p(2) dig'(1)]
  have R: "\<forall>b \<in> set ?rs. block True b" "map (map of_nat) (map runs ?rs) = map (\<lambda>d. leftOdd ! d) (drop 7 ds)"
    using dig'(2) code_R by auto
  have ne: "?ls \<noteq> []" "?rs \<noteq> []" using p len by auto
  have bl: "block False (concat ?ls)" "block True (concat ?rs)"
    using block_concat [OF ne(1), of False] block_concat [OF ne(2), of True] L R by auto
  have r1: "runs (concat ?rs @ [True, False, True]) = concat (map runs ?rs) @ [1,1,1]"
    using runs_append [of "concat ?rs" "[True, False, True]"] bl(2) runs_concat [OF ne(2) R(1)]
    by (simp add: block_def)
  have r2: "runs ([False, True, False, True, False] @ concat ?rs @ [True, False, True])
      = [1,1,1,1,1] @ concat (map runs ?rs) @ [1,1,1]"
    using runs_append [of "[False, True, False, True, False]" "concat ?rs @ [True, False, True]"] r1 bl(2)
    by (simp add: block_def)
  have r3: "runs (concat ?ls @ [False, True, False, True, False] @ concat ?rs @ [True, False, True])
      = concat (map runs ?ls) @ [1,1,1,1,1] @ concat (map runs ?rs) @ [1,1,1]"
    using runs_append [of "concat ?ls" "[False, True, False, True, False] @ concat ?rs @ [True, False, True]"]
      r2 bl(1) runs_concat [OF ne(1), of False] L by (simp add: block_def)
  have "runs (ean13_modules ds) = [1,1,1] @ concat (map runs ?ls) @ [1,1,1,1,1] @ concat (map runs ?rs) @ [1,1,1]"
    unfolding ean13_modules_def
    using runs_append [of "[True, False, True]" "concat ?ls @ [False, True, False, True, False] @ concat ?rs @ [True, False, True]"]
      r3 bl(1) by (simp add: block_def)
  then show ?thesis
    by (simp only: ean13_def map_append map_concat L [THEN conjunct1] R list.map of_nat_1)
qed

section \<open>Searching the tables\<close>

lemma Find_odd: "d < 10 \<Longrightarrow> Find (leftOdd ! d @ r) leftOdd = int d"
  by (drule digit_cases, elim disjE) (simp_all add: Find_def leftOdd_def memeq_def)

lemma Find_even_in_odd: "d < 10 \<Longrightarrow> Find (leftEven ! d @ r) leftOdd = -1"
  by (drule digit_cases, elim disjE) (simp_all add: Find_def leftOdd_def leftEven_def memeq_def)

lemma Find_even: "d < 10 \<Longrightarrow> Find (leftEven ! d @ r) leftEven = int d"
  by (drule digit_cases, elim disjE) (simp_all add: Find_def leftEven_def memeq_def)

lemma length_rows [simp]:
  "d < 10 \<Longrightarrow> length (leftOdd ! d) = 4" "d < 10 \<Longrightarrow> length (leftEven ! d) = 4"
  by (drule digit_cases, elim disjE, simp_all add: leftOdd_def leftEven_def)+

lemma rev_rows: "d < 10 \<Longrightarrow> rev (leftOdd ! d) = leftEven ! d \<and> rev (leftEven ! d) = leftOdd ! d"
  by (drule digit_cases, elim disjE) (simp_all add: leftOdd_def leftEven_def)

lemma EanCode_parity: "d < 10 \<Longrightarrow> EanCode (parity d) = int d"
  by (drule digit_cases, elim disjE) (simp_all add: EanCode_def parity_def eanCodeSeq_def memeq_def)

lemma find_row_hit: "find_row i s rows \<noteq> -1 \<Longrightarrow> 0 \<le> i \<Longrightarrow> \<exists>row \<in> set rows. take 4 s = take 4 row"
  by (induction i s rows rule: find_row.induct) (auto simp: memeq_def split: if_splits)

lemma find_row_range: "0 \<le> i \<Longrightarrow> find_row i s rows = -1 \<or>
    (i \<le> find_row i s rows \<and> find_row i s rows < i + int (length rows))"
  by (induction i s rows rule: find_row.induct) auto

lemma find_row_miss: "0 \<le> i \<Longrightarrow> row \<in> set rows \<Longrightarrow> take 4 s = take 4 row \<Longrightarrow> find_row i s rows \<noteq> -1"
  by (induction i s rows rule: find_row.induct) (auto simp: memeq_def)

section \<open>One loop iteration on a well-formed group\<close>

lemma left_step_row:
  assumes "d < 10" "c = CHR ''L'' \<or> c = CHR ''G''" "0 < i \<or> c = CHR ''L''"
  shows "left_step i \<lparr>ean_code = e, reverse = rv, pos = p, ptr = left_row c d @ r, valid = v\<rparr> =
     (0, \<lparr>ean_code = e[i := c], reverse = rv, pos = p + (if rv then -1 else 1), ptr = r,
          valid = v[nat p := of_nat d]\<rparr>)"
  using assms
  by (auto simp: left_step_def left_row_def store_digit_def Find_odd Find_even_in_odd Find_even Let_def)

lemma left_step_mirrored:
  assumes "d < 10"
  shows "left_step i \<lparr>ean_code = e, reverse = rv, pos = p, ptr = leftEven ! d @ r, valid = v\<rparr> =
     (let rv' = (rv \<or> i = 0); p' = (if i = 0 then 12 else p) in
      (0, \<lparr>ean_code = e[i := CHR ''G''], reverse = rv', pos = p' + (if rv' then -1 else 1), ptr = r,
           valid = v[nat p' := of_nat d]\<rparr>))"
  using assms by (auto simp: left_step_def store_digit_def Find_even_in_odd Find_even Let_def)

lemma right_step_odd:
  assumes "d < 10"
  shows "right_step i \<lparr>ean_code = e, reverse = rv, pos = p, ptr = leftOdd ! d @ r, valid = v\<rparr> =
     (0, \<lparr>ean_code = e[5 - i := CHR ''G''], reverse = rv, pos = p + (if rv then -1 else 1), ptr = r,
          valid = v[nat p := of_nat d]\<rparr>)"
  using assms by (auto simp: right_step_def store_digit_def Find_odd Let_def)

lemma right_step_mirrored:
  assumes "d < 10" "c = CHR ''L'' \<or> c = CHR ''G''"
  shows "right_step i \<lparr>ean_code = e, reverse = rv, pos = p, ptr = rev (left_row c d) @ r, valid = v\<rparr> =
     (0, \<lparr>ean_code = e[5 - i := c], reverse = rv, pos = p + (if rv then -1 else 1), ptr = r,
          valid = v[nat p := of_nat d]\<rparr>)"
  using assms rev_rows [of d]
  by (auto simp: right_step_def left_row_def store_digit_def Find_odd Find_even_in_odd Find_even Let_def)

lemma six: "[0..<6] = [0, 1, 2, 3, 4, 5]"
  by (simp add: upt_rec)

lemma length_6E:
  assumes "length xs = 6"
  obtains a b c d e f where "xs = [a, b, c, d, e, f]"
proof -
  from assms have "xs = [xs!0, xs!1, xs!2, xs!3, xs!4, xs!5]"
    by (intro nth_equalityI) (auto simp: less_Suc_eq numeral_eq_Suc)
  then show thesis by (rule that)
qed

lemma length_13E:
  assumes "length xs = 13"
  obtains z a b c d e f g h i j k l where "xs = [z, a, b, c, d, e, f, g, h, i, j, k, l]"
proof -
  from assms have "xs = [xs!0, xs!1, xs!2, xs!3, xs!4, xs!5, xs!6, xs!7, xs!8, xs!9, xs!10, xs!11, xs!12]"
    by (intro nth_equalityI) (auto simp: less_Suc_eq numeral_eq_Suc)
  then show thesis by (rule that)
qed

section \<open>Decoding a symbol\<close>

text \<open>The explicit shape of a symbol and of the arrays \<open>Decode\<close> works on.\<close>

lemma ean13_shape:
  assumes "ean_digits ds" "length ec = 6" "length vd = 13"
  obtains z a b c d e f g h i j k l p q r s t u e0 e1 e2 e3 e4 e5
    v0 v1 v2 v3 v4 v5 v6 v7 v8 v9 v10 v11 v12
  where "ds = [z, a, b, c, d, e, f, g, h, i, j, k, l]"
    "ec = [e0, e1, e2, e3, e4, e5]" "vd = [v0, v1, v2, v3, v4, v5, v6, v7, v8, v9, v10, v11, v12]"
    "\<forall>x \<in> set [z, a, b, c, d, e, f, g, h, i, j, k, l]. x < 10"
    "\<forall>x \<in> set [p, q, r, s, t, u]. x = CHR ''L'' \<or> x = CHR ''G''" "p = CHR ''L''"
    "EanCode [p, q, r, s, t, u] = int z"
    "ean13 ds = [1,1,1] @ left_row p a @ left_row q b @ left_row r c @ left_row s d @ left_row t e
       @ left_row u f @ [1,1,1,1,1] @ leftOdd ! g @ leftOdd ! h @ leftOdd ! i @ leftOdd ! j
       @ leftOdd ! k @ leftOdd ! l @ [1,1,1]"
proof -
  from assms(1) have len: "length ds = 13" and dig: "\<forall>d \<in> set ds. d < 10"
    by (auto simp: ean_digits_def)
  obtain z a b c d e f g h i j k l where ds: "ds = [z, a, b, c, d, e, f, g, h, i, j, k, l]"
    using length_13E [OF len] .
  have z: "z < 10" using dig ds by simp
  obtain p q r s t u where ps: "parity z = [p, q, r, s, t, u]"
    using length_6E parity_letters [OF z] by metis
  have letters: "\<forall>x \<in> set [p, q, r, s, t, u]. x = CHR ''L'' \<or> x = CHR ''G''" "p = CHR ''L''"
    using parity_letters [OF z] ps by auto
  obtain v0 v1 v2 v3 v4 v5 v6 v7 v8 v9 v10 v11 v12 where
    vd: "vd = [v0, v1, v2, v3, v4, v5, v6, v7, v8, v9, v10, v11, v12]"
    using length_13E [OF assms(3)] .
  obtain e0 e1 e2 e3 e4 e5 where ec: "ec = [e0, e1, e2, e3, e4, e5]"
    using length_6E [OF assms(2)] .
  have eq: "ean13 ds = [1,1,1] @ left_row p a @ left_row q b @ left_row r c @ left_row s d @ left_row t e
       @ left_row u f @ [1,1,1,1,1] @ leftOdd ! g @ leftOdd ! h @ leftOdd ! i @ leftOdd ! j
       @ leftOdd ! k @ leftOdd ! l @ [1,1,1]"
    unfolding ean13_eq [OF assms(1)] by (simp add: ds ps)
  show thesis
    using that [OF ds ec vd _ letters _ eq] dig [unfolded ds] EanCode_parity [OF z] ps by simp
qed

lemma decode_symbol:
  assumes "ean_digits ds" and "length ec = 6" and "length vd = 13"
  shows "Decode (ean13 ds @ junk) ec vd = (0, map of_nat ds)"
    and "Decode (rev (ean13 ds) @ junk) ec vd = (0, map of_nat ds)"
  by (rule ean13_shape [OF assms],
      simp add: Decode_def memeq_def six left_step_row right_step_odd set_first_def)
    (rule ean13_shape [OF assms],
      simp add: Decode_def memeq_def six rev_rows left_step_mirrored right_step_mirrored set_first_def)

section \<open>What a successful decode stored\<close>

text \<open>
  The rows of \<open>right_tab\<close> all occur in the two other tables, so the third search never succeeds
  where the first two failed.
\<close>

lemma right_tab_subset: "set right_tab \<subseteq> set leftOdd \<union> set leftEven"
  by (simp add: right_tab_def leftOdd_def leftEven_def)

lemma Find_hit: "Find s tab \<noteq> -1 \<longleftrightarrow> (\<exists>row \<in> set tab. take 4 s = take 4 row)"
  using find_row_hit [of 0 s tab] find_row_miss [of 0 _ tab s] by (auto simp: Find_def)

lemma Find_right_redundant:
  "Find s leftOdd = -1 \<Longrightarrow> Find s leftEven = -1 \<Longrightarrow> Find s right_tab = -1"
  using right_tab_subset Find_hit by blast

lemma Find_range: "Find s tab \<noteq> -1 \<Longrightarrow> 0 \<le> Find s tab \<and> Find s tab < int (length tab)"
  using find_row_range [of 0 s tab] by (simp add: Find_def)

lemma Find_digit:
  "Find s leftOdd \<noteq> -1 \<Longrightarrow> 0 \<le> Find s leftOdd \<and> Find s leftOdd < 10"
  "Find s leftEven \<noteq> -1 \<Longrightarrow> 0 \<le> Find s leftEven \<and> Find s leftEven < 10"
  by (use Find_range [of s leftOdd] in \<open>simp add: leftOdd_def\<close>)
    (use Find_range [of s leftEven] in \<open>simp add: leftEven_def\<close>)

text \<open>
  The loop invariant after \<open>k\<close> digits: the write position has moved \<open>k\<close> places from its end of
  \<open>validData\<close> and everything behind it is a digit.
\<close>

definition digits_behind :: "nat \<Rightarrow> dec \<Rightarrow> bool" where
  "digits_behind k s \<longleftrightarrow> length (valid s) = 13 \<and>
     (if reverse s then pos s = 12 - int k \<and> (\<forall>i. 13 \<le> i + k \<and> i \<le> 12 \<longrightarrow> valid s ! i < 10)
      else pos s = 1 + int k \<and> (\<forall>i. 1 \<le> i \<and> i \<le> k \<longrightarrow> valid s ! i < 10))"

lemma u8_digit: "0 \<le> d \<Longrightarrow> d < 10 \<Longrightarrow> (word_of_int d :: u8) < 10"
  by (simp add: word_less_alt uint_word_of_int)

lemma store_digit_behind:
  assumes "digits_behind k s" "k < 12" "0 \<le> d" "d < 10"
  shows "digits_behind (Suc k) (store_digit d s)"
  using assms u8_digit [OF assms(3,4)]
  by (auto simp: digits_behind_def store_digit_def nth_list_update split: if_splits)

lemma digits_behind_ean_code [simp]: "digits_behind k (s\<lparr>ean_code := e\<rparr>) = digits_behind k s"
  by (simp add: digits_behind_def)

lemma digits_behind_ptr [simp]: "digits_behind k (s\<lparr>ptr := e\<rparr>) = digits_behind k s"
  by (simp add: digits_behind_def)

lemma digits_behind_turn:
  "digits_behind 0 s \<Longrightarrow> digits_behind 0 (s\<lparr>reverse := True, pos := 12\<rparr>)"
  by (auto simp: digits_behind_def split: if_splits)

lemma left_step_behind:
  assumes "left_step k s = (0, s')" "digits_behind k s" "k < 12"
  shows "digits_behind (Suc k) s'"
  using assms Find_right_redundant [of "ptr s"] Find_digit [of "ptr s"] digits_behind_turn [of s]
  by (auto simp: left_step_def Let_def intro!: store_digit_behind split: if_splits)

lemma right_step_behind:
  assumes "right_step i s = (0, s')" "digits_behind k s" "k < 12"
  shows "digits_behind (Suc k) s'"
  using assms Find_right_redundant [of "ptr s"] Find_digit [of "ptr s"]
  by (auto simp: right_step_def Let_def intro!: store_digit_behind split: if_splits)

lemma six_loop_inv:
  assumes step: "\<And>i s s'. i < 6 \<Longrightarrow> f i s = (0, s') \<Longrightarrow> P i s \<Longrightarrow> P (Suc i) s'"
    and "six_loop f [j..<6] s = (0, s')" "P j s" "j \<le> 6"
  shows "P 6 s'"
  using assms(2-)
proof (induction "6 - j" arbitrary: j s)
  case (Suc d)
  then have j: "j < 6" by simp
  obtain s1 where s1: "f j s = (0, s1)" "six_loop f [Suc j..<6] s1 = (0, s')"
    using Suc.prems(1) by (auto simp: upt_conv_Cons [OF j] split: prod.splits if_splits)
  show ?case
    using Suc.hyps step [OF j s1(1) Suc.prems(2)] s1(2) j by (intro Suc.hyps(1)) auto
qed simp

lemma EanCode_cases: "word_of_int (EanCode e) = (255::u8) \<or> (word_of_int (EanCode e) :: u8) < 10"
  by (auto simp: EanCode_def eanCodeSeq_def)

lemma set_first_digits:
  "digits_behind k s \<Longrightarrow> k \<le> 12 \<Longrightarrow> digits_behind k (set_first s)
     \<and> (valid (set_first s) ! 0 = 255 \<or> valid (set_first s) ! 0 < 10)"
  using EanCode_cases by (auto simp: digits_behind_def set_first_def nth_list_update)

text \<open>Every step keeps the first entry once the position is past it, and the direction.\<close>

lemma right_step_frame:
  assumes "right_step i s = (0, s')"
  shows "reverse s' = reverse s \<and> (1 \<le> pos s \<longrightarrow> valid s' ! 0 = valid s ! 0)"
  using assms by (auto simp: right_step_def store_digit_def Let_def nth_list_update split: if_splits)

lemma left_loop_behind:
  assumes "six_loop left_step [0..<6] s = (0, s')" "digits_behind 0 s"
  shows "digits_behind 6 s'"
  using six_loop_inv [of left_step digits_behind 0 s s'] assms left_step_behind by fastforce

lemma right_loop_behind:
  assumes "six_loop right_step [0..<6] s = (0, s')" "digits_behind 6 s"
  shows "digits_behind 12 s' \<and> reverse s' = reverse s \<and> valid s' ! 0 = valid s ! 0"
proof -
  let ?P = "\<lambda>i t. digits_behind (6 + i) t \<and> reverse t = reverse s \<and> valid t ! 0 = valid s ! 0"
  have "?P (Suc i) t'" if i: "i < 6" and st: "right_step i t = (0, t')" and P: "?P i t" for i t t'
  proof -
    have "1 \<le> pos t" using P i by (auto simp: digits_behind_def split: if_splits)
    with right_step_frame [OF st] right_step_behind [OF st, of "6 + i"] P i show ?thesis by simp
  qed
  from six_loop_inv [of right_step ?P 0 s s', OF this] show ?thesis
    using assms by simp
qed

lemma digits_behind_12:
  "digits_behind 12 s \<Longrightarrow> length (valid s) = 13 \<and> (\<forall>i. 1 \<le> i \<and> i < 13 \<longrightarrow> valid s ! i < 10)"
  by (auto simp: digits_behind_def split: if_splits)

lemma Decode_stores:
  assumes "Decode code ec vd = (0, v)" "length vd = 13"
  shows "\<exists>s. valid s = v \<and> digits_behind 12 s \<and> (v ! 0 = 255 \<or> v ! 0 < 10)"
proof -
  let ?s0 = "\<lparr>ean_code = ec, reverse = False, pos = 1, ptr = drop 3 code, valid = vd\<rparr>"
  obtain r1 s1 where 1: "six_loop left_step [0..<6] ?s0 = (r1, s1)"
    by (cases "six_loop left_step [0..<6] ?s0")
  let ?s1 = "if \<not> reverse s1 then set_first s1 else s1"
  obtain r2 s2 where 2: "six_loop right_step [0..<6] (?s1\<lparr>ptr := drop 5 (ptr ?s1)\<rparr>) = (r2, s2)"
    by (cases "six_loop right_step [0..<6] (?s1\<lparr>ptr := drop 5 (ptr ?s1)\<rparr>)")
  from assms(1) have r: "r1 = 0" "r2 = 0" and v: "v = valid (if reverse s2 then set_first s2 else s2)"
    by (auto simp: Decode_def 1 2 Let_def split: if_splits)
  have "digits_behind 6 s1"
    using left_loop_behind [of ?s0 s1] 1 r assms(2) by (simp add: digits_behind_def)
  then have b6: "digits_behind 6 ?s1" "\<not> reverse s1 \<longrightarrow> valid ?s1 ! 0 = 255 \<or> valid ?s1 ! 0 < 10"
    using set_first_digits [of 6 s1] by auto
  have rev: "reverse ?s1 = reverse s1" by (simp add: set_first_def)
  have b12: "digits_behind 12 s2" "reverse s2 = reverse s1" "valid s2 ! 0 = valid ?s1 ! 0"
    using right_loop_behind [OF 2 [unfolded r]] b6 rev by auto
  show ?thesis
    using v b12 b6(2) set_first_digits [OF b12(1)]
    by (intro exI [of _ "if reverse s2 then set_first s2 else s2"]) (auto split: if_splits)
qed

section \<open>Properties\<close>

text \<open>
  C3. Decoding the run lengths of the EAN-13 symbol of any thirteen digits, scanned left to right,
  returns 0 and leaves exactly these digits in \<open>validData\<close>, whatever the arrays held before.
\<close>

theorem Decode_forward:
  assumes "ean_digits ds" and "length ec = 6" and "length vd = 13"
  shows "Decode (ean13 ds @ junk) ec vd = (0, map of_nat ds)"
  using assms by (rule decode_symbol)

theorem Decode_forward_witness:
  "Decode (ean13 [5,6,0,1,2,3,4,5,6,7,8,9,0] @ [9]) (replicate 6 CHR ''x'') (replicate 13 7)
     = (0, [5,6,0,1,2,3,4,5,6,7,8,9,0])"
  using Decode_forward [of "[5,6,0,1,2,3,4,5,6,7,8,9,0]" "replicate 6 CHR ''x''" "replicate 13 7" "[9]"]
  by (simp add: ean_digits_def)

text \<open>
  C4. Decoding the same symbol scanned right to left, where the decoder has to notice the direction
  from the first digit's code set and recover the first digit from the mirrored right half, gives
  the same digits.
\<close>

theorem Decode_backward:
  assumes "ean_digits ds" and "length ec = 6" and "length vd = 13"
  shows "Decode (rev (ean13 ds) @ junk) ec vd = (0, map of_nat ds)"
  using assms by (rule decode_symbol)

theorem Decode_backward_witness:
  "Decode (rev (ean13 [5,6,0,1,2,3,4,5,6,7,8,9,0]) @ [9]) (replicate 6 CHR ''x'') (replicate 13 7)
     = (0, [5,6,0,1,2,3,4,5,6,7,8,9,0])"
  using Decode_backward [of "[5,6,0,1,2,3,4,5,6,7,8,9,0]" "replicate 6 CHR ''x''" "replicate 13 7" "[9]"]
  by (simp add: ean_digits_def)

text \<open>
  Whatever array it is given, a decode that returns 0 has stored a digit at each of the
  positions 1 to 12 and at position 0 a digit or, when the parity letters are no first digit, 255.
\<close>

theorem Decode_digits:
  assumes "Decode code ec vd = (0, v)" and "length vd = 13"
  shows "length v = 13 \<and> (\<forall>i. 1 \<le> i \<and> i < 13 \<longrightarrow> v ! i < 10) \<and> (v ! 0 = 255 \<or> v ! 0 < 10)"
  using Decode_stores [OF assms] digits_behind_12 by blast

theorem Decode_digits_witness:
  "Decode ([1,1,1] @ concat (replicate 5 [3,2,1,1]) @ [1,1,2,3] @ [1,1,1,1,1] @ concat (replicate 6 [3,2,1,1]))
     ''xxxxxx'' (replicate 13 7) = (0, 255 # replicate 12 0)
   \<and> length (255 # replicate 12 (0::u8)) = 13"
proof -
  have d: "Decode ([1,1,1] @ concat (replicate 5 [3,2,1,1]) @ [1,1,2,3] @ [1,1,1,1,1] @ concat (replicate 6 [3,2,1,1]))
     ''xxxxxx'' (replicate 13 7) = (0, 255 # replicate 12 0)"
    by code_simp
  show ?thesis using d Decode_digits [OF d] by simp
qed

end
