(* ===== verification/Barcode_Reader.thy ===== *)
theory Barcode_Reader
  imports Barcode Uart_Polled
begin

text \<open>
  The reading half of \<^verbatim>\<open>software/barcode/main.c\<close>: the interrupt controller and timer
  set-up, the timer interrupt, the extension of its 16-bit tick to 32 bits, the scanner
  \<open>hand_barcode\<close> that turns edges of the light signal into run lengths, and the program's main loop.

  \<open>ticks\<close> is written by the timer interrupt while the code waits, so what a load of it returns is a
  function \<open>tk\<close> of the device state.
\<close>

section \<open>Interrupt controller and timer\<close>

definition VIC_BASE_ADDR :: u32 where
  [simp]: "VIC_BASE_ADDR = 0xFFFFF000"

definition VECT_ADDR_INDEX :: u32 where
  [simp]: "VECT_ADDR_INDEX = 0x100"

definition VECT_PRIO_INDEX :: u32 where
  [simp]: "VECT_PRIO_INDEX = 0x200"

definition initAIC :: "'d bus \<Rightarrow> 'd machine \<Rightarrow> 'd machine" where
  "initAIC B m =
     (let m = wr B VICIntEnClr 0xffffffff m;
          m = wr B VICVectAddr 0 m;
          m = wr B VICIntSelect 0 m
      in fold (\<lambda>i m. wr B (VIC_BASE_ADDR + VECT_PRIO_INDEX + of_nat i * 4) 0xF
                (wr B (VIC_BASE_ADDR + VECT_ADDR_INDEX + of_nat i * 4) 0 m)) [0..<32] m)"

text \<open>The address of the assembly stub \<open>Timer0ISRH\<close> is a parameter.\<close>

definition initTimer :: "'d bus \<Rightarrow> u32 \<Rightarrow> u16 \<times> 'd machine \<Rightarrow> u16 \<times> 'd machine" where
  "initTimer B isr s =
     (let m = snd s;
          m = or_wr B PCONP (push_bit 1 1) m;
          m = wr B TIMER0_TCR 0x2 m;
          m = wr B TIMER0_TCR 0x0 m;
          m = wr B TIMER0_TCR 0 m;
          m = wr B TIMER0_MCR 0x3 m;
          m = wr B TIMER0_PR 2 m;
          m = wr B TIMER0_MR0 500 m;
          m = or_wr B TIMER0_IR (push_bit 0 1) m;
          m = and_wr B VICIntSelect (NOT (VIC_BIT VIC_TIMER0)) m;
          m = wr B VICIntEnable (VIC_BIT VIC_TIMER0) m;
          m = wr B VICVectCntl1 (VIC_ENABLE OR of_nat VIC_TIMER0) m;
          m = wr B VICVectAddr1 isr m
      in (0, or_wr B TIMER0_TCR (push_bit 0 1) m))"

definition Timer0Handler :: "'d bus \<Rightarrow> u16 \<times> 'd machine \<Rightarrow> u16 \<times> 'd machine" where
  "Timer0Handler B s =
     (let (ticks, m) = s;
          m = wr B TIMER0_IR 1 m;
          ticks = ticks + 1
      in (ticks, wr B VICVectAddr 0 m))"

section \<open>The extended tick counter\<close>

record ctr =
  previous :: u32
  actual :: u32
  counter :: u32

definition counter_read :: "u16 \<Rightarrow> ctr \<Rightarrow> u32 \<times> ctr" where
  "counter_read ticks c =
     (let prev = actual c;
          act = ucast ticks;
          cnt = (counter c AND 0xffff0000) + act;
          cnt = (if act < prev then cnt + 0x10000 else cnt)
      in (cnt, \<lparr>previous = prev, actual = act, counter = cnt\<rparr>))"

text \<open>\<open>delay\<close>: the unsigned difference is compared with \<open>d\<close> converted to unsigned.\<close>

partial_function (option) delay_loop ::
  "'d bus \<Rightarrow> ('d \<Rightarrow> u16) \<Rightarrow> u32 \<Rightarrow> u32 \<Rightarrow> ('d \<Rightarrow> 'd) \<Rightarrow> 'd machine \<Rightarrow> 'd machine option" where
  "delay_loop B tk v d tick m =
     (if ucast (tk (dev m)) - v < d then delay_loop B tk v d tick (m\<lparr>dev := tick (dev m)\<rparr>) else Some m)"

section \<open>The scanner\<close>

definition read_signal :: "'d bus \<Rightarrow> 'd machine \<Rightarrow> bool \<times> 'd machine" where
  "read_signal B m = (let (v, m) = rd B IO0PIN m in (v AND push_bit 21 1 = 0, m))"

partial_function (option) wait_edge :: "'d bus \<Rightarrow> bool \<Rightarrow> 'd machine \<Rightarrow> 'd machine option" where
  "wait_edge B aux m =
     (let (s, m) = read_signal B m in if s = aux then wait_edge B aux m else Some m)"

text \<open>
  The two measuring loops. The time they assign stays unassigned (\<open>None\<close>) when the loop body never
  runs; the second one gives up after 5000 ticks.
\<close>

partial_function (option) measure_bit ::
  "'d bus \<Rightarrow> ('d \<Rightarrow> u16) \<Rightarrow> bool \<Rightarrow> u32 \<Rightarrow> u32 option \<Rightarrow> ctr \<Rightarrow> 'd machine
     \<Rightarrow> (u32 option \<times> ctr \<times> 'd machine) option" where
  "measure_bit B tk aux timer t c m =
     (let (s, m) = read_signal B m in
      if s = aux then
        let (n, c) = counter_read (tk (dev m)) c in measure_bit B tk aux timer (Some (n - timer)) c m
      else Some (t, c, m))"

partial_function (option) measure_run ::
  "'d bus \<Rightarrow> ('d \<Rightarrow> u16) \<Rightarrow> bool \<Rightarrow> u32 \<Rightarrow> u32 option \<Rightarrow> ctr \<Rightarrow> 'd machine
     \<Rightarrow> (bool \<times> u32 option \<times> ctr \<times> 'd machine) option" where
  "measure_run B tk aux timer t c m =
     (let (s, m) = read_signal B m in
      if s = aux then
        let (n, c) = counter_read (tk (dev m)) c in
        if n - timer > 5000 then Some (True, Some (n - timer), c, m)
        else measure_run B tk aux timer (Some (n - timer)) c m
      else Some (False, t, c, m))"

text \<open>
  The quantisation of one run: the module count, the adapted module time and the store into the
  60-byte array \<open>code\<close>.
\<close>

record scan =
  bittime :: u32
  code :: "u8 list"
  i_code :: nat

definition scan_step :: "u32 \<Rightarrow> scan \<Rightarrow> fault + scan" where
  "scan_step actualtime s =
     (let b = bittime s in
      if b = 0 then Inl DivByZero
      else let n = (actualtime + b div 2) div b in
      if n + 1 = 0 then Inl DivByZero
      else if length (code s) \<le> i_code s then Inl OutOfBounds
      else Inr \<lparr>bittime = (actualtime + b) div (n + 1),
                code = (code s)[i_code s := ucast n], i_code = i_code s + 1\<rparr>)"

partial_function (option) scan_loop ::
  "'d bus \<Rightarrow> ('d \<Rightarrow> u16) \<Rightarrow> u32 \<Rightarrow> u32 option \<Rightarrow> scan \<Rightarrow> ctr \<Rightarrow> 'd machine
     \<Rightarrow> ((fault + int) \<times> scan \<times> ctr \<times> 'd machine) option" where
  "scan_loop B tk timer t s c m =
     (let (aux, m) = read_signal B m in
      Option.bind (measure_run B tk aux timer t c m) (\<lambda>(out, t, c, m).
        if out then Some (Inr (int (i_code s)), s, c, m)
        else case t of
          None \<Rightarrow> Some (Inl Uninit, s, c, m)
        | Some actualtime \<Rightarrow>
            (case scan_step actualtime s of
               Inl f \<Rightarrow> Some (Inl f, s, c, m)
             | Inr s' \<Rightarrow> if i_code s' > 60 then Some (Inr (-1), s', c, m)
                        else scan_loop B tk (timer + actualtime) t s' c m)))"

definition hand_barcode :: "'d bus \<Rightarrow> ('d \<Rightarrow> u16) \<Rightarrow> u8 list \<Rightarrow> ctr \<Rightarrow> 'd machine
     \<Rightarrow> ((fault + int) \<times> u8 list \<times> ctr \<times> 'd machine) option" where
  "hand_barcode B tk buf c m = do {
     let (aux, m) = read_signal B m;
     m \<leftarrow> wait_edge B aux m;
     let (timer, c) = counter_read (tk (dev m)) c;
     let (aux, m) = read_signal B m;
     (bt, c, m) \<leftarrow> measure_bit B tk aux timer None c m;
     case bt of
       None \<Rightarrow> Some (Inl Uninit, buf, c, m)
     | Some b \<Rightarrow> do {
         (r, s, c, m) \<leftarrow> scan_loop B tk (timer + b) None
            \<lparr>bittime = b, code = buf[0 := 1], i_code = 1\<rparr> c m;
         Some (r, code s, c, m)
       }
   }"

declare delay_loop.simps [code] wait_edge.simps [code] measure_bit.simps [code] measure_run.simps [code]
  scan_loop.simps [code]

section \<open>The program\<close>

definition barcode_setup :: "'d bus \<Rightarrow> u32 \<Rightarrow> u16 \<times> 'd machine \<Rightarrow> u16 \<times> 'd machine" where
  "barcode_setup B isr s =
     (let s = (fst s, initAIC B (snd s));
          (ticks, m) = initTimer B isr s;
          m = and_wr B PINSEL0 (NOT 0x50000) m;
          m = or_wr B PINSEL0 0x50000 m;
          m = wr8 B UART1_LCR 0x80 m;
          m = wr8 B UART1_DLM (ucast (drop_bit 8 BAUDRATEDIVISOR AND 0x00ff)) m;
          m = wr8 B UART1_DLL (ucast (BAUDRATEDIVISOR AND 0x00ff)) m;
          m = wr8 B UART1_LCR 3 m;
          m = and_wr B PINSEL1 (NOT (push_bit 10 0x3)) m;
          m = or_wr B IO0DIR (push_bit 23 1) m;
          m = wr B IO0SET (push_bit 23 1) m
      in (ticks, wr B IO0CLR (push_bit 23 1) m))"

fun print_digits :: "'d bus \<Rightarrow> nat list \<Rightarrow> u8 list \<Rightarrow> 'd machine \<Rightarrow> 'd machine option" where
  "print_digits B [] vd m = Some m"
| "print_digits B (i # is) vd m = do {
     m \<leftarrow> (if i = 1 \<or> i = 7 then Uart1PutChar B 45 m else Some m);
     m \<leftarrow> Uart1PutChar B (48 + vd ! i) m;
     print_digits B is vd m
   }"

text \<open>
  One turn of the main loop, after the greeting. None of the format strings contains a conversion,
  so \<open>Uart1Printf\<close> sends them as they are.
\<close>

definition barcode_turn :: "'d bus \<Rightarrow> ('d \<Rightarrow> u16) \<Rightarrow> string \<Rightarrow> u8 list \<Rightarrow> u8 list \<Rightarrow> ctr \<Rightarrow> 'd machine
     \<Rightarrow> ((fault + u8 list \<times> u8 list \<times> ctr) \<times> 'd machine) option" where
  "barcode_turn B tk ec buf vd c m = do {
     m \<leftarrow> Uart1PutStr B (bytes ''Reading:... '') m;
     (r, buf, c, m) \<leftarrow> hand_barcode B tk buf c m;
     case r of
       Inl f \<Rightarrow> Some (Inl f, m)
     | Inr n \<Rightarrow>
         if n = 59 then do {
           m \<leftarrow> Uart1PutStr B (bytes ''OK.\<newline>DECODE: '') m;
           let (e, vd) = Decode buf ec vd;
           m \<leftarrow> (if e = 0 then do {
                   m \<leftarrow> print_digits B [0..<13] vd m;
                   Uart1PutStr B (bytes ''\<newline>'') m
                 } else Uart1PutStr B (bytes ''Error\<newline>'') m);
           Some (Inr (buf, vd, c), m)
         } else do {
           m \<leftarrow> Uart1PutStr B (bytes ''Error (reading)\<newline>'') m;
           Some (Inr (buf, vd, c), m)
         }
   }"

section \<open>The tick counter refines an unbounded one\<close>

text \<open>\<open>T\<close> is the number of timer interrupts taken so far.\<close>

definition ctr_at :: "nat \<Rightarrow> ctr \<Rightarrow> bool" where
  "ctr_at T c \<longleftrightarrow> actual c = of_nat (T mod 2 ^ 16) \<and> counter c = of_nat T"

lemma of_nat_high_part: "(of_nat T AND 0xffff0000 :: u32) = of_nat (T div 2 ^ 16 * 2 ^ 16)"
proof (rule bit_word_eqI)
  fix n assume n: "n < LENGTH(32)"
  have m: "bit (0xffff0000 :: u32) n \<longleftrightarrow> 16 \<le> n"
  proof -
    have "(0xffff0000 :: u32) = push_bit 16 (mask 16)" by (simp add: mask_eq_exp_minus_1)
    then have "bit (0xffff0000 :: u32) n = bit (push_bit 16 (mask 16) :: u32) n" by (rule arg_cong)
    also have "\<dots> \<longleftrightarrow> 16 \<le> n" using n by (simp only: bit_push_bit_iff bit_mask_iff) auto
    finally show ?thesis .
  qed
  have "T div 2 ^ 16 * 2 ^ 16 = push_bit 16 (drop_bit 16 T)"
    by (simp add: push_bit_eq_mult drop_bit_eq_div)
  then show "bit (of_nat T AND 0xffff0000 :: u32) n = bit (of_nat (T div 2 ^ 16 * 2 ^ 16) :: u32) n"
    using n m by (auto simp: bit_and_iff bit_of_nat_iff bit_push_bit_iff bit_drop_bit_eq)
qed

lemma ucast_of_nat_mod: "(ucast (of_nat T :: u16) :: u32) = of_nat (T mod 2 ^ 16)"
proof (rule bit_word_eqI)
  fix n assume "n < LENGTH(32)"
  then show "bit (ucast (of_nat T :: u16) :: u32) n = bit (of_nat (T mod 2 ^ 16) :: u32) n"
    unfolding take_bit_eq_mod [symmetric] by (auto simp: bit_ucast_iff bit_of_nat_iff bit_take_bit_iff)
qed

lemma counter_wrap_nat:
  assumes "T \<le> T'" "T' < T + 2 ^ 16"
  shows "(T div 2 ^ 16 * 2 ^ 16 + T' mod 2 ^ 16 + (if T' mod 2 ^ 16 < T mod 2 ^ 16 then 2 ^ 16 else 0)) = (T'::nat)"
proof -
  define q r q' r' where qr: "q = T div 2 ^ 16" "r = T mod 2 ^ 16" "q' = T' div 2 ^ 16" "r' = T' mod 2 ^ 16"
  have T: "T = q * 65536 + r" "T' = q' * 65536 + r'" "r < 65536" "r' < 65536"
    using div_mult_mod_eq [of T "2 ^ 16"] div_mult_mod_eq [of T' "2 ^ 16"] by (simp_all add: qr)
  have "q' < q + 2" "q < q' + 1" using assms T by simp_all
  then have "q' = q \<or> q' = q + 1" by linarith
  then have "q * 65536 + r' + (if r' < r then 65536 else 0) = T'" using assms T by auto
  then show ?thesis by (simp add: qr split: if_splits)
qed

lemma counter_read_exact:
  assumes "ctr_at T c" "T \<le> T'" "T' < T + 2 ^ 16"
  shows "fst (counter_read (of_nat T') c) = of_nat T' \<and> ctr_at T' (snd (counter_read (of_nat T') c))"
proof -
  have lt: "(of_nat (T' mod 2 ^ 16) :: u32) < of_nat (T mod 2 ^ 16) \<longleftrightarrow> T' mod 2 ^ 16 < T mod 2 ^ 16"
  proof -
    have "unat (of_nat (x mod 2 ^ 16) :: u32) = x mod 2 ^ 16" for x
      using mod_less_divisor [of "2 ^ 16" x] by (simp add: unsigned_of_nat take_bit_nat_eq_self)
    then show ?thesis by (simp only: word_less_nat_alt)
  qed
  have "(of_nat (T div 2 ^ 16 * 2 ^ 16) + of_nat (T' mod 2 ^ 16) + (if T' mod 2 ^ 16 < T mod 2 ^ 16 then 0x10000 else 0) :: u32)
      = of_nat (T div 2 ^ 16 * 2 ^ 16 + T' mod 2 ^ 16 + (if T' mod 2 ^ 16 < T mod 2 ^ 16 then 2 ^ 16 else 0))"
    by simp
  also have "\<dots> = of_nat T'" by (simp only: counter_wrap_nat [OF assms(2,3)])
  finally have "counter_read (of_nat T') c = (of_nat T', \<lparr>previous = actual c, actual = of_nat (T' mod 2 ^ 16), counter = of_nat T'\<rparr>)"
    using assms(1) unfolding counter_read_def ctr_at_def Let_def
    by (simp add: of_nat_high_part ucast_of_nat_mod lt [simplified] del: of_nat_mult of_nat_add split: if_splits)
  then show ?thesis by (simp add: ctr_at_def)
qed

section \<open>The scanner quantises measured times\<close>

text \<open>What the scan loop does to the array, as a fold over the times it measured.\<close>

fun scan_steps :: "u32 list \<Rightarrow> scan \<Rightarrow> fault + scan" where
  "scan_steps [] s = Inr s"
| "scan_steps (t # ts) s = (case scan_step t s of Inl f \<Rightarrow> Inl f | Inr s' \<Rightarrow> scan_steps ts s')"

lemma scan_step_shape:
  "scan_step t s = Inr s' \<Longrightarrow> i_code s < length (code s) \<and> i_code s' = Suc (i_code s)
     \<and> length (code s') = length (code s)"
  by (auto simp: scan_step_def Let_def split: if_splits)

text \<open>
  If the loop returns a number, that number is the count of array entries, which is at most 60,
  and the array is the quantisation of some list of times: the return value \<open>-1\<close> cannot happen,
  because the store of the sixty-first entry comes before its test.
\<close>

lemma scan_loop_quantises:
  assumes "scan_loop B tk timer t s c m = Some (Inr v, s', c', m')" "length (code s) = 60" "i_code s \<le> 60"
  shows "v = int (i_code s') \<and> i_code s' \<le> 60 \<and> (\<exists>ts. scan_steps ts s = Inr s')"
proof -
  have "\<forall>v s' c' m'. x = (Inr v, s', c', m') \<longrightarrow> length (code s) = 60 \<longrightarrow> i_code s \<le> 60 \<longrightarrow>
      v = int (i_code s') \<and> i_code s' \<le> 60 \<and> (\<exists>ts. scan_steps ts s = Inr s')"
    if "scan_loop B tk timer t s c m = Some x" for x
  proof (rule scan_loop.raw_induct [where P = "\<lambda>B tk timer t s c m x. \<forall>v s' c' m'. x = (Inr v, s', c', m') \<longrightarrow>
      length (code s) = 60 \<longrightarrow> i_code s \<le> 60 \<longrightarrow>
      v = int (i_code s') \<and> i_code s' \<le> 60 \<and> (\<exists>ts. scan_steps ts s = Inr s')", OF _ that], intro allI impI)
    fix f :: "'a bus \<Rightarrow> ('a \<Rightarrow> u16) \<Rightarrow> u32 \<Rightarrow> u32 option \<Rightarrow> scan \<Rightarrow> ctr \<Rightarrow> 'a machine
       \<Rightarrow> ((fault + int) \<times> scan \<times> ctr \<times> 'a machine) option"
      and B tk timer t s c m x v s' c' m'
    assume IH: "\<And>B tk timer t s c m x. f B tk timer t s c m = Some x \<Longrightarrow> \<forall>v s' c' m'. x = (Inr v, s', c', m') \<longrightarrow>
        length (code s) = 60 \<longrightarrow> i_code s \<le> 60 \<longrightarrow>
        v = int (i_code s') \<and> i_code s' \<le> 60 \<and> (\<exists>ts. scan_steps ts s = Inr s')"
      and eq: "(let (aux, m) = read_signal B m in
         Option.bind (measure_run B tk aux timer t c m) (\<lambda>(out, t, c, m).
           if out then Some (Inr (int (i_code s)), s, c, m)
           else case t of
             None \<Rightarrow> Some (Inl Uninit, s, c, m)
           | Some actualtime \<Rightarrow>
               (case scan_step actualtime s of
                  Inl f \<Rightarrow> Some (Inl f, s, c, m)
                | Inr s' \<Rightarrow> if i_code s' > 60 then Some (Inr (-1), s', c, m)
                           else f B tk (timer + actualtime) t s' c m))) = Some x"
      and x: "x = (Inr v, s', c', m')" and s: "length (code s) = 60" "i_code s \<le> 60"
    obtain aux m1 where rs: "read_signal B m = (aux, m1)" by (cases "read_signal B m")
    obtain out t1 c1 m2 where mr: "measure_run B tk aux timer t c m1 = Some (out, t1, c1, m2)"
      using eq by (auto simp: rs bind_eq_Some_conv)
    note eq' = eq [unfolded rs mr Let_def prod.case bind.simps x]
    show "v = int (i_code s') \<and> i_code s' \<le> 60 \<and> (\<exists>ts. scan_steps ts s = Inr s')"
    proof (cases out)
      case True
      then show ?thesis using eq' s by (auto intro: exI [of _ "[]"])
    next
      case False
      then obtain a s1 where t1: "t1 = Some a" and st: "scan_step a s = Inr s1"
        using eq' by (auto split: option.splits sum.splits)
      then have le: "i_code s1 \<le> 60" and f: "f B tk (timer + a) t1 s1 c1 m2 = Some (Inr v, s', c', m')"
        using eq' False s scan_step_shape [OF st] by auto
      obtain ts where "scan_steps ts s1 = Inr s'" "v = int (i_code s')" "i_code s' \<le> 60"
        using IH [OF f] le s scan_step_shape [OF st] by auto
      then show ?thesis using st by (auto intro!: exI [of _ "a # ts"])
    qed
  qed
  with assms show ?thesis by blast
qed

lemma scan_steps_grows: "scan_steps ts s = Inr s' \<Longrightarrow> i_code s \<le> i_code s'"
  by (induction ts arbitrary: s) (force dest!: scan_step_shape split: sum.splits)+

lemma hand_barcode_quantises:
  assumes "hand_barcode B tk buf c m = Some (Inr v, buf', c', m')" "length buf = 60"
  shows "\<exists>b ts s. scan_steps ts \<lparr>bittime = b, code = buf[0 := 1], i_code = 1\<rparr> = Inr s \<and>
           buf' = code s \<and> v = int (i_code s) \<and> i_code s \<le> 60"
  using assms scan_loop_quantises [where s = "\<lparr>bittime = _, code = buf[0 := 1], i_code = 1\<rparr>"]
  unfolding hand_barcode_def
  by (fastforce simp: Let_def split: prod.splits bind_splits option.splits)

text \<open>
  Rounding: a time within half a module of \<open>k\<close> modules counts as \<open>k\<close>.
\<close>

lemma rounds_to:
  fixes b t :: u32
  assumes "k * unat b \<le> unat t + unat b div 2" "unat t + unat b div 2 < (k + 1) * unat b"
    and "unat t + unat b div 2 < 2 ^ 32"
  shows "(t + b div 2) div b = of_nat k"
proof -
  have "unat (t + b div 2) = unat t + unat b div 2"
    using assms(3) by (simp add: unat_word_ariths unat_div)
  moreover have "(unat t + unat b div 2) div unat b = k"
    using assms(1,2) by (intro div_nat_eqI) (simp_all add: mult.commute)
  ultimately have "unat ((t + b div 2) div b) = k" by (simp add: unat_div)
  then have "of_nat k = (of_nat (unat ((t + b div 2) div b)) :: u32)" by simp
  then show ?thesis by simp
qed

lemma scan_step_exact:
  assumes "0 < b" "b \<le> 1250" "k \<le> (4::u8)" "length pre < 60" "length pre + length post = 60"
  shows "scan_step (ucast k * b) \<lparr>bittime = b, code = pre @ post, i_code = length pre\<rparr>
    = Inr \<lparr>bittime = b, code = (pre @ [k]) @ drop 1 post, i_code = length (pre @ [k])\<rparr>"
proof -
  have k: "unat k \<le> 4" using assms(3) by (simp add: word_le_nat_alt)
  have b: "0 < unat b" "unat b \<le> 1250"
    using assms(1,2) by (simp_all add: word_le_nat_alt word_less_nat_alt)
  have kb: "unat k * unat b \<le> 4 * 1250" using k b by (intro mult_mono) auto
  have uk: "unat (ucast k :: u32) = unat k" by (simp add: unat_ucast_up)
  have t: "unat (ucast k * b :: u32) = unat k * unat b"
    using kb by (simp add: unat_word_ariths uk)
  have n: "(ucast k * b + b div 2) div b = (of_nat (unat k) :: u32)"
  proof (rule rounds_to)
    have "unat b div 2 < unat b" using b by simp
    then show "unat (ucast k * b) + unat b div 2 < (unat k + 1) * unat b" by (simp add: t)
    show "unat (ucast k * b) + unat b div 2 < 2 ^ 32" using kb b by (simp add: t)
  qed (simp add: t)
  have n': "(of_nat (unat k) :: u32) = ucast k" by simp
  have k1: "unat (ucast k + 1 :: u32) = unat k + 1"
    using k by (simp add: unat_word_ariths uk)
  have kb1: "unat (ucast k * b + b :: u32) = unat (ucast k * b :: u32) + unat b"
    using kb b by (simp add: unat_word_ariths uk)
  have "unat ((ucast k * b + b) div (ucast k + 1 :: u32)) = unat b"
  proof -
    have "unat k * unat b + unat b = (unat k + 1) * unat b" by simp
    then have "(unat k * unat b + unat b) div (unat k + 1) = unat b"
      using nonzero_mult_div_cancel_left [of "unat k + 1" "unat b"] by (simp add: add.commute)
    then show ?thesis using kb1 by (simp add: unat_div k1 t)
  qed
  then have b': "(ucast k * b + b) div (ucast k + 1 :: u32) = b" by (rule unsigned_word_eqI)
  have ne: "(ucast k + 1 :: u32) \<noteq> 0" using k1 by (metis add_is_0 one_neq_zero unsigned_0)
  obtain p ps where "post = p # ps" using assms(4,5) by (cases post) auto
  then show ?thesis
    using assms(1,4,5) n n' b' ne by (simp add: scan_step_def Let_def)
qed

lemma scan_steps_exact:
  assumes "0 < b" "b \<le> 1250" "\<forall>k \<in> set ks. k \<le> (4::u8)" "length pre + length post = 60"
    "length ks \<le> length post"
  shows "scan_steps (map (\<lambda>k. ucast k * b) ks) \<lparr>bittime = b, code = pre @ post, i_code = length pre\<rparr>
    = Inr \<lparr>bittime = b, code = (pre @ ks) @ drop (length ks) post, i_code = length (pre @ ks)\<rparr>"
  using assms(3-)
proof (induction ks arbitrary: pre post)
  case (Cons k ks)
  have "scan_step (ucast k * b) \<lparr>bittime = b, code = pre @ post, i_code = length pre\<rparr>
    = Inr \<lparr>bittime = b, code = (pre @ [k]) @ drop 1 post, i_code = length (pre @ [k])\<rparr>"
    using Cons.prems assms(1,2) by (intro scan_step_exact) auto
  then show ?case using Cons.IH [of "pre @ [k]" "drop 1 post"] Cons.prems by simp
qed simp

lemma row_small: "d < 10 \<Longrightarrow> list_all (\<lambda>k. k \<le> 4) (leftOdd ! d) \<and> list_all (\<lambda>k. k \<le> 4) (leftEven ! d)"
  by (drule digit_cases, elim disjE) (simp_all add: leftOdd_def leftEven_def)

lemma ean13_small:
  assumes "ean_digits ds"
  shows "length (ean13 ds) = 59 \<and> (\<forall>k \<in> set (ean13 ds). k \<le> 4) \<and> hd (ean13 ds) = 1 \<and> last (ean13 ds) = 1"
proof -
  have "length (replicate 6 CHR ''L'') = 6" "length (replicate 13 (0::u8)) = 13" by simp_all
  from ean13_shape [OF assms this] show ?thesis
  proof cases
    case (1 z a b c d e f g h i j k l p q r s t u)
    have row: "length (left_row x n) = 4 \<and> list_all (\<lambda>k. k \<le> 4) (left_row x n)" if "n < 10" for x n
      using row_small [OF that] that by (simp add: left_row_def)
    show ?thesis
      using 1(4) unfolding 1(8) list_all_iff [symmetric] by (simp add: row row_small)
  qed
qed

lemma scan_symbol:
  assumes ks: "length ks = 59" "\<forall>k \<in> set ks. k \<le> 4" "hd ks = 1"
    and "0 < b" "b \<le> 1250" "length buf = 60"
  shows "\<exists>r. scan_steps (map (\<lambda>k. ucast k * b) (tl ks)) \<lparr>bittime = b, code = buf[0 := 1], i_code = 1\<rparr>
     = Inr \<lparr>bittime = b, code = ks @ r, i_code = 59\<rparr>"
proof -
  obtain x buf' where buf: "buf = x # buf'" using assms(6) by (cases buf) auto
  obtain ks' where k: "ks = 1 # ks'" using ks by (cases ks) auto
  show ?thesis
    using scan_steps_exact [of b ks' "[1]" buf'] assms by (auto simp: buf k)
qed

lemma scan_decode:
  assumes "ean_digits ds" "ks = ean13 ds \<or> ks = rev (ean13 ds)"
    and "0 < b" "b \<le> 1250" "length buf = 60" "length ec = 6" "length vd = 13"
  shows "\<exists>s. scan_steps (map (\<lambda>k. ucast k * b) (tl ks)) \<lparr>bittime = b, code = buf[0 := 1], i_code = 1\<rparr> = Inr s
     \<and> i_code s = 59 \<and> Decode (code s) ec vd = (0, map of_nat ds)"
proof -
  have "length ks = 59 \<and> (\<forall>k \<in> set ks. k \<le> 4) \<and> hd ks = 1"
    using ean13_small [OF assms(1)] assms(2) by (auto simp: hd_rev)
  then obtain r where r: "scan_steps (map (\<lambda>k. ucast k * b) (tl ks)) \<lparr>bittime = b, code = buf[0 := 1], i_code = 1\<rparr>
     = Inr \<lparr>bittime = b, code = ks @ r, i_code = 59\<rparr>"
    using scan_symbol [of ks b buf] assms(3-5) by blast
  have "Decode (ean13 ds @ r) ec vd = (0, map of_nat ds)" "Decode (rev (ean13 ds) @ r) ec vd = (0, map of_nat ds)"
    using decode_symbol [OF assms(1,6,7)] by auto
  then show ?thesis using r assms(2) by auto
qed

section \<open>Properties\<close>

text \<open>
  C5. The tick counter is exact: as long as fewer than 65536 timer interrupts happen between two
  calls, \<open>counter_read\<close> returns the number of interrupts taken so far modulo \<open>2 ^ 32\<close>, across
  every wrap of the 16-bit tick, and keeps the relation for the next call.
\<close>

theorem counter_read_refines:
  assumes "ctr_at T c" and "T \<le> T'" and "T' < T + 2 ^ 16"
  shows "fst (counter_read (of_nat T') c) = of_nat T' \<and> ctr_at T' (snd (counter_read (of_nat T') c))"
  using assms by (rule counter_read_exact)

theorem counter_read_refines_witness:
  "fst (counter_read (of_nat 70000) \<lparr>previous = 0, actual = 60000, counter = 60000\<rparr>) = 70000"
  using counter_read_refines [of 60000 "\<lparr>previous = 0, actual = 60000, counter = 60000\<rparr>" 70000]
  by (simp add: ctr_at_def)



text \<open>
  C11. The scanner's error return cannot happen: whenever \<open>hand_barcode\<close> returns a number without
  leaving the array, that number is at most 60 and not \<open>-1\<close>, and the array is the quantisation of
  the times it measured. A longer signal first stores past the end of the array.
\<close>

theorem hand_barcode_result:
  assumes "hand_barcode B tk buf c m = Some (Inr v, buf', c', m')" and "length buf = 60"
  shows "1 \<le> v \<and> v \<le> 60 \<and> (\<exists>b ts s. scan_steps ts \<lparr>bittime = b, code = buf[0 := 1], i_code = 1\<rparr> = Inr s \<and>
           buf' = code s \<and> v = int (i_code s))"
  using hand_barcode_quantises [OF assms] scan_steps_grows by fastforce

text \<open>A signal that changes twice and then stays, and a clock that then runs past the time-out.\<close>

definition two_edges :: "nat bus" where
  "two_edges = \<lparr>bus_rd = (\<lambda>a d. (if 1 \<le> d \<and> d \<le> 3 then 0 else 0x200000, Suc d)), bus_wr = (\<lambda>a v d. d)\<rparr>"

definition late_clock :: "nat \<Rightarrow> u16" where
  "late_clock d = (if 7 \<le> d then 6000 else of_nat d)"

theorem hand_barcode_result_witness:
  "\<exists>b ts s. scan_steps ts \<lparr>bittime = b, code = (replicate 60 0)[0 := 1], i_code = 1\<rparr> = Inr s
     \<and> (replicate 60 0)[0 := 1] = code s \<and> (1::int) = int (i_code s)"
proof -
  have h: "hand_barcode two_edges late_clock (replicate 60 0) \<lparr>previous = 0, actual = 0, counter = 0\<rparr> \<lparr>dev = 0, trace = []\<rparr>
    = Some (Inr 1, (replicate 60 0)[0 := 1], \<lparr>previous = 4, actual = 6000, counter = 6000\<rparr>,
        \<lparr>dev = 7, trace = [RdA IO0PIN 0x200000, RdA IO0PIN 0, RdA IO0PIN 0, RdA IO0PIN 0, RdA IO0PIN 0x200000,
           RdA IO0PIN 0x200000, RdA IO0PIN 0x200000]\<rparr>)"
    by code_simp
  show ?thesis using hand_barcode_result [OF h] by simp
qed

end
