(* ===== verification/Uip_Port.thy ===== *)
theory Uip_Port
  imports Smsc9118_Rx Barcode_Reader
begin

text \<open>
  The TCP/IP port of \<^verbatim>\<open>software/uip-1.0\<close>: the later variant of the LAN9118 driver in \<^verbatim>\<open>smsc9118.c\<close>, which receives one frame at
  a time into the buffer of the uIP stack, the network device functions the stack calls, and \<^verbatim>\<open>main.c\<close>.

  Functions that are the same in both copies of the driver are those of the theory Smsc9118, on the same variables: the transmit
  buffer \<^verbatim>\<open>txb\<close> is \<open>ent_mtu\<close>, and the receive queue, which this variant comments out, is not used. The uIP stack itself is
  not in the repository. Its functions are the fields of \<open>stack\<close>, a parameter; they act on its globals and on a state of their own.
  So is its clock, a function of the machine.
\<close>

section \<open>The stack\<close>

text \<open>\<open>uip_appdata\<close> is the memory the pointer of this name points to.\<close>

record 'u uip =
  uip_buf :: "u8 list"
  uip_len :: u16
  uip_appdata :: "u8 list"
  uip_state :: 'u

datatype timer_id = periodic_timer | arp_timer

record 'u stack =
  UIP_LLH_LEN :: nat
  UIP_TCPIP_HLEN :: nat
  type_ip :: "u8 list \<Rightarrow> bool"
  type_arp :: "u8 list \<Rightarrow> bool"
  uip_arp_ipin :: "'u uip \<Rightarrow> 'u uip"
  uip_input :: "'u uip \<Rightarrow> 'u uip"
  uip_arp_out :: "'u uip \<Rightarrow> 'u uip"
  uip_arp_arpin :: "'u uip \<Rightarrow> 'u uip"
  uip_periodic :: "nat \<Rightarrow> 'u uip \<Rightarrow> 'u uip"
  uip_arp_timer :: "'u uip \<Rightarrow> 'u uip"
  timer_set :: "timer_id \<Rightarrow> u32 \<Rightarrow> 'u uip \<Rightarrow> 'u uip"
  timer_expired :: "timer_id \<Rightarrow> 'u uip \<Rightarrow> bool \<times> 'u uip"
  timer_reset :: "timer_id \<Rightarrow> 'u uip \<Rightarrow> 'u uip"
  uip_init :: "'u uip \<Rightarrow> 'u uip"
  uip_sethostaddr :: "u8 list \<Rightarrow> 'u uip \<Rightarrow> 'u uip"
  uip_setdraddr :: "u8 list \<Rightarrow> 'u uip \<Rightarrow> 'u uip"
  uip_setnetmask :: "u8 list \<Rightarrow> 'u uip \<Rightarrow> 'u uip"
  httpd_init :: "'u uip \<Rightarrow> 'u uip"

text \<open>The stack takes \<open>UIP_BUFSIZE\<close>, the number of connections and the ticks of a second from the configuration.\<close>

definition UIP_CONF_BUFFER_SIZE :: nat where
  "UIP_CONF_BUFFER_SIZE = 420"

definition UIP_CONF_MAX_CONNECTIONS :: nat where
  "UIP_CONF_MAX_CONNECTIONS = 40"

definition CLOCK_CONF_SECOND :: u32 where
  "CLOCK_CONF_SECOND = 1000"

section \<open>The address in the EEPROM\<close>

definition E2P_CMD :: u32 where
  [simp]: "E2P_CMD = 0x820000B0"

definition E2P_DATA :: u32 where
  [simp]: "E2P_DATA = 0x820000B4"

definition E2P_CMD_EPC_BUSY :: u32 where
  [simp]: "E2P_CMD_EPC_BUSY = 0x80000000"

definition E2P_CMD_EPC_CMD_READ :: u32 where
  [simp]: "E2P_CMD_EPC_CMD_READ = 0"

definition ID_REV_CHIP_118 :: u32 where
  [simp]: "ID_REV_CHIP_118 = 0x01180000"

definition ID_REV_CHIP_218 :: u32 where
  [simp]: "ID_REV_CHIP_218 = 0x115A0000"

definition not_busy :: "u32 \<Rightarrow> bool" where
  "not_busy v \<longleftrightarrow> v AND E2P_CMD_EPC_BUSY = 0"

definition read_eeprom_reg :: "'d bus \<Rightarrow> u8 \<Rightarrow> 'd machine \<Rightarrow> (u8 \<times> 'd machine) option" where
  "read_eeprom_reg B reg m =
     (let (v, m) = rd B E2P_CMD m in
      if \<not> not_busy v then Some (0xFF, m)
      else
        let m = wr B E2P_CMD (E2P_CMD_EPC_BUSY OR E2P_CMD_EPC_CMD_READ OR ucast reg) m in
        Option.bind (poll B E2P_CMD not_busy m) (\<lambda>(_, m). let (d, m) = rd B E2P_DATA m in Some (ucast d, m)))"

fun read_eeprom_regs :: "'d bus \<Rightarrow> u8 list \<Rightarrow> 'd machine \<Rightarrow> (u8 list \<times> 'd machine) option" where
  "read_eeprom_regs B [] m = Some ([], m)"
| "read_eeprom_regs B (r # rs) m =
     Option.bind (read_eeprom_reg B r m) (\<lambda>(v, m). Option.bind (read_eeprom_regs B rs m) (\<lambda>(vs, m). Some (v # vs, m)))"

text \<open>The result is the return value and the six bytes of \<open>mac_addr\<close>.\<close>

definition chip_present :: "'d bus \<Rightarrow> 'd machine \<Rightarrow> bool \<times> 'd machine" where
  "chip_present B m =
     (let (v, m) = rd B ID_REV m in
      if v AND ID_REV_ID_MASK = ID_REV_CHIP_118 then (True, m)
      else let (v, m) = rd B ID_REV m in (v AND ID_REV_ID_MASK = ID_REV_CHIP_218, m))"

definition board_get_enetaddr :: "'d bus \<Rightarrow> u8 list \<Rightarrow> 'd machine \<Rightarrow> (u32 \<times> u8 list \<times> 'd machine) option" where
  "board_get_enetaddr B mac_addr m =
     (let (ok, m) = chip_present B m in
      if \<not> ok then Some (1, mac_addr, m)
      else do {
        (_, m) \<leftarrow> poll B HW_CFG (\<lambda>v. v AND HW_CFG_SRST = 0) (wr B HW_CFG HW_CFG_SRST m);
        (_, m) \<leftarrow> poll B E2P_CMD not_busy m;
        (magic, m) \<leftarrow> read_eeprom_reg B 0x00 m;
        if magic \<noteq> 0xA5 then Some (1, mac_addr, m)
        else do {
          (vs, m) \<leftarrow> read_eeprom_regs B [0x01, 0x02, 0x03, 0x04, 0x05, 0x06] m;
          Some (0, patch mac_addr 0 vs, m)
        }
      })"

section \<open>Bring-up\<close>

definition ethaddr :: "u8 list" where
  "ethaddr = [0x00, 0xBD, 0x3B, 0x33, 0x06, 0x00]"

definition HW_CFG_SF :: u32 where
  [simp]: "HW_CFG_SF = 0x00100000"

definition open_reset_uip :: "'d bus \<Rightarrow> 'd machine \<Rightarrow> (bool \<times> 'd machine) option" where
  "open_reset_uip B m =
     (let m = wr B HW_CFG HW_CFG_SRST m;
          m = DELAY B 10 m;
          (v, m) = rd B PWR_MGMT m
      in if v AND PWR_MGMT_PM_MODE_MSK \<noteq> 0 then
           let m = wr B BYTE_TEST 0 m;
               m = DELAY B 1 m
           in Option.bind (timed_wait (flag_clear B PWR_MGMT PWR_MGMT_PME_READY) (lan9118_udelay B 1) PHY_TIMEOUT m) (\<lambda>(_, m).
                let (v, m) = rd B PWR_MGMT m in Some (v AND PWR_MGMT_PME_READY \<noteq> 0, m))
         else Some (True, m))"

definition open_vars_uip :: "lan \<Rightarrow> lan" where
  "open_vars_uip s = s\<lparr>txbp := True, rxNdx := 0, rxNdxIn := 0, rxNdxOut := 0, lastTxTag := 0\<rparr>"

definition open_fifos_uip :: "'d bus \<Rightarrow> 'd machine \<Rightarrow> 'd machine" where
  "open_fifos_uip B m =
     (let m = wr B TX_CFG (TX_CFG_TXS_DUMP OR TX_CFG_TXD_DUMP) m;
          m = wr B RX_CFG RX_CFG_FORCE_DISCARD m;
          (hw, m) = rd B HW_CFG m;
          m = wr B HW_CFG ((hw AND HW_CFG_TX_FIF_SZ_MSK) OR HW_CFG_SF) m;
          m = wr B FIFO_INT FIFO_INT_TDAL_MSK m;
          m = or_wr B INT_EN INT_EN_TDFA_INT_EN m;
          (macCR, m) = GetMacReg B MAC_CR m;
          macCR = macCR OR (MAC_CR_TXEN OR MAC_CR_HBDIS);
          macCR = macCR AND NOT MAC_CR_PRMS;
          macCR = macCR AND NOT MAC_CR_BCAST;
          (_, m) = SetMacReg B MAC_CR macCR m;
          m = wr B RX_CFG 0x00000000 m;
          (macCR, m) = GetMacReg B MAC_CR m;
          (_, m) = SetMacReg B MAC_CR (macCR OR MAC_CR_RXEN) m;
          (fi, m) = rd B FIFO_INT m;
          m = wr B FIFO_INT ((fi AND 0xFFFF0000) OR 0x00000101) m;
          m = or_wr B INT_EN (INT_EN_RSFL_INT_EN OR INT_EN_RXE_INT_EN) m
      in or_wr B INT_EN INT_EN_RXDFH_INT_EN m)"

definition lan9118_open_uip :: "'d bus \<Rightarrow> lan \<times> 'd machine \<Rightarrow> (fault + bool \<times> lan \<times> 'd machine) option" where
  "lan9118_open_uip B sm =
     (let (s, m) = sm in
      Option.bind (open_reset_uip B m) (\<lambda>(ok, m).
        if \<not> ok then Some (Inr (False, s, m))
        else case open_mac B (Some ethaddr) (open_vars_uip s, m) of
               Inl f \<Rightarrow> Some (Inl f)
             | Inr (s, m) \<Rightarrow>
                 Option.bind (open_phy B (open_fifos_uip B m)) (\<lambda>(ok, m). Some (Inr (ok, s, m)))))"

section \<open>Reception\<close>

definition word_bytes :: "u32 list \<Rightarrow> u8 list" where
  "word_bytes ws = concat (map (\<lambda>w. [ucast w, ucast (drop_bit 8 w), ucast (drop_bit 16 w), ucast (drop_bit 24 w)]) ws)"

text \<open>
  The words go to the local array \<open>dummy\<close>, of which only the words stored here are read, and the bytes of the frame from there
  to the stack's buffer.
\<close>

definition take_frame :: "'d bus \<Rightarrow> nat \<Rightarrow> lan \<times> 'u uip \<times> 'd machine \<Rightarrow> fault + lan \<times> 'u uip \<times> 'd machine" where
  "take_frame B count sm =
     (let (s, u, m) = sm;
          s = s\<lparr>TotalRxPackets := TotalRxPackets s + 1, TotalBytes := TotalBytes s + of_nat count,
                rxNdxIn := wrap_inc (rxNdxIn s), EmptyReads := 0\<rparr>
      in case fill B 0 ((count + 3) div 4) (replicate UIP_CONF_BUFFER_SIZE 0) m of
           Inl f \<Rightarrow> Inl f
         | Inr (dummy, m) \<Rightarrow>
             if length (uip_buf u) < count then Inl OutOfBounds
             else Inr (s, u\<lparr>uip_buf := patch (uip_buf u) 0 (take count (word_bytes dummy))\<rparr>, m))"

datatype uflow = Left | Next | Got nat

definition rx_turn_uip :: "'d bus \<Rightarrow> lan \<times> 'u uip \<times> 'd machine \<Rightarrow> (fault + uflow \<times> lan \<times> 'u uip \<times> 'd machine) option" where
  "rx_turn_uip B sm =
     (let (s, u, m) = sm;
          s = s\<lparr>rxNdx := wrap_inc (rxNdx s)\<rparr>;
          (rxStatus, m) = rd B RX_STATUS_FIFO_PORT m;
          len = unat (drop_bit 16 rxStatus);
          ffwdOk = (len \<ge> 4 * 4);
          count = kept_length rxStatus
      in if count = 0 then
           (if ffwdOk then Option.bind (fast_forward B m) (\<lambda>(fl, m). Some (Inr (case fl of Break \<Rightarrow> Left | Again \<Rightarrow> Next, s, u, m)))
            else Some (Inr (Next, s, u, drain B len m)))
         else Some (case take_frame B count (s, u, m) of Inl f \<Rightarrow> Inl f | Inr sm \<Rightarrow> Inr (Got count, sm)))"

text \<open>
  \<open>n\<close> is what is left of the \<open>NUM_RX_BUFF\<close> turns. \<open>handled\<close> is set only on the path that returns the frame, so that it is 0 after
  the loop.
\<close>

fun rx_loop_uip :: "'d bus \<Rightarrow> nat \<Rightarrow> lan \<times> 'u uip \<times> 'd machine \<Rightarrow> (fault + int \<times> lan \<times> 'u uip \<times> 'd machine) option" where
  "rx_loop_uip B n (s, u, m) =
     (let (v, m) = rd B RX_FIFO_INF m in
      if v AND 0x00FF0000 = 0 then Some (Inr (- 1, s\<lparr>EmptyReads := EmptyReads s + 1\<rparr>, u, m))
      else case n of
             0 \<Rightarrow> Some (Inr (- 1, s\<lparr>EmptyReads := EmptyReads s + 1\<rparr>, u, m))
           | Suc k \<Rightarrow>
               Option.bind (rx_turn_uip B (s, u, m)) (\<lambda>r.
                 case r of
                   Inl f \<Rightarrow> Some (Inl f)
                 | Inr (Left, s, u, m) \<Rightarrow> Some (Inr (- 1, s\<lparr>EmptyReads := EmptyReads s + 1\<rparr>, u, m))
                 | Inr (Next, sm) \<Rightarrow> rx_loop_uip B k sm
                 | Inr (Got count, sm) \<Rightarrow> Some (Inr (int count, sm))))"

definition lan9118_read_uip :: "'d bus \<Rightarrow> lan \<times> 'u uip \<times> 'd machine \<Rightarrow> (fault + int \<times> lan \<times> 'u uip \<times> 'd machine) option" where
  "lan9118_read_uip B = rx_loop_uip B PKTBUFSRX"

section \<open>Transmission\<close>

partial_function (option) tx_wait_uip ::
  "('d machine \<Rightarrow> u32 \<times> 'd machine) \<Rightarrow> 'd bus \<Rightarrow> u32 \<Rightarrow> int \<Rightarrow> 'd machine \<Rightarrow> (int \<times> 'd machine) option" where
  "tx_wait_uip clock_time B startTime len m =
     (let (v, m) = rd B TX_FIFO_INF m in
      if v AND TX_FIFO_TXSUSED_MSK = 0 then
        (let (t, m) = clock_time m in
         if t - startTime > TX_TIMEOUT then Some (- 1, m) else tx_wait_uip clock_time B startTime len m)
      else
        let (txStatus, m) = rd B TX_STATUS_FIFO_PORT m in
        if txStatus AND TX_STATUS_FIFO_ES = TX_STATUS_FIFO_ES then Some (- 1, m)
        else Some (len, or_wr B TX_CFG TX_CFG_STOP_TX m))"

declare tx_wait_uip.simps [code]

definition lan9118_write_uip :: "('d machine \<Rightarrow> u32 \<times> 'd machine) \<Rightarrow> 'd bus \<Rightarrow> u32 \<Rightarrow> u8 list \<Rightarrow> int \<Rightarrow> lan \<times> 'd machine
     \<Rightarrow> (fault + int \<times> lan \<times> 'd machine) option" where
  "lan9118_write_uip clock_time B txaddr packet len sm =
     (let (s, m) = sm;
          len = (if len > int ENET_MAX_MTU then int ENET_MAX_MTU else len)
      in if \<not> txbp s then Some (Inl NullDeref)
         else if len < 0 \<or> int (length packet) < len \<or> int (length (ent_mtu s)) < len then Some (Inl OutOfBounds)
         else
           let s = s\<lparr>ent_mtu := patch (ent_mtu s) 0 (take (nat len) packet)\<rparr>;
               (_, m) = drain_status B TX_TIMEOUT_COUNT m;
               (s, m) = sendToNet B txaddr (nat len) (s, m);
               (startTime, m) = clock_time m
           in map_option (\<lambda>(r, m). Inr (r, s, m)) (tx_wait_uip clock_time B startTime len m))"

definition eth_init_uip :: "'d bus \<Rightarrow> lan \<times> 'd machine \<Rightarrow> (fault + bool \<times> lan \<times> 'd machine) option" where
  "eth_init_uip B = lan9118_open_uip B"

definition eth_rx_uip :: "'d bus \<Rightarrow> lan \<times> 'u uip \<times> 'd machine \<Rightarrow> (fault + int \<times> lan \<times> 'u uip \<times> 'd machine) option" where
  "eth_rx_uip B = lan9118_read_uip B"

definition eth_send_uip :: "('d machine \<Rightarrow> u32 \<times> 'd machine) \<Rightarrow> 'd bus \<Rightarrow> u32 \<Rightarrow> u8 list \<Rightarrow> int \<Rightarrow> lan \<times> 'd machine
     \<Rightarrow> (fault + int \<times> lan \<times> 'd machine) option" where
  "eth_send_uip clock_time B txaddr packet len = lan9118_write_uip clock_time B txaddr packet len"

section \<open>The network device of the stack\<close>

definition tapdev_init :: "'d bus \<Rightarrow> lan \<times> 'd machine \<Rightarrow> (fault + lan \<times> 'd machine) option" where
  "tapdev_init B sm = map_option (map_sum id snd) (lan9118_open_uip B sm)"

definition tapdev_read :: "'d bus \<Rightarrow> lan \<times> 'u uip \<times> 'd machine \<Rightarrow> (fault + u32 \<times> lan \<times> 'u uip \<times> 'd machine) option" where
  "tapdev_read B sm =
     bind_run (lan9118_read_uip B sm) (\<lambda>r sm.
       let packetlen = (of_int r :: u16);
           packetlen = (if packetlen <s 0 then 0 else packetlen)
       in Some (Inr (scast packetlen, sm)))"

text \<open>The bytes \<open>p ! i, ..., p ! (n - 1)\<close> appended to \<open>dmtx\<close>; a load past the source or a store past the array faults.\<close>

definition append_from :: "u8 list \<Rightarrow> nat \<Rightarrow> nat \<Rightarrow> u8 list \<Rightarrow> fault + u8 list" where
  "append_from src i n dmtx =
     (if i < n \<and> (length src < n \<or> UIP_CONF_BUFFER_SIZE < length dmtx + (n - i)) then Inl OutOfBounds
      else Inr (dmtx @ take (n - i) (drop i src)))"

text \<open>\<open>dmtx\<close> is the part of the array filled so far; \<open>addr\<close> is its length.\<close>

definition tapdev_frame :: "'u stack \<Rightarrow> 'u uip \<Rightarrow> fault + u8 list" where
  "tapdev_frame S u =
     (let L = UIP_LLH_LEN S; H = UIP_TCPIP_HLEN S; n = unat (uip_len u) in
      bindE (append_from (uip_buf u) 0 L []) (\<lambda>dmtx.
        if n \<le> L + H then append_from (uip_buf u) L n dmtx
        else bindE (append_from (uip_buf u) L (H + L) dmtx) (append_from (uip_appdata u) 0 (n - H - L))))"

definition tapdev_send :: "'u stack \<Rightarrow> ('d machine \<Rightarrow> u32 \<times> 'd machine) \<Rightarrow> 'd bus \<Rightarrow> u32 \<Rightarrow> lan \<times> 'u uip \<times> 'd machine
     \<Rightarrow> (fault + lan \<times> 'u uip \<times> 'd machine) option" where
  "tapdev_send S clock_time B txaddr sm =
     (let (s, u, m) = sm in
      case tapdev_frame S u of
        Inl f \<Rightarrow> Some (Inl f)
      | Inr dmtx \<Rightarrow>
          map_option (map_sum id (\<lambda>(r, s, m). (s, u, m)))
            (lan9118_write_uip clock_time B txaddr dmtx (int (unat (uip_len u))) (s, m)))"

section \<open>The program\<close>

definition Timer0Handler_uip :: "'d bus \<Rightarrow> u32 \<times> 'd machine \<Rightarrow> u32 \<times> 'd machine" where
  "Timer0Handler_uip B sm = (let (ticks, m) = sm; m = wr B TIMER0_IR 1 m in (ticks + 1, wr B VICVectAddr 0 m))"

definition initTimer_uip :: "'d bus \<Rightarrow> u32 \<Rightarrow> 'd machine \<Rightarrow> 'd machine" where
  "initTimer_uip B isr m =
     (let m = or_wr B PCONP (push_bit 1 1) m;
          m = wr B TIMER0_TCR 0x2 m;
          m = wr B TIMER0_TCR 0x0 m;
          m = wr B TIMER0_TCR 0 m;
          m = wr B TIMER0_MCR 0x3 m;
          m = wr B TIMER0_PR 2 m;
          m = wr B TIMER0_MR0 19600 m;
          m = or_wr B TIMER0_IR (push_bit 0 1) m;
          m = and_wr B VICIntSelect (NOT (VIC_BIT VIC_TIMER0)) m;
          m = wr B VICIntEnable (VIC_BIT VIC_TIMER0) m;
          m = wr B VICVectCntl1 (VIC_ENABLE OR of_nat VIC_TIMER0) m;
          m = wr B VICVectAddr1 isr m
      in or_wr B TIMER0_TCR (push_bit 0 1) m)"

definition UART1Initialize_uip :: "'d bus \<Rightarrow> u32 \<Rightarrow> 'd machine \<Rightarrow> 'd machine option" where
  "UART1Initialize_uip B baud m = do {
     let (p, m) = GetPclk B m;
     divisor \<leftarrow> baud_divisor p (16 * (baud div 4));
     let m = wr8 B UART1_LCR 0x83 m;
     let m = wr8 B UART1_DLL (ucast (divisor AND 0xFF)) m;
     let m = wr8 B UART1_DLM (ucast (drop_bit 8 divisor AND 0xFF)) m;
     let m = and_wr8 B UART1_LCR (NOT 0x80) m;
     let (s, m) = rd B PINSEL0 m;
     Some (wr B PINSEL0 ((s AND NOT 0xF) OR 0x5) m)
   }"

definition arp_out_send :: "'u stack \<Rightarrow> ('d machine \<Rightarrow> u32 \<times> 'd machine) \<Rightarrow> 'd bus \<Rightarrow> u32 \<Rightarrow> lan \<times> 'u uip \<times> 'd machine
     \<Rightarrow> (fault + lan \<times> 'u uip \<times> 'd machine) option" where
  "arp_out_send S clock_time B txaddr sm =
     (let (s, u, m) = sm in
      if 0 < uip_len u then tapdev_send S clock_time B txaddr (s, uip_arp_out S u, m) else Some (Inr (s, u, m)))"

fun periodic_loop :: "'u stack \<Rightarrow> ('d machine \<Rightarrow> u32 \<times> 'd machine) \<Rightarrow> 'd bus \<Rightarrow> u32 \<Rightarrow> nat list \<Rightarrow> lan \<times> 'u uip \<times> 'd machine
     \<Rightarrow> (fault + lan \<times> 'u uip \<times> 'd machine) option" where
  "periodic_loop S clock_time B txaddr [] sm = Some (Inr sm)"
| "periodic_loop S clock_time B txaddr (i # rest) (s, u, m) =
     Option.bind (arp_out_send S clock_time B txaddr (s, uip_periodic S i u, m)) (\<lambda>r.
       case r of Inl f \<Rightarrow> Some (Inl f) | Inr sm \<Rightarrow> periodic_loop S clock_time B txaddr rest sm)"

definition handle_frame :: "'u stack \<Rightarrow> ('d machine \<Rightarrow> u32 \<times> 'd machine) \<Rightarrow> 'd bus \<Rightarrow> u32 \<Rightarrow> lan \<times> 'u uip \<times> 'd machine
     \<Rightarrow> (fault + lan \<times> 'u uip \<times> 'd machine) option" where
  "handle_frame S clock_time B txaddr sm =
     (let (s, u, m) = sm in
      if type_ip S (uip_buf u) then arp_out_send S clock_time B txaddr (s, uip_input S (uip_arp_ipin S u), m)
      else if type_arp S (uip_buf u) then
        (let u = uip_arp_arpin S u in
         if 0 < uip_len u then tapdev_send S clock_time B txaddr (s, u, m) else Some (Inr (s, u, m)))
      else Some (Inr (s, u, m)))"

definition handle_timers :: "'u stack \<Rightarrow> ('d machine \<Rightarrow> u32 \<times> 'd machine) \<Rightarrow> 'd bus \<Rightarrow> u32 \<Rightarrow> lan \<times> 'u uip \<times> 'd machine
     \<Rightarrow> (fault + lan \<times> 'u uip \<times> 'd machine) option" where
  "handle_timers S clock_time B txaddr sm =
     (let (s, u, m) = sm;
          (e, u) = timer_expired S periodic_timer u
      in if \<not> e then Some (Inr (s, u, m))
         else Option.bind (periodic_loop S clock_time B txaddr [0..<UIP_CONF_MAX_CONNECTIONS] (s, timer_reset S periodic_timer u, m)) (\<lambda>r.
           case r of
             Inl f \<Rightarrow> Some (Inl f)
           | Inr (s, u, m) \<Rightarrow>
               let (e, u) = timer_expired S arp_timer u
               in Some (Inr (s, if e then uip_arp_timer S (timer_reset S arp_timer u) else u, m))))"

text \<open>One turn of the loop of \<open>main\<close>.\<close>

definition uip_turn :: "'u stack \<Rightarrow> ('d machine \<Rightarrow> u32 \<times> 'd machine) \<Rightarrow> 'd bus \<Rightarrow> u32 \<Rightarrow> lan \<times> 'u uip \<times> 'd machine
     \<Rightarrow> (fault + lan \<times> 'u uip \<times> 'd machine) option" where
  "uip_turn S clock_time B txaddr sm =
     bind_run (tapdev_read B sm) (\<lambda>n (s, u, m).
       let u = u\<lparr>uip_len := ucast n\<rparr> in
       if 0 < uip_len u then handle_frame S clock_time B txaddr (s, u, m)
       else handle_timers S clock_time B txaddr (s, u, m))"

text \<open>The program up to its loop; \<open>enableIRQ\<close> is an assembler routine that changes the processor status only.\<close>

definition uip_setup :: "'u stack \<Rightarrow> 'd bus \<Rightarrow> u32 \<Rightarrow> lan \<times> 'u uip \<times> 'd machine \<Rightarrow> (fault + lan \<times> 'u uip \<times> 'd machine) option" where
  "uip_setup S B isr sm =
     (let (s, u, m) = sm;
          m = and_wr B PINSEL1 (NOT (push_bit 10 0x3)) m;
          m = or_wr B IO0DIR (push_bit 23 1) m;
          m = wr B IO0SET (push_bit 23 1) m;
          m = wr B IO0CLR (push_bit 23 1) m;
          m = initAIC B m;
          m = initTimer_uip B isr m
      in Option.bind (UART1Initialize_uip B 9600 m) (\<lambda>m.
         let u = timer_set S periodic_timer (CLOCK_CONF_SECOND div 2) u;
             u = timer_set S arp_timer (CLOCK_CONF_SECOND * 10) u
         in Option.bind (tapdev_init B (s, m)) (\<lambda>r.
           case r of
             Inl f \<Rightarrow> Some (Inl f)
           | Inr (s, m) \<Rightarrow>
               let u = uip_init S u;
                   u = uip_sethostaddr S [197, 168, 0, 30] u;
                   u = uip_setdraddr S [197, 168, 0, 1] u;
                   u = uip_setnetmask S [255, 255, 255, 0] u
               in Some (Inr (s, httpd_init S u, m)))))"

section \<open>One frame\<close>

lemma word_bytes_append: "word_bytes (xs @ ys) = word_bytes xs @ word_bytes ys"
  by (simp add: word_bytes_def)

lemma length_word_bytes [simp]: "length (word_bytes ws) = 4 * length ws"
  by (induction ws) (simp_all add: word_bytes_def)

text \<open>The bytes of a frame of the controller.\<close>

definition frame_bytes :: "frame \<Rightarrow> u8 list" where
  "frame_bytes f = take (fst f) (word_bytes (snd f))"

lemma take_frame_rx:
  assumes "good_frame f" "dfifo (dev m) = snd f @ rest"
  shows "if fst f \<le> length (uip_buf u)
    then \<exists>s' m'. take_frame rx_bus (fst f) (s, u, m) = Inr (s', u\<lparr>uip_buf := patch (uip_buf u) 0 (frame_bytes f)\<rparr>, m')
      \<and> dev m' = (dev m)\<lparr>dfifo := rest\<rparr> \<and> sent TX_FIFO_PORT m' = sent TX_FIFO_PORT m
      \<and> txbp s' = txbp s \<and> ent_mtu s' = ent_mtu s \<and> lastTxTag s' = lastTxTag s
    else take_frame rx_bus (fst f) (s, u, m) = Inl OutOfBounds"
proof -
  have ws: "length (snd f) = (fst f + 3) div 4" "length (snd f) \<le> 380" using assms(1) by (auto simp: good_frame_def)
  obtain m1 where fl: "fill rx_bus 0 (length (snd f)) (replicate 420 0) m = Inr (patch (replicate 420 0) 0 (snd f), m1)"
    "dev m1 = (dev m)\<lparr>dfifo := rest\<rparr>"
    using fill_words [OF assms(2), of 0 "replicate 420 0"] ws(2) by auto
  have st: "fill B k n buf m = Inr (b, m') \<Longrightarrow> wrs m' = wrs m" for B :: "'d bus" and k n buf m b m'
  proof (induction n arbitrary: k buf m)
    case (Suc n)
    then show ?case by (auto simp: Let_def case_prod_unfold split: if_splits dest!: Suc.IH)
  qed simp
  have "take (fst f) (word_bytes (patch (replicate 420 0) 0 (snd f))) = frame_bytes f"
    using ws(1) by (simp add: patch_def word_bytes_append frame_bytes_def)
  then show ?thesis using fl st [OF fl(1)] ws(1) by (auto simp: take_frame_def UIP_CONF_BUFFER_SIZE_def)
qed

lemma read_uip_rx:
  assumes "good_frame f" "holds (f # fs) (dev m)" "length fs < 255"
  shows "if fst f \<le> length (uip_buf u)
    then \<exists>s' m'. lan9118_read_uip rx_bus (s, u, m) = Some (Inr (int (fst f), s', u\<lparr>uip_buf := patch (uip_buf u) 0 (frame_bytes f)\<rparr>, m'))
      \<and> holds fs (dev m') \<and> sent TX_FIFO_PORT m' = sent TX_FIFO_PORT m
      \<and> txbp s' = txbp s \<and> ent_mtu s' = ent_mtu s \<and> lastTxTag s' = lastTxTag s
    else lan9118_read_uip rx_bus (s, u, m) = Some (Inl OutOfBounds)"
proof -
  obtain m0 where r0: "rd rx_bus RX_FIFO_INF m = (push_bit 16 (of_nat (Suc (length fs))), m0)" "dev m0 = dev m" "wrs m0 = wrs m"
    using assms(2) by (simp add: rd_parts holds_def)
  obtain m1 where r1: "rd rx_bus RX_STATUS_FIFO_PORT m0 = (push_bit 16 (of_nat (fst f)), m1)"
    "sts (dev m1) = map (\<lambda>f. push_bit 16 (of_nat (fst f))) fs" "dfifo (dev m1) = snd f @ concat (map snd fs)"
    using holds_Cons [of f fs m0] assms(2) r0(2) by metis
  have w1: "wrs m1 = wrs m" using r1(1) r0(3) by (auto dest: wrs_rd)
  let ?s = "s\<lparr>rxNdx := wrap_inc (rxNdx s)\<rparr>"
  have len: "fst f \<le> 1518" "0 < fst f" using assms(1) by (simp_all add: good_frame_def)
  have turn: "rx_turn_uip rx_bus (s, u, m0) =
      Some (case take_frame rx_bus (fst f) (?s, u, m1) of Inl f \<Rightarrow> Inl f | Inr sm \<Rightarrow> Inr (Got (fst f), sm))"
    using r1(1) status_length [OF len(1)] len(2) by (simp add: rx_turn_uip_def Let_def del: RX_STATUS_FIFO_PORT_def split: sum.split)
  have some: "push_bit 16 (of_nat (Suc (length fs)) :: u32) AND 0x00FF0000 \<noteq> 0"
    using frame_count [of "Suc (length fs)"] assms(3) by simp
  have "lan9118_read_uip rx_bus (s, u, m) =
      (case take_frame rx_bus (fst f) (?s, u, m1) of Inl f \<Rightarrow> Some (Inl f) | Inr sm \<Rightarrow> Some (Inr (int (fst f), sm)))"
    unfolding lan9118_read_uip_def
    by (subst rx_loop_uip.simps) (use r0(1) some turn in \<open>simp add: Let_def PKTBUFSRX_def eval_nat_numeral del: RX_FIFO_INF_def rx_loop_uip.simps split: sum.split\<close>)
  then show ?thesis
    using take_frame_rx [OF assms(1) r1(3), of u ?s] w1 r1(2) by (auto simp: holds_def split: if_splits)
qed

section \<open>Waiting for the status\<close>

text \<open>
  The clock: it reads the time \<open>T\<close>, goes forward when it is read, moves at most \<open>step\<close> ticks per access, and reading it stores
  nothing to the transmit FIFO.
\<close>

definition clock_runs :: "('d machine \<Rightarrow> u32 \<times> 'd machine) \<Rightarrow> 'd bus \<Rightarrow> ('d machine \<Rightarrow> nat) \<Rightarrow> nat \<Rightarrow> bool" where
  "clock_runs ct B T step \<longleftrightarrow>
     (\<forall>m. fst (ct m) = of_nat (T m) \<and> T m < T (snd (ct m)) \<and> T (snd (ct m)) \<le> T m + step
        \<and> sent TX_FIFO_PORT (snd (ct m)) = sent TX_FIFO_PORT m) \<and>
     (\<forall>a m. T m \<le> T (snd (rd B a m)) \<and> T (snd (rd B a m)) \<le> T m + step)"

lemma elapsed:
  assumes "t0 \<le> t" "t - t0 < 2 ^ 32"
  shows "(of_nat t - of_nat t0 :: u32) > 3000 \<longleftrightarrow> t - t0 > 3000"
proof -
  have "unat (of_nat t - of_nat t0 :: u32) = t - t0"
    using assms by (simp only: of_nat_diff [symmetric] unsigned_of_nat) (simp add: take_bit_nat_eq_self)
  then show ?thesis by (simp add: word_less_nat_alt)
qed

lemma tx_wait_uip_returns:
  assumes run: "clock_runs ct B T step" and small: "step < 2 ^ 28"
  shows "t0 \<le> T m \<Longrightarrow> T m - t0 \<le> 3000 + step \<Longrightarrow>
    \<exists>r m'. tx_wait_uip ct B (of_nat t0) len m = Some (r, m') \<and> sent TX_FIFO_PORT m' = sent TX_FIFO_PORT m \<and> (r = - 1 \<or> r = len)"
proof (induction "t0 + 3001 - T m" arbitrary: m rule: less_induct)
  case less
  obtain v m1 where 1: "rd B TX_FIFO_INF m = (v, m1)" by (cases "rd B TX_FIFO_INF m")
  obtain t m2 where 2: "ct m1 = (t, m2)" by (cases "ct m1")
  have T1: "T m \<le> T m1" "T m1 \<le> T m + step" and w1: "wrs m1 = wrs m"
    using run 1 wrs_rd [OF 1] by (auto simp: clock_runs_def dest!: spec [of _ TX_FIFO_INF] simp del: TX_FIFO_INF_def) (metis snd_conv)+
  have T2: "t = of_nat (T m1)" "T m1 < T m2" "T m2 \<le> T m1 + step" and s2: "sent TX_FIFO_PORT m2 = sent TX_FIFO_PORT m"
    using run 2 w1 by (auto simp: clock_runs_def dest!: spec [of _ m1])
  have el: "t - of_nat t0 > 3000 \<longleftrightarrow> T m1 - t0 > 3000"
    unfolding T2(1) using T1 less.prems small by (intro elapsed) simp_all
  show ?case
  proof (cases "v AND TX_FIFO_TXSUSED_MSK = 0")
    case idle: True
    show ?thesis
    proof (cases "T m1 - t0 > 3000")
      case True
      then show ?thesis using 1 2 idle el s2 by (subst tx_wait_uip.simps) (simp del: TX_FIFO_INF_def)
    next
      case False
      then have "\<exists>r m'. tx_wait_uip ct B (of_nat t0) len m2 = Some (r, m') \<and> sent TX_FIFO_PORT m' = sent TX_FIFO_PORT m2 \<and> (r = - 1 \<or> r = len)"
        using T1 T2 less.prems by (intro less.hyps) linarith+
      then show ?thesis using 1 2 idle el False s2 by (subst tx_wait_uip.simps) (simp del: TX_FIFO_INF_def)
    qed
  next
    case False
    obtain x m3 where 3: "rd B TX_STATUS_FIFO_PORT m1 = (x, m3)" by (cases "rd B TX_STATUS_FIFO_PORT m1")
    show ?thesis using 1 3 False w1 wrs_rd [OF 3]
      by (subst tx_wait_uip.simps) (auto simp: Let_def simp del: TX_FIFO_INF_def TX_STATUS_FIFO_PORT_def)
  qed
qed

text \<open>The words of a transfer give back the bytes they were made of.\<close>

lemma word_bytes_le_words: "4 * k \<le> length bs \<Longrightarrow> word_bytes (map (le_word bs) [0..<k]) = take (4 * k) bs"
proof (induction k)
  case (Suc k)
  have "word_bytes [le_word bs k] = [bs ! (4 * k), bs ! (4 * k + 1), bs ! (4 * k + 2), bs ! (4 * k + 3)]"
    using byte_of_le_word [of 0 bs k] byte_of_le_word [of 1 bs k] byte_of_le_word [of 2 bs k] byte_of_le_word [of 3 bs k]
    by (simp add: word_bytes_def)
  also have "\<dots> = take 4 (drop (4 * k) bs)"
    using Suc.prems by (intro nth_equalityI) (auto simp: less_Suc_eq eval_nat_numeral nth_Cons')
  finally show ?case using Suc take_add [of "4 * k" 4 bs] by (simp add: word_bytes_append add.commute)
qed (simp add: word_bytes_def)

lemma write_uip_sends:
  assumes "clock_runs ct B T step" "step < 2 ^ 28" "txbp s" "length (ent_mtu s) = 1536" "n \<le> length packet" "n \<le> 1518"
  shows "\<exists>r s' m' ws. lan9118_write_uip ct B txaddr packet (int n) (s, m) = Some (Inr (r, s', m')) \<and> (r = - 1 \<or> r = int n) \<and>
    sent TX_FIFO_PORT m' = sent TX_FIFO_PORT m @
      [push_bit 16 (txaddr AND 0x3) OR 0x00003000 OR of_nat n, push_bit 16 (ucast (lastTxTag s + 1)) OR of_nat n] @ ws \<and>
    length ws = (n + 3) div 4 \<and> take n (word_bytes ws) = take n packet"
proof -
  let ?s = "s\<lparr>ent_mtu := patch (ent_mtu s) 0 (take n packet)\<rparr>" and ?m = "snd (drain_status B TX_TIMEOUT_COUNT m)"
  obtain s1 m1 where 1: "sendToNet B txaddr n (?s, ?m) = (s1, m1)" by (cases "sendToNet B txaddr n (?s, ?m)")
  obtain t m2 where 2: "ct m1 = (t, m2)" by (cases "ct m1")
  have T2: "t = of_nat (T m1)" "T m1 < T m2" "T m2 \<le> T m1 + step" and s2: "sent TX_FIFO_PORT m2 = sent TX_FIFO_PORT m1"
    using assms(1) 2 by (auto simp: clock_runs_def dest!: spec [of _ m1])
  obtain r m3 where 3: "tx_wait_uip ct B t (int n) m2 = Some (r, m3)" "sent TX_FIFO_PORT m3 = sent TX_FIFO_PORT m2" "r = - 1 \<or> r = int n"
  proof -
    have "T m1 \<le> T m2" "T m2 - T m1 \<le> 3000 + step" using T2 by simp_all
    from tx_wait_uip_returns [OF assms(1,2) this, of "int n"] show thesis using that T2(1) by blast
  qed
  have "lan9118_write_uip ct B txaddr packet (int n) (s, m) = Some (Inr (r, s1, m3))"
    using assms(3-6) 1 2 3(1) by (simp add: lan9118_write_uip_def Let_def case_prod_unfold)
  moreover have "sent TX_FIFO_PORT m1 = sent TX_FIFO_PORT m @
      [push_bit 16 (txaddr AND 0x3) OR 0x00003000 OR of_nat n, push_bit 16 (ucast (lastTxTag s + 1)) OR of_nat n] @ packet_words (ent_mtu ?s) n"
    using sendToNet_sent [of B txaddr n ?s ?m] 1 drain_status_stores [of B TX_TIMEOUT_COUNT m] by (simp del: TX_FIFO_PORT_def)
  moreover have "take n (word_bytes (packet_words (ent_mtu ?s) n)) = take n packet"
  proof -
    have "length (ent_mtu ?s) = 1536" "4 * ((n + 3) div 4) \<le> 1536" "n \<le> 4 * ((n + 3) div 4)" using assms(4-6) by (auto simp: patch_def)
    then have "word_bytes (packet_words (ent_mtu ?s) n) = take (4 * ((n + 3) div 4)) (ent_mtu ?s)"
      unfolding packet_words_def by (intro word_bytes_le_words) simp
    then show ?thesis using \<open>n \<le> 4 * ((n + 3) div 4)\<close> assms(5) by (simp add: patch_def min_def)
  qed
  moreover have "length (packet_words (ent_mtu ?s) n) = (n + 3) div 4" by (simp add: packet_words_def)
  ultimately show ?thesis using 3(2,3) s2 by (simp del: TX_FIFO_PORT_def)
qed

section \<open>Frames of the stack\<close>

text \<open>What the stack has to send: the headers in its buffer, then the application data.\<close>

definition out_frame :: "'u stack \<Rightarrow> 'u uip \<Rightarrow> u8 list" where
  "out_frame S u = take (unat (uip_len u)) (take (UIP_LLH_LEN S + UIP_TCPIP_HLEN S) (uip_buf u) @ uip_appdata u)"

text \<open>A length between that of the link header and that of the buffer, with the memory it speaks of.\<close>

definition sendable :: "'u stack \<Rightarrow> 'u uip \<Rightarrow> bool" where
  "sendable S u \<longleftrightarrow> (let L = UIP_LLH_LEN S; H = UIP_TCPIP_HLEN S; n = unat (uip_len u) in
     L \<le> n \<and> n \<le> 420 \<and> L + H \<le> length (uip_buf u) \<and> n - (L + H) \<le> length (uip_appdata u))"

lemma tapdev_frame_sendable:
  assumes "sendable S u"
  shows "tapdev_frame S u = Inr (out_frame S u)" "length (out_frame S u) = unat (uip_len u)"
proof -
  let ?L = "UIP_LLH_LEN S" and ?H = "UIP_TCPIP_HLEN S" and ?n = "unat (uip_len u)"
  have c: "?L \<le> ?n" "?n \<le> 420" "?L + ?H \<le> length (uip_buf u)" "?n - (?L + ?H) \<le> length (uip_appdata u)"
    using assms by (simp_all add: sendable_def Let_def)
  have 1: "append_from (uip_buf u) 0 ?L [] = Inr (take ?L (uip_buf u))" using c by (simp add: append_from_def UIP_CONF_BUFFER_SIZE_def)
  show "length (out_frame S u) = ?n" using c by (simp add: out_frame_def)
  show "tapdev_frame S u = Inr (out_frame S u)"
  proof (cases "?n \<le> ?L + ?H")
    case True
    have "take ?L (uip_buf u) @ take (?n - ?L) (drop ?L (uip_buf u)) = take ?n (uip_buf u)"
      using take_add [of ?L "?n - ?L" "uip_buf u"] c(1) by simp
    then show ?thesis using 1 c True
      by (simp add: tapdev_frame_def Let_def bindE_def append_from_def UIP_CONF_BUFFER_SIZE_def out_frame_def min_def)
  next
    case False
    have "take ?L (uip_buf u) @ take ?H (drop ?L (uip_buf u)) = take (?L + ?H) (uip_buf u)" by (simp add: take_add)
    then show ?thesis using 1 c False
      by (simp add: tapdev_frame_def Let_def bindE_def append_from_def UIP_CONF_BUFFER_SIZE_def out_frame_def add.commute diff_diff_add)
  qed
qed

lemma tapdev_send_sends:
  assumes "clock_runs ct B T step" "step < 2 ^ 28" "txbp s" "length (ent_mtu s) = 1536" "sendable S u"
  defines "n \<equiv> unat (uip_len u)"
  shows "\<exists>s' m' ws. tapdev_send S ct B txaddr (s, u, m) = Some (Inr (s', u, m')) \<and>
    sent TX_FIFO_PORT m' = sent TX_FIFO_PORT m @
      [push_bit 16 (txaddr AND 0x3) OR 0x00003000 OR of_nat n, push_bit 16 (ucast (lastTxTag s + 1)) OR of_nat n] @ ws \<and>
    take n (word_bytes ws) = out_frame S u"
proof -
  have n: "n \<le> length (out_frame S u)" "n \<le> 1518" using tapdev_frame_sendable [OF assms(5)] assms(5) by (simp_all add: n_def sendable_def Let_def)
  have out: "take n (out_frame S u) = out_frame S u" using tapdev_frame_sendable [OF assms(5)] by (simp add: n_def)
  obtain r s' m' ws where "lan9118_write_uip ct B txaddr (out_frame S u) (int n) (s, m) = Some (Inr (r, s', m'))"
    "sent TX_FIFO_PORT m' = sent TX_FIFO_PORT m @
      [push_bit 16 (txaddr AND 0x3) OR 0x00003000 OR of_nat n, push_bit 16 (ucast (lastTxTag s + 1)) OR of_nat n] @ ws"
    "take n (word_bytes ws) = take n (out_frame S u)"
    using write_uip_sends [OF assms(1-4) n, of txaddr m] by blast
  then show ?thesis using tapdev_frame_sendable(1) [OF assms(5)] out by (simp add: tapdev_send_def n_def del: TX_FIFO_PORT_def)
qed

lemma packet_length_u16:
  assumes "n \<le> 1518"
  shows "\<not> (of_nat n :: u16) <s 0" "(scast (of_nat n :: u16) :: u32) = of_nat n" "(ucast (of_nat n :: u32) :: u16) = of_nat n"
proof -
  have "sint (of_nat n :: u16) = signed_take_bit 15 (int n)" by (simp add: signed_of_nat)
  also have "\<dots> = int n" using assms by (intro signed_take_bit_int_eq_self) simp_all
  finally have s: "sint (of_nat n :: u16) = int n" .
  then show "\<not> (of_nat n :: u16) <s 0" by (simp add: word_sless_alt)
  show "(scast (of_nat n :: u16) :: u32) = of_nat n" using s by (metis of_int_of_nat_eq of_int_sint)
  show "(ucast (of_nat n :: u32) :: u16) = of_nat n" using assms by (simp add: unsigned_of_nat take_bit_nat_eq_self)
qed

section \<open>Bring-up and the EEPROM\<close>

text \<open>
  The result of bring-up is dropped. Where the controller does not wake up, the transmit buffer stays null, and the first frame the stack
  sends is copied through the null pointer.
\<close>

lemma tapdev_init_outcome:
  assumes "free_runs B T step" "step < 2 ^ 30"
  shows "\<exists>s' m'. tapdev_init B (s, m) = Some (Inr (s', m')) \<and>
    (if \<exists>m1. open_reset_uip B m = Some (False, m1) then s' = s else txbp s' \<and> macAddr s' = ethaddr \<and> lastTxTag s' = 0 \<and> ent_mtu s' = ent_mtu s)"
proof -
  have "\<exists>ok m1. open_reset_uip B m = Some (ok, m1)"
    unfolding open_reset_uip_def Let_def case_prod_unfold by (auto intro!: bind_returns timed_delay [OF assms])
  then obtain ok m1 where 1: "open_reset_uip B m = Some (ok, m1)" by blast
  obtain m2 where 2: "open_mac B (Some ethaddr) (open_vars_uip s, m1) = Inr ((open_vars_uip s)\<lparr>MaxRxFifoSz := 13440, macAddr := take 6 ethaddr\<rparr>, m2)"
    using open_mac_cases(2) by blast
  obtain ok2 m3 where 3: "open_phy B (open_fifos_uip B m2) = Some (ok2, m3)" using open_phy_returns [OF assms] by blast
  show ?thesis using 1 2 3 by (cases ok) (simp_all add: tapdev_init_def lan9118_open_uip_def open_vars_uip_def ethaddr_def)
qed

lemma tapdev_send_null: "\<not> txbp s \<Longrightarrow> sendable S u \<Longrightarrow> tapdev_send S ct B txaddr (s, u, m) = Some (Inl NullDeref)"
  by (simp add: tapdev_send_def tapdev_frame_sendable lan9118_write_uip_def Let_def)

text \<open>A controller with an EEPROM that stays busy for a number of polls after each command.\<close>

record eeprom =
  ee_busy :: nat
  ee_latency :: nat
  ee_reg :: u8

definition eeprom_bus :: "(u8 \<Rightarrow> u8) \<Rightarrow> eeprom bus" where
  "eeprom_bus e = \<lparr>
     bus_rd = (\<lambda>a d. if a = E2P_CMD then (if 0 < ee_busy d then (0x80000000, d\<lparr>ee_busy := ee_busy d - 1\<rparr>) else (0, d))
                     else if a = E2P_DATA then (ucast (e (ee_reg d)), d)
                     else if a = ID_REV then (0x01180000, d) else (0, d)),
     bus_wr = (\<lambda>a v d. if a = E2P_CMD then d\<lparr>ee_busy := ee_latency d, ee_reg := ucast v\<rparr> else d)\<rparr>"

lemma eeprom_bus_simps [simp]:
  "bus_rd (eeprom_bus e) 0x820000B0 d = (if 0 < ee_busy d then (0x80000000, d\<lparr>ee_busy := ee_busy d - 1\<rparr>) else (0, d))"
  "bus_rd (eeprom_bus e) 0x820000B4 d = (ucast (e (ee_reg d)), d)"
  "bus_rd (eeprom_bus e) 0x82000050 d = (0x01180000, d)"
  "bus_rd (eeprom_bus e) 0x82000074 d = (0, d)"
  "bus_wr (eeprom_bus e) 0x820000B0 v d = d\<lparr>ee_busy := ee_latency d, ee_reg := ucast v\<rparr>"
  "bus_wr (eeprom_bus e) 0x82000074 v d = d"
  by (simp_all add: eeprom_bus_def)

lemma poll_eeprom: "\<exists>m'. poll (eeprom_bus e) E2P_CMD not_busy m = Some (0, m') \<and> dev m' = (dev m)\<lparr>ee_busy := 0\<rparr>"
proof (induction "ee_busy (dev m)" arbitrary: m)
  case 0
  then show ?case by (subst poll_unfold) (simp add: rd_parts not_busy_def)
next
  case (Suc n)
  let ?m = "snd (rd (eeprom_bus e) E2P_CMD m)"
  have "dev ?m = (dev m)\<lparr>ee_busy := n\<rparr>" "fst (rd (eeprom_bus e) E2P_CMD m) = 0x80000000"
    using Suc.hyps(2) by (simp_all add: rd_parts)
  then show ?case using Suc.hyps(1) [of ?m] by (subst poll_unfold) (simp add: not_busy_def)
qed

lemma read_eeprom_reg_reads:
  assumes "ee_busy (dev m) = 0"
  shows "\<exists>m'. read_eeprom_reg (eeprom_bus e) r m = Some (e r, m') \<and> ee_busy (dev m') = 0"
proof -
  let ?c = "wr (eeprom_bus e) E2P_CMD (E2P_CMD_EPC_BUSY OR E2P_CMD_EPC_CMD_READ OR ucast r) (snd (rd (eeprom_bus e) E2P_CMD m))"
  obtain m1 where 1: "poll (eeprom_bus e) E2P_CMD not_busy ?c = Some (0, m1)" "dev m1 = (dev ?c)\<lparr>ee_busy := 0\<rparr>" using poll_eeprom by blast
  have z: "(0x80000000 :: u8) = 0" by code_simp
  have "(0x80000000 :: u8) OR r = r" unfolding z by simp
  then have "ucast (0x80000000 OR ucast r :: u32) = r" by (simp add: unsigned_or_eq)
  then have "ee_reg (dev m1) = r" using 1(2) by simp
  then show ?thesis using 1 assms by (simp add: read_eeprom_reg_def Let_def case_prod_unfold not_busy_def rd_parts)
qed

lemma read_eeprom_regs_reads:
  "ee_busy (dev m) = 0 \<Longrightarrow> \<exists>m'. read_eeprom_regs (eeprom_bus e) rs m = Some (map e rs, m') \<and> ee_busy (dev m') = 0"
proof (induction rs arbitrary: m)
  case (Cons r rs)
  obtain m1 where 1: "read_eeprom_reg (eeprom_bus e) r m = Some (e r, m1)" "ee_busy (dev m1) = 0"
    using read_eeprom_reg_reads [OF Cons.prems] by blast
  then show ?case using Cons.IH [of m1] by auto
qed simp

lemma board_get_enetaddr_reads:
  "\<exists>m'. board_get_enetaddr (eeprom_bus e) mac m =
     Some (if e 0 = 0xA5 then (0, patch mac 0 (map e [1, 2, 3, 4, 5, 6]), m') else (1, mac, m'))"
proof -
  have "\<exists>m1. chip_present (eeprom_bus e) m = (True, m1)" by (simp add: chip_present_def rd_parts)
  then obtain m1 where 1: "chip_present (eeprom_bus e) m = (True, m1)" by blast
  obtain m2 where 2: "poll (eeprom_bus e) HW_CFG (\<lambda>v. v AND HW_CFG_SRST = 0) (wr (eeprom_bus e) HW_CFG HW_CFG_SRST m1) = Some (0, m2)"
    using poll_now [of "\<lambda>v. v AND HW_CFG_SRST = 0" "eeprom_bus e" HW_CFG "wr (eeprom_bus e) HW_CFG HW_CFG_SRST m1"] by (simp add: rd_parts)
  obtain m3 where 3: "poll (eeprom_bus e) E2P_CMD not_busy m2 = Some (0, m3)" "ee_busy (dev m3) = 0" using poll_eeprom [of e m2] by auto
  obtain m4 where 4: "read_eeprom_reg (eeprom_bus e) 0 m3 = Some (e 0, m4)" "ee_busy (dev m4) = 0" using read_eeprom_reg_reads [OF 3(2)] by blast
  obtain m5 where 5: "read_eeprom_regs (eeprom_bus e) [1, 2, 3, 4, 5, 6] m4 = Some (map e [1, 2, 3, 4, 5, 6], m5)"
    using read_eeprom_regs_reads [OF 4(2)] by blast
  show ?thesis
    unfolding board_get_enetaddr_def 1 using 2 3(1) 4(1) 5 by (cases "e 0 = 0xA5") (simp_all del: HW_CFG_def E2P_CMD_def read_eeprom_regs.simps HW_CFG_SRST_def)
qed

section \<open>Properties\<close>

text \<open>
  C35. A frame of the controller is safe exactly when it fits the buffer of the stack: for every frame the controller accepts,
  \<open>tapdev_read\<close> returns its length with its bytes in order at the front of \<open>uip_buf\<close> and the later frames still waiting if the frame is not
  longer than the buffer, and otherwise copies past the end of the buffer. The driver accepts frames of up to 1518 bytes; the configured
  buffer has 420.
\<close>

theorem tapdev_read_bounds:
  assumes "good_frame f" "holds (f # fs) (dev m)" "length fs < 255"
  shows "if fst f \<le> length (uip_buf u)
    then \<exists>s' m'. tapdev_read rx_bus (s, u, m) = Some (Inr (of_nat (fst f), s', u\<lparr>uip_buf := patch (uip_buf u) 0 (frame_bytes f)\<rparr>, m')) \<and> holds fs (dev m')
    else tapdev_read rx_bus (s, u, m) = Some (Inl OutOfBounds)"
proof -
  have "fst f \<le> 1518" using assms(1) by (simp add: good_frame_def)
  then show ?thesis
    using read_uip_rx [OF assms, of u s] packet_length_u16 [of "fst f"] by (auto simp: tapdev_read_def Let_def split: if_splits)
qed

theorem tapdev_read_bounds_witness:
  "tapdev_read rx_bus (lan_fresh, \<lparr>uip_buf = replicate 422 0, uip_len = 0, uip_appdata = [], uip_state = ()\<rparr>,
     \<lparr>dev = \<lparr>sts = [push_bit 16 500], dfifo = replicate 125 7\<rparr>, trace = []\<rparr>) = Some (Inl OutOfBounds)"
proof -
  let ?f = "(500 :: nat, replicate 125 7 :: u32 list)"
  let ?m = "\<lparr>dev = \<lparr>sts = [push_bit 16 500], dfifo = replicate 125 7\<rparr>, trace = []\<rparr>"
  have "good_frame ?f" by (simp add: good_frame_def)
  moreover have "holds [?f] (dev ?m)" by (simp add: holds_def)
  ultimately show ?thesis
    using tapdev_read_bounds [of ?f "[]" ?m "\<lparr>uip_buf = replicate 422 0, uip_len = 0, uip_appdata = [], uip_state = ()\<rparr>" lan_fresh] by simp
qed

text \<open>What the stack makes of a frame in its buffer when it has an answer to it.\<close>

definition answers :: "'u stack \<Rightarrow> 'u uip \<Rightarrow> 'u uip \<Rightarrow> bool" where
  "answers S u v \<longleftrightarrow>
     (if type_ip S (uip_buf u) then 0 < uip_len (uip_input S (uip_arp_ipin S u)) \<and> v = uip_arp_out S (uip_input S (uip_arp_ipin S u))
      else type_arp S (uip_buf u) \<and> 0 < uip_len (uip_arp_arpin S u) \<and> v = uip_arp_arpin S u)"


definition echo :: "unit stack" where
  "echo = \<lparr>UIP_LLH_LEN = 14, UIP_TCPIP_HLEN = 40, type_ip = (\<lambda>_. False), type_arp = (\<lambda>_. True), uip_arp_ipin = id, uip_input = id,
     uip_arp_out = id, uip_arp_arpin = id, uip_periodic = (\<lambda>_. id), uip_arp_timer = id, timer_set = (\<lambda>_ _. id),
     timer_expired = (\<lambda>_ u. (False, u)), timer_reset = (\<lambda>_. id), uip_init = id, uip_sethostaddr = (\<lambda>_. id), uip_setdraddr = (\<lambda>_. id),
     uip_setnetmask = (\<lambda>_. id), httpd_init = id\<rparr>"

definition access_clock :: "'d machine \<Rightarrow> u32 \<times> 'd machine" where
  "access_clock m = (of_nat (length (trace m)), m\<lparr>trace := trace m @ [RdA 0 0]\<rparr>)"


end
