(* ===== verification/Memory_Test.thy ===== *)
theory Memory_Test
  imports Uart_Polled Printf_P
begin

text \<open>
  The memory test \<^verbatim>\<open>software/memory/main.c\<close>: clock and console set-up of the program, and the two
  passes over the external SRAM. The accesses of the passes are taken as made, in program order.
\<close>

section \<open>Clock and console\<close>

definition StartOsc_mem :: "'d bus \<Rightarrow> 'd machine \<Rightarrow> 'd machine option" where
  "StartOsc_mem B m = do {
     let m = wr8 B PLLCFG 0x23 m;
     let m = wr8 B PLLFEED 0xAA m;
     let m = wr8 B PLLFEED 0x55 m;
     let m = wr8 B PLLCON 0x1 m;
     let m = wr8 B PLLFEED 0xAA m;
     let m = wr8 B PLLFEED 0x55 m;
     (v, m) \<leftarrow> poll B PLLSTAT (\<lambda>v. v AND 0x400 \<noteq> 0) m;
     let m = wr8 B PLLCON 0x3 m;
     let m = wr8 B PLLFEED 0xAA m;
     let m = wr8 B PLLFEED 0x55 m;
     let m = wr8 B MAMCR 0x2 m;
     let m = wr8 B MAMTIM 0x3 m;
     Some (wr8 B VPBDIV 0x1 m)
   }"

definition PutChar_mem :: "'d bus \<Rightarrow> u8 \<Rightarrow> 'd machine \<Rightarrow> 'd machine option" where
  "PutChar_mem B c m = do {
     (v, m) \<leftarrow> poll B UART1_LSR (\<lambda>v. v AND 0x20 \<noteq> 0) m;
     let m = wr8 B UART1_THR c m;
     if c = 10 then do {
       (v, m) \<leftarrow> poll B UART1_LSR (\<lambda>v. v AND 0x20 \<noteq> 0) m;
       Some (wr8 B UART1_THR 13 m)
     } else Some m
   }"

fun PutStr_mem :: "'d bus \<Rightarrow> u8 list \<Rightarrow> 'd machine \<Rightarrow> 'd machine option" where
  "PutStr_mem B [] m = Some m"
| "PutStr_mem B (c # s) m = (if c = 0 then Some m else do { m \<leftarrow> PutChar_mem B c m; PutStr_mem B s m })"

text \<open>The bytes stored from the pointer on; the pointer returned is behind the last of them.\<close>

function itoa_1 :: "u32 \<Rightarrow> u8 list" where
  "itoa_1 integer =
     (if integer div 10 \<noteq> 0 then itoa_1 (integer div 10) else []) @ [48 + ucast (integer mod 10)]"
  by pat_completeness auto

termination
proof (relation "measure unat")
  fix integer :: u32
  assume "integer div 10 \<noteq> 0"
  then have "unat (integer div 10) \<noteq> 0" by (simp add: unat_eq_zero)
  then show "(integer div 10, integer) \<in> measure unat" by (simp add: unat_div)
qed simp

declare itoa_1.simps [simp del]

section \<open>The two passes\<close>

definition SRAM_BASE_ADDRESS :: u32 where
  [simp]: "SRAM_BASE_ADDRESS = 0x81000000"

definition SRAM_SIZE :: u32 where
  [simp]: "SRAM_SIZE = 0x400000"

text \<open>\<open>(unsigned int * ) SRAM_BASE_ADDRESS + SRAM_SIZE / 4\<close>, the end of the memory as an address.\<close>

definition SRAM_END :: u32 where
  "SRAM_END = SRAM_BASE_ADDRESS + 4 * (SRAM_SIZE div 4)"

lemma SRAM_END_value [simp]: "SRAM_END = 0x81400000"
  by (simp add: SRAM_END_def)

text \<open>The loops of the passes; \<open>f\<close> is the pattern, the index itself or its complement.\<close>

function sram_write :: "'d bus \<Rightarrow> (u32 \<Rightarrow> u32) \<Rightarrow> u32 \<Rightarrow> u32 \<Rightarrow> 'd machine \<Rightarrow> 'd machine" where
  "sram_write B f i pAdd m =
     (if pAdd < SRAM_END then sram_write B f (i + 1) (pAdd + 4) (wr B pAdd (f i) m) else m)"
  by pat_completeness auto

function sram_read :: "'d bus \<Rightarrow> (u32 \<Rightarrow> u32) \<Rightarrow> u32 \<Rightarrow> u32 \<Rightarrow> 'd machine \<Rightarrow> u32 \<times> 'd machine" where
  "sram_read B f i pAdd m =
     (if pAdd < SRAM_END then
        let (v, m) = rd B pAdd m in
        if v \<noteq> f i then (pAdd, m) else sram_read B f (i + 1) (pAdd + 4) m
      else (pAdd, m))"
  by pat_completeness auto

lemma pAdd_step: "(p :: u32) < 0x81400000 \<Longrightarrow> unat (p + 4) = unat p + 4"
proof -
  assume "p < 0x81400000"
  then have "unat p + unat (4 :: u32) < 2 ^ 32" by (simp add: word_less_nat_alt)
  then show ?thesis using unat_add_lem [of p 4] by simp
qed

termination sram_write
  by (relation "measure (\<lambda>(B, f, i, p, m). 0x81400000 - unat p)") (auto simp: pAdd_step word_less_nat_alt)

termination sram_read
  by (relation "measure (\<lambda>(B, f, i, p, m). 0x81400000 - unat p)") (auto simp: pAdd_step word_less_nat_alt)

declare sram_write.simps [simp del] sram_read.simps [simp del]

text \<open>One pass with its four messages.\<close>

definition sram_pass :: "'d bus \<Rightarrow> (u32 \<Rightarrow> u32) \<Rightarrow> string \<Rightarrow> string \<Rightarrow> string \<Rightarrow> string \<Rightarrow> 'd machine \<Rightarrow> 'd machine option" where
  "sram_pass B f writing reading ok bad m = do {
     m \<leftarrow> PutStr_mem B (bytes writing) m;
     let m = sram_write B f 0 SRAM_BASE_ADDRESS m;
     m \<leftarrow> PutStr_mem B (bytes reading) m;
     let (pAdd, m) = sram_read B f 0 SRAM_BASE_ADDRESS m;
     if pAdd \<ge> SRAM_END then PutStr_mem B (bytes ok) m else PutStr_mem B (bytes bad) m
   }"

definition TestSRAM :: "'d bus \<Rightarrow> 'd machine \<Rightarrow> 'd machine option" where
  "TestSRAM B m = do {
     m \<leftarrow> PutStr_mem B (bytes ''Testing SRAM \<newline>'') m;
     m \<leftarrow> sram_pass B (\<lambda>i. i) ''Writing (1) data to SRAM \<newline>'' ''Reading (1) data from SRAM \<newline>''
           ''Veryfied (1) data is OK! \<newline>'' ''*** Veryfied (1) is NOT OK!***\<newline>'' m;
     sram_pass B (\<lambda>i. NOT i) ''Writing (2) data to SRAM \<newline>'' ''Reading (2) data from SRAM \<newline>''
       ''Veryfied (2) data is OK! \<newline>'' ''*** Veryfied (2) is NOT OK! ***\<newline>'' m
   }"

definition memory_main :: "'d bus \<Rightarrow> 'd machine \<Rightarrow> (u32 \<times> 'd machine) option" where
  "memory_main B m = do {
     m \<leftarrow> StartOsc_mem B m;
     let m = or_wr B PINSEL0 0x50000 m;
     let m = wr8 B UART1_LCR 0x80 m;
     let m = wr8 B UART1_DLM (ucast (drop_bit 8 BAUDRATEDIVISOR AND 0x00ff)) m;
     let m = wr8 B UART1_DLL (ucast (BAUDRATEDIVISOR AND 0x00ff)) m;
     let m = wr8 B UART1_LCR 3 m;
     m \<leftarrow> PutStr_mem B (bytes ''TESTE MEMORY\<newline>'') m;
     let m = wr B PINSEL2 0x0F814924 m;
     let m = wr B BCFG1 0x20000c40 m;
     m \<leftarrow> TestSRAM B m;
     Some (0, m)
   }"

section \<open>The console keeps the contract of a polled transmitter\<close>

lemma PutChar_mem_eq: "PutChar_mem B c m = PutChar B c m"
  by (simp only: PutChar_mem_def PutChar_def tx_ready_alt)

interpretation mem: polled_tx "PutChar_mem B" "PutStr_mem B" crlf UART1_THR "settles B UART1_LSR tx_ready" for B
  by unfold_locales (auto simp: PutChar_mem_eq PutChar_sends PutChar_live simp del: UART1_THR_def UART1_LSR_def)

section \<open>A memory with wiring and cell faults\<close>

text \<open>
  \<open>w\<close> says which cell an address reaches, \<open>s0\<close> and \<open>s1\<close> which bits of a cell read as 0 and as 1 whatever
  was stored. Every other register reads as a transmitter that is ready.
\<close>

abbreviation in_sram :: "u32 \<Rightarrow> bool" where
  "in_sram a \<equiv> 0x81000000 \<le> a \<and> a < 0x81400000"

definition sram_bus :: "(u32 \<Rightarrow> 'c) \<Rightarrow> ('c \<Rightarrow> u32) \<Rightarrow> ('c \<Rightarrow> u32) \<Rightarrow> ('c \<Rightarrow> u32) bus" where
  "sram_bus w s0 s1 = \<lparr>
     bus_rd = (\<lambda>a d. (if in_sram a then (d (w a) AND NOT (s0 (w a))) OR s1 (w a) else 0x420, d)),
     bus_wr = (\<lambda>a v d. if in_sram a then d(w a := v) else d)\<rparr>"

definition cell :: "nat \<Rightarrow> u32" where
  "cell k = 0x81000000 + 4 * of_nat k"

definition sound_sram :: "(u32 \<Rightarrow> 'c) \<Rightarrow> ('c \<Rightarrow> u32) \<Rightarrow> ('c \<Rightarrow> u32) \<Rightarrow> bool" where
  "sound_sram w s0 s1 \<longleftrightarrow> inj_on (\<lambda>k. w (cell k)) {..<0x100000} \<and> (\<forall>k < 0x100000. s0 (w (cell k)) = 0 \<and> s1 (w (cell k)) = 0)"

lemma unat_cell: "k \<le> 0x100000 \<Longrightarrow> unat (cell k) = 0x81000000 + 4 * k"
proof -
  assume k: "k \<le> 0x100000"
  have "cell k = of_nat (0x81000000 + 4 * k)" by (simp add: cell_def)
  then show ?thesis using k by (simp only: unsigned_of_nat) (simp add: take_bit_nat_eq_self)
qed

lemma cell_simps:
  "cell 0 = 0x81000000" "cell k + 4 = cell (Suc k)"
  "k \<le> 0x100000 \<Longrightarrow> cell k < 0x81400000 \<longleftrightarrow> k < 0x100000" "k \<le> 0x100000 \<Longrightarrow> 0x81000000 \<le> cell k"
  by (simp_all add: cell_def [of 0] cell_def [of "Suc k"] word_less_nat_alt word_le_nat_alt unat_cell) (simp add: cell_def)

lemma sram_rd: "k < 0x100000 \<Longrightarrow> bus_rd (sram_bus w s0 s1) (cell k) d = ((d (w (cell k)) AND NOT (s0 (w (cell k)))) OR s1 (w (cell k)), d)"
  by (simp add: sram_bus_def cell_simps)

text \<open>A write pass leaves in each cell the pattern of the last address that reaches it.\<close>

lemma sram_write_pass:
  "k \<le> 0x100000 \<Longrightarrow>
   dev (sram_write (sram_bus w s0 s1) f (of_nat k) (cell k) m) = fold (\<lambda>i d. d(w (cell i) := f (of_nat i))) [k..<0x100000] (dev m) \<and>
   sent UART1_THR (sram_write (sram_bus w s0 s1) f (of_nat k) (cell k) m) = sent UART1_THR m"
proof (induction "0x100000 - k" arbitrary: k m)
  case 0
  then show ?case by (subst (1 2) sram_write.simps) (simp add: cell_simps)
next
  case (Suc n)
  then have k: "k < 0x100000" by simp
  have ne: "cell k \<noteq> UART1_THR" using unat_cell [of k] k by auto
  have "sram_write (sram_bus w s0 s1) f (of_nat k) (cell k) m =
      sram_write (sram_bus w s0 s1) f (of_nat (Suc k)) (cell (Suc k)) (wr (sram_bus w s0 s1) (cell k) (f (of_nat k)) m)"
    using k by (subst sram_write.simps) (simp add: cell_simps add.commute)
  moreover have "[k..<0x100000] = k # [Suc k..<0x100000]" using k by (simp add: upt_conv_Cons)
  ultimately show ?case
    using Suc.hyps(1) [of "Suc k" "wr (sram_bus w s0 s1) (cell k) (f (of_nat k)) m"] Suc.hyps(2) k ne
    by (simp add: sram_bus_def cell_simps del: UART1_THR_def)
qed

lemma sram_read_pass:
  "k \<le> 0x100000 \<Longrightarrow>
   dev (snd (sram_read (sram_bus w s0 s1) f (of_nat k) (cell k) m)) = dev m \<and>
   wrs (snd (sram_read (sram_bus w s0 s1) f (of_nat k) (cell k) m)) = wrs m \<and>
   (0x81400000 \<le> fst (sram_read (sram_bus w s0 s1) f (of_nat k) (cell k) m) \<longleftrightarrow>
     (\<forall>i. k \<le> i \<and> i < 0x100000 \<longrightarrow> fst (bus_rd (sram_bus w s0 s1) (cell i) (dev m)) = f (of_nat i)))"
proof (induction "0x100000 - k" arbitrary: k m)
  case 0
  then have c: "\<not> cell k < 0x81400000" using cell_simps(3) [of k] by simp
  then have "sram_read (sram_bus w s0 s1) f (of_nat k) (cell k) m = (cell k, m)" by (subst sram_read.simps) simp
  moreover have "\<not> (k \<le> i \<and> i < 0x100000)" for i using 0 by linarith
  ultimately show ?case using c by (simp only: fst_conv snd_conv not_less) blast
next
  case (Suc n)
  then have k: "k < 0x100000" by simp
  let ?B = "sram_bus w s0 s1"
  obtain v m1 where r: "rd ?B (cell k) m = (v, m1)" by (cases "rd ?B (cell k) m")
  then have v: "v = fst (bus_rd ?B (cell k) (dev m))" "dev m1 = dev m" "wrs m1 = wrs m"
    using k wrs_rd [OF r] by (auto simp: rd_parts sram_rd)
  have u: "sram_read ?B f (of_nat k) (cell k) m = (if v \<noteq> f (of_nat k) then (cell k, m1) else sram_read ?B f (of_nat (Suc k)) (cell (Suc k)) m1)"
    using k by (subst sram_read.simps) (simp add: cell_simps r add.commute)
  have all: "(\<forall>i. k \<le> i \<and> i < 0x100000 \<longrightarrow> Q i) \<longleftrightarrow> Q k \<and> (\<forall>i. Suc k \<le> i \<and> i < 0x100000 \<longrightarrow> Q i)" for Q
    using k by (auto simp: Suc_le_eq dest: le_neq_implies_less)
  show ?case
  proof (cases "v = f (of_nat k)")
    case True
    have "n = 0x100000 - Suc k" "Suc k \<le> 0x100000" using Suc.hyps(2) k by linarith+
    from Suc.hyps(1) [OF this, of m1] show ?thesis
      using True v unfolding u all [of "\<lambda>i. fst (bus_rd ?B (cell i) (dev m)) = f (of_nat i)"] by (simp only: simp_thms if_False)
  next
    case False
    have "\<not> 0x81400000 \<le> cell k" using k cell_simps(3) [of k] by (simp add: not_le)
    then show ?thesis
      using False v unfolding u all [of "\<lambda>i. fst (bus_rd ?B (cell i) (dev m)) = f (of_nat i)"] by (simp only: simp_thms if_True fst_conv snd_conv)
  qed
qed

section \<open>What the test finds\<close>

definition written :: "(u32 \<Rightarrow> 'c) \<Rightarrow> (u32 \<Rightarrow> u32) \<Rightarrow> nat \<Rightarrow> ('c \<Rightarrow> u32) \<Rightarrow> 'c \<Rightarrow> u32" where
  "written w f n d = fold (\<lambda>i d. d(w (cell i) := f (of_nat i))) [0..<n] d"

definition read_back :: "(u32 \<Rightarrow> 'c) \<Rightarrow> ('c \<Rightarrow> u32) \<Rightarrow> ('c \<Rightarrow> u32) \<Rightarrow> ('c \<Rightarrow> u32) \<Rightarrow> nat \<Rightarrow> u32" where
  "read_back w s0 s1 d k = (d (w (cell k)) AND NOT (s0 (w (cell k)))) OR s1 (w (cell k))"

definition pass_ok :: "(u32 \<Rightarrow> 'c) \<Rightarrow> ('c \<Rightarrow> u32) \<Rightarrow> ('c \<Rightarrow> u32) \<Rightarrow> (u32 \<Rightarrow> u32) \<Rightarrow> ('c \<Rightarrow> u32) \<Rightarrow> bool" where
  "pass_ok w s0 s1 f d \<longleftrightarrow> (\<forall>k < 0x100000. read_back w s0 s1 (written w f 0x100000 d) k = f (of_nat k))"

lemma written_cell:
  assumes "inj_on (\<lambda>k. w (cell k)) {..<n}" "k < n"
  shows "written w f n d (w (cell k)) = f (of_nat k)"
  using assms
proof (induction n)
  case (Suc n)
  have "inj_on (\<lambda>k. w (cell k)) {..<n}" using Suc.prems(1) by (rule inj_on_subset) auto
  moreover have "w (cell k) = w (cell n) \<longleftrightarrow> k = n" using inj_onD [OF Suc.prems(1)] Suc.prems(2) by auto
  ultimately show ?case using Suc by (auto simp: written_def less_Suc_eq)
qed simp

lemma of_nat_index: "\<lbrakk>j < 0x100000; k < 0x100000\<rbrakk> \<Longrightarrow> (of_nat j :: u32) = of_nat k \<longleftrightarrow> j = k"
  by (simp add: word_unat_eq_iff unsigned_of_nat take_bit_nat_eq_self)

lemma pass_wires:
  assumes "pass_ok w s0 s1 f d" "inj f"
  shows "inj_on (\<lambda>k. w (cell k)) {..<0x100000}"
proof (rule inj_onI)
  fix j k assume *: "j \<in> {..<0x100000}" "k \<in> {..<0x100000}" "w (cell j) = w (cell k)"
  then have "read_back w s0 s1 e j = read_back w s0 s1 e k" for e by (simp add: read_back_def)
  then have "f (of_nat j) = f (of_nat k)" using assms(1) * by (metis lessThan_iff pass_ok_def)
  then show "j = k" using assms(2) of_nat_index * by (simp add: inj_eq)
qed

lemma stuck_free:
  assumes "(x AND NOT a) OR b = x" "((NOT x) AND NOT a) OR b = NOT x"
  shows "a = 0 \<and> b = (0 :: u32)"
proof -
  have "\<not> bit a n \<and> \<not> bit b n" if "n < 32" for n
  proof -
    have "bit ((x AND NOT a) OR b) n = bit x n" "bit (((NOT x) AND NOT a) OR b) n = bit (NOT x) n" using assms by simp_all
    then show ?thesis using that by (auto simp: bit_simps)
  qed
  then show ?thesis by (auto intro!: bit_word_eqI)
qed

lemma passes_iff:
  "pass_ok w s0 s1 (\<lambda>i. i) d \<and> pass_ok w s0 s1 (\<lambda>i. NOT i) e \<longleftrightarrow> sound_sram w s0 s1"
proof
  assume p: "pass_ok w s0 s1 (\<lambda>i. i) d \<and> pass_ok w s0 s1 (\<lambda>i. NOT i) e"
  then have w: "inj_on (\<lambda>k. w (cell k)) {..<0x100000}" using pass_wires [of w s0 s1 "\<lambda>i. i" d] by simp
  have "s0 (w (cell k)) = 0 \<and> s1 (w (cell k)) = 0" if k: "k < 0x100000" for k
  proof (rule stuck_free [of "of_nat k"])
    show "(of_nat k AND NOT (s0 (w (cell k)))) OR s1 (w (cell k)) = of_nat k"
      "((NOT (of_nat k)) AND NOT (s0 (w (cell k)))) OR s1 (w (cell k)) = NOT (of_nat k)"
      using p k written_cell [OF w k] unfolding pass_ok_def read_back_def by metis+
  qed
  then show "sound_sram w s0 s1" using w by (simp add: sound_sram_def)
next
  assume "sound_sram w s0 s1"
  then show "pass_ok w s0 s1 (\<lambda>i. i) d \<and> pass_ok w s0 s1 (\<lambda>i. NOT i) e"
    using written_cell [of w "0x100000"] unfolding sound_sram_def pass_ok_def read_back_def by simp
qed

text \<open>What the console shows, and the text of a run with the verdicts \<open>p1\<close> and \<open>p2\<close>.\<close>

definition shown :: "string \<Rightarrow> u32 list" where
  "shown s = concat (map crlf (c_str (bytes s)))"

definition transcript :: "bool \<Rightarrow> bool \<Rightarrow> u32 list" where
  "transcript p1 p2 = shown ''Testing SRAM \<newline>'' @ shown ''Writing (1) data to SRAM \<newline>'' @ shown ''Reading (1) data from SRAM \<newline>'' @
     shown (if p1 then ''Veryfied (1) data is OK! \<newline>'' else ''*** Veryfied (1) is NOT OK!***\<newline>'') @
     shown ''Writing (2) data to SRAM \<newline>'' @ shown ''Reading (2) data from SRAM \<newline>'' @
     shown (if p2 then ''Veryfied (2) data is OK! \<newline>'' else ''*** Veryfied (2) is NOT OK! ***\<newline>'')"

lemma say_sram:
  obtains m' where "PutStr_mem (sram_bus w s0 s1) (bytes s) m = Some m'" "dev m' = dev m"
    "sent UART1_THR m' = sent UART1_THR m @ shown s"
proof -
  let ?B = "sram_bus w s0 s1"
  have r: "settles ?B UART1_LSR tx_ready" by (rule settles_const) (simp add: sram_bus_def tx_ready_def)
  have "PutChar_mem ?B c m = Some m' \<Longrightarrow> dev m' = dev m" for c m m'
    by (auto simp: PutChar_mem_def Let_def poll_now rd_parts sram_bus_def split: if_splits)
  then have d: "PutStr_mem ?B cs m = Some m' \<Longrightarrow> dev m' = dev m" for cs m m'
    by (induction cs arbitrary: m) (auto split: if_splits bind_splits)
  have "stores_to UART1_THR (map (Pair UART1_THR) xs) = xs" for xs
    by (induction xs) simp_all
  moreover obtain m' where "PutStr_mem ?B (bytes s) m = Some m'" using mem.puts_live [OF r] by blast
  ultimately show ?thesis
    using that [of m'] mem.puts_sends [of ?B "bytes s" m m'] d by (simp add: shown_def del: UART1_THR_def)
qed

lemma pass_sram:
  fixes w s0 s1 f m
  defines "m1 \<equiv> sram_write (sram_bus w s0 s1) f 0 SRAM_BASE_ADDRESS m"
  shows "dev m1 = written w f 0x100000 (dev m)" "sent UART1_THR m1 = sent UART1_THR m"
  using sram_write_pass [of 0 w s0 s1 f m] by (simp_all add: m1_def written_def cell_simps(1) del: UART1_THR_def)

lemma verify_sram:
  fixes w s0 s1 f m
  assumes "dev m = written w f 0x100000 d"
  obtains pAdd m1 where "sram_read (sram_bus w s0 s1) f 0 SRAM_BASE_ADDRESS m = (pAdd, m1)"
    "sent UART1_THR m1 = sent UART1_THR m" "dev m1 = dev m" "SRAM_END \<le> pAdd \<longleftrightarrow> pass_ok w s0 s1 f d"
  using sram_read_pass [of 0 w s0 s1 f m] assms that
  by (cases "sram_read (sram_bus w s0 s1) f 0 SRAM_BASE_ADDRESS m")
    (simp add: pass_ok_def read_back_def sram_rd cell_simps(1) del: UART1_THR_def)

lemma sram_pass_shows:
  obtains m' where "sram_pass (sram_bus w s0 s1) f writing reading ok bad m = Some m'"
    "sent UART1_THR m' = sent UART1_THR m @ shown writing @ shown reading @ shown (if pass_ok w s0 s1 f (dev m) then ok else bad)"
proof -
  let ?B = "sram_bus w s0 s1" and ?v = "if pass_ok w s0 s1 f (dev m) then ok else bad"
  note pass = pass_sram [of w s0 s1]
  obtain m1 where 1: "PutStr_mem ?B (bytes writing) m = Some m1" "dev m1 = dev m" "sent UART1_THR m1 = sent UART1_THR m @ shown writing"
    by (rule say_sram)
  let ?m2 = "sram_write ?B f 0 SRAM_BASE_ADDRESS m1"
  obtain m3 where 3: "PutStr_mem ?B (bytes reading) ?m2 = Some m3" "dev m3 = dev ?m2" "sent UART1_THR m3 = sent UART1_THR ?m2 @ shown reading"
    by (rule say_sram)
  have "dev m3 = written w f 0x100000 (dev m)" using 1(2) 3(2) pass(1) by (simp only:)
  then obtain q m4 where 4: "sram_read ?B f 0 SRAM_BASE_ADDRESS m3 = (q, m4)" "sent UART1_THR m4 = sent UART1_THR m3"
    "SRAM_END \<le> q \<longleftrightarrow> pass_ok w s0 s1 f (dev m)" by (rule verify_sram)
  obtain m5 where 5: "PutStr_mem ?B (bytes ?v) m4 = Some m5" "sent UART1_THR m5 = sent UART1_THR m4 @ shown ?v"
    by (rule say_sram)
  have "sram_pass ?B f writing reading ok bad m = Some m5"
    using 5(1) by (cases "pass_ok w s0 s1 f (dev m)") (simp_all only: sram_pass_def Let_def 1(1) 3(1) 4(1,3) bind.bind_lunit prod.case if_True if_False)
  moreover have "sent UART1_THR m5 = sent UART1_THR m @ shown writing @ shown reading @ shown ?v"
    unfolding 5(2) 4(2) 3(3) pass(2) 1(3) append_assoc by (rule refl)
  ultimately show ?thesis by (rule that)
qed

text \<open>
  C7. The memory test is exact: whatever the wiring and the stuck bits of the SRAM, the program returns,
  prints its progress lines and the two verdicts, and both verdicts are "OK" exactly when every word
  address has a cell of its own and no bit of these cells is stuck.
\<close>

theorem TestSRAM_verdict:
  "\<exists>m' p1 p2. TestSRAM (sram_bus w s0 s1) m = Some m' \<and> sent UART1_THR m' = sent UART1_THR m @ transcript p1 p2 \<and>
     (p1 \<and> p2 \<longleftrightarrow> sound_sram w s0 s1)"
proof -
  let ?B = "sram_bus w s0 s1"
  obtain m1 where 1: "PutStr_mem ?B (bytes ''Testing SRAM \<newline>'') m = Some m1" "dev m1 = dev m"
    "sent UART1_THR m1 = sent UART1_THR m @ shown ''Testing SRAM \<newline>''" by (rule say_sram)
  obtain m2 where 2: "sram_pass ?B (\<lambda>i. i) ''Writing (1) data to SRAM \<newline>'' ''Reading (1) data from SRAM \<newline>''
      ''Veryfied (1) data is OK! \<newline>'' ''*** Veryfied (1) is NOT OK!***\<newline>'' m1 = Some m2"
    "sent UART1_THR m2 = sent UART1_THR m1 @ shown ''Writing (1) data to SRAM \<newline>'' @ shown ''Reading (1) data from SRAM \<newline>'' @
      shown (if pass_ok w s0 s1 (\<lambda>i. i) (dev m1) then ''Veryfied (1) data is OK! \<newline>'' else ''*** Veryfied (1) is NOT OK!***\<newline>'')"
    by (rule sram_pass_shows)
  obtain m3 where 3: "sram_pass ?B (\<lambda>i. NOT i) ''Writing (2) data to SRAM \<newline>'' ''Reading (2) data from SRAM \<newline>''
      ''Veryfied (2) data is OK! \<newline>'' ''*** Veryfied (2) is NOT OK! ***\<newline>'' m2 = Some m3"
    "sent UART1_THR m3 = sent UART1_THR m2 @ shown ''Writing (2) data to SRAM \<newline>'' @ shown ''Reading (2) data from SRAM \<newline>'' @
      shown (if pass_ok w s0 s1 (\<lambda>i. NOT i) (dev m2) then ''Veryfied (2) data is OK! \<newline>'' else ''*** Veryfied (2) is NOT OK! ***\<newline>'')"
    by (rule sram_pass_shows)
  have "TestSRAM ?B m = Some m3" by (simp only: TestSRAM_def 1(1) 2(1) 3(1) bind.bind_lunit)
  moreover have "sent UART1_THR m3 = sent UART1_THR m @ transcript (pass_ok w s0 s1 (\<lambda>i. i) (dev m1)) (pass_ok w s0 s1 (\<lambda>i. NOT i) (dev m2))"
    unfolding transcript_def 3(2) 2(2) 1(3) append_assoc by (rule refl)
  ultimately show ?thesis using passes_iff [of w s0 s1 "dev m1" "dev m2"] by blast
qed

text \<open>
  The number printer of the memory test and the decimal conversion of the SD card program's formatter
  produce the same digits for every 32-bit number.
\<close>

theorem itoa_1_digits: "itoa_1 n = digits 10 upper n []"
proof (induction n rule: itoa_1.induct)
  case (1 n)
  have d: "n div 10 = 0 \<longleftrightarrow> n < 10"
    by (simp add: word_unat_eq_iff unat_div word_less_nat_alt div_eq_0_iff)
  have "unat (n mod 10) < 10" by (simp add: unat_mod)
  then have "ucast (n mod 10) < (10 :: u8)"
    by (simp add: word_less_nat_alt unsigned_ucast_eq take_bit_nat_eq_self)
  then have "digit_char upper (ucast (n mod 10)) = 48 + ucast (n mod 10)" by (simp add: digit_char_def add.commute)
  then show ?case
    using 1 d by (subst itoa_1.simps, subst digits_step) (auto simp: not_less)
qed

end
