(* ===== verification/Uboot_Timer.thy ===== *)
theory Uboot_Timer
  imports Uart_Polled
begin

text \<open>
  The timer of the boot loader's port to the board, \<^verbatim>\<open>u-boot-1.1.6-dev/cpu/arm7tdmi/interrupts.c\<close>, with
  the reset code of \<^verbatim>\<open>cpu.c\<close>: a time stamp of arbitrary length is built from a 16-bit counter that
  is only looked at when somebody asks.
\<close>

section \<open>Registers of asm-arm/arch-arm7tdmi/hardware.h\<close>

definition T0TCR :: u32 where [simp]: "T0TCR = 0xE0004004"
definition T0TC :: u32 where [simp]: "T0TC = 0xE0004008"
definition T0PR :: u32 where [simp]: "T0PR = 0xE000400C"
definition T0MCR :: u32 where [simp]: "T0MCR = 0xE0004014"
definition T0MR0 :: u32 where [simp]: "T0MR0 = 0xE0004018"
definition WDMOD_ub :: u32 where [simp]: "WDMOD_ub = 0xE0000000"
definition WDTC_ub :: u32 where [simp]: "WDTC_ub = 0xE0000004"
definition WDFEED_ub :: u32 where [simp]: "WDFEED_ub = 0xE0000008"

section \<open>Interrupts and reset\<close>

definition enable_interrupts :: "'s \<Rightarrow> 's" where
  "enable_interrupts m = m"

definition disable_interrupts :: "'s \<Rightarrow> u32 \<times> 's" where
  "disable_interrupts m = (0, m)"

text \<open>The stores of \<open>reset_cpu\<close>; it then waits for the watchdog for ever.\<close>

definition reset_cpu :: "'d bus \<Rightarrow> 'd machine \<Rightarrow> 'd machine" where
  "reset_cpu B m =
     (let m = wr B WDTC_ub 0x000000ff m;
          m = wr8 B WDMOD_ub 0x03 m;
          m = wr8 B WDFEED_ub 0xaa m
      in wr8 B WDFEED_ub 0x55 m)"

section \<open>The time stamp\<close>

record utimer =
  timestamp :: u32
  lastdec :: u32

definition TIMER_LOAD_VAL :: u32 where
  [simp]: "TIMER_LOAD_VAL = 0xffff"

definition CFG_HZ :: u32 where
  [simp]: "CFG_HZ = 10000"

definition READ_TIMER :: "'d bus \<Rightarrow> 'd machine \<Rightarrow> u32 \<times> 'd machine" where
  "READ_TIMER B m = (let (v, m) = rd B T0TC m in (v AND 0xffff, m))"

definition interrupt_init :: "'d bus \<Rightarrow> utimer \<times> 'd machine \<Rightarrow> utimer \<times> 'd machine" where
  "interrupt_init B sm =
     (let (s, m) = sm;
          m = wr B T0PR 0x000003e7 m;
          m = wr B T0MR0 0x0000ffff m;
          m = wr B T0MCR 0x00000002 m;
          m = wr B T0TCR 0x00000003 m;
          m = wr B T0TCR 0x00000001 m
      in (s\<lparr>lastdec := TIMER_LOAD_VAL, timestamp := 0\<rparr>, m))"

definition reset_timer_masked :: "'d bus \<Rightarrow> utimer \<times> 'd machine \<Rightarrow> utimer \<times> 'd machine" where
  "reset_timer_masked B sm =
     (let (s, m) = sm; (now, m) = READ_TIMER B m in (s\<lparr>lastdec := now, timestamp := 0\<rparr>, m))"

definition reset_timer :: "'d bus \<Rightarrow> utimer \<times> 'd machine \<Rightarrow> utimer \<times> 'd machine" where
  "reset_timer B = reset_timer_masked B"

definition get_timer_masked :: "'d bus \<Rightarrow> utimer \<times> 'd machine \<Rightarrow> u32 \<times> utimer \<times> 'd machine" where
  "get_timer_masked B sm =
     (let (s, m) = sm;
          (now, m) = READ_TIMER B m;
          s = (if now \<ge> lastdec s then s\<lparr>timestamp := timestamp s + (now - lastdec s)\<rparr>
               else s\<lparr>timestamp := timestamp s + (now + TIMER_LOAD_VAL - lastdec s)\<rparr>);
          s = s\<lparr>lastdec := now\<rparr>
      in (timestamp s, s, m))"

definition get_timer_uboot :: "'d bus \<Rightarrow> u32 \<Rightarrow> utimer \<times> 'd machine \<Rightarrow> u32 \<times> utimer \<times> 'd machine" where
  "get_timer_uboot B base sm = (let (t, sm) = get_timer_masked B sm in (t - base, sm))"

definition set_timer :: "u32 \<Rightarrow> utimer \<Rightarrow> utimer" where
  "set_timer t s = s\<lparr>timestamp := t\<rparr>"

partial_function (option) wait_until :: "'d bus \<Rightarrow> u32 \<Rightarrow> utimer \<times> 'd machine \<Rightarrow> (utimer \<times> 'd machine) option" where
  "wait_until B tmo sm = (let (t, sm) = get_timer_masked B sm in if t < tmo then wait_until B tmo sm else Some sm)"

declare wait_until.simps [code]

definition usec_ticks :: "u32 \<Rightarrow> u32" where
  "usec_ticks usec = (usec div 1000 * CFG_HZ) div 1000"

definition udelay :: "'d bus \<Rightarrow> u32 \<Rightarrow> utimer \<times> 'd machine \<Rightarrow> (utimer \<times> 'd machine) option" where
  "udelay B usec sm = (let (t, sm) = get_timer_uboot B 0 sm in wait_until B (usec_ticks usec + t) sm)"

definition udelay_masked :: "'d bus \<Rightarrow> u32 \<Rightarrow> utimer \<times> 'd machine \<Rightarrow> (utimer \<times> 'd machine) option" where
  "udelay_masked B usec sm =
     (let (t, sm) = get_timer_uboot B 0 sm in wait_until B (usec_ticks usec + t) (reset_timer_masked B sm))"

section \<open>A running counter\<close>

text \<open>
  \<open>T\<close> counts the ticks of the timer without bound; the register shows them modulo 65536, the period that
  the match at \<open>0xffff\<close> gives, and time passes between readings.
\<close>

definition ticks :: "'d bus \<Rightarrow> ('d \<Rightarrow> nat) \<Rightarrow> nat \<Rightarrow> bool" where
  "ticks B T step \<longleftrightarrow> (\<forall>d. \<exists>d'. bus_rd B T0TC d = (of_nat (T d mod 65536), d') \<and> T d < T d' \<and> T d' \<le> T d + step)"

text \<open>What the driver counts: one tick less per period.\<close>

definition counted :: "nat \<Rightarrow> nat" where
  "counted t = 65535 * (t div 65536) + t mod 65536"

definition synced :: "nat \<Rightarrow> utimer \<Rightarrow> bool" where
  "synced t s \<longleftrightarrow> lastdec s = of_nat (t mod 65536)"

lemma READ_TIMER_ticks:
  assumes "ticks B T step"
  obtains m1 where "READ_TIMER B m = (of_nat (T (dev m) mod 65536), m1)" "T (dev m) < T (dev m1)" "T (dev m1) \<le> T (dev m) + step"
proof -
  let ?t = "T (dev m) mod 65536"
  obtain m1 where g: "rd B T0TC m = (of_nat ?t, m1)" "T (dev m) < T (dev m1)" "T (dev m1) \<le> T (dev m) + step"
    using assms by (auto simp: ticks_def rd_parts dest: spec [of _ "dev m"])
  have "(of_nat ?t :: u32) AND 0xffff = take_bit 16 (of_nat ?t)" by (simp add: take_bit_eq_mask mask_eq_exp_minus_1)
  also have "\<dots> = of_nat ?t" by (simp add: take_bit_of_nat take_bit_nat_eq_self)
  finally show ?thesis using that [of m1] g by (simp add: READ_TIMER_def del: T0TC_def)
qed

lemma counted_step:
  assumes "t0 \<le> t" "t < t0 + 65536"
  shows "counted t = counted t0 + (if t0 mod 65536 \<le> t mod 65536 then t mod 65536 - t0 mod 65536 else t mod 65536 + 65535 - t0 mod 65536)"
proof -
  obtain q r where q: "t0 = q * 65536 + r" "r < 65536" by (metis div_mult_mod_eq mod_less_divisor zero_less_numeral)
  obtain e where e: "t = t0 + e" "e < 65536" using assms by (metis add_less_cancel_left le_Suc_ex)
  show ?thesis
  proof (cases "r + e < 65536")
    case True
    have "t = q * 65536 + (r + e)" using q e by simp
    with True have "t div 65536 = q" "t mod 65536 = r + e" by (simp_all only: div_mult_self3 mod_mult_self3) simp_all
    then show ?thesis using q e by (simp add: counted_def)
  next
    case False
    then have "t = Suc q * 65536 + (r + e - 65536)" "r + e - 65536 < 65536" using q e by simp_all
    then have "t div 65536 = Suc q" "t mod 65536 = r + e - 65536" by (simp_all only: div_mult_self3 mod_mult_self3) simp_all
    moreover have "t0 div 65536 = q" "t0 mod 65536 = r" using q by simp_all
    moreover have "\<not> r \<le> r + e - 65536" using e(2) False by linarith
    ultimately show ?thesis using False by (simp add: counted_def)
  qed
qed

lemma counted_mono: "t0 \<le> t \<Longrightarrow> counted t0 \<le> counted t"
proof -
  assume le: "t0 \<le> t"
  have "t0 div 65536 \<le> t div 65536" using le by (rule div_le_mono)
  moreover have "t0 = 65536 * (t0 div 65536) + t0 mod 65536" "t = 65536 * (t div 65536) + t mod 65536" "t0 mod 65536 < 65536" by simp_all
  ultimately show ?thesis using le unfolding counted_def by linarith
qed

lemma get_timer_masked_counts:
  assumes tk: "ticks B T step" and s: "synced t0 s" and t: "t0 \<le> T (dev m)" "T (dev m) < t0 + 65536"
  obtains s' m' where "get_timer_masked B (s, m) = (timestamp s', s', m')" "synced (T (dev m)) s'"
    "timestamp s' = timestamp s + of_nat (counted (T (dev m)) - counted t0)" "T (dev m) < T (dev m')" "T (dev m') \<le> T (dev m) + step"
proof -
  let ?n = "T (dev m) mod 65536" and ?l = "t0 mod 65536"
  obtain m1 where r: "READ_TIMER B m = (of_nat ?n, m1)" "T (dev m) < T (dev m1)" "T (dev m1) \<le> T (dev m) + step"
    by (rule READ_TIMER_ticks [OF tk])
  have small: "unat (of_nat ?n :: u32) = ?n" "unat (of_nat ?l :: u32) = ?l"
    by (simp_all add: unsigned_of_nat take_bit_nat_eq_self)
  have ge: "(of_nat ?l :: u32) \<le> of_nat ?n \<longleftrightarrow> ?l \<le> ?n" by (simp only: word_le_nat_alt small)
  have diff: "counted (T (dev m)) - counted t0 = (if ?l \<le> ?n then ?n - ?l else ?n + 65535 - ?l)"
    using counted_step [OF t] by simp
  have up: "(of_nat (?n - ?l) :: u32) = of_nat ?n - of_nat ?l" if "?l \<le> ?n" using that by (rule of_nat_diff)
  have "?l < 65536" by simp
  then have "?l \<le> ?n + 65535" by linarith
  then have over: "(of_nat (?n + 65535 - ?l) :: u32) = of_nat ?n + 0xffff - of_nat ?l" by (simp add: of_nat_diff)
  let ?s = "s\<lparr>timestamp := timestamp s + of_nat (counted (T (dev m)) - counted t0), lastdec := of_nat ?n\<rparr>"
  have "get_timer_masked B (s, m) = (timestamp ?s, ?s, m1)"
    using s ge up over by (auto simp: get_timer_masked_def r(1) synced_def diff Let_def)
  then show ?thesis using that [of ?s m1] r by (simp add: synced_def)
qed

lemma counted_div: "counted t + t div 65536 = t"
proof -
  have "65535 * q + r + q = 65536 * q + r" for q r :: nat by simp
  then show ?thesis unfolding counted_def by simp
qed

lemma counted_half: "t \<le> 2 * counted t"
proof -
  have "q \<le> 65535 * q + r" for q r :: nat by simp
  then have "t div 65536 \<le> counted t" unfolding counted_def .
  then show ?thesis using counted_div [of t] by linarith
qed

lemma counted_step_le:
  assumes "t0 \<le> t" "t < t0 + 65536"
  shows "counted t - counted t0 \<le> 65535"
proof -
  have "t mod 65536 < 65536" "t0 mod 65536 < 65536" by simp_all
  moreover have "(if l \<le> n then n - l else n + 65535 - l) \<le> 65535" if "l < 65536" "n < 65536" for l n :: nat
    using that by auto
  ultimately show ?thesis using counted_step [OF assms] by (metis diff_add_inverse)
qed

lemma counted_diff:
  assumes "t0 \<le> t"
  shows "counted t - counted t0 = (t - t0) - (t div 65536 - t0 div 65536)"
proof -
  have "c - c0 = (c + q - (c0 + q0)) - (q - q0)" if "q0 \<le> q" "c0 \<le> c" for c q c0 q0 :: nat using that by linarith
  from this [OF div_le_mono [OF assms, of 65536] counted_mono [OF assms]] show ?thesis by (simp only: counted_div)
qed

fun read_often :: "'d bus \<Rightarrow> nat \<Rightarrow> utimer \<times> 'd machine \<Rightarrow> utimer \<times> 'd machine" where
  "read_often B 0 sm = sm"
| "read_often B (Suc n) sm = read_often B n (snd (get_timer_masked B sm))"

lemma read_often_counts:
  assumes "ticks B T step" "step < 65536"
  shows "synced t0 s \<Longrightarrow> t0 \<le> T (dev m) \<Longrightarrow> T (dev m) < t0 + 65536 \<Longrightarrow>
    \<exists>t s' m'. read_often B n (s, m) = (s', m') \<and> t0 \<le> t \<and> (0 < n \<longrightarrow> T (dev m) \<le> t) \<and> t \<le> T (dev m') \<and> T (dev m') < t + 65536 \<and>
      synced t s' \<and> timestamp s' = timestamp s + of_nat (counted t - counted t0)"
proof (induction n arbitrary: t0 s m)
  case (Suc n)
  obtain s1 m1 where g: "get_timer_masked B (s, m) = (timestamp s1, s1, m1)" "synced (T (dev m)) s1"
    "timestamp s1 = timestamp s + of_nat (counted (T (dev m)) - counted t0)" "T (dev m) < T (dev m1)" "T (dev m1) \<le> T (dev m) + step"
    by (rule get_timer_masked_counts [OF assms(1) Suc.prems])
  obtain t s' m' where r: "read_often B n (s1, m1) = (s', m')" "T (dev m) \<le> t" "t \<le> T (dev m')" "T (dev m') < t + 65536"
    "synced t s'" "timestamp s' = timestamp s1 + of_nat (counted t - counted (T (dev m)))"
    using Suc.IH [OF g(2), of m1] g(4,5) assms(2) by auto
  have "counted t - counted t0 = (counted (T (dev m)) - counted t0) + (counted t - counted (T (dev m)))"
    using counted_mono [OF Suc.prems(2)] counted_mono [OF r(2)] by linarith
  then have "timestamp s' = timestamp s + of_nat (counted t - counted t0)" using r(6) g(3) by simp
  moreover have "read_often B (Suc n) (s, m) = (s', m')" using r(1) g(1) by simp
  ultimately show ?case using r(2-5) Suc.prems(2) by (intro exI [of _ t]) simp
qed auto


definition count_bus :: "nat \<Rightarrow> nat bus" where
  "count_bus k = \<lparr>bus_rd = (\<lambda>a d. (if a = T0TC then of_nat (d mod 65536) else 0, d + k)), bus_wr = (\<lambda>a v d. d)\<rparr>"

lemma count_bus_ticks: "0 < k \<Longrightarrow> ticks (count_bus k) id k"
  by (simp add: ticks_def count_bus_def)


section \<open>Delays\<close>

lemma counted_diff_le: "t0 \<le> t \<Longrightarrow> t \<le> t0 + w \<Longrightarrow> counted t - counted t0 \<le> w"
  using counted_diff [of t0 t] by linarith

text \<open>\<open>w\<close> bounds the ticks since the last reading, and with them how far the wait overshoots.\<close>

lemma wait_until_ends:
  assumes tk: "ticks B T step" "step \<le> w" "w < 65536" and tmo: "unat tmo + 65536 < 2 ^ 32"
  shows "synced t0 s \<Longrightarrow> t0 \<le> T (dev m) \<Longrightarrow> T (dev m) \<le> t0 + w \<Longrightarrow> int (unat (timestamp s)) = c + int (counted t0) \<Longrightarrow>
    timestamp s \<le> tmo \<Longrightarrow>
    \<exists>t s' m'. wait_until B tmo (s, m) = Some (s', m') \<and> T (dev m) \<le> t \<and> synced t s' \<and> int (unat (timestamp s')) = c + int (counted t) \<and>
      int (unat tmo) \<le> c + int (counted t) \<and> c + int (counted t) \<le> int (unat tmo) + int w \<and> t < T (dev m') \<and> T (dev m') \<le> t + step"
proof (induction "2 * nat (int (unat tmo) - c) - T (dev m)" arbitrary: t0 s m rule: less_induct)
  case less
  let ?t = "T (dev m)"
  have near: "?t < t0 + 65536" using less.prems(3) tk(3) by linarith
  obtain s1 m1 where g: "get_timer_masked B (s, m) = (timestamp s1, s1, m1)" "synced ?t s1"
    "timestamp s1 = timestamp s + of_nat (counted ?t - counted t0)" "?t < T (dev m1)" "T (dev m1) \<le> ?t + step"
    by (rule get_timer_masked_counts [OF tk(1) less.prems(1,2) near])
  note d = counted_mono [OF less.prems(2)] counted_diff_le [OF less.prems(2,3)]
  have "unat (timestamp s) \<le> unat tmo" using less.prems(5) by (simp add: word_le_nat_alt)
  then have "unat (timestamp s) + (counted ?t - counted t0) < 2 ^ 32" using d(2) tmo tk(3) by linarith
  then have "unat (timestamp s1) = unat (timestamp s) + (counted ?t - counted t0)"
    unfolding g(3) by (simp add: unat_word_ariths unsigned_of_nat take_bit_nat_eq_self)
  then have c: "int (unat (timestamp s1)) = c + int (counted ?t)" "unat (timestamp s1) \<le> unat tmo + w"
    using less.prems(4) d \<open>unat (timestamp s) \<le> unat tmo\<close> by linarith+
  have u: "wait_until B tmo (s, m) = (if timestamp s1 < tmo then wait_until B tmo (s1, m1) else Some (s1, m1))"
    by (subst wait_until.simps) (simp add: g(1))
  show ?case
  proof (cases "timestamp s1 < tmo")
    case True
    then have "unat (timestamp s1) < unat tmo" by (simp add: word_less_nat_alt)
    then have "c + int (counted ?t) < int (unat tmo)" using c(1) by linarith
    then have "2 * nat (int (unat tmo) - c) - T (dev m1) < 2 * nat (int (unat tmo) - c) - ?t"
      using counted_half [of ?t] g(4) by linarith
    moreover have "?t \<le> T (dev m1)" "T (dev m1) \<le> ?t + w" "timestamp s1 \<le> tmo" using g(4,5) tk(2) True by (linarith | simp)+
    ultimately obtain t s' m' where w: "wait_until B tmo (s1, m1) = Some (s', m')" "T (dev m1) \<le> t" "synced t s'"
      "int (unat (timestamp s')) = c + int (counted t)" "int (unat tmo) \<le> c + int (counted t)"
      "c + int (counted t) \<le> int (unat tmo) + int w" "t < T (dev m')" "T (dev m') \<le> t + step"
      using less.hyps [of m1 ?t s1] g(2) c(1) by blast
    then have "wait_until B tmo (s, m) = Some (s', m')" "?t \<le> t" using u True g(4) by simp_all
    then show ?thesis using w(3-) by blast
  next
    case False
    then have "unat tmo \<le> unat (timestamp s1)" by (simp add: word_less_nat_alt)
    then have "int (unat tmo) \<le> c + int (counted ?t)" "c + int (counted ?t) \<le> int (unat tmo) + int w" using c by linarith+
    then show ?thesis using u False c(1) g(2,4,5) by (intro exI [of _ ?t] exI [of _ s1] exI [of _ m1]) simp
  qed
qed

lemma usec_ticks_value: "unat usec \<le> 10 ^ 8 \<Longrightarrow> unat (usec_ticks usec) = 10 * (unat usec div 1000)"
proof -
  assume u: "unat usec \<le> 10 ^ 8"
  have a: "unat (usec div 1000) = unat usec div 1000" by (simp add: unat_div)
  have "unat usec div 1000 \<le> 10 ^ 8 div 1000" using u by (rule div_le_mono)
  then have "unat (usec div 1000) * unat (10000 :: u32) < 2 ^ 32" unfolding a by simp
  then have "unat (usec div 1000 * 10000) = unat usec div 1000 * 10000" using unat_mult_lem [of "usec div 1000" 10000] a by simp
  then show ?thesis by (simp add: usec_ticks_def unat_div)
qed

text \<open>What a client may rely on: a delay returns, leaves the time stamp in step and took the ticks asked for.\<close>

lemma udelay_ok:
  assumes tk: "ticks B T step" "step \<le> w" "w < 65536" and s: "synced t0 s" "t0 \<le> T (dev m)" "T (dev m) \<le> t0 + w"
    and b: "unat usec \<le> 10 ^ 8" "unat (timestamp s) + 10 * (unat usec div 1000) + 2 * 65536 < 2 ^ 32"
  shows "\<exists>t s' m'. udelay B usec (s, m) = Some (s', m') \<and> synced t s' \<and> t < T (dev m') \<and> T (dev m') \<le> t + step \<and>
    T (dev m) + 10 * (unat usec div 1000) \<le> t \<and> unat (timestamp s') \<le> unat (timestamp s) + 10 * (unat usec div 1000) + 2 * w"
proof -
  let ?t = "T (dev m)"
  define n where n: "n = 10 * (unat usec div 1000)"
  note b2 = b(2) [folded n] and ut = usec_ticks_value [OF b(1), folded n]
  have near: "?t < t0 + 65536" using s(3) tk(3) by linarith
  obtain s1 m1 where g: "get_timer_masked B (s, m) = (timestamp s1, s1, m1)" "synced ?t s1"
    "timestamp s1 = timestamp s + of_nat (counted ?t - counted t0)" "?t < T (dev m1)" "T (dev m1) \<le> ?t + step"
    by (rule get_timer_masked_counts [OF tk(1) s(1,2) near])
  have d: "counted ?t - counted t0 \<le> w" by (rule counted_diff_le [OF s(2,3)])
  then have "unat (timestamp s) + (counted ?t - counted t0) < 2 ^ 32" using b2 tk(3) by linarith
  then have t1: "unat (timestamp s1) = unat (timestamp s) + (counted ?t - counted t0)"
    unfolding g(3) by (simp add: unat_word_ariths unsigned_of_nat take_bit_nat_eq_self)
  let ?tmo = "usec_ticks usec + timestamp s1"
  have "unat (usec_ticks usec) + unat (timestamp s1) < 2 ^ 32" using ut t1 d b2 tk(3) by linarith
  then have tmo: "unat ?tmo = n + unat (timestamp s1)" using ut unat_add_lem [of "usec_ticks usec" "timestamp s1"] by simp
  have small: "unat ?tmo + 65536 < 2 ^ 32" using tmo t1 d b2 tk(3) by linarith
  let ?c = "int (unat (timestamp s1)) - int (counted ?t)"
  have "timestamp s1 \<le> ?tmo" using tmo by (simp only: word_le_nat_alt)
  moreover have "?t \<le> T (dev m1)" "T (dev m1) \<le> ?t + w" "int (unat (timestamp s1)) = ?c + int (counted ?t)" using g(4,5) tk(2) by linarith+
  ultimately obtain t s' m' where w: "wait_until B ?tmo (s1, m1) = Some (s', m')" "T (dev m1) \<le> t" "synced t s'"
    "int (unat (timestamp s')) = ?c + int (counted t)" "int (unat ?tmo) \<le> ?c + int (counted t)"
    "?c + int (counted t) \<le> int (unat ?tmo) + int w" "t < T (dev m')" "T (dev m') \<le> t + step"
    using wait_until_ends [OF tk small g(2)] by blast
  have "n \<le> counted t - counted ?t" using w(5) tmo by linarith
  moreover have "?t \<le> t" using w(2) g(4) by linarith
  moreover have "counted t - counted ?t \<le> t - ?t" unfolding counted_diff [OF \<open>?t \<le> t\<close>] by (rule diff_le_self)
  moreover have "unat (timestamp s') \<le> unat (timestamp s) + n + 2 * w" using w(4,6) tmo t1 d by linarith
  moreover have "udelay B usec (s, m) = Some (s', m')" using w(1) g(1) by (simp add: udelay_def get_timer_uboot_def)
  ultimately have "udelay B usec (s, m) = Some (s', m') \<and> synced t s' \<and> t < T (dev m') \<and> T (dev m') \<le> t + step \<and>
    ?t + n \<le> t \<and> unat (timestamp s') \<le> unat (timestamp s) + n + 2 * w"
    using w(3,7,8) by linarith
  then show ?thesis unfolding n by blast
qed

text \<open>A delay leaves alone what reading the counter leaves alone.\<close>

lemma get_timer_masked_frame:
  assumes "\<And>d. f (snd (bus_rd B T0TC d)) = f d" "get_timer_masked B (s, m) = (v, s', m')"
  shows "f (dev m') = f (dev m)"
  using assms(1) [of "dev m"] assms(2)
  by (auto simp: get_timer_masked_def READ_TIMER_def Let_def rd_parts case_prod_unfold simp del: T0TC_def)

lemma wait_until_frame_raw:
  fixes B :: "'d bus"
  assumes "wait_until B tmo sm = Some sm'"
  shows "(\<forall>d. f (snd (bus_rd B T0TC d)) = f d) \<longrightarrow> f (dev (snd sm')) = f (dev (snd sm))"
proof (rule wait_until.raw_induct [where P = "\<lambda>B tmo sm sm'. (\<forall>d. f (snd (bus_rd B T0TC d)) = f d) \<longrightarrow> f (dev (snd sm')) = f (dev (snd sm))", OF _ assms], rule impI)
  fix wu :: "'d bus \<Rightarrow> u32 \<Rightarrow> utimer \<times> 'd machine \<Rightarrow> (utimer \<times> 'd machine) option" and B :: "'d bus" and tmo sm sm'
  assume IH: "\<And>B tmo sm sm'. wu B tmo sm = Some sm' \<Longrightarrow> (\<forall>d. f (snd (bus_rd B T0TC d)) = f d) \<longrightarrow> f (dev (snd sm')) = f (dev (snd sm))"
    and eq: "(let (t, sm) = get_timer_masked B sm in if t < tmo then wu B tmo sm else Some sm) = Some sm'"
    and f: "\<forall>d. f (snd (bus_rd B T0TC d)) = f d"
  obtain s m where sm: "sm = (s, m)" by (cases sm)
  obtain v s1 m1 where g: "get_timer_masked B (s, m) = (v, s1, m1)" by (cases "get_timer_masked B (s, m)")
  have e: "f (dev m1) = f (dev m)" using get_timer_masked_frame [of f B, OF _ g] f by blast
  from eq have "(if v < tmo then wu B tmo (s1, m1) else Some (s1, m1)) = Some sm'" by (simp add: sm g)
  then show "f (dev (snd sm')) = f (dev (snd sm))" using IH [of B tmo "(s1, m1)"] e f sm by (auto split: if_splits)
qed

lemma udelay_frame:
  assumes f: "\<And>d. f (snd (bus_rd B T0TC d)) = f d" and u: "udelay B usec (s, m) = Some (s', m')"
  shows "f (dev m') = f (dev m)"
proof -
  obtain v s1 m1 where g: "get_timer_masked B (s, m) = (v, s1, m1)" by (cases "get_timer_masked B (s, m)")
  have "wait_until B (usec_ticks usec + v) (s1, m1) = Some (s', m')" using u g by (simp add: udelay_def get_timer_uboot_def)
  then have "f (dev m') = f (dev m1)" using wait_until_frame_raw [of B _ "(s1, m1)" "(s', m')" f] f by simp
  moreover have "f (dev m1) = f (dev m)" using get_timer_masked_frame [of f B, OF _ g] f by blast
  ultimately show ?thesis by simp
qed

text \<open>
  \<^verbatim>\<open>udelay\<close> returns, after at least ten timer ticks per full millisecond, also when the 16-bit counter
  wraps while it waits. The microseconds below a full millisecond are dropped: a request for less than a
  millisecond may return at once.
\<close>

theorem udelay_waits:
  assumes "ticks B T step" "step < 65536" "synced t0 s" "t0 \<le> T (dev m)" "T (dev m) < t0 + 65536"
    "unat usec \<le> 10 ^ 8" "unat (timestamp s) + 10 * (unat usec div 1000) + 2 * 65536 < 2 ^ 32"
  shows "\<exists>s' m'. udelay B usec (s, m) = Some (s', m') \<and> T (dev m) + 10 * (unat usec div 1000) \<le> T (dev m')"
  using udelay_ok [OF assms(1) _ _ assms(3,4), of 65535 usec] assms(2,5-) by (force intro: le_trans less_imp_le)

theorem udelay_waits_witness:
  "\<exists>s' m'. udelay (count_bus 7) 5000 (\<lparr>timestamp = 0, lastdec = 65500\<rparr>, \<lparr>dev = 65530, trace = []\<rparr>) = Some (s', m') \<and> 65580 \<le> dev m'"
  using udelay_waits [OF count_bus_ticks, of 7 65500 "\<lparr>timestamp = 0, lastdec = 65500\<rparr>" "\<lparr>dev = 65530, trace = []\<rparr>" "5000"]
  by (simp add: synced_def)

end
