(* ===== verification/Uboot_Serial.thy ===== *)
theory Uboot_Serial
  imports Uboot_Timer
begin

text \<open>
  The boot loader's serial driver, \<^verbatim>\<open>u-boot-1.1.6-dev/cpu/arm7tdmi/serial.c\<close>, as the board configures it:
  \<^verbatim>\<open>CONFIG_SERIAL2\<close> selects UART 1. The baud rate of the global data is the argument \<open>baudrate\<close>.
\<close>

definition U1RBR :: u32 where [simp]: "U1RBR = 0xE0010000"
definition U1THR :: u32 where [simp]: "U1THR = 0xE0010000"
definition U1IER :: u32 where [simp]: "U1IER = 0xE0010004"
definition U1FCR :: u32 where [simp]: "U1FCR = 0xE0010008"
definition U1LCR :: u32 where [simp]: "U1LCR = 0xE001000C"
definition U1LSR :: u32 where [simp]: "U1LSR = 0xE0010014"
definition U1DLL :: u32 where [simp]: "U1DLL = 0xE0010000"
definition U1DLM :: u32 where [simp]: "U1DLM = 0xE0010004"

definition TX_READY :: "u32 \<Rightarrow> bool" where
  "TX_READY s \<longleftrightarrow> s AND 0x40 \<noteq> 0"

definition RX_DATA :: "u32 \<Rightarrow> bool" where
  "RX_DATA s \<longleftrightarrow> s AND 0x01 \<noteq> 0"

partial_function (option) serial_flush_input :: "'d bus \<Rightarrow> 'd machine \<Rightarrow> 'd machine option" where
  "serial_flush_input B m =
     (let (v, m) = rd B U1LSR m in
      if RX_DATA v then serial_flush_input B (touch B U1RBR m) else Some m)"

declare serial_flush_input.simps [code]

definition serial_flush_output :: "'d bus \<Rightarrow> 'd machine \<Rightarrow> 'd machine option" where
  "serial_flush_output B m = map_option snd (poll B U1LSR TX_READY m)"

text \<open>The cases for 38400 and 57600 have no \<open>break\<close> and fall into the next ones.\<close>

definition brg_divisor :: "u32 \<Rightarrow> u32" where
  "brg_divisor baudrate =
     (if baudrate = 9600 then 96 else if baudrate = 19200 then 48
      else
        let divisor = 0;
            at_38400 = (baudrate = 38400);
            divisor = (if at_38400 then 24 else divisor);
            at_57600 = (at_38400 \<or> baudrate = 57600);
            divisor = (if at_57600 then 16 else divisor);
            at_115200 = (at_57600 \<or> baudrate = 115200)
        in if at_115200 then 8 else divisor)"

definition serial_setbrg :: "'d bus \<Rightarrow> u32 \<Rightarrow> 'd machine \<Rightarrow> 'd machine option" where
  "serial_setbrg B baudrate m = do {
     let divisor = brg_divisor baudrate;
     let m = wr8 B U1LCR 0x83 m;
     let m = wr8 B U1DLM (ucast (drop_bit 8 divisor AND 0x00ff)) m;
     let m = wr8 B U1DLL (ucast (divisor AND 0x00ff)) m;
     let m = wr8 B U1LCR 0x03 m;
     let m = wr8 B U1IER 0x07 m;
     let m = wr8 B U1FCR 0x81 m;
     m \<leftarrow> serial_flush_output B m;
     serial_flush_input B m
   }"

definition serial_init :: "'d bus \<Rightarrow> u32 \<Rightarrow> 'd machine \<Rightarrow> (u32 \<times> 'd machine) option" where
  "serial_init B baudrate m = map_option (Pair 0) (serial_setbrg B baudrate m)"

function serial_putc :: "'d bus \<Rightarrow> u8 \<Rightarrow> 'd machine \<Rightarrow> 'd machine option" where
  "serial_putc B c m = do {
     (v, m) \<leftarrow> poll B U1LSR TX_READY m;
     let m = wr8 B U1THR c m;
     if c = 10 then serial_putc B 13 m else Some m
   }"
  by pat_completeness auto

termination
  by (relation "measure (\<lambda>(B, c, m). if c = 10 then 1 else 0)") auto

declare serial_putc.simps [simp del]

definition serial_tstc :: "'d bus \<Rightarrow> 'd machine \<Rightarrow> u32 \<times> 'd machine" where
  "serial_tstc B m = (let (v, m) = rd8 B U1LSR m in (ucast v AND 1, m))"

partial_function (option) serial_getc :: "'d bus \<Rightarrow> 'd machine \<Rightarrow> (u32 \<times> 'd machine) option" where
  "serial_getc B m =
     (let (rv, m) = serial_tstc B m in
      if rv \<noteq> 0 then (let (c, m) = rd8 B U1RBR m in Some (ucast c, m)) else serial_getc B m)"

declare serial_getc.simps [code]

fun serial_puts :: "'d bus \<Rightarrow> u8 list \<Rightarrow> 'd machine \<Rightarrow> 'd machine option" where
  "serial_puts B [] m = Some m"
| "serial_puts B (c # s) m = (if c = 0 then Some m else do { m \<leftarrow> serial_putc B c m; serial_puts B s m })"

section \<open>The contract of a polled transmitter\<close>

lemma serial_putc_unfold:
  "serial_putc B c m = do {
     (v, m) \<leftarrow> poll B U1LSR TX_READY m;
     let m = wr8 B U1THR c m;
     if c = 10 then do { (v, m) \<leftarrow> poll B U1LSR TX_READY m; Some (wr8 B U1THR 13 m) } else Some m
   }"
proof -
  have "serial_putc B 13 m = do { (v, m) \<leftarrow> poll B U1LSR TX_READY m; Some (wr8 B U1THR 13 m) }" for m
    by (subst serial_putc.simps) (simp add: Let_def)
  then show ?thesis by (subst serial_putc.simps) (simp add: Let_def cong: if_cong)
qed

lemma serial_putc_sends: "serial_putc B c m = Some m' \<Longrightarrow> wrs m' = wrs m @ map (Pair U1THR) (crlf c)"
  by (auto simp: serial_putc_unfold crlf_def io_simps split: bind_splits if_splits)

lemma serial_putc_live: "settles B U1LSR TX_READY \<Longrightarrow> \<exists>m'. serial_putc B c m = Some m'"
proof -
  assume s: "settles B U1LSR TX_READY"
  obtain v m1 where 1: "poll B U1LSR TX_READY m = Some (v, m1)" using settlesD [OF s] by blast
  obtain w m2 where "poll B U1LSR TX_READY (wr8 B U1THR c m1) = Some (w, m2)" using settlesD [OF s] by blast
  with 1 show ?thesis by (auto simp: serial_putc_unfold Let_def)
qed

interpretation ub: polled_tx "serial_putc B" "serial_puts B" crlf U1THR "settles B U1LSR TX_READY" for B
  by unfold_locales (auto simp: serial_putc_sends serial_putc_live simp del: U1THR_def U1LSR_def)

section \<open>Baud rates\<close>

text \<open>
  What \<^verbatim>\<open>serial_setbrg\<close> programs: when it returns, the two divisor bytes stored under the divisor latch
  are those of 96 for 9600 baud and 48 for 19200, and those of 8, which is 115200 baud, for 38400, 57600
  and 115200 alike. For any other rate they are 0.
\<close>

theorem serial_setbrg_divisor:
  assumes "serial_setbrg B baudrate m = Some m'"
  shows "\<exists>d. wrs m' = wrs m @ [(U1LCR, 0x83), (U1DLM, 0), (U1DLL, d), (U1LCR, 3), (U1IER, 7), (U1FCR, 0x81)] \<and>
    d = (if baudrate = 9600 then 96 else if baudrate = 19200 then 48 else if baudrate \<in> {38400, 57600, 115200} then 8 else 0)"
proof -
  have flush: "wrs m2 = wrs m1" if "serial_flush_input B m1 = Some m2" for m1 m2 :: "'a machine"
  proof (rule serial_flush_input.raw_induct [where P = "\<lambda>B m m'. wrs m' = wrs m", OF _ that])
    fix f :: "'a bus \<Rightarrow> 'a machine \<Rightarrow> 'a machine option" and B :: "'a bus" and m m'
    assume IH: "\<And>B m m'. f B m = Some m' \<Longrightarrow> wrs m' = wrs m"
      and eq: "(let (v, m) = rd B U1LSR m in if RX_DATA v then f B (touch B U1RBR m) else Some m) = Some m'"
    obtain v m1 where r: "rd B U1LSR m = (v, m1)" by (cases "rd B U1LSR m")
    show "wrs m' = wrs m" using eq IH [of B "touch B U1RBR m1" m'] wrs_rd [OF r] unfolding r
      by (auto simp del: U1RBR_def split: if_splits)
  qed
  have "brg_divisor baudrate \<in> {96, 48, 8, 0}" by (simp add: brg_divisor_def Let_def)
  then have hi: "drop_bit 8 (brg_divisor baudrate) AND 0xff = 0" "brg_divisor baudrate AND 0xff = brg_divisor baudrate" by auto
  obtain m1 where "serial_flush_output B (wr8 B U1FCR 0x81 (wr8 B U1IER 0x07 (wr8 B U1LCR 0x03 (wr8 B U1DLL (ucast (brg_divisor baudrate))
      (wr8 B U1DLM 0 (wr8 B U1LCR 0x83 m)))))) = Some m1" "serial_flush_input B m1 = Some m'"
    using assms unfolding serial_setbrg_def Let_def hi by (auto split: bind_splits)
  then have "wrs m' = wrs m @ [(U1LCR, 0x83), (U1DLM, 0), (U1DLL, ucast (ucast (brg_divisor baudrate) :: u8)), (U1LCR, 3), (U1IER, 7), (U1FCR, 0x81)]"
    using flush by (auto simp: serial_flush_output_def io_simps)
  then show ?thesis by (auto simp: brg_divisor_def Let_def)
qed

theorem serial_setbrg_divisor_witness:
  "\<exists>m'. serial_setbrg (const_bus (\<lambda>_. 0x40)) 38400 \<lparr>dev = (), trace = []\<rparr> = Some m' \<and> (U1DLL, 8) \<in> set (wrs m')"
proof -
  have "poll (const_bus (\<lambda>_. 0x40)) U1LSR TX_READY m = Some (rd (const_bus (\<lambda>_. 0x40)) U1LSR m)" for m
    by (rule poll_now) (simp add: TX_READY_def)
  moreover have "serial_flush_input (const_bus (\<lambda>_. 0x40)) m = Some (snd (rd (const_bus (\<lambda>_. 0x40)) U1LSR m))" for m
    by (subst serial_flush_input.simps) (simp add: case_prod_unfold RX_DATA_def)
  ultimately obtain m' where m': "serial_setbrg (const_bus (\<lambda>_. 0x40)) 38400 \<lparr>dev = (), trace = []\<rparr> = Some m'"
    by (simp add: serial_setbrg_def serial_flush_output_def Let_def)
  from serial_setbrg_divisor [OF m'] m' show ?thesis by simp
qed

end
