(* ===== verification/Uboot_Flash.thy ===== *)
theory Uboot_Flash
  imports Uboot_Timer
begin

text \<open>
  The flash driver of the boot loader's port, \<^verbatim>\<open>u-boot-1.1.6-dev/board/lpc2294/flash.c\<close>, with the sector
  protection and the checked write of \<^verbatim>\<open>common/flash.c\<close>, in the configuration \<^verbatim>\<open>configs/lpc2294.h\<close>:
  one bank at \<open>0x80000000\<close>, a 16-bit bus, 135 sectors at most. What the driver prints is left out.

  The flash is hardware, so its accesses of the three widths are a parameter beside the register bus of
  the timer. A load of 32 bits through a pointer that is not aligned is undefined in C.
\<close>

section \<open>Constants of flash.h and of the board's configuration\<close>

definition AMD_MANUFACT :: u32 where [simp]: "AMD_MANUFACT = 0x10001"
definition FUJ_MANUFACT :: u32 where [simp]: "FUJ_MANUFACT = 0x40004"
definition ATM_MANUFACT :: u32 where [simp]: "ATM_MANUFACT = 0x1F001F"
definition STM_MANUFACT :: u32 where [simp]: "STM_MANUFACT = 0x200020"
definition SST_MANUFACT :: u32 where [simp]: "SST_MANUFACT = 0xBF00BF"
definition AMD_ID_LV400T :: u32 where [simp]: "AMD_ID_LV400T = 0x22B922B9"
definition AMD_ID_LV400B :: u32 where [simp]: "AMD_ID_LV400B = 0x22BA22BA"
definition AMD_ID_LV800T :: u32 where [simp]: "AMD_ID_LV800T = 0x22DA22DA"
definition AMD_ID_LV800B :: u32 where [simp]: "AMD_ID_LV800B = 0x225B225B"
definition AMD_ID_LV160T :: u32 where [simp]: "AMD_ID_LV160T = 0x22C422C4"
definition AMD_ID_LV160B :: u32 where [simp]: "AMD_ID_LV160B = 0x22492249"
definition STM_ID_29W320DT :: u32 where [simp]: "STM_ID_29W320DT = 0x22CA22CA"
definition AMD_ID_LV320T :: u32 where [simp]: "AMD_ID_LV320T = 0x22F622F6"
definition AMD_ID_LV320B :: u32 where [simp]: "AMD_ID_LV320B = 0x22F922F9"
definition AMD_ID_DL322T :: u32 where [simp]: "AMD_ID_DL322T = 0x22552255"
definition AMD_ID_DL322B :: u32 where [simp]: "AMD_ID_DL322B = 0x22562256"
definition AMD_ID_DL323T :: u32 where [simp]: "AMD_ID_DL323T = 0x22502250"
definition AMD_ID_DL323B :: u32 where [simp]: "AMD_ID_DL323B = 0x22532253"
definition AMD_ID_LV640U :: u32 where [simp]: "AMD_ID_LV640U = 0x22D722D7"
definition SST_ID_xF800A :: u32 where [simp]: "SST_ID_xF800A = 0x27812781"
definition SST_ID_xF160A :: u32 where [simp]: "SST_ID_xF160A = 0x27822782"
definition ATM_ID_BV642DT :: u32 where [simp]: "ATM_ID_BV642DT = 0x1D2"
definition FLASH_AM400T :: u32 where [simp]: "FLASH_AM400T = 0x2"
definition FLASH_AM400B :: u32 where [simp]: "FLASH_AM400B = 0x3"
definition FLASH_AM800T :: u32 where [simp]: "FLASH_AM800T = 0x4"
definition FLASH_AM800B :: u32 where [simp]: "FLASH_AM800B = 0x5"
definition FLASH_AM160T :: u32 where [simp]: "FLASH_AM160T = 0x6"
definition FLASH_AM160B :: u32 where [simp]: "FLASH_AM160B = 0x7"
definition FLASH_AM320T :: u32 where [simp]: "FLASH_AM320T = 0x8"
definition FLASH_AM320B :: u32 where [simp]: "FLASH_AM320B = 0x9"
definition FLASH_AMDL322T :: u32 where [simp]: "FLASH_AMDL322T = 0x10"
definition FLASH_AMDL322B :: u32 where [simp]: "FLASH_AMDL322B = 0x11"
definition FLASH_AMDL323T :: u32 where [simp]: "FLASH_AMDL323T = 0x12"
definition FLASH_AMDL323B :: u32 where [simp]: "FLASH_AMDL323B = 0x13"
definition FLASH_AMDL324T :: u32 where [simp]: "FLASH_AMDL324T = 0x14"
definition FLASH_AMDL324B :: u32 where [simp]: "FLASH_AMDL324B = 0x15"
definition FLASH_SST800A :: u32 where [simp]: "FLASH_SST800A = 0x44"
definition FLASH_SST160A :: u32 where [simp]: "FLASH_SST160A = 0x46"
definition FLASH_STMW320DT :: u32 where [simp]: "FLASH_STMW320DT = 0x52"
definition FLASH_AM640U :: u32 where [simp]: "FLASH_AM640U = 0x90"
definition FLASH_ATBV642DT :: u32 where [simp]: "FLASH_ATBV642DT = 0xF2"
definition FLASH_UNKNOWN :: u32 where [simp]: "FLASH_UNKNOWN = 0xFFFF"
definition FLASH_MAN_AMD :: u32 where [simp]: "FLASH_MAN_AMD = 0x0"
definition FLASH_MAN_FUJ :: u32 where [simp]: "FLASH_MAN_FUJ = 0x10000"
definition FLASH_MAN_STM :: u32 where [simp]: "FLASH_MAN_STM = 0x40000"
definition FLASH_MAN_SST :: u32 where [simp]: "FLASH_MAN_SST = 0x100000"
definition FLASH_MAN_ATM :: u32 where [simp]: "FLASH_MAN_ATM = 0x600000"
definition FLASH_TYPEMASK :: u32 where [simp]: "FLASH_TYPEMASK = 0xFFFF"
definition FLASH_VENDMASK :: u32 where [simp]: "FLASH_VENDMASK = 0xFFFF0000"
definition FLASH_BTYPE :: u32 where [simp]: "FLASH_BTYPE = 0x1"
definition FLAG_PROTECT_SET :: u32 where [simp]: "FLAG_PROTECT_SET = 0x1"
definition FLAG_PROTECT_CLEAR :: u32 where [simp]: "FLAG_PROTECT_CLEAR = 0x2"
definition ERR_OK :: u32 where [simp]: "ERR_OK = 0x0"
definition ERR_PROTECTED :: u32 where [simp]: "ERR_PROTECTED = 0x4"
definition ERR_INVAL :: u32 where [simp]: "ERR_INVAL = 0x8"

definition CFG_FLASH_BASE :: u32 where [simp]: "CFG_FLASH_BASE = 0x80000000"
definition CFG_MAX_FLASH_SECT :: nat where [simp]: "CFG_MAX_FLASH_SECT = 135"
definition CFG_MONITOR_LEN :: u32 where [simp]: "CFG_MONITOR_LEN = 256 * 1024"
definition CFG_FLASH_ERASE_TOUT :: u32 where [simp]: "CFG_FLASH_ERASE_TOUT = 120000"
definition CFG_FLASH_WRITE_TOUT :: u32 where [simp]: "CFG_FLASH_WRITE_TOUT = 1000"
definition CFG_FLASH_ADDR0 :: u32 where [simp]: "CFG_FLASH_ADDR0 = 0x555"
definition CFG_FLASH_ADDR1 :: u32 where [simp]: "CFG_FLASH_ADDR1 = 0xaaa"
definition CFG_FLASH_READ0 :: u32 where [simp]: "CFG_FLASH_READ0 = 0"
definition CFG_FLASH_READ1 :: u32 where [simp]: "CFG_FLASH_READ1 = 1"
definition CFG_FLASH_READ2 :: u32 where [simp]: "CFG_FLASH_READ2 = 2"

section \<open>Accesses and data\<close>

record 'd fbus =
  regs :: "'d bus"
  fl_rd8 :: "u32 \<Rightarrow> 'd \<Rightarrow> u8 \<times> 'd"
  fl_rd16 :: "u32 \<Rightarrow> 'd \<Rightarrow> u16 \<times> 'd"
  fl_rd32 :: "u32 \<Rightarrow> 'd \<Rightarrow> u32 \<times> 'd"
  fl_wr16 :: "u32 \<Rightarrow> u16 \<Rightarrow> 'd \<Rightarrow> 'd"

type_synonym 'd fstate = "utimer \<times> 'd machine"

definition get8 :: "'d fbus \<Rightarrow> u32 \<Rightarrow> 'd fstate \<Rightarrow> u8 \<times> 'd fstate" where
  "get8 F a sm = (let (s, m) = sm; (v, d) = fl_rd8 F a (dev m) in (v, s, m\<lparr>dev := d\<rparr>))"

definition get16 :: "'d fbus \<Rightarrow> u32 \<Rightarrow> 'd fstate \<Rightarrow> u16 \<times> 'd fstate" where
  "get16 F a sm = (let (s, m) = sm; (v, d) = fl_rd16 F a (dev m) in (v, s, m\<lparr>dev := d\<rparr>))"

definition get32 :: "'d fbus \<Rightarrow> u32 \<Rightarrow> 'd fstate \<Rightarrow> u32 \<times> 'd fstate" where
  "get32 F a sm = (let (s, m) = sm; (v, d) = fl_rd32 F a (dev m) in (v, s, m\<lparr>dev := d\<rparr>))"

definition put16 :: "'d fbus \<Rightarrow> u32 \<Rightarrow> u16 \<Rightarrow> 'd fstate \<Rightarrow> 'd fstate" where
  "put16 F a v sm = (let (s, m) = sm in (s, m\<lparr>dev := fl_wr16 F a v (dev m)\<rparr>))"

text \<open>\<open>addr2[k]\<close> of a pointer to 16-bit words.\<close>

abbreviation at16 :: "u32 \<Rightarrow> u32 \<Rightarrow> u32" where
  "at16 p k \<equiv> p + 2 * k"

record flash_info =
  bank_size :: u32
  sector_count :: u16
  flash_id :: u32
  start :: "u32 list"
  protect :: "u8 list"

definition set_start :: "int \<Rightarrow> u32 \<Rightarrow> flash_info \<Rightarrow> fault + flash_info" where
  "set_start i v info =
     (if 0 \<le> i \<and> nat i < length (start info) then Inr (info\<lparr>start := (start info)[nat i := v]\<rparr>) else Inl OutOfBounds)"

definition sectors :: "flash_info \<Rightarrow> int" where
  "sectors info = int (unat (sector_count info))"

abbreviation vendor :: "flash_info \<Rightarrow> u32" where
  "vendor info \<equiv> flash_id info AND FLASH_VENDMASK"

abbreviation chip_type :: "flash_info \<Rightarrow> u32" where
  "chip_type info \<equiv> flash_id info AND FLASH_TYPEMASK"

section \<open>Sector start addresses\<close>

text \<open>\<open>start[i] = f(i)\<close> for the indices of a list, \<open>n\<close> turns of \<open>start[i] = base; base += step; ++i\<close>, and
  \<open>n\<close> turns of \<open>base -= step; --i; start[i] = base\<close>.\<close>

fun set_each :: "(int \<Rightarrow> u32) \<Rightarrow> int list \<Rightarrow> flash_info \<Rightarrow> fault + flash_info" where
  "set_each f [] info = Inr info"
| "set_each f (i # is) info = bindE (set_start i (f i) info) (set_each f is)"

fun set_up :: "nat \<Rightarrow> u32 \<Rightarrow> int \<times> u32 \<times> flash_info \<Rightarrow> fault + int \<times> u32 \<times> flash_info" where
  "set_up 0 step st = Inr st"
| "set_up (Suc n) step (i, base, info) = bindE (set_start i base info) (\<lambda>info. set_up n step (i + 1, base + step, info))"

fun set_down :: "nat \<Rightarrow> u32 \<Rightarrow> int \<times> u32 \<times> flash_info \<Rightarrow> fault + int \<times> u32 \<times> flash_info" where
  "set_down 0 step st = Inr st"
| "set_down (Suc n) step (i, base, info) =
     (let base = base - step; i = i - 1 in bindE (set_start i base info) (\<lambda>info. set_down n step (i, base, info)))"

definition uniform_starts :: "u32 \<Rightarrow> flash_info \<Rightarrow> fault + flash_info" where
  "uniform_starts base info = set_each (\<lambda>i. base + of_int i * 0x00020000) [0..sectors info - 1] info"

definition bottom_8_starts :: "u32 \<Rightarrow> flash_info \<Rightarrow> fault + flash_info" where
  "bottom_8_starts base info =
     bindE (set_up 8 (push_bit 10 8) (0, base, info)) (\<lambda>(i, base, info).
     bindE (set_up (nat (sectors info - i)) (push_bit 10 64) (i, base, info)) (\<lambda>(i, base, info). Inr info))"

definition top_8_starts :: "u32 \<Rightarrow> flash_info \<Rightarrow> fault + flash_info" where
  "top_8_starts base info =
     bindE (set_down 8 (push_bit 10 8) (sectors info, base + bank_size info, info)) (\<lambda>(i, base, info).
     bindE (set_down (nat i) (push_bit 10 64) (i, base, info)) (\<lambda>(i, base, info). Inr info))"

definition top_stm_starts :: "u32 \<Rightarrow> flash_info \<Rightarrow> fault + flash_info" where
  "top_stm_starts base info =
     bindE (set_down 1 (push_bit 10 16) (sectors info, base + bank_size info, info)) (\<lambda>st.
     bindE (set_down 2 (push_bit 10 8) st) (\<lambda>st.
     bindE (set_down 1 (push_bit 10 32) st) (\<lambda>(i, base, info).
     bindE (set_down (nat i) (push_bit 10 64) (i, base, info)) (\<lambda>(i, base, info). Inr info))))"

definition boot_block_starts :: "u32 \<Rightarrow> flash_info \<Rightarrow> fault + flash_info" where
  "boot_block_starts base info =
     (if flash_id info AND FLASH_BTYPE \<noteq> 0 then
        bindE (set_start 0 (base + 0x00000000) info) (\<lambda>info.
        bindE (set_start 1 (base + 0x00004000) info) (\<lambda>info.
        bindE (set_start 2 (base + 0x00006000) info) (\<lambda>info.
        bindE (set_start 3 (base + 0x00008000) info)
          (set_each (\<lambda>i. base + of_int i * 0x00010000 - 0x00030000) [4..sectors info - 1]))))
      else
        let i = sectors info - 1 in
        bindE (set_start i (base + bank_size info - 0x00004000) info) (\<lambda>info.
        bindE (set_start (i - 1) (base + bank_size info - 0x00006000) info) (\<lambda>info.
        bindE (set_start (i - 2) (base + bank_size info - 0x00008000) info)
          (set_each (\<lambda>i. base + of_int i * 0x00010000) (rev [0..i - 3])))))"

definition flash_get_offsets :: "u32 \<Rightarrow> flash_info \<Rightarrow> fault + flash_info" where
  "flash_get_offsets base info =
     (if vendor info = FLASH_MAN_SST \<or> chip_type info = FLASH_AM640U then uniform_starts base info
      else if chip_type info = FLASH_AMDL322B \<or> chip_type info = FLASH_AMDL323B \<or> chip_type info = FLASH_AM320B \<or>
              chip_type info = FLASH_AMDL324B then bottom_8_starts base info
      else if chip_type info = FLASH_AMDL322T \<or> chip_type info = FLASH_AMDL323T \<or> chip_type info = FLASH_AM320T \<or>
              chip_type info = FLASH_ATBV642DT then top_8_starts base info
      else boot_block_starts base info)"

text \<open>The second copy of the table computation, inside \<open>flash_get_size\<close>.\<close>

definition size_starts :: "u32 \<Rightarrow> flash_info \<Rightarrow> fault + flash_info" where
  "size_starts base info =
     (if vendor info = FLASH_MAN_SST \<or> chip_type info = FLASH_AM640U then uniform_starts base info
      else if chip_type info = FLASH_AMDL322B \<or> chip_type info = FLASH_AMDL323B \<or> chip_type info = FLASH_AM320B \<or>
              chip_type info = FLASH_AMDL324B then bottom_8_starts base info
      else if chip_type info = FLASH_AMDL322T \<or> chip_type info = FLASH_AMDL323T \<or> chip_type info = FLASH_AM320T \<or>
              chip_type info = FLASH_AMDL324T \<or> chip_type info = FLASH_ATBV642DT then top_8_starts base info
      else if chip_type info = FLASH_STMW320DT then top_stm_starts base info
      else boot_block_starts base info)"

section \<open>Identification\<close>

definition manufacturer :: "u16 \<Rightarrow> u32 option" where
  "manufacturer value =
     (if value = ucast ATM_MANUFACT then Some FLASH_MAN_ATM
      else if value = ucast AMD_MANUFACT then Some FLASH_MAN_AMD
      else if value = ucast FUJ_MANUFACT then Some FLASH_MAN_FUJ
      else if value = ucast SST_MANUFACT then Some FLASH_MAN_SST
      else if value = ucast STM_MANUFACT then Some FLASH_MAN_STM else None)"

text \<open>The cases of the switch over the device code: code, type, sectors and size.\<close>

definition chip_table :: "(u32 \<times> u32 \<times> u16 \<times> u32) list" where
  "chip_table =
    [(ATM_ID_BV642DT, FLASH_ATBV642DT, 135, 0x00800000),
     (AMD_ID_LV400T, FLASH_AM400T, 11, 0x00080000),
     (AMD_ID_LV400B, FLASH_AM400B, 11, 0x00080000),
     (AMD_ID_LV800T, FLASH_AM800T, 19, 0x00100000),
     (AMD_ID_LV800B, FLASH_AM800B, 19, 0x00100000),
     (AMD_ID_LV160T, FLASH_AM160T, 35, 0x00200000),
     (AMD_ID_LV160B, FLASH_AM160B, 35, 0x00200000),
     (STM_ID_29W320DT, FLASH_STMW320DT, 67, 0x00400000),
     (AMD_ID_LV320T, FLASH_AM320T, 71, 0x00400000),
     (AMD_ID_LV320B, FLASH_AM320B, 71, 0x00400000),
     (AMD_ID_DL322T, FLASH_AMDL322T, 71, 0x00400000),
     (AMD_ID_DL322B, FLASH_AMDL322B, 71, 0x00400000),
     (AMD_ID_DL323T, FLASH_AMDL323T, 71, 0x00400000),
     (AMD_ID_DL323B, FLASH_AMDL323B, 71, 0x00400000),
     (AMD_ID_LV640U, FLASH_AM640U, 128, 0x00800000),
     (SST_ID_xF800A, FLASH_SST800A, 16, 0x00100000),
     (SST_ID_xF160A, FLASH_SST160A, 32, 0x00400000)]"

definition device :: "u16 \<Rightarrow> (u32 \<times> u16 \<times> u32) option" where
  "device value = map_of (map (\<lambda>(code, entry). (ucast code, entry)) chip_table) value"

fun read_protect :: "'d fbus \<Rightarrow> nat list \<Rightarrow> flash_info \<times> 'd fstate \<Rightarrow> fault + flash_info \<times> 'd fstate" where
  "read_protect F [] st = Inr st"
| "read_protect F (i # is) (info, sm) =
     (if length (start info) \<le> i \<or> length (protect info) \<le> i then Inl OutOfBounds
      else if vendor info = FLASH_MAN_SST then read_protect F is (info\<lparr>protect := (protect info)[i := 0]\<rparr>, sm)
      else let (v, sm) = get16 F (at16 (start info ! i) CFG_FLASH_READ2) sm
           in read_protect F is (info\<lparr>protect := (protect info)[i := ucast (v AND 1)]\<rparr>, sm))"

definition flash_get_size :: "'d fbus \<Rightarrow> u32 \<Rightarrow> flash_info \<times> 'd fstate \<Rightarrow> fault + u32 \<times> flash_info \<times> 'd fstate" where
  "flash_get_size F addr st =
     (let (info, sm) = st;
          sm = put16 F (at16 addr CFG_FLASH_ADDR0) 0x00AA sm;
          sm = put16 F (at16 addr CFG_FLASH_ADDR1) 0x0055 sm;
          sm = put16 F (at16 addr CFG_FLASH_ADDR0) 0x0090 sm;
          (value, sm) = get16 F (at16 addr CFG_FLASH_READ0) sm
      in case manufacturer value of
           None \<Rightarrow> Inr (0, info\<lparr>flash_id := FLASH_UNKNOWN, sector_count := 0, bank_size := 0\<rparr>, sm)
         | Some man \<Rightarrow>
             let info = info\<lparr>flash_id := man\<rparr>;
                 (value, sm) = get16 F (at16 addr CFG_FLASH_READ1) sm
             in case device value of
                  None \<Rightarrow> Inr (0, info\<lparr>flash_id := FLASH_UNKNOWN\<rparr>, sm)
                | Some (ty, n, sz) \<Rightarrow>
                    let info = info\<lparr>flash_id := flash_id info + ty, sector_count := n, bank_size := sz\<rparr> in
                    bindE (size_starts addr info) (\<lambda>info.
                    bindE (read_protect F [0..<unat (sector_count info)] (info, sm)) (\<lambda>(info, sm).
                      let sm = (if flash_id info \<noteq> FLASH_UNKNOWN then put16 F (start info ! 0) 0x00F0 sm else sm)
                      in Inr (bank_size info, info, sm))))"

section \<open>Protection and start-up\<close>

definition flash_sector_end :: "flash_info \<Rightarrow> nat \<Rightarrow> u32" where
  "flash_sector_end info i =
     (if int i = sectors info - 1 then start info ! 0 + bank_size info - 1 else start info ! (i + 1) - 1)"

definition flash_protect :: "u32 \<Rightarrow> u32 \<Rightarrow> u32 \<Rightarrow> flash_info \<Rightarrow> flash_info" where
  "flash_protect flag from to info =
     (let b_end = start info ! 0 + bank_size info - 1 in
      if sector_count info = 0 \<or> bank_size info = 0 \<or> to < from then info
      else if flash_id info = FLASH_UNKNOWN \<or> to < start info ! 0 \<or> from > b_end then info
      else fold (\<lambda>i info.
             if from \<le> flash_sector_end info i \<and> to \<ge> start info ! i then
               (if flag AND FLAG_PROTECT_CLEAR \<noteq> 0 then info\<lparr>protect := (protect info)[i := 0]\<rparr>
                else if flag AND FLAG_PROTECT_SET \<noteq> 0 then info\<lparr>protect := (protect info)[i := 1]\<rparr>
                else info)
             else info) [0..<unat (sector_count info)] info)"

definition flash_init :: "'d fbus \<Rightarrow> flash_info \<times> 'd fstate \<Rightarrow> fault + u32 \<times> flash_info \<times> 'd fstate" where
  "flash_init F st =
     (let (info, sm) = st in
      bindE (flash_get_size F CFG_FLASH_BASE (info\<lparr>flash_id := FLASH_UNKNOWN\<rparr>, sm)) (\<lambda>(size_b0, info, sm).
      bindE (flash_get_offsets CFG_FLASH_BASE info) (\<lambda>info.
        let info = flash_protect FLAG_PROTECT_SET (- CFG_MONITOR_LEN) 0xffffffff info
        in Inr (size_b0, info\<lparr>bank_size := size_b0\<rparr>, sm))))"

section \<open>Erasing\<close>

fun delay_ms :: "'d fbus \<Rightarrow> nat \<Rightarrow> 'd fstate \<Rightarrow> 'd fstate option" where
  "delay_ms F 0 sm = Some sm"
| "delay_ms F (Suc n) sm = Option.bind (udelay (regs F) 1000 sm) (delay_ms F n)"

definition unlock_erase :: "'d fbus \<Rightarrow> u32 \<Rightarrow> 'd fstate \<Rightarrow> 'd fstate" where
  "unlock_erase F addr sm =
     (let sm = put16 F (at16 addr CFG_FLASH_ADDR0) 0x00AA sm;
          sm = put16 F (at16 addr CFG_FLASH_ADDR1) 0x0055 sm;
          sm = put16 F (at16 addr CFG_FLASH_ADDR0) 0x0080 sm;
          sm = put16 F (at16 addr CFG_FLASH_ADDR0) 0x00AA sm
      in put16 F (at16 addr CFG_FLASH_ADDR1) 0x0055 sm)"

definition erase_one :: "'d fbus \<Rightarrow> flash_info \<Rightarrow> bool \<Rightarrow> nat \<Rightarrow> 'd fstate \<Rightarrow> 'd fstate option" where
  "erase_one F info first sect sm =
     (let addr = start info ! 0; addr2 = start info ! sect in
      if vendor info = FLASH_MAN_SST then
        delay_ms F 50 (put16 F addr2 0x0050 (unlock_erase F addr sm))
      else
        let sm = (if first \<or> chip_type info = FLASH_ATBV642DT then unlock_erase F addr sm else sm)
        in delay_ms F 6000 (put16 F addr2 0x0030 sm))"

text \<open>The sectors in order; the result is the last sector erased.\<close>

fun erase_loop :: "'d fbus \<Rightarrow> flash_info \<Rightarrow> nat \<Rightarrow> nat list \<Rightarrow> nat option \<times> 'd fstate \<Rightarrow> (nat option \<times> 'd fstate) option" where
  "erase_loop F info s_first [] st = Some st"
| "erase_loop F info s_first (sect # sects) (l_sect, sm) =
     (if protect info ! sect = 0 then
        Option.bind (erase_one F info (sect = s_first) sect sm) (\<lambda>sm. erase_loop F info s_first sects (Some sect, sm))
      else erase_loop F info s_first sects (l_sect, sm))"

partial_function (option) erase_poll :: "'d fbus \<Rightarrow> u32 \<Rightarrow> u32 \<Rightarrow> 'd fstate \<Rightarrow> (bool \<times> 'd fstate) option" where
  "erase_poll F a st sm =
     (let (v, sm) = get16 F a sm in
      if v AND 0x0080 = 0x0080 then Some (True, sm)
      else let (now, sm) = get_timer_uboot (regs F) st sm
           in if now > CFG_FLASH_ERASE_TOUT then Some (False, sm) else erase_poll F a st sm)"

declare erase_poll.simps [code]

definition flash_erase :: "'d fbus \<Rightarrow> flash_info \<Rightarrow> int \<Rightarrow> int \<Rightarrow> 'd fstate \<Rightarrow> (fault + u32 \<times> 'd fstate) option" where
  "flash_erase F info s_first s_last sm =
     (if s_first < 0 \<or> s_first > s_last then Some (Inr (1, sm))
      else if flash_id info = FLASH_UNKNOWN then Some (Inr (1, sm))
      else if int (length (protect info)) \<le> s_last \<or> int (length (start info)) \<le> s_last then Some (Inl OutOfBounds)
      else do {
        let (flag, sm) = disable_interrupts sm;
        (l_sect, sm) \<leftarrow> erase_loop F info (nat s_first) [nat s_first..<nat s_last + 1] (None, sm);
        let sm = (if flag \<noteq> 0 then enable_interrupts sm else sm);
        sm \<leftarrow> udelay (regs F) 1000 sm;
        (ok, sm) \<leftarrow> (case l_sect of
            None \<Rightarrow> Some (True, sm)
          | Some sect \<Rightarrow> let (st, sm) = get_timer_uboot (regs F) 0 sm in erase_poll F (start info ! sect) st sm);
        if \<not> ok then Some (Inr (1, sm)) else Some (Inr (0, put16 F (start info ! 0) 0x00F0 sm))
      })"

section \<open>Writing\<close>

partial_function (option) word_poll :: "'d fbus \<Rightarrow> u32 \<Rightarrow> u16 \<Rightarrow> u32 \<Rightarrow> 'd fstate \<Rightarrow> (bool \<times> 'd fstate) option" where
  "word_poll F a v st sm =
     (let (x, sm) = get16 F a sm in
      if x AND 0x0080 = v AND 0x0080 then Some (True, sm)
      else let (now, sm) = get_timer_uboot (regs F) st sm
           in if now > CFG_FLASH_WRITE_TOUT then Some (False, sm) else word_poll F a v st sm)"

declare word_poll.simps [code]

text \<open>One turn of the loop over the two halves of the word.\<close>

definition write_half :: "'d fbus \<Rightarrow> flash_info \<Rightarrow> u32 \<Rightarrow> u16 \<Rightarrow> 'd fstate \<Rightarrow> (bool \<times> 'd fstate) option" where
  "write_half F info a v sm =
     (let addr2 = start info ! 0;
          sm = put16 F (at16 addr2 CFG_FLASH_ADDR0) 0x00AA sm;
          sm = put16 F (at16 addr2 CFG_FLASH_ADDR1) 0x0055 sm;
          sm = put16 F (at16 addr2 CFG_FLASH_ADDR0) 0x00A0 sm;
          sm = put16 F a v sm;
          (st, sm) = get_timer_uboot (regs F) 0 sm
      in word_poll F a v st sm)"

definition write_word :: "'d fbus \<Rightarrow> flash_info \<Rightarrow> u32 \<Rightarrow> u32 \<Rightarrow> 'd fstate \<Rightarrow> (u32 \<times> 'd fstate) option" where
  "write_word F info dest data sm = do {
     let (x, sm) = get32 F dest sm;
     if x AND data \<noteq> data then Some (2, sm)
     else do {
       let (flag, sm) = disable_interrupts sm;
       (ok, sm) \<leftarrow> write_half F info dest (ucast data) sm;
       if \<not> ok then Some (1, sm)
       else do {
         (ok, sm) \<leftarrow> write_half F info (dest + 2) (ucast (drop_bit 16 data)) sm;
         Some (if ok then 0 else 1, sm)
       }
     }
   }"

text \<open>
  The source of a copy: the address of the pointer and the bytes from it on. \<open>or_flash\<close> makes \<open>n\<close> turns of
  \<open>data = data | (*(uchar *) cp) << (8 * i)\<close>; \<open>or_src\<close> makes up to \<open>n\<close> turns over the bytes of the
  source while \<open>cnt > 0\<close>.
\<close>

type_synonym source = "u32 \<times> u8 list"

fun or_flash :: "'d fbus \<Rightarrow> nat \<Rightarrow> nat \<Rightarrow> u32 \<Rightarrow> u32 \<Rightarrow> 'd fstate \<Rightarrow> u32 \<times> 'd fstate" where
  "or_flash F 0 i cp data sm = (data, sm)"
| "or_flash F (Suc n) i cp data sm =
     (let (b, sm) = get8 F cp sm in or_flash F n (i + 1) (cp + 1) (data OR push_bit (8 * i) (ucast b)) sm)"

fun or_src :: "nat \<Rightarrow> nat \<Rightarrow> u32 \<Rightarrow> source \<Rightarrow> u32 \<Rightarrow> fault + nat \<times> u32 \<times> source \<times> u32" where
  "or_src 0 i cnt src data = Inr (i, cnt, src, data)"
| "or_src (Suc n) i cnt (p, bs) data =
     (if cnt > 0 then
        (case bs of [] \<Rightarrow> Inl OutOfBounds
         | b # bs \<Rightarrow> or_src n (i + 1) (cnt - 1) (p + 1, bs) (data OR push_bit (8 * i) (ucast b)))
      else Inr (i, cnt, (p, bs), data))"

text \<open>The unaligned start: bytes of the flash, of the source, and of the flash again when the source ends.\<close>

definition lead_word :: "'d fbus \<Rightarrow> flash_info \<Rightarrow> source \<Rightarrow> u32 \<Rightarrow> nat \<Rightarrow> u32 \<Rightarrow> 'd fstate \<Rightarrow> (fault + (u32 \<times> u32 \<times> source \<times> u32) \<times> 'd fstate) option" where
  "lead_word F info src wp l cnt sm =
     (let (data, sm) = or_flash F l 0 wp 0 sm in
      case or_src (4 - l) l cnt src data of
        Inl f \<Rightarrow> Some (Inl f)
      | Inr (i, cnt, src, data) \<Rightarrow>
          let (data, sm) = (if cnt = 0 then or_flash F (4 - i) i (wp + of_nat i) data sm else (data, sm)) in
          map_option (\<lambda>(rc, sm). Inr ((rc, wp + 4, src, cnt), sm)) (write_word F info wp data sm))"

text \<open>\<open>*(ulong * ) src\<close>, little-endian.\<close>

definition load_word :: "source \<Rightarrow> fault + u32 \<times> source" where
  "load_word src =
     (case src of (p, bs) \<Rightarrow>
        if p AND 3 \<noteq> 0 then Inl Unaligned
        else case bs of
               a # b # c # d # bs \<Rightarrow>
                 Inr (ucast a OR push_bit 8 (ucast b) OR push_bit 16 (ucast c) OR push_bit 24 (ucast d), (p + 4, bs))
             | _ \<Rightarrow> Inl OutOfBounds)"

text \<open>\<open>n\<close> turns of \<open>while (cnt >= 4)\<close>.\<close>

fun word_loop :: "'d fbus \<Rightarrow> flash_info \<Rightarrow> nat \<Rightarrow> u32 \<Rightarrow> source \<Rightarrow> u32 \<Rightarrow> 'd fstate \<Rightarrow> (fault + (u32 \<times> u32 \<times> source \<times> u32) \<times> 'd fstate) option" where
  "word_loop F info 0 wp src cnt sm = Some (Inr ((0, wp, src, cnt), sm))"
| "word_loop F info (Suc n) wp src cnt sm =
     (case load_word src of
        Inl f \<Rightarrow> Some (Inl f)
      | Inr (data, src) \<Rightarrow>
          Option.bind (write_word F info wp data sm) (\<lambda>(rc, sm).
            if rc \<noteq> 0 then Some (Inr ((rc, wp, src, cnt), sm)) else word_loop F info n (wp + 4) src (cnt - 4) sm))"

definition tail_word :: "'d fbus \<Rightarrow> flash_info \<Rightarrow> u32 \<Rightarrow> source \<Rightarrow> u32 \<Rightarrow> 'd fstate \<Rightarrow> (fault + u32 \<times> 'd fstate) option" where
  "tail_word F info wp src cnt sm =
     (case or_src 4 0 cnt src 0 of
        Inl f \<Rightarrow> Some (Inl f)
      | Inr (i, cnt, src, data) \<Rightarrow>
          let (data, sm) = or_flash F (4 - i) i (wp + of_nat i) data sm
          in map_option Inr (write_word F info wp data sm))"

definition write_buff :: "'d fbus \<Rightarrow> flash_info \<Rightarrow> source \<Rightarrow> u32 \<Rightarrow> u32 \<Rightarrow> 'd fstate \<Rightarrow> (fault + u32 \<times> 'd fstate) option" where
  "write_buff F info src addr cnt sm =
     (let wp = addr AND NOT 3; l = unat (addr - wp) in
      bind_run (if l \<noteq> 0 then lead_word F info src wp l cnt sm else Some (Inr ((0, wp, src, cnt), sm)))
        (\<lambda>(rc, wp, src, cnt) sm.
           if rc \<noteq> 0 then Some (Inr (rc, sm))
           else bind_run (word_loop F info (unat cnt div 4) wp src cnt sm)
             (\<lambda>(rc, wp, src, cnt) sm.
                if rc \<noteq> 0 then Some (Inr (rc, sm))
                else if cnt = 0 then Some (Inr (0, sm))
                else tail_word F info wp src cnt sm)))"

section \<open>The checked write of common/flash.c\<close>

definition addr2info :: "u32 \<Rightarrow> flash_info \<Rightarrow> bool" where
  "addr2info addr info \<longleftrightarrow> flash_id info \<noteq> FLASH_UNKNOWN \<and> start info ! 0 \<le> addr \<and> addr \<le> start info ! 0 + bank_size info - 1"

definition hits_protected :: "u32 \<Rightarrow> u32 \<Rightarrow> flash_info \<Rightarrow> nat \<Rightarrow> bool" where
  "hits_protected addr last_addr info i \<longleftrightarrow>
     (let e_addr = (if int i = sectors info - 1 then start info ! 0 + bank_size info else start info ! (i + 1))
      in last_addr \<ge> start info ! i \<and> addr < e_addr \<and> protect info ! i \<noteq> 0)"

text \<open>With one bank \<open>addr2info\<close> finds that bank or nothing, and both loops over the banks make one turn.\<close>

definition flash_write :: "'d fbus \<Rightarrow> flash_info \<Rightarrow> source \<Rightarrow> u32 \<Rightarrow> u32 \<Rightarrow> 'd fstate \<Rightarrow> (fault + u32 \<times> 'd fstate) option" where
  "flash_write F info src addr cnt sm =
     (let last_addr = addr + cnt - 1 in
      if cnt = 0 then Some (Inr (ERR_OK, sm))
      else if \<not> addr2info addr info \<or> \<not> addr2info last_addr info then Some (Inr (ERR_INVAL, sm))
      else if \<exists>i \<in> set [0..<unat (sector_count info)]. hits_protected addr last_addr info i then Some (Inr (ERR_PROTECTED, sm))
      else
        let len = start info ! 0 + bank_size info - addr;
            len = (if len > cnt then cnt else len)
        in write_buff F info src addr len sm)"

end
