(* ===== verification/Uboot_Flash_Tables.thy ===== *)
theory Uboot_Flash_Tables
  imports Uboot_Flash
begin

text \<open>
  The sector tables of the boot loader's flash driver: the two copies of the computation agree, the tables
  divide the bank, and what the start-up protects.
\<close>

section \<open>The bank a table describes\<close>

definition bank_info :: "u32 \<Rightarrow> u32 \<times> u32 \<times> u16 \<times> u32 \<Rightarrow> flash_info" where
  "bank_info man e = (case e of (code, ty, n, sz) \<Rightarrow>
     \<lparr>bank_size = sz, sector_count = n, flash_id = man + ty, start = replicate 135 0, protect = replicate 135 0\<rparr>)"

text \<open>The start addresses begin at the base, grow, and stay inside the bank.\<close>

definition divides_bank :: "u32 \<Rightarrow> flash_info \<Rightarrow> bool" where
  "divides_bank base info \<longleftrightarrow>
     (let starts = take (unat (sector_count info)) (start info)
      in starts \<noteq> [] \<and> hd starts = base \<and> sorted_wrt (<) starts \<and> last starts < base + bank_size info)"

section \<open>Filling a part of the table\<close>

definition upd :: "(nat \<Rightarrow> bool) \<Rightarrow> (nat \<Rightarrow> u32) \<Rightarrow> flash_info \<Rightarrow> flash_info" where
  "upd p f info = info\<lparr>start := map (\<lambda>k. if p k then f k else start info ! k) [0..<length (start info)]\<rparr>"

lemma upd_fields [simp]:
  "length (start (upd p f info)) = length (start info)" "sector_count (upd p f info) = sector_count info"
  "bank_size (upd p f info) = bank_size info" "flash_id (upd p f info) = flash_id info" "sectors (upd p f info) = sectors info"
  by (simp_all add: upd_def sectors_def)

lemma upd_upd [simp]: "upd q g (upd p f info) = upd (\<lambda>k. q k \<or> p k) (\<lambda>k. if q k then g k else f k) info"
  by (auto simp: upd_def intro!: nth_equalityI)

lemma upd_none: "upd (\<lambda>k. False) f info = info"
  by (simp add: upd_def map_nth)

lemma upd_cong:
  assumes "\<And>k. k < length (start info) \<Longrightarrow> p k = q k" "\<And>k. k < length (start info) \<Longrightarrow> p k \<Longrightarrow> f k = g k"
  shows "upd p f info = upd q g info"
  using assms by (auto simp: upd_def intro!: nth_equalityI)

lemma set_start_upd: "0 \<le> i \<Longrightarrow> nat i < length (start info) \<Longrightarrow> set_start i v info = Inr (upd (\<lambda>k. k = nat i) (\<lambda>k. v) info)"
  by (auto simp: set_start_def upd_def nth_list_update intro!: nth_equalityI arg_cong [where f = "\<lambda>x. info\<lparr>start := x\<rparr>"])

lemma set_each_upd:
  "(\<And>i. i \<in> set is \<Longrightarrow> 0 \<le> i \<and> nat i < length (start info)) \<Longrightarrow> set_each f is info = Inr (upd (\<lambda>k. int k \<in> set is) (\<lambda>k. f (int k)) info)"
proof (induction "is" arbitrary: info)
  case Nil
  then show ?case by (simp add: upd_none)
next
  case (Cons i "is")
  then have i: "0 \<le> i" "nat i < length (start info)" by auto
  have "upd (\<lambda>k. int k \<in> set is \<or> k = nat i) (\<lambda>k. if int k \<in> set is then f (int k) else f i) info =
      upd (\<lambda>k. int k \<in> set (i # is)) (\<lambda>k. f (int k)) info"
    using i(1) by (intro upd_cong) auto
  then show ?case using Cons.IH [of "upd (\<lambda>k. k = nat i) (\<lambda>k. f i) info"] Cons.prems set_start_upd [OF i, of "f i"] by simp
qed

lemma set_up_upd:
  "i + n \<le> length (start info) \<Longrightarrow>
   set_up n step (int i, base, info) = Inr (int (i + n), base + of_nat n * step, upd (\<lambda>k. i \<le> k \<and> k < i + n) (\<lambda>k. base + of_nat (k - i) * step) info)"
proof (induction n arbitrary: i base info)
  case 0
  have "(\<lambda>k. i \<le> k \<and> k < i + 0) = (\<lambda>k. False)" by auto
  then show ?case by (simp add: upd_none)
next
  case (Suc n)
  let ?u = "upd (\<lambda>k. k = i) (\<lambda>k. base) info"
  have "set_up (Suc n) step (int i, base, info) = set_up n step (int (Suc i), base + step, ?u)"
    using set_start_upd [of "int i" info base] Suc.prems by (simp add: add.commute)
  also have "\<dots> = Inr (int (Suc i + n), (base + step) + of_nat n * step, upd (\<lambda>k. Suc i \<le> k \<and> k < Suc i + n) (\<lambda>k. (base + step) + of_nat (k - Suc i) * step) ?u)"
    using Suc.prems by (intro Suc.IH) simp
  also have "upd (\<lambda>k. Suc i \<le> k \<and> k < Suc i + n) (\<lambda>k. (base + step) + of_nat (k - Suc i) * step) ?u =
      upd (\<lambda>k. i \<le> k \<and> k < i + Suc n) (\<lambda>k. base + of_nat (k - i) * step) info"
  proof (unfold upd_upd, rule upd_cong)
    fix k assume "(Suc i \<le> k \<and> k < Suc i + n) \<or> k = i"
    then show "(if Suc i \<le> k \<and> k < Suc i + n then (base + step) + of_nat (k - Suc i) * step else base) = base + of_nat (k - i) * step"
      by (cases "k = i") (auto simp: Suc_diff_Suc [symmetric] algebra_simps)
  qed auto
  finally show ?case by (simp add: algebra_simps)
qed

lemma set_down_upd:
  "n \<le> i \<Longrightarrow> i \<le> length (start info) \<Longrightarrow>
   set_down n step (int i, base, info) = Inr (int (i - n), base - of_nat n * step, upd (\<lambda>k. i - n \<le> k \<and> k < i) (\<lambda>k. base - of_nat (i - k) * step) info)"
proof (induction n arbitrary: i base info)
  case 0
  have "(\<lambda>k. i - 0 \<le> k \<and> k < i) = (\<lambda>k. False)" by auto
  then show ?case by (simp add: upd_none)
next
  case (Suc n)
  then obtain j where j: "i = Suc j" by (cases i) auto
  let ?u = "upd (\<lambda>k. k = j) (\<lambda>k. base - step) info"
  have "set_down (Suc n) step (int i, base, info) = set_down n step (int j, base - step, ?u)"
    using set_start_upd [of "int j" info "base - step"] Suc.prems by (simp add: j Let_def)
  also have "\<dots> = Inr (int (j - n), (base - step) - of_nat n * step, upd (\<lambda>k. j - n \<le> k \<and> k < j) (\<lambda>k. (base - step) - of_nat (j - k) * step) ?u)"
    using Suc.prems j by (intro Suc.IH) simp_all
  also have "upd (\<lambda>k. j - n \<le> k \<and> k < j) (\<lambda>k. (base - step) - of_nat (j - k) * step) ?u =
      upd (\<lambda>k. i - Suc n \<le> k \<and> k < i) (\<lambda>k. base - of_nat (i - k) * step) info"
  proof (unfold upd_upd, rule upd_cong)
    fix k assume "(j - n \<le> k \<and> k < j) \<or> k = j"
    then show "(if j - n \<le> k \<and> k < j then (base - step) - of_nat (j - k) * step else base - step) = base - of_nat (i - k) * step"
      using j by (cases "k = j") (auto simp: Suc_diff_le algebra_simps)
  qed (use Suc.prems(1) j in auto)
  finally show ?case using j by (simp add: algebra_simps)
qed

section \<open>The five layouts\<close>

text \<open>\<open>laid_out base off info\<close>: the table with sector \<open>k\<close> at offset \<open>off k\<close> of the bank.\<close>

abbreviation laid_out :: "u32 \<Rightarrow> (nat \<Rightarrow> nat) \<Rightarrow> flash_info \<Rightarrow> flash_info" where
  "laid_out base off info \<equiv> upd (\<lambda>k. k < unat (sector_count info)) (\<lambda>k. base + of_nat (off k)) info"

definition bottom_8 :: "nat \<Rightarrow> nat" where
  "bottom_8 k = (if k < 8 then k * 0x2000 else (k - 7) * 0x10000)"

definition top_8 :: "nat \<Rightarrow> nat \<Rightarrow> nat" where
  "top_8 n k = (if k < n - 8 then k * 0x10000 else (n - 8) * 0x10000 + (k - (n - 8)) * 0x2000)"

definition boot_bottom :: "nat \<Rightarrow> nat" where
  "boot_bottom k = (if k = 0 then 0 else if k = 1 then 0x4000 else if k = 2 then 0x6000 else if k = 3 then 0x8000 else (k - 3) * 0x10000)"

definition boot_top :: "nat \<Rightarrow> nat \<Rightarrow> nat" where
  "boot_top n k = (if k \<le> n - 4 then k * 0x10000 else (n - 4) * 0x10000 + (if k = n - 3 then 0x8000 else if k = n - 2 then 0xA000 else 0xC000))"

lemma of_int_nat: "(of_int (int k) :: u32) = of_nat k"
  by simp

lemma uniform_layout:
  "unat (sector_count info) \<le> length (start info) \<Longrightarrow> uniform_starts base info = Inr (laid_out base (\<lambda>k. k * 0x20000) info)"
proof -
  assume n: "unat (sector_count info) \<le> length (start info)"
  define n where "n = unat (sector_count info)"
  then have s: "sectors info = int n" "n \<le> length (start info)" using n by (simp_all add: sectors_def)
  have "set_each (\<lambda>i. base + of_int i * 0x20000) [0..int n - 1] info =
      Inr (upd (\<lambda>k. int k \<in> set [0..int n - 1]) (\<lambda>k. base + of_int (int k) * 0x20000) info)"
    using s(2) by (intro set_each_upd) auto
  moreover have "upd (\<lambda>k. int k \<in> set [0..int n - 1]) (\<lambda>k. base + of_int (int k) * 0x20000) info = laid_out base (\<lambda>k. k * 0x20000) info"
    unfolding n_def [symmetric] by (intro upd_cong) auto
  ultimately show ?thesis by (simp add: uniform_starts_def s(1))
qed

lemma bottom_8_layout:
  assumes "8 \<le> unat (sector_count info)" "unat (sector_count info) \<le> length (start info)"
  shows "bottom_8_starts base info = Inr (laid_out base bottom_8 info)"
proof -
  let ?n = "unat (sector_count info)"
  let ?u = "upd (\<lambda>k. 0 \<le> k \<and> k < 0 + 8) (\<lambda>k. base + of_nat (k - 0) * push_bit 10 8) info"
  have 1: "set_up 8 (push_bit 10 8) (int 0, base, info) = Inr (int (0 + 8), base + of_nat 8 * push_bit 10 8, ?u)"
    using assms by (intro set_up_upd) simp
  have 2: "set_up (?n - 8) (push_bit 10 64) (int 8, base + 0x10000, ?u) =
      Inr (int (8 + (?n - 8)), base + 0x10000 + of_nat (?n - 8) * push_bit 10 64,
        upd (\<lambda>k. 8 \<le> k \<and> k < 8 + (?n - 8)) (\<lambda>k. base + 0x10000 + of_nat (k - 8) * push_bit 10 64) ?u)"
    using assms by (intro set_up_upd) simp
  have "upd (\<lambda>k. 8 \<le> k \<and> k < 8 + (?n - 8)) (\<lambda>k. base + 0x10000 + of_nat (k - 8) * push_bit 10 64) ?u = laid_out base bottom_8 info"
  proof (unfold upd_upd, rule upd_cong)
    fix k
    show "(if 8 \<le> k \<and> k < 8 + (?n - 8) then base + 0x10000 + of_nat (k - 8) * push_bit 10 64 else base + of_nat (k - 0) * push_bit 10 8) =
        base + of_nat (bottom_8 k)" if "8 \<le> k \<and> k < 8 + (?n - 8) \<or> 0 \<le> k \<and> k < 0 + 8"
    proof (cases "8 \<le> k")
      case True
      then have "k - 7 = Suc (k - 8)" by simp
      moreover have "k < 8 + (?n - 8)" using that True by simp
      ultimately show ?thesis using True by (simp only: bottom_8_def not_less [symmetric]) (simp add: algebra_simps)
    qed (simp add: bottom_8_def)
  qed (use assms in auto)
  moreover have "nat (sectors info - 8) = ?n - 8" unfolding sectors_def by arith
  ultimately show ?thesis using 1 2 by (simp add: bottom_8_starts_def)
qed

lemma step_back: "m \<le> z \<Longrightarrow> (b :: u32) + of_nat z - of_nat m = b + of_nat (z - m)"
  by (simp add: of_nat_diff)

lemma top_8_layout:
  assumes "8 \<le> unat (sector_count info)" "unat (sector_count info) \<le> length (start info)"
    "bank_size info = of_nat ((unat (sector_count info) - 7) * 0x10000)"
  shows "top_8_starts base info = Inr (laid_out base (top_8 (unat (sector_count info))) info)"
proof -
  define n where n: "n = unat (sector_count info)"
  let ?z = "base + of_nat ((n - 7) * 0x10000)"
  let ?u = "upd (\<lambda>k. n - 8 \<le> k \<and> k < n) (\<lambda>k. ?z - of_nat (n - k) * push_bit 10 8) info"
  have 1: "set_down 8 (push_bit 10 8) (int n, ?z, info) = Inr (int (n - 8), ?z - of_nat 8 * push_bit 10 8, ?u)"
    using assms(1,2) n by (intro set_down_upd) simp_all
  have 2: "set_down (n - 8) (push_bit 10 64) (int (n - 8), ?z - 0x10000, ?u) = Inr (int (n - 8 - (n - 8)), ?z - 0x10000 - of_nat (n - 8) * push_bit 10 64,
      upd (\<lambda>k. n - 8 - (n - 8) \<le> k \<and> k < n - 8) (\<lambda>k. ?z - 0x10000 - of_nat (n - 8 - k) * push_bit 10 64) ?u)"
    using assms(1,2) n by (intro set_down_upd) simp_all
  have "upd (\<lambda>k. n - 8 - (n - 8) \<le> k \<and> k < n - 8) (\<lambda>k. ?z - 0x10000 - of_nat (n - 8 - k) * push_bit 10 64) ?u = laid_out base (top_8 n) info"
  proof (unfold upd_upd, rule upd_cong)
    fix k assume k: "n - 8 - (n - 8) \<le> k \<and> k < n - 8 \<or> n - 8 \<le> k \<and> k < n"
    show "(if n - 8 - (n - 8) \<le> k \<and> k < n - 8 then ?z - 0x10000 - of_nat (n - 8 - k) * push_bit 10 64 else ?z - of_nat (n - k) * push_bit 10 8) = base + of_nat (top_8 n k)"
    proof (cases "k < n - 8")
      case True
      then obtain j where j: "n = Suc (k + j) + 8" by (metis less_imp_Suc_add add.commute le_add_diff_inverse2 n assms(1))
      then show ?thesis by (simp add: top_8_def algebra_simps)
    next
      case False
      then obtain i where i: "k = (n - 8) + i" "i < 8" using k by (metis le_Suc_ex not_less add_less_cancel_left le_add_diff_inverse2 n assms(1) add.commute)
      then have m: "n - k = 8 - i" "n - 7 = Suc (n - 8)" using n assms(1) by simp_all
      have "of_nat (8 - i) = (8 :: u32) - of_nat i" using i(2) by (simp add: of_nat_diff)
      then show ?thesis using False i m by (simp add: top_8_def algebra_simps)
    qed
  qed (use n assms in auto)
  moreover have "sectors info = int n" "base + bank_size info = ?z" using n assms(3) by (simp_all add: sectors_def)
  ultimately show ?thesis using 1 2 n by (simp add: top_8_starts_def)
qed

lemma boot_bottom_layout:
  assumes "flash_id info AND FLASH_BTYPE \<noteq> 0" "4 \<le> unat (sector_count info)" "unat (sector_count info) \<le> length (start info)"
  shows "boot_block_starts base info = Inr (laid_out base boot_bottom info)"
proof -
  define n where n: "n = unat (sector_count info)"
  then have s: "sectors info = int n" "4 \<le> n" "n \<le> length (start info)" using assms by (simp_all add: sectors_def)
  let ?f = "\<lambda>i. base + of_int i * 0x10000 - 0x30000"
  let ?u = "upd (\<lambda>k. k = 3) (\<lambda>_. base + 0x8000) (upd (\<lambda>k. k = 2) (\<lambda>_. base + 0x6000) (upd (\<lambda>k. k = 1) (\<lambda>_. base + 0x4000) (upd (\<lambda>k. k = 0) (\<lambda>_. base) info)))"
  have "set_each ?f [4..int n - 1] ?u = Inr (upd (\<lambda>k. int k \<in> set [4..int n - 1]) (\<lambda>k. ?f (int k)) ?u)"
    using s by (intro set_each_upd) auto
  moreover have "upd (\<lambda>k. int k \<in> set [4..int n - 1]) (\<lambda>k. ?f (int k)) ?u = laid_out base boot_bottom info"
  proof (unfold upd_upd n [symmetric], rule upd_cong)
    fix k assume k: "int k \<in> set [4..int n - 1] \<or> k = 3 \<or> k = 2 \<or> k = 1 \<or> k = 0"
    show "(if int k \<in> set [4..int n - 1] then ?f (int k) else if k = 3 then base + 0x8000 else if k = 2 then base + 0x6000 else if k = 1 then base + 0x4000 else base) =
        base + of_nat (boot_bottom k)"
    proof (cases "4 \<le> k")
      case True
      then obtain j where "k = j + 4" by (metis le_add_diff_inverse2)
      then show ?thesis using k by (simp add: boot_bottom_def algebra_simps)
    next
      case False
      then have "k = 0 \<or> k = 1 \<or> k = 2 \<or> k = 3" by auto
      then show ?thesis by (auto simp: boot_bottom_def)
    qed
  qed (use s in auto)
  moreover have "set_start 0 v i = Inr (upd (\<lambda>k. k = 0) (\<lambda>_. v) i)" "set_start 1 v i = Inr (upd (\<lambda>k. k = 1) (\<lambda>_. v) i)"
    "set_start 2 v i = Inr (upd (\<lambda>k. k = 2) (\<lambda>_. v) i)" "set_start 3 v i = Inr (upd (\<lambda>k. k = 3) (\<lambda>_. v) i)"
    if "length (start i) = length (start info)" for v i
    using le_trans [OF s(2,3)] that set_start_upd [of 0 i v] set_start_upd [of 1 i v] set_start_upd [of 2 i v] set_start_upd [of 3 i v]
    by (simp_all del: length_greater_0_conv)
  ultimately show ?thesis using assms(1) s(1) by (simp add: boot_block_starts_def)
qed

lemma boot_top_layout:
  assumes "flash_id info AND FLASH_BTYPE = 0" "4 \<le> unat (sector_count info)" "unat (sector_count info) \<le> length (start info)"
    "bank_size info = of_nat ((unat (sector_count info) - 3) * 0x10000)"
  shows "boot_block_starts base info = Inr (laid_out base (boot_top (unat (sector_count info))) info)"
proof -
  define n where n: "n = unat (sector_count info)"
  then obtain j where j: "n = j + 4" using assms(2) by (metis le_add_diff_inverse2)
  have "bank_size info = of_nat ((n - 3) * 0x10000)" unfolding n by (rule assms(4))
  then have "bank_size info = of_nat (j + 1) * 0x10000" by (simp add: j)
  moreover have "sectors info = int n" "n \<le> length (start info)" using n assms(3) by (simp_all add: sectors_def)
  ultimately have s: "sectors info = int n" "n \<le> length (start info)" "bank_size info = of_nat (j + 1) * 0x10000" by blast+
  let ?z = "base + of_nat (j + 1) * 0x10000"
  let ?f = "\<lambda>i. base + of_int i * 0x10000"
  let ?u = "upd (\<lambda>k. k = j + 1) (\<lambda>_. ?z - 0x8000) (upd (\<lambda>k. k = j + 2) (\<lambda>_. ?z - 0x6000) (upd (\<lambda>k. k = j + 3) (\<lambda>_. ?z - 0x4000) info))"
  have "set_each ?f (rev [0..int j]) ?u = Inr (upd (\<lambda>k. int k \<in> set (rev [0..int j])) (\<lambda>k. ?f (int k)) ?u)"
    using s j by (intro set_each_upd) auto
  moreover have "upd (\<lambda>k. int k \<in> set (rev [0..int j])) (\<lambda>k. ?f (int k)) ?u = laid_out base (boot_top n) info"
  proof (unfold upd_upd n [symmetric], rule upd_cong)
    fix k assume k: "int k \<in> set (rev [0..int j]) \<or> k = j + 1 \<or> k = j + 2 \<or> k = j + 3"
    then have "k \<le> j \<or> k = j + 1 \<or> k = j + 2 \<or> k = j + 3" by auto
    then show "(if int k \<in> set (rev [0..int j]) then ?f (int k) else if k = j + 1 then ?z - 0x8000 else if k = j + 2 then ?z - 0x6000 else ?z - 0x4000) =
        base + of_nat (boot_top n k)"
      by (elim disjE) (simp_all add: boot_top_def j algebra_simps)
  qed (use j in auto)
  moreover have "set_start (int n - 1) v i = Inr (upd (\<lambda>k. k = j + 3) (\<lambda>_. v) i)" "set_start (int n - 2) v i = Inr (upd (\<lambda>k. k = j + 2) (\<lambda>_. v) i)"
    "set_start (int n - 3) v i = Inr (upd (\<lambda>k. k = j + 1) (\<lambda>_. v) i)" if "length (start i) = length (start info)" for v i
    using s(2) j that by (simp_all add: set_start_upd nat_add_distrib numeral_eq_Suc)
  ultimately show ?thesis using assms(1) s(1,3) j n by (simp add: boot_block_starts_def Let_def)
qed

lemma stm_layout:
  assumes "unat (sector_count info) = 67" "67 \<le> length (start info)" "bank_size info = 0x400000"
  shows "top_stm_starts base info = Inr (laid_out base (boot_top 67) info)"
proof -
  let ?z = "base + 0x400000"
  note d = set_down_upd [where info = info]
  let ?u1 = "upd (\<lambda>k. 67 - 1 \<le> k \<and> k < 67) (\<lambda>k. ?z - of_nat (67 - k) * 0x4000) info"
  let ?u2 = "upd (\<lambda>k. 66 - 2 \<le> k \<and> k < 66) (\<lambda>k. (?z - 0x4000) - of_nat (66 - k) * 0x2000) ?u1"
  let ?u3 = "upd (\<lambda>k. 64 - 1 \<le> k \<and> k < 64) (\<lambda>k. (?z - 0x8000) - of_nat (64 - k) * 0x8000) ?u2"
  let ?u4 = "upd (\<lambda>k. 63 - 63 \<le> k \<and> k < 63) (\<lambda>k. (?z - 0x10000) - of_nat (63 - k) * 0x10000) ?u3"
  have 1: "set_down 1 0x4000 (67, ?z, info) = Inr (66, ?z - 0x4000, ?u1)"
    using set_down_upd [of 1 67 info "0x4000" ?z] assms(2) by simp
  have 2: "set_down 2 0x2000 (66, ?z - 0x4000, ?u1) = Inr (64, ?z - 0x8000, ?u2)"
    using set_down_upd [of 2 66 ?u1 "0x2000" "?z - 0x4000"] assms(2) by simp
  have 3: "set_down 1 0x8000 (64, ?z - 0x8000, ?u2) = Inr (63, ?z - 0x10000, ?u3)"
    using set_down_upd [of 1 64 ?u2 "0x8000" "?z - 0x8000"] assms(2) by simp
  have 4: "set_down 63 0x10000 (63, ?z - 0x10000, ?u3) = Inr (0, ?z - 0x10000 - of_nat 63 * 0x10000, ?u4)"
    using set_down_upd [of 63 63 ?u3 "0x10000" "?z - 0x10000"] assms(2) by simp
  have "?u4 = laid_out base (boot_top 67) info"
  proof (unfold upd_upd assms(1), rule upd_cong)
    fix k :: nat assume k: "63 - 63 \<le> k \<and> k < 63 \<or> 64 - 1 \<le> k \<and> k < 64 \<or> 66 - 2 \<le> k \<and> k < 66 \<or> 67 - 1 \<le> k \<and> k < 67"
    then consider "k < 63" | "k = 63" | "k = 64" | "k = 65" | "k = 66" by fastforce
    then show "(if 63 - 63 \<le> k \<and> k < 63 then (?z - 0x10000) - of_nat (63 - k) * 0x10000
        else if 64 - 1 \<le> k \<and> k < 64 then (?z - 0x8000) - of_nat (64 - k) * 0x8000
        else if 66 - 2 \<le> k \<and> k < 66 then (?z - 0x4000) - of_nat (66 - k) * 0x2000
        else ?z - of_nat (67 - k) * 0x4000) = base + of_nat (boot_top 67 k)"
    proof cases
      case 1
      then have "of_nat (63 - k) = (63 :: u32) - of_nat k" by (simp add: of_nat_diff)
      then show ?thesis using 1 by (simp add: boot_top_def algebra_simps)
    qed (simp_all add: boot_top_def)
  qed (use assms in auto)
  moreover have "sectors info = 67" "base + bank_size info = ?z" using assms by (simp_all add: sectors_def)
  moreover have "push_bit 10 16 = (0x4000 :: u32)" "push_bit 10 8 = (0x2000 :: u32)" "push_bit 10 32 = (0x8000 :: u32)" "push_bit 10 64 = (0x10000 :: u32)" by simp_all
  ultimately show ?thesis using 1 2 3 4 unfolding top_stm_starts_def by (simp only: bindE_simps prod.case nat_numeral)
qed

section \<open>The tables divide the bank\<close>

lemma laid_out_starts:
  assumes "unat (sector_count info) \<le> length (start info)"
  shows "take (unat (sector_count info)) (start (laid_out base off info)) = map (\<lambda>k. base + of_nat (off k)) [0..<unat (sector_count info)]"
  using assms by (auto simp: upd_def intro!: nth_equalityI)

lemma unat_offset: "unat (base :: u32) + z < 2 ^ 32 \<Longrightarrow> x \<le> z \<Longrightarrow> unat (base + of_nat x) = unat base + x"
  by (simp add: unat_word_ariths unsigned_of_nat take_bit_nat_eq_self)

lemma laid_out_divides:
  fixes base :: u32
  assumes n: "0 < unat (sector_count info)" "unat (sector_count info) \<le> length (start info)"
    and z: "bank_size info = of_nat z" "unat base + z < 2 ^ 32" and off: "off 0 = 0" "off (unat (sector_count info) - 1) < z"
    "\<And>j k. j < k \<Longrightarrow> k < unat (sector_count info) \<Longrightarrow> off j < off k"
  shows "divides_bank base (laid_out base off info)"
proof -
  define n where nn: "n = unat (sector_count info)"
  have bnd: "off k < z" if "k < n" for k
  proof -
    have "k < n - 1 \<or> k = n - 1" using that by linarith
    then show ?thesis using off(3) [of k "n - 1"] off(2) that unfolding nn [symmetric] by (auto simp del: One_nat_def)
  qed
  have u: "unat (base + of_nat (off k)) = unat base + off k" if "k < n" for k
    using bnd [OF that] z(2) by (intro unat_offset [of _ z]) simp_all
  have s: "take n (start (laid_out base off info)) = map (\<lambda>k. base + of_nat (off k)) [0..<n]"
    unfolding nn by (rule laid_out_starts [OF n(2)])
  have "sorted_wrt (<) (map (\<lambda>k. base + of_nat (off k)) [0..<n])"
    unfolding sorted_wrt_map sorted_wrt_iff_nth_less using off(3) u nn by (simp add: word_less_nat_alt)
  moreover have "last (map (\<lambda>k. base + of_nat (off k)) [0..<n]) = base + of_nat (off (n - 1))"
    using n(1) nn by (simp add: last_map)
  moreover have "base + of_nat (off (n - 1)) < base + bank_size info"
    using u [of "n - 1"] bnd [of "n - 1"] unat_offset [OF z(2) order_refl] n(1) nn by (simp add: word_less_nat_alt z(1))
  moreover have "hd (map (\<lambda>k. base + of_nat (off k)) [0..<n]) = base" using n(1) nn off(1) by (simp add: hd_map)
  ultimately show ?thesis using s n(1) nn by (simp add: divides_bank_def Let_def)
qed

lemma offsets_mono:
  "j < k \<Longrightarrow> bottom_8 j < bottom_8 k" "j < k \<Longrightarrow> boot_bottom j < boot_bottom k"
  "j < k \<Longrightarrow> k < n \<Longrightarrow> 8 \<le> n \<Longrightarrow> top_8 n j < top_8 n k" "j < k \<Longrightarrow> k < n \<Longrightarrow> 4 \<le> n \<Longrightarrow> boot_top n j < boot_top n k"
  by (auto simp: bottom_8_def boot_bottom_def top_8_def boot_top_def)

lemma bank_info_fields [simp]:
  "sector_count (bank_info man (c, ty, n, z)) = n" "bank_size (bank_info man (c, ty, n, z)) = z"
  "flash_id (bank_info man (c, ty, n, z)) = man + ty" "length (start (bank_info man (c, ty, n, z))) = 135"
  by (simp_all add: bank_info_def)

definition vendors :: "u32 set" where
  "vendors = {FLASH_MAN_ATM, FLASH_MAN_AMD, FLASH_MAN_FUJ, FLASH_MAN_SST, FLASH_MAN_STM}"

lemma tables_agree:
  assumes e: "(code, ty, n, sz) \<in> set chip_table" and man: "man \<in> vendors"
    and i: "flash_id info = man + ty" "sector_count info = n" "bank_size info = sz" "length (start info) = 135"
  shows "flash_get_offsets base info = size_starts base info"
proof (cases "ty = FLASH_STMW320DT \<and> man \<noteq> FLASH_MAN_SST")
  case True
  then have n: "n = 67" "sz = 0x400000" using e by (auto simp: chip_table_def)
  have "boot_block_starts base info = Inr (laid_out base (boot_top 67) info)"
    using boot_top_layout [of info base] i n True man by (auto simp: vendors_def)
  moreover have "top_stm_starts base info = Inr (laid_out base (boot_top 67) info)"
    using stm_layout [of info base] i n by simp
  ultimately show ?thesis using True man i(1) by (auto simp: vendors_def flash_get_offsets_def size_starts_def)
next
  case False
  then show ?thesis using e man by (auto simp: chip_table_def vendors_def flash_get_offsets_def size_starts_def i(1))
qed

text \<open>
  C19. The two copies of the sector table computation agree: for every chip that \<^verbatim>\<open>flash_get_size\<close> can
  identify, \<^verbatim>\<open>flash_get_offsets\<close> computes the table that \<^verbatim>\<open>flash_get_size\<close> has computed, although it has
  no branch for the M29W320DT and lists one type less among the top boot block chips.
\<close>

theorem flash_tables_agree:
  assumes "(code, ty, n, sz) \<in> set chip_table" "man \<in> vendors"
    and "flash_id info = man + ty" "sector_count info = n" "bank_size info = sz" "length (start info) = 135"
  shows "flash_get_offsets base info = size_starts base info"
  using assms by (rule tables_agree)

theorem flash_tables_agree_witness:
  "flash_get_offsets CFG_FLASH_BASE (bank_info FLASH_MAN_STM (STM_ID_29W320DT, FLASH_STMW320DT, 67, 0x00400000)) =
   size_starts CFG_FLASH_BASE (bank_info FLASH_MAN_STM (STM_ID_29W320DT, FLASH_STMW320DT, 67, 0x00400000))"
  by (rule flash_tables_agree [of STM_ID_29W320DT FLASH_STMW320DT 67 "0x00400000" FLASH_MAN_STM])
    (simp_all add: chip_table_def vendors_def)

text \<open>The layout of each chip, and the chips whose uniform table is longer than the bank.\<close>

definition sst_parts :: "u32 set" where
  "sst_parts = {SST_ID_xF800A, SST_ID_xF160A}"

lemma top_8_chips:
  assumes "(n, sz) \<in> {(135, 0x800000), (71, 0x400000)}" "man \<in> vendors - {FLASH_MAN_SST}"
    "ty \<in> {FLASH_ATBV642DT, FLASH_AM320T, FLASH_AMDL322T, FLASH_AMDL323T}"
  shows "\<exists>info'. flash_get_offsets 0x80000000 (bank_info man (c, ty, n, sz)) = Inr info' \<and> divides_bank 0x80000000 info'"
proof -
  let ?i = "bank_info man (c, ty, n, sz)"
  have n: "8 \<le> unat n" "unat n \<le> 135" "sz = of_nat ((unat n - 7) * 0x10000)" "(unat n - 7) * 0x10000 \<le> 0x800000"
    using assms(1) by auto
  have "flash_get_offsets 0x80000000 ?i = top_8_starts 0x80000000 ?i"
    using assms(2,3) by (auto simp: vendors_def flash_get_offsets_def)
  then have "flash_get_offsets 0x80000000 ?i = Inr (laid_out 0x80000000 (top_8 (unat n)) ?i)"
    using top_8_layout [of ?i "0x80000000"] n by simp
  moreover have "divides_bank 0x80000000 (laid_out 0x80000000 (top_8 (unat n)) ?i)"
    by (rule laid_out_divides [where z = "(unat n - 7) * 0x10000"]) (use n offsets_mono(3) in \<open>auto simp: top_8_def\<close>)
  ultimately show ?thesis by blast
qed

lemma bottom_8_chips:
  assumes "man \<in> vendors - {FLASH_MAN_SST}" "ty \<in> {FLASH_AM320B, FLASH_AMDL322B, FLASH_AMDL323B}"
  shows "\<exists>info'. flash_get_offsets 0x80000000 (bank_info man (c, ty, 71, 0x400000)) = Inr info' \<and> divides_bank 0x80000000 info'"
proof -
  let ?i = "bank_info man (c, ty, 71, 0x400000)"
  have "flash_get_offsets 0x80000000 ?i = bottom_8_starts 0x80000000 ?i"
    using assms by (auto simp: vendors_def flash_get_offsets_def)
  then have "flash_get_offsets 0x80000000 ?i = Inr (laid_out 0x80000000 bottom_8 ?i)"
    using bottom_8_layout [of ?i "0x80000000"] by simp
  moreover have "divides_bank 0x80000000 (laid_out 0x80000000 bottom_8 ?i)"
    by (rule laid_out_divides [where z = "0x400000"]) (auto simp: bottom_8_def offsets_mono(1) [unfolded bottom_8_def])
  ultimately show ?thesis by blast
qed

lemma boot_top_chips:
  assumes "(n, sz) \<in> {(11, 0x80000), (19, 0x100000), (35, 0x200000), (67, 0x400000)}" "man \<in> vendors - {FLASH_MAN_SST}"
    "ty \<in> {FLASH_AM400T, FLASH_AM800T, FLASH_AM160T, FLASH_STMW320DT}"
  shows "\<exists>info'. flash_get_offsets 0x80000000 (bank_info man (c, ty, n, sz)) = Inr info' \<and> divides_bank 0x80000000 info'"
proof -
  let ?i = "bank_info man (c, ty, n, sz)"
  have n: "4 \<le> unat n" "unat n \<le> 135" "sz = of_nat ((unat n - 3) * 0x10000)" "(unat n - 3) * 0x10000 \<le> 0x800000"
    using assms(1) by auto
  have "flash_get_offsets 0x80000000 ?i = boot_block_starts 0x80000000 ?i" "flash_id ?i AND FLASH_BTYPE = 0"
    using assms(2,3) by (auto simp: vendors_def flash_get_offsets_def)
  then have "flash_get_offsets 0x80000000 ?i = Inr (laid_out 0x80000000 (boot_top (unat n)) ?i)"
    using boot_top_layout [of ?i "0x80000000"] n by simp
  moreover have "divides_bank 0x80000000 (laid_out 0x80000000 (boot_top (unat n)) ?i)"
    by (rule laid_out_divides [where z = "(unat n - 3) * 0x10000"]) (use n offsets_mono(4) in \<open>auto simp: boot_top_def\<close>)
  ultimately show ?thesis by blast
qed

lemma boot_bottom_chips:
  assumes "(n, sz) \<in> {(11, 0x80000), (19, 0x100000), (35, 0x200000)}" "man \<in> vendors - {FLASH_MAN_SST}"
    "ty \<in> {FLASH_AM400B, FLASH_AM800B, FLASH_AM160B}"
  shows "\<exists>info'. flash_get_offsets 0x80000000 (bank_info man (c, ty, n, sz)) = Inr info' \<and> divides_bank 0x80000000 info'"
proof -
  let ?i = "bank_info man (c, ty, n, sz)"
  have n: "4 < unat n" "unat n \<le> 135" "sz = of_nat ((unat n - 3) * 0x10000)" "(unat n - 3) * 0x10000 \<le> 0x800000"
    using assms(1) by auto
  have "flash_get_offsets 0x80000000 ?i = boot_block_starts 0x80000000 ?i" "flash_id ?i AND FLASH_BTYPE \<noteq> 0"
    using assms(2,3) by (auto simp: vendors_def flash_get_offsets_def)
  then have "flash_get_offsets 0x80000000 ?i = Inr (laid_out 0x80000000 boot_bottom ?i)"
    using boot_bottom_layout [of ?i "0x80000000"] n by simp
  moreover have "divides_bank 0x80000000 (laid_out 0x80000000 boot_bottom ?i)"
    by (rule laid_out_divides [where z = "(unat n - 3) * 0x10000"]) (use n offsets_mono(2) in \<open>auto simp: boot_bottom_def\<close>)
  ultimately show ?thesis by blast
qed

lemma uniform_chips:
  assumes "(ty, n, sz) \<in> {(FLASH_AM640U, 128, 0x800000), (FLASH_SST800A, 16, 0x100000), (FLASH_SST160A, 32, 0x400000)}"
    "man \<in> vendors" "ty \<noteq> FLASH_AM640U \<Longrightarrow> man = FLASH_MAN_SST"
  shows "\<exists>info'. flash_get_offsets 0x80000000 (bank_info man (c, ty, n, sz)) = Inr info' \<and> (divides_bank 0x80000000 info' \<longleftrightarrow> ty = FLASH_SST160A)"
proof -
  let ?i = "bank_info man (c, ty, n, sz)"
  have n: "0 < unat n" "unat n \<le> 135" using assms(1) by auto
  have "flash_get_offsets 0x80000000 ?i = uniform_starts 0x80000000 ?i"
    using assms by (auto simp: vendors_def flash_get_offsets_def)
  then have l: "flash_get_offsets 0x80000000 ?i = Inr (laid_out 0x80000000 (\<lambda>k. k * 0x20000) ?i)"
    using uniform_layout [of ?i "0x80000000"] n by simp
  have "divides_bank 0x80000000 (laid_out 0x80000000 (\<lambda>k. k * 0x20000) ?i) \<longleftrightarrow> ty = FLASH_SST160A"
  proof (cases "ty = FLASH_SST160A")
    case True
    then have "n = 32" "sz = 0x400000" using assms(1) by auto
    then have "divides_bank 0x80000000 (laid_out 0x80000000 (\<lambda>k. k * 0x20000) ?i)"
      by (intro laid_out_divides [where z = "0x400000"]) auto
    then show ?thesis using True by simp
  next
    case False
    have "last (map (\<lambda>k. 0x80000000 + of_nat (k * 0x20000)) [0..<unat n]) = (0x80000000 + of_nat ((unat n - 1) * 0x20000) :: u32)"
      using n(1) by (simp add: last_map)
    then have "\<not> last (map (\<lambda>k. 0x80000000 + of_nat (k * 0x20000)) [0..<unat n]) < 0x80000000 + sz"
      using assms(1) False by auto
    then show ?thesis using False laid_out_starts [of ?i "0x80000000" "\<lambda>k. k * 0x20000"] n by (simp add: divides_bank_def Let_def)
  qed
  then show ?thesis using l by blast
qed

text \<open>
  C20. The sector tables are well formed: for every chip the driver knows, at the board's flash address, the
  start addresses begin at the base, grow strictly and stay inside the bank. The exceptions are the
  uniform chips AM29LV640U and SST39xF800A, whose 128-kilobyte steps run past the size the driver gives
  them.
\<close>

theorem sector_tables_divide_bank:
  assumes "(code, ty, n, sz) \<in> set chip_table" "man \<in> vendors" "(man = FLASH_MAN_SST) = (code \<in> sst_parts)"
  shows "\<exists>info'. flash_get_offsets CFG_FLASH_BASE (bank_info man (code, ty, n, sz)) = Inr info' \<and>
    (divides_bank CFG_FLASH_BASE info' \<longleftrightarrow> ty \<notin> {FLASH_AM640U, FLASH_SST800A})"
proof -
  consider (u) "(ty, n, sz) \<in> {(FLASH_AM640U, 128, 0x800000), (FLASH_SST800A, 16, 0x100000), (FLASH_SST160A, 32, 0x400000)}" "ty \<noteq> FLASH_AM640U \<longrightarrow> man = FLASH_MAN_SST"
    | (t8) "(n, sz) \<in> {(135, 0x800000), (71, 0x400000)}" "man \<noteq> FLASH_MAN_SST" "ty \<in> {FLASH_ATBV642DT, FLASH_AM320T, FLASH_AMDL322T, FLASH_AMDL323T}"
    | (b8) "n = 71" "sz = 0x400000" "man \<noteq> FLASH_MAN_SST" "ty \<in> {FLASH_AM320B, FLASH_AMDL322B, FLASH_AMDL323B}"
    | (bt) "(n, sz) \<in> {(11, 0x80000), (19, 0x100000), (35, 0x200000), (67, 0x400000)}" "man \<noteq> FLASH_MAN_SST" "ty \<in> {FLASH_AM400T, FLASH_AM800T, FLASH_AM160T, FLASH_STMW320DT}"
    | (bb) "(n, sz) \<in> {(11, 0x80000), (19, 0x100000), (35, 0x200000)}" "man \<noteq> FLASH_MAN_SST" "ty \<in> {FLASH_AM400B, FLASH_AM800B, FLASH_AM160B}"
    using assms(1,3) by (auto simp: chip_table_def sst_parts_def)
  then show ?thesis
  proof cases
    case u
    then show ?thesis using uniform_chips [OF u(1) assms(2), of code] by auto
  next
    case t8
    then show ?thesis using top_8_chips [OF t8(1), of man ty code] assms(2) by auto
  next
    case b8
    then show ?thesis using bottom_8_chips [of man ty code] assms(2) by auto
  next
    case bt
    then show ?thesis using boot_top_chips [OF bt(1), of man ty code] assms(2) by auto
  next
    case bb
    then show ?thesis using boot_bottom_chips [OF bb(1), of man ty code] assms(2) by auto
  qed
qed

theorem sector_tables_divide_bank_witness:
  "\<exists>info'. flash_get_offsets CFG_FLASH_BASE (bank_info FLASH_MAN_ATM (ATM_ID_BV642DT, FLASH_ATBV642DT, 135, 0x00800000)) = Inr info' \<and>
     divides_bank CFG_FLASH_BASE info'"
  using sector_tables_divide_bank [of ATM_ID_BV642DT FLASH_ATBV642DT 135 "0x00800000" FLASH_MAN_ATM]
  by (simp add: chip_table_def vendors_def sst_parts_def)

text \<open>
  The range that the start-up asks to be protected is the last 256 kilobytes of the address space, outside
  every bank of up to 8 megabytes at the board's flash address.
\<close>

lemma flash_protect_outside:
  assumes "start info ! 0 = CFG_FLASH_BASE" "bank_size info \<le> 0x00800000"
  shows "flash_protect FLAG_PROTECT_SET (- CFG_MONITOR_LEN) 0xffffffff info = info"
proof (cases "bank_size info = 0")
  case False
  have z: "unat (bank_size info) \<le> 0x800000" using assms(2) by (simp add: word_le_nat_alt)
  have "unat (0x80000000 + bank_size info - 1 :: u32) = 0x80000000 + unat (bank_size info) - 1"
  proof -
    have "unat (0x80000000 + bank_size info) = 0x80000000 + unat (bank_size info)"
      using z by (subst unat_plus_simple [THEN iffD1]) (simp_all add: no_olen_add_nat)
    then show ?thesis using z by (subst unat_sub) (simp_all add: word_le_nat_alt)
  qed
  then have "- CFG_MONITOR_LEN > start info ! 0 + bank_size info - 1" using z assms(1) by (simp add: word_less_nat_alt)
  then show ?thesis by (simp add: flash_protect_def Let_def)
qed (simp add: flash_protect_def)

end
