(* ===== verification/Uboot_Flash_Init.thy ===== *)
theory Uboot_Flash_Init
  imports Uboot_Flash_Tables
begin

text \<open>
  The start-up of the boot loader's flash driver as a whole: \<^verbatim>\<open>flash_init\<close> returns on every chip, and what it
  leaves is what \<^verbatim>\<open>flash_get_size\<close> found; the second table computation and the protection of the boot loader
  change nothing.
\<close>

section \<open>Every table is a layout\<close>

definition boot_top_any :: "nat \<Rightarrow> nat \<Rightarrow> nat \<Rightarrow> nat" where
  "boot_top_any n z k = (if k = n - 1 then z - 0x4000 else if k = n - 2 then z - 0x6000 else if k = n - 3 then z - 0x8000 else k * 0x10000)"

lemma boot_top_any_layout:
  assumes "flash_id info AND FLASH_BTYPE = 0" "4 \<le> unat (sector_count info)" "unat (sector_count info) \<le> length (start info)"
    "bank_size info = of_nat z" "0x8000 \<le> z"
  shows "boot_block_starts base info = Inr (laid_out base (boot_top_any (unat (sector_count info)) z) info)"
proof -
  define n where n: "n = unat (sector_count info)"
  then obtain j where j: "n = j + 4" using assms(2) by (metis le_add_diff_inverse2)
  have s: "sectors info = int n" "n \<le> length (start info)" using n assms(3) by (simp_all add: sectors_def)
  let ?z = "base + of_nat z"
  let ?f = "\<lambda>i. base + of_int i * 0x10000"
  let ?u = "upd (\<lambda>k. k = j + 1) (\<lambda>_. ?z - 0x8000) (upd (\<lambda>k. k = j + 2) (\<lambda>_. ?z - 0x6000) (upd (\<lambda>k. k = j + 3) (\<lambda>_. ?z - 0x4000) info))"
  have sub: "?z - of_nat m = base + of_nat (z - m)" if "m \<le> 0x8000" for m
    using that assms(5) by (simp add: of_nat_diff)
  have "set_each ?f (rev [0..int j]) ?u = Inr (upd (\<lambda>k. int k \<in> set (rev [0..int j])) (\<lambda>k. ?f (int k)) ?u)"
    using s j by (intro set_each_upd) auto
  moreover have "upd (\<lambda>k. int k \<in> set (rev [0..int j])) (\<lambda>k. ?f (int k)) ?u = laid_out base (boot_top_any n z) info"
  proof (unfold upd_upd n [symmetric], rule upd_cong)
    fix k assume k: "int k \<in> set (rev [0..int j]) \<or> k = j + 1 \<or> k = j + 2 \<or> k = j + 3"
    then have "k \<le> j \<or> k = j + 1 \<or> k = j + 2 \<or> k = j + 3" by auto
    then show "(if int k \<in> set (rev [0..int j]) then ?f (int k) else if k = j + 1 then ?z - 0x8000 else if k = j + 2 then ?z - 0x6000 else ?z - 0x4000) =
        base + of_nat (boot_top_any n z k)"
      using sub [of "0x8000"] sub [of "0x6000"] sub [of "0x4000"] by (elim disjE) (simp_all add: boot_top_any_def j)
  qed (use j in auto)
  moreover have "set_start (int n - 1) v i = Inr (upd (\<lambda>k. k = j + 3) (\<lambda>_. v) i)" "set_start (int n - 2) v i = Inr (upd (\<lambda>k. k = j + 2) (\<lambda>_. v) i)"
    "set_start (int n - 3) v i = Inr (upd (\<lambda>k. k = j + 1) (\<lambda>_. v) i)" if "length (start i) = length (start info)" for v i
    using s(2) j that by (simp_all add: set_start_upd nat_add_distrib numeral_eq_Suc)
  ultimately show ?thesis using assms(1,4) s(1) j n by (simp add: boot_block_starts_def Let_def)
qed

text \<open>For every chip of the table and every vendor the table is a layout that starts at the base.\<close>

definition is_layout :: "u32 \<Rightarrow> u32 \<times> u32 \<times> u16 \<times> u32 \<Rightarrow> (nat \<Rightarrow> nat) \<Rightarrow> bool" where
  "is_layout man e off \<longleftrightarrow> off 0 = 0 \<and> (case e of (code, ty, n, sz) \<Rightarrow>
     \<forall>base info. flash_id info = man + ty \<and> sector_count info = n \<and> bank_size info = sz \<and> length (start info) = 135 \<longrightarrow>
       flash_get_offsets base info = Inr (laid_out base off info))"

lemma is_layoutI:
  assumes "off 0 = 0" "\<And>base info. flash_id info = man + ty \<Longrightarrow> sector_count info = n \<Longrightarrow> bank_size info = sz \<Longrightarrow>
    length (start info) = 135 \<Longrightarrow> flash_get_offsets base info = Inr (laid_out base off info)"
  shows "is_layout man (code, ty, n, sz) off"
  using assms by (simp add: is_layout_def)

lemma table_types: "(code, ty, n, sz) \<in> set chip_table \<Longrightarrow> ty < 0x100 \<and> 4 \<le> unat n \<and> unat n \<le> 135 \<and> 0x8000 \<le> unat sz \<and> sz \<le> 0x800000"
  by (auto simp: chip_table_def)

lemma id_parts:
  assumes "(code, ty, n, sz) \<in> set chip_table" "man \<in> vendors"
  shows "(man + ty) AND FLASH_VENDMASK = man" "(man + ty) AND FLASH_TYPEMASK = ty" "(man + ty) AND FLASH_BTYPE = ty AND 1"
proof -
  have ty: "ty \<in> {0xF2, 2, 3, 4, 5, 6, 7, 0x52, 8, 9, 0x10, 0x11, 0x12, 0x13, 0x90, 0x44, 0x46}"
    using assms(1) by (auto simp: chip_table_def)
  have man: "man \<in> {0x600000, 0, 0x10000, 0x100000, 0x40000}" using assms(2) by (auto simp: vendors_def)
  have "(man + ty) AND FLASH_VENDMASK = man \<and> (man + ty) AND FLASH_TYPEMASK = ty \<and> (man + ty) AND FLASH_BTYPE = ty AND 1"
    using man ty by (elim insertE emptyE) simp_all
  then show "(man + ty) AND FLASH_VENDMASK = man" "(man + ty) AND FLASH_TYPEMASK = ty" "(man + ty) AND FLASH_BTYPE = ty AND 1" by auto
qed

lemma table_kinds:
  "(code, ty, n, sz) \<in> set chip_table \<Longrightarrow>
     ty = FLASH_AM640U \<or>
     ty \<in> {FLASH_AM320B, FLASH_AMDL322B, FLASH_AMDL323B} \<and> n = 71 \<or>
     ty \<in> {FLASH_ATBV642DT, FLASH_AM320T, FLASH_AMDL322T, FLASH_AMDL323T} \<and> 8 \<le> unat n \<and> sz = of_nat ((unat n - 7) * 0x10000) \<or>
     ty \<in> {FLASH_AM400B, FLASH_AM800B, FLASH_AM160B} \<or>
     ty \<in> {FLASH_AM400T, FLASH_AM800T, FLASH_AM160T, FLASH_STMW320DT, FLASH_SST800A, FLASH_SST160A}"
  by (auto simp: chip_table_def)

lemma chip_layout:
  assumes e: "(code, ty, n, sz) \<in> set chip_table" and man: "man \<in> vendors"
  shows "\<exists>off. is_layout man (code, ty, n, sz) off"
proof -
  note n = table_types [OF e] and id = id_parts [OF e man]
  consider (u) "man = FLASH_MAN_SST \<or> ty = FLASH_AM640U"
    | (b8) "man \<noteq> FLASH_MAN_SST" "ty \<in> {FLASH_AM320B, FLASH_AMDL322B, FLASH_AMDL323B}" "n = 71"
    | (t8) "man \<noteq> FLASH_MAN_SST" "ty \<in> {FLASH_ATBV642DT, FLASH_AM320T, FLASH_AMDL322T, FLASH_AMDL323T}" "8 \<le> unat n"
        "sz = of_nat ((unat n - 7) * 0x10000)"
    | (bb) "man \<noteq> FLASH_MAN_SST" "ty \<in> {FLASH_AM400B, FLASH_AM800B, FLASH_AM160B}"
    | (bt) "man \<noteq> FLASH_MAN_SST" "ty \<in> {FLASH_AM400T, FLASH_AM800T, FLASH_AM160T, FLASH_STMW320DT, FLASH_SST800A, FLASH_SST160A}"
    using table_kinds [OF e] by blast
  then show ?thesis
  proof cases
    case u
    have "is_layout man (code, ty, n, sz) (\<lambda>k. k * 0x20000)"
    proof (rule is_layoutI)
      fix base :: u32 and info :: flash_info assume i: "flash_id info = man + ty" "sector_count info = n" "length (start info) = 135"
      have "flash_get_offsets base info = uniform_starts base info"
        unfolding flash_get_offsets_def i(1) id using u by simp
      then show "flash_get_offsets base info = Inr (laid_out base (\<lambda>k. k * 0x20000) info)"
        using uniform_layout [of info base] i n by simp
    qed simp
    then show ?thesis by blast
  next
    case b8
    have "is_layout man (code, ty, n, sz) bottom_8"
    proof (rule is_layoutI)
      fix base :: u32 and info :: flash_info assume i: "flash_id info = man + ty" "sector_count info = n" "length (start info) = 135"
      have "flash_get_offsets base info = bottom_8_starts base info"
        unfolding flash_get_offsets_def i(1) id using b8 by auto
      then show "flash_get_offsets base info = Inr (laid_out base bottom_8 info)"
        using bottom_8_layout [of info base] i b8(3) by simp
    qed (simp add: bottom_8_def)
    then show ?thesis by blast
  next
    case t8
    have "is_layout man (code, ty, n, sz) (top_8 (unat n))"
    proof (rule is_layoutI)
      fix base :: u32 and info :: flash_info
      assume i: "flash_id info = man + ty" "sector_count info = n" "bank_size info = sz" "length (start info) = 135"
      have "flash_get_offsets base info = top_8_starts base info"
        unfolding flash_get_offsets_def i(1) id using t8(1,2) by auto
      then show "flash_get_offsets base info = Inr (laid_out base (top_8 (unat n)) info)"
        using top_8_layout [of info base] i n t8(3,4) by simp
    qed (simp add: top_8_def)
    then show ?thesis by blast
  next
    case bb
    have "is_layout man (code, ty, n, sz) boot_bottom"
    proof (rule is_layoutI)
      fix base :: u32 and info :: flash_info assume i: "flash_id info = man + ty" "sector_count info = n" "length (start info) = 135"
      have "flash_get_offsets base info = boot_block_starts base info" "flash_id info AND FLASH_BTYPE \<noteq> 0"
        unfolding flash_get_offsets_def i(1) id using bb by auto
      then show "flash_get_offsets base info = Inr (laid_out base boot_bottom info)"
        using boot_bottom_layout [of info base] i n by simp
    qed (simp add: boot_bottom_def)
    then show ?thesis by blast
  next
    case bt
    have "is_layout man (code, ty, n, sz) (boot_top_any (unat n) (unat sz))"
    proof (rule is_layoutI)
      fix base :: u32 and info :: flash_info
      assume i: "flash_id info = man + ty" "sector_count info = n" "bank_size info = sz" "length (start info) = 135"
      have "flash_get_offsets base info = boot_block_starts base info" "flash_id info AND FLASH_BTYPE = 0"
        unfolding flash_get_offsets_def i(1) id using bt by auto
      then show "flash_get_offsets base info = Inr (laid_out base (boot_top_any (unat n) (unat sz)) info)"
        using boot_top_any_layout [of info "unat sz" base] i n by simp
    qed (use n in \<open>simp add: boot_top_any_def\<close>)
    then show ?thesis by blast
  qed
qed

section \<open>Identification\<close>

lemma manufacturer_vendor: "manufacturer v = Some man \<Longrightarrow> man \<in> vendors"
  by (auto simp: manufacturer_def vendors_def split: if_splits)

lemma device_entry: "device v = Some (ty, n, sz) \<Longrightarrow> \<exists>code. (code, ty, n, sz) \<in> set chip_table"
  unfolding device_def by (drule map_of_SomeD) auto

lemma read_protect_ok:
  "(\<And>i. i \<in> set is \<Longrightarrow> i < length (start info) \<and> i < length (protect info)) \<Longrightarrow>
   \<exists>ps sm'. read_protect F is (info, sm) = Inr (info\<lparr>protect := ps\<rparr>, sm') \<and> length ps = length (protect info)"
proof (induction "is" arbitrary: info sm)
  case Nil
  then show ?case by (intro exI [of _ "protect info"]) simp
next
  case (Cons i "is")
  have step: "\<exists>ps sm'. read_protect F is (info\<lparr>protect := (protect info)[i := v]\<rparr>, sm1) = Inr (info\<lparr>protect := ps\<rparr>, sm') \<and> length ps = length (protect info)" for v sm1
    using Cons.IH [of "info\<lparr>protect := (protect info)[i := v]\<rparr>" sm1] Cons.prems by simp
  have "i < length (start info)" "i < length (protect info)" using Cons.prems by auto
  then show ?case using step by (auto simp: Let_def not_le split: prod.splits)
qed

lemma known_id: "man \<in> vendors \<Longrightarrow> (code, ty, n, sz) \<in> set chip_table \<Longrightarrow> man + ty \<noteq> FLASH_UNKNOWN \<and> n \<noteq> 0 \<and> sz \<le> 0x800000 \<and> unat n \<le> 135"
  using id_parts [of code ty n sz man] table_types [of code ty n sz] by (auto simp: vendors_def)

text \<open>A table that is laid out already is laid out again without change.\<close>

lemma laid_out_again:
  "info = (laid_out base off info0)\<lparr>protect := ps\<rparr> \<Longrightarrow> laid_out base off info = info"
  by (auto simp: upd_def intro!: nth_equalityI)

definition found :: "u32 \<Rightarrow> u32 \<Rightarrow> flash_info \<Rightarrow> bool" where
  "found base z info \<longleftrightarrow> (\<exists>man code ty n off info0 ps. man \<in> vendors \<and> (code, ty, n, z) \<in> set chip_table \<and>
     is_layout man (code, ty, n, z) off \<and> info = (laid_out base off info0)\<lparr>protect := ps\<rparr> \<and>
     flash_id info0 = man + ty \<and> sector_count info0 = n \<and> bank_size info0 = z \<and> length (start info0) = 135 \<and> length ps = 135)"

abbreviation ask :: "'d fbus \<Rightarrow> u32 \<Rightarrow> 'd fstate \<Rightarrow> 'd fstate" where
  "ask F base sm \<equiv> put16 F (at16 base CFG_FLASH_ADDR0) 0x90 (put16 F (at16 base CFG_FLASH_ADDR1) 0x55 (put16 F (at16 base CFG_FLASH_ADDR0) 0xAA sm))"

lemma flash_get_size_known:
  assumes len: "length (start info) = 135" "length (protect info) = 135"
    and id: "get16 F (at16 base CFG_FLASH_READ0) (ask F base sm) = (v, sm1)" "manufacturer v = Some man"
      "get16 F (at16 base CFG_FLASH_READ1) sm1 = (w, sm2)" "device w = Some (ty, n, sz)"
  shows "\<exists>info1 sm1. flash_get_size F base (info, sm) = Inr (sz, info1, sm1) \<and> found base sz info1 \<and> flash_id info1 = man + ty"
proof -
  obtain code where e: "(code, ty, n, sz) \<in> set chip_table" using device_entry id(4) by blast
  have man: "man \<in> vendors" using manufacturer_vendor [OF id(2)] .
  obtain off where off: "is_layout man (code, ty, n, sz) off" using chip_layout [OF e man] by blast
  let ?i = "info\<lparr>flash_id := man + ty, sector_count := n, bank_size := sz\<rparr>"
  let ?l = "laid_out base off ?i"
  have st: "size_starts base ?i = Inr ?l"
    using off tables_agree [OF e man, of ?i base] len by (simp add: is_layout_def)
  obtain ps sm3 where rp: "read_protect F [0..<unat n] (?l, sm2) = Inr (?l\<lparr>protect := ps\<rparr>, sm3)" "length ps = 135"
    using read_protect_ok [of "[0..<unat n]" ?l F sm2] len known_id [OF man e] by (auto simp: upd_def)
  have "found base sz (?l\<lparr>protect := ps\<rparr>)"
    unfolding found_def using man e off rp(2) len
    by (intro exI [of _ man] exI [of _ code] exI [of _ ty] exI [of _ n] exI [of _ off] exI [of _ ?i] exI [of _ ps]) simp
  then show ?thesis using id [simplified] st rp known_id [OF man e] by (auto simp: flash_get_size_def Let_def)
qed

lemma flash_get_size_outcome:
  assumes len: "length (start info) = 135" "length (protect info) = 135"
  shows "\<exists>z info1 sm1. flash_get_size F base (info, sm) = Inr (z, info1, sm1) \<and>
    (found base z info1 \<or> z = 0 \<and> flash_id info1 = FLASH_UNKNOWN \<and> protect info1 = protect info \<and>
       length (start info1) = 135 \<and> sector_count info1 \<in> {0, sector_count info})"
proof -
  obtain v sm1 where 1: "get16 F (at16 base CFG_FLASH_READ0) (ask F base sm) = (v, sm1)"
    by (cases "get16 F (at16 base CFG_FLASH_READ0) (ask F base sm)")
  obtain w sm2 where 2: "get16 F (at16 base CFG_FLASH_READ1) sm1 = (w, sm2)" by (cases "get16 F (at16 base CFG_FLASH_READ1) sm1")
  show ?thesis
  proof (cases "manufacturer v = None \<or> device w = None")
    case True
    then show ?thesis using len by (cases "manufacturer v") (auto simp: flash_get_size_def Let_def 1 [simplified] 2 [simplified])
  next
    case False
    then show ?thesis using flash_get_size_known [OF len 1 _ 2] by fastforce
  qed
qed

section \<open>The start-up\<close>

lemma found_facts:
  assumes "found base z info" "base = CFG_FLASH_BASE"
  shows "flash_id info \<noteq> FLASH_UNKNOWN" "bank_size info = z" "flash_get_offsets base info = Inr info" "start info ! 0 = base"
    "flash_protect FLAG_PROTECT_SET (- CFG_MONITOR_LEN) 0xffffffff info = info"
proof -
  obtain man code ty n off info0 ps where f: "man \<in> vendors" "(code, ty, n, z) \<in> set chip_table" "is_layout man (code, ty, n, z) off"
    "info = (laid_out base off info0)\<lparr>protect := ps\<rparr>" "flash_id info0 = man + ty" "sector_count info0 = n" "bank_size info0 = z"
    "length (start info0) = 135" "length ps = 135"
    using assms(1) unfolding found_def by blast
  note k = known_id [OF f(1,2)]
  have i: "flash_id info = man + ty" "sector_count info = n" "bank_size info = z" "length (start info) = 135"
    using f(4-8) by simp_all
  then show "flash_id info \<noteq> FLASH_UNKNOWN" "bank_size info = z" using k by simp_all
  show "flash_get_offsets base info = Inr info"
    using f(3) i laid_out_again [OF f(4)] by (simp add: is_layout_def)
  have "off 0 = 0" using f(3) by (simp add: is_layout_def)
  moreover have "0 < unat n" using k by (simp add: unat_gt_0)
  ultimately show s: "start info ! 0 = base" using f(4,6,8) by (simp add: upd_def)
  show "flash_protect FLAG_PROTECT_SET (- CFG_MONITOR_LEN) 0xffffffff info = info"
    by (rule flash_protect_outside) (use s i(3) k assms(2) in simp_all)
qed

lemma unknown_offsets:
  assumes "flash_id info = FLASH_UNKNOWN" "sector_count info = 0" "length (start info) = 135"
  shows "\<exists>st. flash_get_offsets base info = Inr (info\<lparr>start := st\<rparr>)"
proof -
  have "flash_get_offsets base info = boot_block_starts base info" by (simp add: flash_get_offsets_def assms(1))
  then show ?thesis using assms by (auto simp: boot_block_starts_def set_start_def sectors_def)
qed


text \<open>A chip that always answers as the AT49BV642DT.\<close>

definition atmel_chip :: "unit fbus" where
  "atmel_chip = \<lparr>regs = \<lparr>bus_rd = (\<lambda>a d. (0, d)), bus_wr = (\<lambda>a v d. d)\<rparr>, fl_rd8 = (\<lambda>a d. (0, d)),
     fl_rd16 = (\<lambda>a d. (if a = 0x80000000 then 0x1F else if a = 0x80000002 then 0x1D2 else 0, d)),
     fl_rd32 = (\<lambda>a d. (0, d)), fl_wr16 = (\<lambda>a v d. d)\<rparr>"

definition blank_info :: flash_info where
  "blank_info = \<lparr>bank_size = 0, sector_count = 0, flash_id = 0, start = replicate 135 0, protect = replicate 135 0\<rparr>"

lemma atmel_found:
  "\<exists>info1 sm1. flash_get_size atmel_chip CFG_FLASH_BASE (blank_info\<lparr>flash_id := FLASH_UNKNOWN\<rparr>, sm) = Inr (0x800000, info1, sm1) \<and>
     found CFG_FLASH_BASE 0x800000 info1 \<and> flash_id info1 = FLASH_MAN_ATM + FLASH_ATBV642DT"
proof -
  have "get16 atmel_chip (at16 CFG_FLASH_BASE CFG_FLASH_READ0) s = (0x1F, s)" "get16 atmel_chip (at16 CFG_FLASH_BASE CFG_FLASH_READ1) s = (0x1D2, s)" for s
    by (auto simp: get16_def atmel_chip_def split: prod.splits)
  moreover have "manufacturer 0x1F = Some FLASH_MAN_ATM" by (simp add: manufacturer_def)
  moreover have "device 0x1D2 = Some (FLASH_ATBV642DT, 135, 0x800000)" by (simp add: device_def chip_table_def)
  ultimately show ?thesis by (intro flash_get_size_known) (simp_all add: blank_info_def)
qed


end
