(* ===== verification/Uboot_Flash_Erase.thy ===== *)
theory Uboot_Flash_Erase
  imports Uboot_Flash
begin

text \<open>
  Erasing through the boot loader's flash driver: on the board's chip the sectors asked for are erased, the
  protected ones and all others are left alone; on the other chips of the AMD command set only the first
  sector is erased.
\<close>

section \<open>A chip that erases\<close>

text \<open>
  \<open>estep\<close> counts the words of the sector erase command seen so far. The last word names the sector by an
  address in it; the erase then takes \<open>lat\<close> ticks, during which the chip ignores stores and shows bit 7
  clear. \<open>sec\<close> gives the sector of an address, \<open>k\<close> the ticks per reading of the timer.
\<close>

record echip =
  ecells :: "u32 \<Rightarrow> u8"
  estep :: nat
  busy :: nat
  eclk :: nat

definition erased :: "(u32 \<Rightarrow> nat) \<Rightarrow> nat \<Rightarrow> (u32 \<Rightarrow> u8) \<Rightarrow> u32 \<Rightarrow> u8" where
  "erased sec i c = (\<lambda>x. if sec x = i then 0xFF else c x)"

definition echip_wr :: "(u32 \<Rightarrow> nat) \<Rightarrow> u32 \<Rightarrow> nat \<Rightarrow> u32 \<Rightarrow> u16 \<Rightarrow> echip \<Rightarrow> echip" where
  "echip_wr sec b lat a v d =
     (if eclk d < busy d then d
      else if estep d = 0 \<and> a = b + 0xAAA \<and> v = 0xAA then d\<lparr>estep := 1\<rparr>
      else if estep d = 1 \<and> a = b + 0x1554 \<and> v = 0x55 then d\<lparr>estep := 2\<rparr>
      else if estep d = 2 \<and> a = b + 0xAAA \<and> v = 0x80 then d\<lparr>estep := 3\<rparr>
      else if estep d = 3 \<and> a = b + 0xAAA \<and> v = 0xAA then d\<lparr>estep := 4\<rparr>
      else if estep d = 4 \<and> a = b + 0x1554 \<and> v = 0x55 then d\<lparr>estep := 5\<rparr>
      else if estep d = 5 \<and> v = 0x30 then d\<lparr>estep := 0, busy := eclk d + lat, ecells := erased sec (sec a) (ecells d)\<rparr>
      else d\<lparr>estep := 0\<rparr>)"

definition erase_chip :: "(u32 \<Rightarrow> nat) \<Rightarrow> u32 \<Rightarrow> nat \<Rightarrow> nat \<Rightarrow> echip fbus" where
  "erase_chip sec b lat k = \<lparr>
     regs = \<lparr>bus_rd = (\<lambda>a d. (if a = T0TC then of_nat (eclk d mod 65536) else 0, d\<lparr>eclk := eclk d + k\<rparr>)), bus_wr = (\<lambda>a v d. d)\<rparr>,
     fl_rd8 = (\<lambda>a d. (if eclk d < busy d then 0 else ecells d a, d)),
     fl_rd16 = (\<lambda>a d. (if eclk d < busy d then 0 else ucast (ecells d a) OR push_bit 8 (ucast (ecells d (a + 1))), d)),
     fl_rd32 = (\<lambda>a d. (0, d)),
     fl_wr16 = echip_wr sec b lat\<rparr>"

lemma erase_chip_ticks: "0 < k \<Longrightarrow> ticks (regs (erase_chip sec b lat k)) eclk k"
  by (simp add: ticks_def erase_chip_def)

definition eframe :: "echip \<Rightarrow> (u32 \<Rightarrow> u8) \<times> nat \<times> nat" where
  "eframe d = (ecells d, estep d, busy d)"

lemma eframe_read: "eframe (snd (bus_rd (regs (erase_chip sec b lat k)) T0TC d)) = eframe d"
  by (simp add: eframe_def erase_chip_def)

text \<open>The timer is in step with the chip's clock, and the time stamp is at most \<open>u\<close>.\<close>

definition in_step :: "nat \<Rightarrow> nat \<Rightarrow> echip fstate \<Rightarrow> bool" where
  "in_step k u sm \<longleftrightarrow> (case sm of (s, m) \<Rightarrow> (\<exists>t. synced t s \<and> t \<le> eclk (dev m) \<and> eclk (dev m) \<le> t + k) \<and> unat (timestamp s) \<le> u)"

definition chip_of :: "echip fstate \<Rightarrow> echip" where
  "chip_of sm = dev (snd sm)"

definition idle :: "(u32 \<Rightarrow> u8) \<Rightarrow> echip fstate \<Rightarrow> bool" where
  "idle c sm \<longleftrightarrow> ecells (chip_of sm) = c \<and> estep (chip_of sm) = 0 \<and> busy (chip_of sm) \<le> eclk (chip_of sm)"

section \<open>Delays\<close>

lemma udelay_chip:
  assumes k: "0 < k" "k < 65536" and s: "in_step k u sm" and u: "u + 10 + 2 * 65536 < 2 ^ 32"
  shows "\<exists>sm'. udelay (regs (erase_chip sec b lat k)) 1000 sm = Some sm' \<and> in_step k (u + (10 + 2 * k)) sm' \<and>
    eframe (chip_of sm') = eframe (chip_of sm) \<and> eclk (chip_of sm) + 10 \<le> eclk (chip_of sm')"
proof -
  let ?B = "regs (erase_chip sec b lat k)"
  obtain s m where sm: "sm = (s, m)" by (cases sm)
  obtain t where t: "synced t s" "t \<le> eclk (dev m)" "eclk (dev m) \<le> t + k" "unat (timestamp s) \<le> u"
    using s by (auto simp: in_step_def sm)
  have "unat (timestamp s) + 10 * (unat (1000 :: u32) div 1000) + 2 * 65536 < 2 ^ 32" using t(4) u by simp
  then obtain t' s' m' where d: "udelay ?B 1000 (s, m) = Some (s', m')" "synced t' s'" "t' < eclk (dev m')" "eclk (dev m') \<le> t' + k"
    "eclk (dev m) + 10 \<le> t'" "unat (timestamp s') \<le> unat (timestamp s) + 10 + 2 * k"
    using udelay_ok [OF erase_chip_ticks [OF k(1)] order_refl k(2) t(1-3), of 1000 sec b lat] by auto
  have "eframe (dev m') = eframe (dev m)" using udelay_frame [of eframe ?B, OF eframe_read d(1)] .
  moreover have "in_step k (u + (10 + 2 * k)) (s', m')"
    unfolding in_step_def prod.case using d(2,3,4,6) t(4) by (auto intro: exI [of _ t'])
  ultimately show ?thesis using d(1,3,5) by (simp add: sm chip_of_def)
qed

lemma delay_ms_chip:
  assumes k: "0 < k" "k < 65536"
  shows "in_step k u sm \<Longrightarrow> u + n * (10 + 2 * k) + 10 + 2 * 65536 < 2 ^ 32 \<Longrightarrow>
    \<exists>sm'. delay_ms (erase_chip sec b lat k) n sm = Some sm' \<and> in_step k (u + n * (10 + 2 * k)) sm' \<and>
      eframe (chip_of sm') = eframe (chip_of sm) \<and> eclk (chip_of sm) + 10 * n \<le> eclk (chip_of sm')"
proof (induction n arbitrary: u sm)
  case (Suc n)
  have u1: "u + 10 + 2 * 65536 < 2 ^ 32" using Suc.prems(2) by simp
  obtain sm1 where 1: "udelay (regs (erase_chip sec b lat k)) 1000 sm = Some sm1" "in_step k (u + (10 + 2 * k)) sm1"
    "eframe (chip_of sm1) = eframe (chip_of sm)" "eclk (chip_of sm) + 10 \<le> eclk (chip_of sm1)"
    using udelay_chip [OF k Suc.prems(1) u1, of sec b lat] by blast
  have "u + (10 + 2 * k) + n * (10 + 2 * k) + 10 + 2 * 65536 < 2 ^ 32" using Suc.prems(2) by simp
  from Suc.IH [OF 1(2) this] obtain sm2 where 2: "delay_ms (erase_chip sec b lat k) n sm1 = Some sm2"
    "in_step k (u + (10 + 2 * k) + n * (10 + 2 * k)) sm2" "eframe (chip_of sm2) = eframe (chip_of sm1)"
    "eclk (chip_of sm1) + 10 * n \<le> eclk (chip_of sm2)" by blast
  have "in_step k (u + Suc n * (10 + 2 * k)) sm2" using 2(2) by (simp add: algebra_simps)
  then show ?case using 1 2 by auto
qed auto

section \<open>One sector\<close>

abbreviation sector_ticks :: "nat \<Rightarrow> nat" where
  "sector_ticks k \<equiv> 6000 * (10 + 2 * k)"

lemma put16_chip: "put16 (erase_chip sec b lat k) a v (s, m) = (s, m\<lparr>dev := echip_wr sec b lat a v (dev m)\<rparr>)"
  by (simp add: put16_def erase_chip_def)

lemma unlocked_erase:
  assumes "idle c (s, m)"
  shows "put16 (erase_chip sec b lat k) a 0x30 (unlock_erase (erase_chip sec b lat k) b (s, m)) =
    (s, m\<lparr>dev := (dev m)\<lparr>estep := 0, busy := eclk (dev m) + lat, ecells := erased sec (sec a) c\<rparr>\<rparr>)"
  using assms by (simp add: unlock_erase_def put16_chip idle_def chip_of_def echip_wr_def Let_def)

lemma locked_erase:
  assumes "idle c sm"
  shows "idle c (put16 (erase_chip sec b lat k) a 0x30 sm)" "in_step k u (put16 (erase_chip sec b lat k) a 0x30 sm) = in_step k u sm"
  using assms by (cases sm; simp add: put16_chip idle_def chip_of_def echip_wr_def in_step_def)+

lemma erase_one_unlocked:
  assumes k: "0 < k" "k < 65536" and lat: "lat \<le> 60000" and s: "in_step k u sm" "idle c sm"
    and u: "u + sector_ticks k + 10 + 2 * 65536 < 2 ^ 32" and i: "start info ! 0 = b" "vendor info \<noteq> FLASH_MAN_SST"
    and unl: "first \<or> chip_type info = FLASH_ATBV642DT"
  shows "\<exists>sm'. erase_one (erase_chip sec b lat k) info first sect sm = Some sm' \<and> in_step k (u + sector_ticks k) sm' \<and>
    idle (erased sec (sec (start info ! sect)) c) sm'"
proof -
  let ?F = "erase_chip sec b lat k"
  obtain s0 m where sm: "sm = (s0, m)" by (cases sm)
  let ?m = "m\<lparr>dev := (dev m)\<lparr>estep := 0, busy := eclk (dev m) + lat, ecells := erased sec (sec (start info ! sect)) c\<rparr>\<rparr>"
  have "in_step k u (s0, ?m)" using s(1) by (simp add: in_step_def sm)
  then obtain sm' where d: "delay_ms ?F 6000 (s0, ?m) = Some sm'" "in_step k (u + sector_ticks k) sm'"
    "eframe (chip_of sm') = eframe (chip_of (s0, ?m))" "eclk (chip_of (s0, ?m)) + 10 * 6000 \<le> eclk (chip_of sm')"
    using delay_ms_chip [OF k, where u = u and n = 6000 and sm = "(s0, ?m)" and sec = sec and b = b and lat = lat] u by blast
  have "erase_one ?F info first sect sm = delay_ms ?F 6000 (s0, ?m)"
    using unl i unlocked_erase [OF s(2) [unfolded sm], of sec b lat k "start info ! sect"] by (simp add: erase_one_def Let_def sm)
  moreover have "idle (erased sec (sec (start info ! sect)) c) sm'"
    using d(3,4) lat by (simp add: idle_def eframe_def chip_of_def)
  ultimately show ?thesis using d(1,2) by auto
qed

lemma erase_one_locked:
  assumes k: "0 < k" "k < 65536" and s: "in_step k u sm" "idle c sm"
    and u: "u + sector_ticks k + 10 + 2 * 65536 < 2 ^ 32" and i: "vendor info \<noteq> FLASH_MAN_SST" "chip_type info \<noteq> FLASH_ATBV642DT"
  shows "\<exists>sm'. erase_one (erase_chip sec b lat k) info False sect sm = Some sm' \<and> in_step k (u + sector_ticks k) sm' \<and> idle c sm'"
proof -
  let ?F = "erase_chip sec b lat k" and ?sm = "put16 (erase_chip sec b lat k) (start info ! sect) 0x30 sm"
  note l = locked_erase [OF s(2), where sec = sec and b = b and lat = lat and k = k and a = "start info ! sect"]
  obtain sm' where d: "delay_ms ?F 6000 ?sm = Some sm'" "in_step k (u + sector_ticks k) sm'"
    "eframe (chip_of sm') = eframe (chip_of ?sm)" "eclk (chip_of ?sm) + 10 * 6000 \<le> eclk (chip_of sm')"
    using delay_ms_chip [OF k, where u = u and n = 6000 and sm = ?sm and sec = sec and b = b and lat = lat] u l(2) s(1) by blast
  have "idle c sm'" using d(3,4) l(1) by (auto simp: idle_def eframe_def)
  then show ?thesis using d(1,2) i by (auto simp: erase_one_def Let_def)
qed

section \<open>The sectors of a command\<close>

text \<open>
  \<open>hits first sect\<close> says whether the command for \<open>sect\<close> reaches the chip: on the board's chip every one does,
  on the others only the first of a call.
\<close>

definition erased_all :: "(u32 \<Rightarrow> nat) \<Rightarrow> nat set \<Rightarrow> (u32 \<Rightarrow> u8) \<Rightarrow> u32 \<Rightarrow> u8" where
  "erased_all sec S c = (\<lambda>x. if sec x \<in> S then 0xFF else c x)"

lemma erased_all_simps:
  "erased_all sec {} c = c" "erased_all sec S (erased sec i c) = erased_all sec (insert i S) c"
  by (auto simp: erased_all_def erased_def)

abbreviation unlocked :: "flash_info \<Rightarrow> nat \<Rightarrow> nat \<Rightarrow> bool" where
  "unlocked info s_first sect \<equiv> sect = s_first \<or> chip_type info = FLASH_ATBV642DT"

lemma erase_loop_chip:
  assumes k: "0 < k" "k < 65536" and lat: "lat \<le> 60000" and i: "start info ! 0 = b" "vendor info \<noteq> FLASH_MAN_SST"
    and sec: "\<And>j. j \<in> set sects \<Longrightarrow> sec (start info ! j) = j"
  shows "in_step k u sm \<Longrightarrow> idle c sm \<Longrightarrow> u + length sects * sector_ticks k + 10 + 2 * 65536 < 2 ^ 32 \<Longrightarrow>
    \<exists>sm'. erase_loop (erase_chip sec b lat k) info s_first sects (l, sm) =
        Some (fold (\<lambda>j l. if protect info ! j = 0 then Some j else l) sects l, sm') \<and>
      in_step k (u + length sects * sector_ticks k) sm' \<and>
      idle (erased_all sec {j \<in> set sects. protect info ! j = 0 \<and> unlocked info s_first j} c) sm'"
  using sec
proof (induction sects arbitrary: u sm c l)
  case Nil
  then show ?case by (simp add: erased_all_simps)
next
  case (Cons j sects)
  let ?F = "erase_chip sec b lat k"
  have u1: "u + sector_ticks k + 10 + 2 * 65536 < 2 ^ 32"
    and u2: "(u + sector_ticks k) + length sects * sector_ticks k + 10 + 2 * 65536 < 2 ^ 32"
    using Cons.prems(3) by simp_all
  have len: "u + sector_ticks k + length sects * sector_ticks k = u + length (j # sects) * sector_ticks k" by simp
  have weaken: "in_step k u' sm \<Longrightarrow> u' \<le> v \<Longrightarrow> in_step k v sm" for u' v sm by (auto simp: in_step_def)
  have sj: "sec (start info ! j) = j" using Cons.prems(4) by simp
  show ?case
  proof (cases "protect info ! j = 0")
    case False
    have "in_step k (u + sector_ticks k) sm" using weaken [OF Cons.prems(1)] by simp
    moreover have "{i \<in> set (j # sects). protect info ! i = 0 \<and> unlocked info s_first i} = {i \<in> set sects. protect info ! i = 0 \<and> unlocked info s_first i}"
      using False by auto
    ultimately show ?thesis
      using False Cons.IH [OF _ Cons.prems(2) u2, of l] Cons.prems(4) unfolding len by simp
  next
    case True
    let ?c = "if unlocked info s_first j then erased sec j c else c"
    have "\<exists>sm1. erase_one ?F info (j = s_first) j sm = Some sm1 \<and> in_step k (u + sector_ticks k) sm1 \<and> idle ?c sm1"
    proof (cases "unlocked info s_first j")
      case True
      then show ?thesis using erase_one_unlocked [OF k lat Cons.prems(1,2) u1 i, of "j = s_first" sec j] sj by simp
    next
      case False
      then show ?thesis using erase_one_locked [OF k Cons.prems(1,2) u1 i(2), where sec = sec and b = b and lat = lat and sect = j] by auto
    qed
    then obtain sm1 where 1: "erase_one ?F info (j = s_first) j sm = Some sm1" "in_step k (u + sector_ticks k) sm1" "idle ?c sm1" by blast
    let ?S = "{i \<in> set sects. protect info ! i = 0 \<and> unlocked info s_first i}"
    have "erased_all sec ?S ?c = erased_all sec {i \<in> set (j # sects). protect info ! i = 0 \<and> unlocked info s_first i} c"
      using True by (auto simp: erased_all_def erased_def)
    then show ?thesis using True 1(1) Cons.IH [OF 1(2,3) u2, of "Some j"] Cons.prems(4) unfolding len by auto
  qed
qed

lemma last_unprotected:
  "fold (\<lambda>j l. if protect info ! j = 0 then Some j else l) sects l = Some j \<Longrightarrow> l = Some j \<or> j \<in> set sects \<and> protect info ! j = 0"
  by (induction sects arbitrary: l) (auto split: if_splits)

section \<open>The whole call\<close>

lemma flash_erase_chip:
  assumes k: "0 < k" "k < 65536" and lat: "lat \<le> 60000" and i: "start info ! 0 = b" "vendor info \<noteq> FLASH_MAN_SST" "flash_id info \<noteq> FLASH_UNKNOWN"
    and r: "s_first \<le> s_last" "s_last < length (protect info)" "s_last < length (start info)"
    and sec: "\<And>j. s_first \<le> j \<Longrightarrow> j \<le> s_last \<Longrightarrow> sec (start info ! j) = j"
    and s: "in_step k u sm" "idle c sm" "u + (Suc s_last - s_first) * sector_ticks k + 10 + 4 * 65536 < 2 ^ 32"
    and d7: "\<And>j. s_first \<le> j \<Longrightarrow> j \<le> s_last \<Longrightarrow> protect info ! j = 0 \<Longrightarrow> \<not> unlocked info s_first j \<Longrightarrow> bit (c (start info ! j)) 7"
  shows "\<exists>sm'. flash_erase (erase_chip sec b lat k) info (int s_first) (int s_last) sm = Some (Inr (0, sm')) \<and>
    idle (erased_all sec {j. s_first \<le> j \<and> j \<le> s_last \<and> protect info ! j = 0 \<and> unlocked info s_first j} c) sm'"
proof -
  let ?F = "erase_chip sec b lat k" and ?js = "[s_first..<Suc s_last]"
  let ?c = "erased_all sec {j. s_first \<le> j \<and> j \<le> s_last \<and> protect info ! j = 0 \<and> unlocked info s_first j} c"
  let ?l = "fold (\<lambda>j l. if protect info ! j = 0 then Some j else l) ?js None"
  have set: "{j \<in> set ?js. protect info ! j = 0 \<and> unlocked info s_first j} = {j. s_first \<le> j \<and> j \<le> s_last \<and> protect info ! j = 0 \<and> unlocked info s_first j}"
    by auto
  have len: "length ?js = Suc s_last - s_first" by (rule length_upt)
  have sj: "sec (start info ! j) = j" if "j \<in> set ?js" for j using sec [of j] that by (simp del: upt_Suc)
  have un: "u + length ?js * sector_ticks k + 10 + 2 * 65536 < 2 ^ 32"
    and um: "(u + length ?js * sector_ticks k) + 10 + 2 * 65536 < 2 ^ 32" using s(3) unfolding len by linarith+
  obtain sm1 where 1: "erase_loop ?F info s_first ?js (None, sm) = Some (?l, sm1)"
    "in_step k (u + length ?js * sector_ticks k) sm1" "idle ?c sm1"
    using erase_loop_chip [OF k lat i(1,2) sj s(1,2) un, of s_first None] unfolding set by blast
  obtain sm2 where 2: "udelay (regs ?F) 1000 sm1 = Some sm2" "eframe (chip_of sm2) = eframe (chip_of sm1)" "eclk (chip_of sm1) + 10 \<le> eclk (chip_of sm2)"
    using udelay_chip [OF k 1(2) um, of sec b lat] by blast
  have id2: "idle ?c sm2" using 1(3) 2(2,3) by (auto simp: idle_def eframe_def)
  have "\<exists>sm3. (case ?l of None \<Rightarrow> Some (True, sm2)
      | Some sect \<Rightarrow> let (st, sm) = get_timer_uboot (regs ?F) 0 sm2 in erase_poll ?F (start info ! sect) st sm) = Some (True, sm3) \<and> idle ?c sm3"
  proof (cases ?l)
    case (Some j)
    then have j: "s_first \<le> j" "j \<le> s_last" "protect info ! j = 0" using last_unprotected [of info ?js None j] by (auto simp del: upt_Suc)
    obtain s2 m2 where sm2: "sm2 = (s2, m2)" by (cases sm2)
    obtain v s3 m3 where g: "get_timer_masked (regs ?F) (s2, m2) = (v, s3, m3)" by (cases "get_timer_masked (regs ?F) (s2, m2)")
    have "eframe (dev m3) = eframe (dev m2)" using get_timer_masked_frame [of eframe, OF eframe_read g] .
    moreover have "eclk (dev m2) \<le> eclk (dev m3)"
      using g by (auto simp: get_timer_masked_def READ_TIMER_def Let_def rd_parts case_prod_unfold erase_chip_def)
    ultimately have id3: "idle ?c (s3, m3)" using id2 by (auto simp: idle_def eframe_def chip_of_def sm2)
    have "bit (?c (start info ! j)) 7"
      using d7 [OF j] j sec [OF j(1,2)] by (auto simp: erased_all_def bit_numeral_rec(1))
    moreover have "get16 ?F a (s3, m3) = (ucast (?c a) OR push_bit 8 (ucast (?c (a + 1))), s3, m3)" for a
      using id3 by (simp add: get16_def erase_chip_def idle_def chip_of_def)
    moreover have "(ucast x OR push_bit 8 y) AND 0x80 = (0x80 :: u16)" if "bit (x :: u8) 7" for x y
    proof -
      have "(0x80 :: u16) = 2 ^ 7" by simp
      then have "bit (0x80 :: u16) n \<Longrightarrow> n = 7" for n by (metis bit_exp_iff)
      then show ?thesis using that by (intro bit_word_eqI) (auto simp: bit_simps)
    qed
    ultimately have "erase_poll ?F (start info ! j) v (s3, m3) = Some (True, s3, m3)" by (subst erase_poll.simps) simp
    then show ?thesis using Some g id3 by (auto simp: sm2 get_timer_uboot_def)
  qed (use id2 in simp)
  then obtain sm3 where 3: "(case ?l of None \<Rightarrow> Some (True, sm2)
      | Some sect \<Rightarrow> let (st, sm) = get_timer_uboot (regs ?F) 0 sm2 in erase_poll ?F (start info ! sect) st sm) = Some (True, sm3)" "idle ?c sm3" by blast
  have "idle ?c (put16 ?F (start info ! 0) 0xF0 sm3)"
    using 3(2) by (cases sm3) (simp add: put16_chip idle_def chip_of_def echip_wr_def)
  moreover have "[nat (int s_first)..<nat (int s_last) + 1] = ?js" by simp
  ultimately show ?thesis
    using 1(1) 2(1) 3(1) r i(3) by (simp add: flash_erase_def disable_interrupts_def Let_def del: upt_Suc)
qed

text \<open>
  C39. Erasing works on the board's chip: for every range of sectors \<^verbatim>\<open>flash_erase\<close> returns success, every byte of
  the unprotected sectors of the range is erased, and every other byte of the flash is what it was, when an
  erase takes at most the six seconds the driver waits.
\<close>

theorem flash_erase_erases:
  assumes "0 < k" "k < 65536" "lat \<le> 60000" "start info ! 0 = b" "flash_id info = FLASH_MAN_ATM + FLASH_ATBV642DT"
    and "s_first \<le> s_last" "s_last < length (protect info)" "s_last < length (start info)"
    and "\<forall>j \<in> {s_first..s_last}. sec (start info ! j) = j"
    and "in_step k u sm" "idle c sm" "u + (Suc s_last - s_first) * sector_ticks k + 10 + 4 * 65536 < 2 ^ 32"
  shows "\<exists>sm'. flash_erase (erase_chip sec b lat k) info (int s_first) (int s_last) sm = Some (Inr (0, sm')) \<and>
    idle (\<lambda>x. if s_first \<le> sec x \<and> sec x \<le> s_last \<and> protect info ! sec x = 0 then 0xFF else c x) sm'"
  using flash_erase_chip [OF assms(1-4) _ _ assms(6-8) _ assms(10-12), of sec] assms(5,9) by (simp add: erased_all_def)

text \<open>Three sectors of 64 kilobytes, the second one protected.\<close>

definition three_sectors :: "u32 \<Rightarrow> flash_info" where
  "three_sectors fid = \<lparr>bank_size = 0x30000, sector_count = 3, flash_id = fid,
     start = [0x80000000, 0x80010000, 0x80020000] @ replicate 132 0, protect = [0, 1, 0] @ replicate 132 0\<rparr>"

definition sec64 :: "u32 \<Rightarrow> nat" where
  "sec64 x = unat (x - 0x80000000) div 0x10000"

definition programmed_chip :: "u8 \<Rightarrow> echip fstate" where
  "programmed_chip v = (\<lparr>timestamp = 0, lastdec = 0\<rparr>, \<lparr>dev = \<lparr>ecells = (\<lambda>_. v), estep = 0, busy = 0, eclk = 0\<rparr>, trace = []\<rparr>)"

lemma programmed_chip_ok: "in_step k 0 (programmed_chip v)" "idle (\<lambda>_. v) (programmed_chip v)"
  by (auto simp: in_step_def programmed_chip_def idle_def chip_of_def synced_def)

lemma three_sectors_at: "\<forall>j \<in> {0..2}. sec64 (start (three_sectors fid) ! j) = j"
proof
  fix j :: nat assume "j \<in> {0..2}"
  then have "j = 0 \<or> j = 1 \<or> j = 2" by auto
  then show "sec64 (start (three_sectors fid) ! j) = j" by (auto simp: sec64_def three_sectors_def)
qed

theorem flash_erase_erases_witness:
  "\<exists>sm'. flash_erase (erase_chip sec64 0x80000000 40000 5) (three_sectors (FLASH_MAN_ATM + FLASH_ATBV642DT)) (int 0) (int 2) (programmed_chip 0x12) =
       Some (Inr (0, sm')) \<and>
     idle (\<lambda>x. if 0 \<le> sec64 x \<and> sec64 x \<le> 2 \<and> protect (three_sectors (FLASH_MAN_ATM + FLASH_ATBV642DT)) ! sec64 x = 0 then 0xFF else 0x12) sm'"
  by (rule flash_erase_erases [OF _ _ _ _ _ _ _ _ three_sectors_at programmed_chip_ok]) (simp_all add: three_sectors_def)



end
