(* ===== verification/Uboot_Flash_Write.thy ===== *)
theory Uboot_Flash_Write
  imports Uboot_Flash
begin

text \<open>
  Writing through the boot loader's flash driver to a chip with the AMD command set: a copy of any length
  and alignment arrives byte for byte and leaves all other bytes alone.
\<close>

section \<open>A chip\<close>

text \<open>
  \<open>cmd\<close> counts the words of the program command seen so far, \<open>pending\<close> the loads until the program operation
  is done; until then a load returns the complement, which is what data polling looks at. Programming can
  only clear bits. \<open>clk\<close> drives the timer, \<open>k\<close> ticks per reading.
\<close>

record chip =
  cells :: "u32 \<Rightarrow> u8"
  cmd :: nat
  pending :: nat
  clk :: nat

definition half_at :: "(u32 \<Rightarrow> u8) \<Rightarrow> u32 \<Rightarrow> u16" where
  "half_at c a = ucast (c a) OR push_bit 8 (ucast (c (a + 1)))"

definition word_at :: "(u32 \<Rightarrow> u8) \<Rightarrow> u32 \<Rightarrow> u32" where
  "word_at c a = ucast (c a) OR push_bit 8 (ucast (c (a + 1))) OR push_bit 16 (ucast (c (a + 2))) OR push_bit 24 (ucast (c (a + 3)))"

definition program :: "u32 \<Rightarrow> u16 \<Rightarrow> (u32 \<Rightarrow> u8) \<Rightarrow> u32 \<Rightarrow> u8" where
  "program a v c = c(a := c a AND ucast v, a + 1 := c (a + 1) AND ucast (drop_bit 8 v))"

definition chip_wr :: "u32 \<Rightarrow> nat \<Rightarrow> u32 \<Rightarrow> u16 \<Rightarrow> chip \<Rightarrow> chip" where
  "chip_wr b lat a v d =
     (if pending d > 0 then d
      else if cmd d = 0 \<and> a = b + 0xAAA \<and> v = 0xAA then d\<lparr>cmd := 1\<rparr>
      else if cmd d = 1 \<and> a = b + 0x1554 \<and> v = 0x55 then d\<lparr>cmd := 2\<rparr>
      else if cmd d = 2 \<and> a = b + 0xAAA \<and> v = 0xA0 then d\<lparr>cmd := 3\<rparr>
      else if cmd d = 3 then d\<lparr>cmd := 0, pending := lat, cells := program a v (cells d)\<rparr>
      else d\<lparr>cmd := 0\<rparr>)"

definition chip_rd :: "((u32 \<Rightarrow> u8) \<Rightarrow> 'w) \<Rightarrow> ('w \<Rightarrow> 'w) \<Rightarrow> chip \<Rightarrow> 'w \<times> chip" where
  "chip_rd f neg d = (if pending d > 0 then (neg (f (cells d)), d\<lparr>pending := pending d - 1\<rparr>) else (f (cells d), d))"

definition flash_chip :: "u32 \<Rightarrow> nat \<Rightarrow> nat \<Rightarrow> chip fbus" where
  "flash_chip b lat k = \<lparr>
     regs = \<lparr>bus_rd = (\<lambda>a d. (if a = T0TC then of_nat (clk d mod 65536) else 0, d\<lparr>clk := clk d + k\<rparr>)), bus_wr = (\<lambda>a v d. d)\<rparr>,
     fl_rd8 = (\<lambda>a. chip_rd (\<lambda>c. c a) (\<lambda>v. NOT v)),
     fl_rd16 = (\<lambda>a. chip_rd (\<lambda>c. half_at c a) (\<lambda>v. NOT v)),
     fl_rd32 = (\<lambda>a. chip_rd (\<lambda>c. word_at c a) (\<lambda>v. NOT v)),
     fl_wr16 = chip_wr b lat\<rparr>"

lemma chip_ticks: "0 < k \<Longrightarrow> ticks (regs (flash_chip b lat k)) clk k"
  by (simp add: ticks_def flash_chip_def)

text \<open>A chip at rest with a timer that keeps up.\<close>

definition timed :: "nat \<Rightarrow> utimer \<Rightarrow> chip \<Rightarrow> bool" where
  "timed t s d \<longleftrightarrow> synced t s \<and> t \<le> clk d \<and> clk d < t + 65536"

definition at_rest :: "(u32 \<Rightarrow> u8) \<Rightarrow> chip fstate \<Rightarrow> bool" where
  "at_rest c sm \<longleftrightarrow> (case sm of (s, m) \<Rightarrow> cells (dev m) = c \<and> cmd (dev m) = 0 \<and> pending (dev m) = 0 \<and> (\<exists>t. timed t s (dev m)))"

lemma rest_loads:
  assumes "at_rest c sm"
  shows "get8 (flash_chip b lat k) a sm = (c a, sm)" "get16 (flash_chip b lat k) a sm = (half_at c a, sm)"
    "get32 (flash_chip b lat k) a sm = (word_at c a, sm)"
  using assms by (auto simp: at_rest_def get8_def get16_def get32_def flash_chip_def chip_rd_def split: prod.splits)

section \<open>Reading the timer of the chip\<close>

lemma get_timer_chip:
  assumes "0 < k" "k < 65536" "timed t s (dev m)"
  obtains s' m' where "get_timer_masked (regs (flash_chip b lat k)) (s, m) = (timestamp s', s', m')" "dev m' = (dev m)\<lparr>clk := clk (dev m) + k\<rparr>"
    "timed (clk (dev m)) s' (dev m')" "timestamp s' = timestamp s + of_nat (counted (clk (dev m)) - counted t)"
proof -
  let ?B = "regs (flash_chip b lat k)"
  have t: "synced t s" "t \<le> clk (dev m)" "clk (dev m) < t + 65536" using assms(3) by (simp_all add: timed_def)
  obtain s' m' where g: "get_timer_masked ?B (s, m) = (timestamp s', s', m')" "synced (clk (dev m)) s'"
    "timestamp s' = timestamp s + of_nat (counted (clk (dev m)) - counted t)"
    by (rule get_timer_masked_counts [OF chip_ticks [OF assms(1)] t])
  have "snd (snd (get_timer_masked ?B (s, m))) = snd (READ_TIMER ?B m)"
    by (auto simp: get_timer_masked_def Let_def case_prod_unfold)
  then have "dev m' = (dev m)\<lparr>clk := clk (dev m) + k\<rparr>"
    using g(1) by (simp add: READ_TIMER_def rd_parts flash_chip_def)
  then show ?thesis using that [OF g(1)] g(2,3) assms(2) by (simp add: timed_def)
qed

text \<open>
  Data polling: as long as the time that has passed and the time the remaining loads take stay below the
  limit, the wait ends with the value in place.
\<close>

lemma not_d7: "(NOT v) AND 0x80 \<noteq> v AND (0x80 :: u16)"
proof -
  have "bit ((NOT v) AND 0x80) 7 \<noteq> bit (v AND 0x80) 7" by (simp add: bit_simps bit_numeral_rec(1))
  then show ?thesis by metis
qed

lemma word_poll_ok:
  assumes k: "0 < k" "k < 65536"
  shows "pending (dev m) = p \<Longrightarrow> cmd (dev m) = 0 \<Longrightarrow> half_at (cells (dev m)) a = v \<Longrightarrow> timed t s (dev m) \<Longrightarrow>
    timestamp s - st = of_nat (counted t - counted ts) \<Longrightarrow> ts \<le> t \<Longrightarrow> clk (dev m) - ts + p * k \<le> 1000 + k \<Longrightarrow>
    \<exists>sm'. word_poll (flash_chip b lat k) a v st (s, m) = Some (True, sm') \<and> at_rest (cells (dev m)) sm'"
proof (induction p arbitrary: t s m)
  case 0
  then have "get16 (flash_chip b lat k) a (s, m) = (v, s, m)" by (simp add: get16_def flash_chip_def chip_rd_def)
  moreover have "at_rest (cells (dev m)) (s, m)" using 0 by (auto simp: at_rest_def)
  ultimately show ?case by (subst word_poll.simps) simp
next
  case (Suc p)
  let ?m = "m\<lparr>dev := (dev m)\<lparr>pending := p\<rparr>\<rparr>"
  have g: "get16 (flash_chip b lat k) a (s, m) = (NOT v, s, ?m)"
    using Suc.prems by (simp add: get16_def flash_chip_def chip_rd_def)
  have "timed t s (dev ?m)" using Suc.prems(4) by (simp add: timed_def)
  then obtain s1 m1 where 1: "get_timer_masked (regs (flash_chip b lat k)) (s, ?m) = (timestamp s1, s1, m1)"
    "dev m1 = (dev ?m)\<lparr>clk := clk (dev ?m) + k\<rparr>" "timed (clk (dev ?m)) s1 (dev m1)"
    "timestamp s1 = timestamp s + of_nat (counted (clk (dev ?m)) - counted t)"
    using get_timer_chip [OF k] by blast
  let ?t = "clk (dev m)"
  have le: "ts \<le> t" "t \<le> ?t" using Suc.prems(4,6) by (simp_all add: timed_def)
  have "counted ?t - counted ts = (counted ?t - counted t) + (counted t - counted ts)"
    using counted_mono [OF le(1)] counted_mono [OF le(2)] by linarith
  then have d: "timestamp s1 - st = of_nat (counted ?t - counted ts)" using 1(4) Suc.prems(5) by (simp add: algebra_simps)
  have "counted ?t - counted ts \<le> ?t - ts" using counted_diff [of ts ?t] le by (metis diff_le_self le_trans)
  moreover have "?t - ts \<le> 1000" using Suc.prems(7) by simp
  ultimately have "unat (of_nat (counted ?t - counted ts) :: u32) \<le> 1000" by (simp add: unsigned_of_nat take_bit_nat_eq_self)
  then have "\<not> timestamp s1 - st > 1000" unfolding d by (simp add: word_less_nat_alt)
  then have "word_poll (flash_chip b lat k) a v st (s, m) = word_poll (flash_chip b lat k) a v st (s1, m1)"
    using 1(1) not_d7 [of v] by (subst word_poll.simps) (simp add: g get_timer_uboot_def)
  moreover have "\<exists>sm'. word_poll (flash_chip b lat k) a v st (s1, m1) = Some (True, sm') \<and> at_rest (cells (dev m1)) sm'"
  proof (rule Suc.IH [where t = ?t])
    show "clk (dev m1) - ts + p * k \<le> 1000 + k" using Suc.prems(7) 1(2) le by simp
  qed (use Suc.prems 1(2,3) d le in \<open>simp_all\<close>)
  ultimately show ?case using 1(2) by simp
qed

lemma program_half:
  assumes "half_at c a AND v = v"
  shows "half_at (program a v c) a = v" "program a v c = c(a := ucast v, a + 1 := ucast (drop_bit 8 v))"
proof -
  have b: "bit v n \<Longrightarrow> bit (half_at c a) n" for n using assms by (metis bit_and_iff)
  have "c a AND ucast v = ucast v"
  proof (rule bit_word_eqI)
    fix n assume "n < LENGTH(8)"
    then show "bit (c a AND ucast v) n = bit (ucast v :: u8) n" using b [of n] by (auto simp: bit_simps half_at_def)
  qed
  moreover have "c (a + 1) AND ucast (drop_bit 8 v) = ucast (drop_bit 8 v)"
  proof (rule bit_word_eqI)
    fix n assume "n < LENGTH(8)"
    then show "bit (c (a + 1) AND ucast (drop_bit 8 v)) n = bit (ucast (drop_bit 8 v) :: u8) n"
      using b [of "n + 8"] bit_imp_le_length [of "c a" "n + 8"] by (auto simp: bit_simps half_at_def add.commute)
  qed
  ultimately show e: "program a v c = c(a := ucast v, a + 1 := ucast (drop_bit 8 v))" by (simp add: program_def)
  have "ucast (ucast v :: u8) OR push_bit 8 (ucast (ucast (drop_bit 8 v) :: u8)) = v"
    by (rule bit_word_eqI) (auto simp: bit_simps not_less)
  then show "half_at (program a v c) a = v" unfolding e by (simp add: half_at_def)
qed

section \<open>Halves and words\<close>

lemma unlocked:
  fixes b :: u32 and lat k :: nat
  assumes "at_rest c (s, m)"
  defines "p \<equiv> \<lambda>a v. put16 (flash_chip b lat k) a v"
  shows "p a v (p (at16 b CFG_FLASH_ADDR0) 0xA0 (p (at16 b CFG_FLASH_ADDR1) 0x55 (p (at16 b CFG_FLASH_ADDR0) 0xAA (s, m)))) =
    (s, m\<lparr>dev := (dev m)\<lparr>cmd := 0, pending := lat, cells := program a v c\<rparr>\<rparr>)"
  using assms(1) by (simp add: p_def put16_def flash_chip_def chip_wr_def at_rest_def)

lemma write_half_ok:
  assumes r: "at_rest c sm" and b: "start info ! 0 = b" and k: "0 < k" "k < 65536" "lat * k \<le> 1000" and v: "half_at c a AND v = v"
  shows "\<exists>sm'. write_half (flash_chip b lat k) info a v sm = Some (True, sm') \<and> at_rest (program a v c) sm'"
proof -
  let ?F = "flash_chip b lat k"
  obtain s m where sm: "sm = (s, m)" by (cases sm)
  obtain t where t: "timed t s (dev m)" using r by (auto simp: at_rest_def sm)
  let ?m = "m\<lparr>dev := (dev m)\<lparr>cmd := 0, pending := lat, cells := program a v c\<rparr>\<rparr>"
  have "timed t s (dev ?m)" using t by (simp add: timed_def)
  then obtain s1 m1 where 1: "get_timer_masked (regs ?F) (s, ?m) = (timestamp s1, s1, m1)"
    "dev m1 = (dev ?m)\<lparr>clk := clk (dev ?m) + k\<rparr>" "timed (clk (dev ?m)) s1 (dev m1)"
    using get_timer_chip [OF k(1,2)] by blast
  have "\<exists>sm'. word_poll ?F a v (timestamp s1) (s1, m1) = Some (True, sm') \<and> at_rest (cells (dev m1)) sm'"
  proof (rule word_poll_ok [OF k(1,2), where t = "clk (dev m)" and ts = "clk (dev m)"])
    show "half_at (cells (dev m1)) a = v" using program_half(1) [OF v] 1(2) by simp
    show "clk (dev m1) - clk (dev m) + lat * k \<le> 1000 + k" using k(3) 1(2) by simp
  qed (use 1(2,3) in simp_all)
  then show ?thesis
    using 1(1,2) unlocked [OF r [unfolded sm], of b lat k a v] by (simp add: write_half_def b sm Let_def get_timer_uboot_def)
qed

text \<open>The four bytes of a word in memory order, and a block of bytes put into the memory.\<close>

definition bytes_of :: "u32 \<Rightarrow> u8 list" where
  "bytes_of w = [ucast w, ucast (drop_bit 8 w), ucast (drop_bit 16 w), ucast (drop_bit 24 w)]"

definition burned :: "(u32 \<Rightarrow> u8) \<Rightarrow> u32 \<Rightarrow> u8 list \<Rightarrow> u32 \<Rightarrow> u8" where
  "burned c a bs = (\<lambda>x. if unat (x - a) < length bs then bs ! unat (x - a) else c x)"

lemma burned_Nil [simp]: "burned c a [] = c"
  by (simp add: burned_def)

lemma burned_append:
  assumes "length xs + length ys < 2 ^ 32"
  shows "burned (burned c a xs) (a + of_nat (length xs)) ys = burned c a (xs @ ys)"
proof
  fix x
  have n: "unat (of_nat (length xs) :: u32) = length xs" using assms by (simp add: unsigned_of_nat take_bit_nat_eq_self)
  show "burned (burned c a xs) (a + of_nat (length xs)) ys x = burned c a (xs @ ys) x"
  proof (cases "unat (x - a) < length xs")
    case True
    then have "unat (x - a - of_nat (length xs)) = unat (x - a) + 2 ^ 32 - length xs"
      using n by (subst unat_sub_if') (simp add: word_le_nat_alt)
    then have "\<not> unat (x - (a + of_nat (length xs))) < length ys" using assms True by (simp add: diff_diff_eq)
    then show ?thesis using True by (simp add: burned_def nth_append)
  next
    case False
    then have "unat (x - a - of_nat (length xs)) = unat (x - a) - length xs"
      using n by (subst unat_sub_if') (simp add: word_le_nat_alt)
    then have "unat (x - (a + of_nat (length xs))) = unat (x - a) - length xs" by (simp add: diff_diff_eq)
    then show ?thesis using False by (auto simp: burned_def nth_append)
  qed
qed

lemma word_bit_cases:
  "bit (word_at c a) n \<longleftrightarrow> n < 32 \<and> bit (c (a + of_nat (n div 8))) (n mod 8)"
proof -
  have h: "\<not> bit (c x) n" if "8 \<le> n" for x n using bit_imp_le_length [of "c x" n] that by auto
  consider "n < 8" | "8 \<le> n" "n < 16" | "16 \<le> n" "n < 24" | "24 \<le> n" "n < 32" | "32 \<le> n" by linarith
  then show ?thesis
  proof cases
    case 2
    then have "n div 8 = 1" "n mod 8 = n - 8" by (simp_all add: div_nat_eqI mod_if)
    then show ?thesis using 2 h by (auto simp: word_at_def bit_simps)
  next
    case 3
    then have "n div 8 = 2" "n mod 8 = n - 16" by (simp_all add: div_nat_eqI mod_if)
    then show ?thesis using 3 h by (auto simp: word_at_def bit_simps)
  next
    case 4
    then have "n div 8 = 3" "n mod 8 = n - 24" by (simp_all add: div_nat_eqI mod_if)
    then show ?thesis using 4 h by (auto simp: word_at_def bit_simps)
  qed (use h in \<open>auto simp: word_at_def bit_simps\<close>)
qed

lemma half_bit_cases: "bit (half_at c a) n \<longleftrightarrow> n < 16 \<and> bit (word_at c a) n"
  using bit_imp_le_length [of "c a" n] by (auto simp: half_at_def word_at_def bit_simps)

lemma word_halves:
  assumes "word_at c a AND w = w"
  shows "half_at c a AND ucast w = ucast w" "half_at c (a + 2) AND ucast (drop_bit 16 w) = ucast (drop_bit 16 w)"
proof -
  have b: "bit w n \<Longrightarrow> bit (word_at c a) n" for n using assms by (metis bit_and_iff)
  show "half_at c a AND ucast w = ucast w"
    by (rule bit_word_eqI) (use b in \<open>auto simp: bit_simps half_bit_cases\<close>)
  show "half_at c (a + 2) AND ucast (drop_bit 16 w) = ucast (drop_bit 16 w)"
  proof (rule bit_word_eqI)
    fix n assume n: "n < LENGTH(16)"
    have "bit (half_at c (a + 2)) n" if "bit w (n + 16)"
    proof -
      have "(n + 16) div 8 = n div 8 + 2" "(n + 16) mod 8 = n mod 8" by presburger+
      then show ?thesis using b [OF that] n by (simp add: half_bit_cases word_bit_cases algebra_simps)
    qed
    then show "bit (half_at c (a + 2) AND ucast (drop_bit 16 w)) n = bit (ucast (drop_bit 16 w) :: u16) n"
      using n by (auto simp: bit_simps add.commute)
  qed
qed

lemma burned_word: "burned c a (bytes_of w) = c(a := ucast w, a + 1 := ucast (drop_bit 8 w), a + 2 := ucast (drop_bit 16 w), a + 3 := ucast (drop_bit 24 w))"
proof
  fix x
  have u: "x = a + of_nat (unat (x - a))" by simp
  consider "unat (x - a) = 0" | "unat (x - a) = 1" | "unat (x - a) = 2" | "unat (x - a) = 3" | "\<not> unat (x - a) < 4" by linarith
  then consider "x = a" | "x = a + 1" | "x = a + 2" | "x = a + 3" | "\<not> unat (x - a) < 4"
    by cases (use u in simp_all)
  then show "burned c a (bytes_of w) x = (c(a := ucast w, a + 1 := ucast (drop_bit 8 w), a + 2 := ucast (drop_bit 16 w), a + 3 := ucast (drop_bit 24 w))) x"
    by cases (auto simp: burned_def bytes_of_def)
qed

lemma bytes_of_halves:
  "ucast (ucast (w :: u32) :: u16) = (ucast w :: u8)" "ucast (drop_bit 8 (ucast w :: u16)) = (ucast (drop_bit 8 w) :: u8)"
  "ucast (drop_bit 8 (ucast (drop_bit 16 w) :: u16)) = (ucast (drop_bit 24 w) :: u8)"
  by (rule bit_word_eqI, simp add: bit_simps)+

lemma write_word_ok:
  assumes r: "at_rest c sm" and b: "start info ! 0 = b" and k: "0 < k" "k < 65536" "lat * k \<le> 1000" and w: "word_at c a AND w = w"
  shows "\<exists>sm'. write_word (flash_chip b lat k) info a w sm = Some (0, sm') \<and> at_rest (burned c a (bytes_of w)) sm'"
proof -
  let ?F = "flash_chip b lat k" and ?c1 = "program a (ucast w) c"
  note h = word_halves [OF w]
  obtain sm1 where 1: "write_half ?F info a (ucast w) sm = Some (True, sm1)" "at_rest ?c1 sm1"
    using write_half_ok [OF r b k h(1)] by blast
  have c1: "?c1 = c(a := ucast w, a + 1 := ucast (drop_bit 8 w))"
    using program_half(2) [OF h(1)] by (simp add: bytes_of_halves)
  have "half_at ?c1 (a + 2) = half_at c (a + 2)" by (simp add: c1 half_at_def)
  then obtain sm2 where 2: "write_half ?F info (a + 2) (ucast (drop_bit 16 w)) sm1 = Some (True, sm2)" "at_rest (program (a + 2) (ucast (drop_bit 16 w)) ?c1) sm2"
    using write_half_ok [OF 1(2) b k, of "a + 2"] h(2) by metis
  have "program (a + 2) (ucast (drop_bit 16 w)) ?c1 = burned c a (bytes_of w)"
    using program_half(2) [of ?c1 "a + 2"] h(2) \<open>half_at ?c1 (a + 2) = _\<close> by (simp add: c1 burned_word bytes_of_halves add.commute)
  then show ?thesis using 1(1) 2 rest_loads(3) [OF r, of b lat k a] w by (simp add: write_word_def disable_interrupts_def)
qed

section \<open>Bytes gathered into a word\<close>

fun pack :: "nat \<Rightarrow> u8 list \<Rightarrow> u32" where
  "pack i [] = 0"
| "pack i (b # bs) = push_bit (8 * i) (ucast b) OR pack (i + 1) bs"

lemma pack_append: "pack i (xs @ ys) = pack i xs OR pack (i + length xs) ys"
  by (induction xs arbitrary: i) (simp_all add: or.assoc)

lemma or_src_takes:
  "unat cnt \<le> length bs \<Longrightarrow>
   or_src n i cnt (p, bs) data = Inr (i + min n (unat cnt), cnt - of_nat (min n (unat cnt)),
     (p + of_nat (min n (unat cnt)), drop (min n (unat cnt)) bs), data OR pack i (take (min n (unat cnt)) bs))"
proof (induction n arbitrary: i cnt p bs data)
  case (Suc n)
  show ?case
  proof (cases "cnt = 0")
    case False
    then have "unat cnt \<noteq> 0" by (simp add: unat_eq_zero)
    then have u: "unat cnt = Suc (unat (cnt - 1))" using unat_minus_one [OF False] by simp
    then obtain x xs where bs: "bs = x # xs" using Suc.prems by (cases bs) auto
    define q where "q = min n (unat (cnt - 1))"
    then have q: "min (Suc n) (unat cnt) = Suc q" by (simp add: u)
    have "unat (cnt - 1) \<le> length xs" using Suc.prems u bs by simp
    then have "or_src n (i + 1) (cnt - 1) (p + 1, xs) (data OR push_bit (8 * i) (ucast x)) =
        Inr (i + 1 + q, cnt - 1 - of_nat q, (p + 1 + of_nat q, drop q xs), (data OR push_bit (8 * i) (ucast x)) OR pack (i + 1) (take q xs))"
      unfolding q_def by (rule Suc.IH)
    moreover have "cnt > 0" using False by (simp add: word_greater_zero_iff)
    ultimately show ?thesis unfolding q by (simp add: bs or.assoc diff_diff_eq add.assoc)
  qed simp
qed simp

lemma four: "length bs = 4 \<Longrightarrow> \<exists>w x y z. bs = [w, x, y, z]"
  by (auto simp: length_Suc_conv numeral_eq_Suc)

lemma pack_word: "length bs = 4 \<Longrightarrow> pack 0 bs = word_at (\<lambda>x. bs ! unat x) 0"
  using four [of bs] by (auto simp: word_at_def)

lemma bytes_of_pack: "length bs = 4 \<Longrightarrow> bytes_of (pack 0 bs) = bs"
proof -
  assume l: "length bs = 4"
  then obtain w x y z where bs: "bs = [w, x, y, z]" using four by blast
  have b: "bit (pack 0 bs) n = (n < 32 \<and> bit (bs ! (n div 8)) (n mod 8))" for n
  proof -
    have "n div 8 < 4 \<Longrightarrow> unat (of_nat (n div 8) :: u32) = n div 8" by (simp add: unsigned_of_nat take_bit_nat_eq_self)
    then show ?thesis unfolding pack_word [OF l] word_bit_cases by auto
  qed
  have "ucast (drop_bit (8 * j) (pack 0 bs)) = bs ! j" if "j < 4" for j
  proof (rule bit_word_eqI)
    fix n assume n: "n < LENGTH(8)"
    then have "(n + 8 * j) div 8 = j" "(n + 8 * j) mod 8 = n" by simp_all
    then show "bit (ucast (drop_bit (8 * j) (pack 0 bs)) :: u8) n = bit (bs ! j) n" using n that by (simp add: bit_simps b add.commute)
  qed
  from this [of 0] this [of 1] this [of 2] this [of 3] show ?thesis by (simp add: bytes_of_def bs del: pack.simps)
qed

text \<open>\<open>writable\<close>: no bit of the new bytes would have to be set again.\<close>

definition writable :: "(u32 \<Rightarrow> u8) \<Rightarrow> u32 \<Rightarrow> u8 list \<Rightarrow> bool" where
  "writable c a bs \<longleftrightarrow> (\<forall>i < length bs. c (a + of_nat i) AND bs ! i = bs ! i)"

lemma write_bytes_ok:
  assumes "at_rest c sm" "start info ! 0 = b" "0 < k" "k < 65536" "lat * k \<le> 1000" "length bs = 4" "writable c a bs"
  shows "\<exists>sm'. write_word (flash_chip b lat k) info a (pack 0 bs) sm = Some (0, sm') \<and> at_rest (burned c a bs) sm'"
proof -
  have "word_at c a AND pack 0 bs = pack 0 bs"
  proof (rule bit_word_eqI)
    fix n assume "n < LENGTH(32)"
    then have n: "n div 8 < 4" by auto
    then have "unat (of_nat (n div 8) :: u32) = n div 8" by (simp add: unsigned_of_nat take_bit_nat_eq_self)
    moreover have "c (a + of_nat (n div 8)) AND bs ! (n div 8) = bs ! (n div 8)" using assms(6,7) n by (simp add: writable_def)
    then have "bit (bs ! (n div 8)) (n mod 8) \<Longrightarrow> bit (c (a + of_nat (n div 8))) (n mod 8)" by (metis bit_and_iff)
    ultimately show "bit (word_at c a AND pack 0 bs) n = bit (pack 0 bs) n"
      unfolding pack_word [OF assms(6)] by (auto simp: bit_and_iff word_bit_cases)
  qed
  from write_word_ok [OF assms(1-5) this] show ?thesis by (simp add: bytes_of_pack [OF assms(6)])
qed

section \<open>Copies of any length\<close>

lemma burned_other: "length bs \<le> unat (x - a) \<Longrightarrow> burned c a bs x = c x"
  by (simp add: burned_def)

lemma burned_same: "n < 2 ^ 32 \<Longrightarrow> burned c a (map (\<lambda>j. c (a + of_nat j)) [0..<n]) = c"
  by (rule ext) (simp add: burned_def)

lemma writable_append: "writable c a (xs @ ys) \<longleftrightarrow> writable c a xs \<and> writable c (a + of_nat (length xs)) ys"
proof
  assume w: "writable c a xs \<and> writable c (a + of_nat (length xs)) ys"
  show "writable c a (xs @ ys)"
    unfolding writable_def
  proof (intro allI impI)
    fix i assume "i < length (xs @ ys)"
    then show "c (a + of_nat i) AND (xs @ ys) ! i = (xs @ ys) ! i"
    proof (cases "i < length xs")
      case False
      then obtain j where "i = length xs + j" by (metis le_Suc_ex not_less)
      then show ?thesis using w \<open>i < length (xs @ ys)\<close> by (simp add: writable_def nth_append add.assoc)
    qed (use w in \<open>simp add: writable_def nth_append\<close>)
  qed
next
  assume w: "writable c a (xs @ ys)"
  show "writable c a xs \<and> writable c (a + of_nat (length xs)) ys"
    unfolding writable_def
  proof (intro conjI allI impI)
    fix i assume "i < length xs"
    then show "c (a + of_nat i) AND xs ! i = xs ! i" using w [unfolded writable_def, rule_format, of i] by (simp add: nth_append)
  next
    fix i assume "i < length ys"
    then show "c (a + of_nat (length xs) + of_nat i) AND ys ! i = ys ! i"
      using w [unfolded writable_def, rule_format, of "length xs + i"] by (simp add: add.assoc)
  qed
qed

lemma writable_same: "writable c a (map (\<lambda>j. c (a + of_nat j)) [0..<n])"
  by (simp add: writable_def)

lemma unat_of_less: "n < 2 ^ 32 \<Longrightarrow> unat (of_nat n :: u32) = n"
  by (simp add: unsigned_of_nat take_bit_nat_eq_self)

lemma writable_burned:
  "writable c (a + of_nat n) ys \<Longrightarrow> length xs \<le> n \<Longrightarrow> n + length ys < 2 ^ 32 \<Longrightarrow> writable (burned c a xs) (a + of_nat n) ys"
proof -
  assume w: "writable c (a + of_nat n) ys" and n: "length xs \<le> n" "n + length ys < 2 ^ 32"
  have "burned c a xs (a + of_nat n + of_nat i) = c (a + of_nat n + of_nat i)" if "i < length ys" for i
  proof (rule burned_other)
    have "a + of_nat n + of_nat i - a = (of_nat (n + i) :: u32)" by simp
    then show "length xs \<le> unat (a + of_nat n + of_nat i - a)" using n that by (simp only: unat_of_less)
  qed
  then show ?thesis using w by (simp add: writable_def)
qed

text \<open>A word whose middle is new and whose ends are what the flash holds.\<close>

lemma mixed_word:
  assumes "l + length ys + r = 4" "writable c (a + of_nat l) ys"
  defines "bs \<equiv> map (\<lambda>j. c (a + of_nat j)) [0..<l] @ ys @ map (\<lambda>j. c (a + of_nat (l + length ys) + of_nat j)) [0..<r]"
  shows "length bs = 4" "writable c a bs" "burned c a bs = burned c (a + of_nat l) ys"
proof -
  let ?e = "map (\<lambda>j. c (a + of_nat (l + length ys) + of_nat j)) [0..<r]"
  show "length bs = 4" using assms(1) by (simp add: bs_def)
  show "writable c a bs"
    using assms(2) writable_same [of c a l] writable_same [of c "a + of_nat (l + length ys)" r]
    by (simp add: bs_def writable_append add.assoc)
  have A: "burned (burned c (a + of_nat l) ys) (a + of_nat (l + length ys)) ?e = burned c (a + of_nat l) (ys @ ?e)"
    using burned_append [of ys ?e c "a + of_nat l"] assms(1) by (simp add: add.assoc)
  have B: "burned c a bs = burned (burned c a (map (\<lambda>j. c (a + of_nat j)) [0..<l])) (a + of_nat l) (ys @ ?e)"
    using burned_append [of "map (\<lambda>j. c (a + of_nat j)) [0..<l]" "ys @ ?e" c a] assms(1) by (simp add: bs_def)
  have C: "?e = map (\<lambda>j. burned c (a + of_nat l) ys (a + of_nat (l + length ys) + of_nat j)) [0..<r]"
  proof (rule map_cong [OF refl])
    fix j assume "j \<in> set [0..<r]"
    then have j: "length ys + j < 2 ^ 32" using assms(1) by simp
    have "a + of_nat (l + length ys) + of_nat j - (a + of_nat l) = (of_nat (length ys + j) :: u32)" by simp
    then have "length ys \<le> unat (a + of_nat (l + length ys) + of_nat j - (a + of_nat l))" using unat_of_less [OF j] by simp
    then show "c (a + of_nat (l + length ys) + of_nat j) = burned c (a + of_nat l) ys (a + of_nat (l + length ys) + of_nat j)"
      by (simp only: burned_other)
  qed
  have l32: "l < 2 ^ 32" "r < 2 ^ 32" using assms(1) by simp_all
  have "burned c a bs = burned (burned c (a + of_nat l) ys) (a + of_nat (l + length ys)) ?e"
    unfolding B burned_same [OF l32(1)] by (rule A [symmetric])
  also have "\<dots> = burned (burned c (a + of_nat l) ys) (a + of_nat (l + length ys)) (map (\<lambda>j. burned c (a + of_nat l) ys (a + of_nat (l + length ys) + of_nat j)) [0..<r])"
    using C by (rule arg_cong)
  also have "\<dots> = burned c (a + of_nat l) ys" by (rule burned_same [OF l32(2)])
  finally show "burned c a bs = burned c (a + of_nat l) ys" .
qed

lemma and3: "unat (p AND 3) = unat (p :: u32) mod 4"
proof -
  have "p AND 3 = take_bit 2 p" by (simp add: take_bit_eq_mask mask_eq_exp_minus_1)
  then show ?thesis by (simp add: take_bit_eq_mod unat_mod)
qed

lemma and3_zero: "p AND 3 = 0 \<longleftrightarrow> unat (p :: u32) mod 4 = 0"
  using and3 [of p] by (metis unat_eq_zero)

lemma and3_add: "(p + of_nat n) AND 3 = 0 \<longleftrightarrow> (unat (p :: u32) + n) mod 4 = 0"
proof -
  have "unat (p + of_nat n) mod 4 = (unat p + n) mod 4"
    by (simp add: unat_word_ariths unsigned_of_nat take_bit_eq_mod mod_mod_cancel mod_add_right_eq)
  then show ?thesis by (simp add: and3_zero)
qed

text \<open>
  What \<^verbatim>\<open>write_buff\<close> relies on: loads show the memory, and \<^verbatim>\<open>write_word\<close> puts four bytes in place
  when they can be programmed.
\<close>

locale word_writer =
  fixes F :: "'d fbus" and info :: flash_info and rest :: "(u32 \<Rightarrow> u8) \<Rightarrow> 'd fstate \<Rightarrow> bool"
  assumes load8: "rest c sm \<Longrightarrow> get8 F a sm = (c a, sm)"
    and store4: "rest c sm \<Longrightarrow> length bs = 4 \<Longrightarrow> writable c a bs \<Longrightarrow>
      \<exists>sm'. write_word F info a (pack 0 bs) sm = Some (0, sm') \<and> rest (burned c a bs) sm'"
begin

lemma or_flash_rest:
  "rest c sm \<Longrightarrow> or_flash F n i cp data sm = (data OR pack i (map (\<lambda>j. c (cp + of_nat j)) [0..<n]), sm)"
proof (induction n arbitrary: i cp data)
  case (Suc n)
  have eq: "map (\<lambda>j. c (cp + of_nat j)) [0..<Suc n] = c cp # map (\<lambda>j. c (cp + 1 + of_nat j)) [0..<n]"
  proof -
    have "[0..<Suc n] = 0 # map Suc [0..<n]" by (simp add: upt_conv_Cons map_Suc_upt del: upt_Suc)
    then show ?thesis by (simp add: comp_def add.assoc del: upt_Suc)
  qed
  have "or_flash F (Suc n) i cp data sm = or_flash F n (i + 1) (cp + 1) (data OR push_bit (8 * i) (ucast (c cp))) sm"
    by (simp add: load8 [OF Suc.prems])
  also have "\<dots> = ((data OR push_bit (8 * i) (ucast (c cp))) OR pack (i + 1) (map (\<lambda>j. c (cp + 1 + of_nat j)) [0..<n]), sm)"
    by (rule Suc.IH [OF Suc.prems])
  finally show ?case unfolding eq by (simp only: pack.simps or.assoc)
qed simp

lemma lead_word_ok:
  assumes r: "rest c sm" and l: "0 < l" "l < 4" and cnt: "unat cnt = length bs" and w: "writable c (wp + of_nat l) (take (4 - l) bs)"
  shows "\<exists>sm'. lead_word F info (p, bs) wp l cnt sm =
      Some (Inr ((0, wp + 4, (p + of_nat (min (4 - l) (length bs)), drop (4 - l) bs), cnt - of_nat (min (4 - l) (length bs))), sm')) \<and>
    rest (burned c (wp + of_nat l) (take (4 - l) bs)) sm'"
proof -
  define q where q: "q = min (4 - l) (length bs)"
  have tq: "take q bs = take (4 - l) bs" "length (take q bs) = q" "drop q bs = drop (4 - l) bs" using q by (auto simp: min_def)
  have mq: "min (length bs) q = q" using q by simp
  have left: "unat (cnt - of_nat q) = length bs - q"
    using q cnt unat_of_less [of q] by (subst unat_sub) (auto simp: word_le_nat_alt)
  let ?r = "4 - (l + q)"
  let ?word = "map (\<lambda>j. c (wp + of_nat j)) [0..<l] @ take q bs @ map (\<lambda>j. c (wp + of_nat (l + q) + of_nat j)) [0..<?r]"
  have sum: "l + length (take q bs) + ?r = 4" using l q by auto
  note mw = mixed_word [OF sum w [folded tq(1)], unfolded tq(2)]
  obtain sm' where w': "write_word F info wp (pack 0 ?word) sm = Some (0, sm')" "rest (burned c wp ?word) sm'"
    using store4 [OF r mw(1,2)] by blast
  have "(if cnt - of_nat q = 0 then or_flash F ?r (l + q) (wp + of_nat (l + q)) (pack 0 (map (\<lambda>j. c (wp + of_nat j)) [0..<l]) OR pack l (take q bs)) sm
      else (pack 0 (map (\<lambda>j. c (wp + of_nat j)) [0..<l]) OR pack l (take q bs), sm)) = (pack 0 ?word, sm)"
  proof (cases "cnt - of_nat q = 0")
    case True
    then show ?thesis by (simp add: or_flash_rest [OF r] pack_append mq or.assoc)
  next
    case False
    then have "unat (cnt - of_nat q) \<noteq> 0" by (simp add: unat_eq_zero)
    then have "?r = 0" using left q l by simp
    then show ?thesis using False by (simp add: pack_append mq)
  qed
  moreover have "or_flash F l 0 wp 0 sm = (pack 0 (map (\<lambda>j. c (wp + of_nat j)) [0..<l]), sm)" by (simp add: or_flash_rest [OF r])
  moreover have "or_src (4 - l) l cnt (p, bs) d = Inr (l + q, cnt - of_nat q, (p + of_nat q, drop q bs), d OR pack l (take q bs))" for d
    using or_src_takes [of cnt bs "4 - l" l p d] cnt q by simp
  ultimately have "lead_word F info (p, bs) wp l cnt sm = Some (Inr ((0, wp + 4, (p + of_nat q, drop q bs), cnt - of_nat q), sm'))"
    using w'(1) by (simp add: lead_word_def)
  then show ?thesis using w'(2) mw(3) tq q by auto
qed

lemma tail_word_ok:
  assumes r: "rest c sm" and cnt: "unat cnt = length bs" "length bs < 4" and w: "writable c wp bs"
  shows "\<exists>sm'. tail_word F info wp (p, bs) cnt sm = Some (Inr (0, sm')) \<and> rest (burned c wp bs) sm'"
proof -
  let ?q = "length bs"
  let ?word = "map (\<lambda>j. c (wp + of_nat j)) [0..<0] @ bs @ map (\<lambda>j. c (wp + of_nat (0 + ?q) + of_nat j)) [0..<4 - ?q]"
  have sum: "0 + length bs + (4 - ?q) = 4" using cnt by simp
  have "writable c (wp + of_nat 0) bs" using w by simp
  note mw = mixed_word [OF sum this]
  obtain sm' where w': "write_word F info wp (pack 0 ?word) sm = Some (0, sm')" "rest (burned c wp ?word) sm'"
    using store4 [OF r mw(1,2)] by blast
  have "or_src 4 0 cnt (p, bs) 0 = Inr (?q, cnt - of_nat ?q, (p + of_nat ?q, []), pack 0 bs)"
    using or_src_takes [of cnt bs 4 0 p 0] cnt by simp
  then have "tail_word F info wp (p, bs) cnt sm = Some (Inr (0, sm'))"
    using w'(1) by (simp add: tail_word_def or_flash_rest [OF r] pack_append)
  then show ?thesis using w'(2) mw(3) by auto
qed

lemma load_word_ok: "p AND 3 = 0 \<Longrightarrow> 4 \<le> length bs \<Longrightarrow> load_word (p, bs) = Inr (pack 0 (take 4 bs), (p + 4, drop 4 bs))"
proof -
  assume p: "p AND 3 = 0" and "4 \<le> length bs"
  then obtain a b c d xs where "bs = a # b # c # d # xs" by (auto simp: numeral_eq_Suc Suc_le_length_iff)
  then show ?thesis using p by (simp add: load_word_def or.assoc)
qed

lemma word_loop_ok:
  "rest c sm \<Longrightarrow> p AND 3 = 0 \<Longrightarrow> 4 * n \<le> length bs \<Longrightarrow> 4 * n < 2 ^ 32 \<Longrightarrow> writable c wp (take (4 * n) bs) \<Longrightarrow>
   \<exists>sm'. word_loop F info n wp (p, bs) cnt sm = Some (Inr ((0, wp + of_nat (4 * n), (p + of_nat (4 * n), drop (4 * n) bs), cnt - of_nat (4 * n)), sm')) \<and>
     rest (burned c wp (take (4 * n) bs)) sm'"
proof (induction n arbitrary: c sm p bs wp cnt)
  case (Suc n)
  let ?c = "burned c wp (take 4 bs)"
  have len: "length (take 4 bs) = 4" "4 \<le> length bs" using Suc.prems(3) by auto
  have split: "take (4 * Suc n) bs = take 4 bs @ take (4 * n) (drop 4 bs)" by (simp add: take_add [symmetric])
  have w: "writable c wp (take 4 bs)" "writable c (wp + of_nat 4) (take (4 * n) (drop 4 bs))"
    using Suc.prems(5) unfolding split writable_append len(1) by simp_all
  obtain sm1 where 1: "write_word F info wp (pack 0 (take 4 bs)) sm = Some (0, sm1)" "rest ?c sm1"
    using store4 [OF Suc.prems(1) len(1) w(1)] by blast
  have p4: "(p + 4) AND 3 = 0" using and3_add [of p 4] and3_zero [of p] Suc.prems(2) by simp
  have w2: "writable ?c (wp + 4) (take (4 * n) (drop 4 bs))"
    using writable_burned [OF w(2), of "take 4 bs"] len(1) Suc.prems(4) by simp
  obtain sm2 where 2: "word_loop F info n (wp + 4) (p + 4, drop 4 bs) (cnt - 4) sm1 =
      Some (Inr ((0, wp + 4 + of_nat (4 * n), (p + 4 + of_nat (4 * n), drop (4 * n) (drop 4 bs)), cnt - 4 - of_nat (4 * n)), sm2))"
    "rest (burned ?c (wp + 4) (take (4 * n) (drop 4 bs))) sm2"
  proof -
    have "4 * n \<le> length (drop 4 bs)" "4 * n < 2 ^ 32" using Suc.prems(3,4) by simp_all
    from Suc.IH [OF 1(2) p4 this w2, of "cnt - 4"] show thesis using that by blast
  qed
  have "burned ?c (wp + 4) (take (4 * n) (drop 4 bs)) = burned c wp (take (4 * Suc n) bs)"
    using burned_append [of "take 4 bs" "take (4 * n) (drop 4 bs)" c wp] len(1) Suc.prems(4) unfolding split by simp
  then show ?case
    using 2 1(1) load_word_ok [OF Suc.prems(2) len(2)] by (simp add: add.assoc diff_diff_eq add.commute)
qed simp

text \<open>From a word boundary on.\<close>

lemma aligned_part_ok:
  assumes r: "rest c sm" and p: "length bs < 4 \<or> p AND 3 = 0" and cnt: "unat cnt = length bs" and w: "writable c wp bs"
  shows "\<exists>sm'. bind_run (word_loop F info (unat cnt div 4) wp (p, bs) cnt sm) (\<lambda>(rc, wp, src, cnt) sm.
      if rc \<noteq> 0 then Some (Inr (rc, sm)) else if cnt = 0 then Some (Inr (0, sm)) else tail_word F info wp src cnt sm) = Some (Inr (0, sm')) \<and>
    rest (burned c wp bs) sm'"
proof -
  define n where n: "n = length bs div 4"
  have b: "4 * n \<le> length bs" "length bs - 4 * n < 4" unfolding n by simp_all
  have "unat cnt < 2 ^ LENGTH(32)" by (rule unsigned_less)
  then have big: "length bs < 2 ^ 32" using cnt by simp
  have l4: "length (take (4 * n) bs) = 4 * n" using b(1) by simp
  have ws: "writable c wp (take (4 * n) bs)" "writable c (wp + of_nat (4 * n)) (drop (4 * n) bs)"
    using w writable_append [of c wp "take (4 * n) bs" "drop (4 * n) bs"] unfolding l4 append_take_drop_id by blast+
  have "\<exists>sm'. word_loop F info n wp (p, bs) cnt sm = Some (Inr ((0, wp + of_nat (4 * n), (p + of_nat (4 * n), drop (4 * n) bs), cnt - of_nat (4 * n)), sm')) \<and>
      rest (burned c wp (take (4 * n) bs)) sm'"
  proof (cases "length bs < 4")
    case True
    then have "n = 0" by (simp add: n)
    then show ?thesis using r by simp
  next
    case False
    then show ?thesis using word_loop_ok [OF r _ b(1) _ ws(1)] p b(1) big by simp
  qed
  then obtain sm1 where 1: "word_loop F info n wp (p, bs) cnt sm = Some (Inr ((0, wp + of_nat (4 * n), (p + of_nat (4 * n), drop (4 * n) bs), cnt - of_nat (4 * n)), sm1))"
    "rest (burned c wp (take (4 * n) bs)) sm1" by blast
  have left: "unat (cnt - of_nat (4 * n)) = length (drop (4 * n) bs)"
    using b(1) cnt big unat_of_less [of "4 * n"] by (subst unat_sub) (simp_all add: word_le_nat_alt)
  have all: "burned (burned c wp (take (4 * n) bs)) (wp + of_nat (4 * n)) (drop (4 * n) bs) = burned c wp bs"
    using burned_append [of "take (4 * n) bs" "drop (4 * n) bs" c wp] b(1) big unfolding l4 append_take_drop_id by simp
  show ?thesis
  proof (cases "cnt - of_nat (4 * n) = 0")
    case True
    then have "drop (4 * n) bs = []" using left by simp
    then show ?thesis using 1 all True cnt n by simp
  next
    case False
    have wb: "writable (burned c wp (take (4 * n) bs)) (wp + of_nat (4 * n)) (drop (4 * n) bs)"
      by (rule writable_burned [OF ws(2)]) (use b(1) big in simp_all)
    have "length (drop (4 * n) bs) < 4" using b(2) by simp
    from tail_word_ok [OF 1(2) left this wb] obtain sm2 where "tail_word F info (wp + of_nat (4 * n)) (p + of_nat (4 * n), drop (4 * n) bs) (cnt - of_nat (4 * n)) sm1 = Some (Inr (0, sm2))"
      "rest (burned c wp bs) sm2"
      unfolding all by blast
    then show ?thesis using 1(1) False cnt n by simp
  qed
qed

text \<open>The word boundary below an address.\<close>

lemma boundary:
  fixes addr :: u32
  defines "l \<equiv> unat (addr - (addr AND NOT 3))"
  shows "l = unat addr mod 4" "addr = (addr AND NOT 3) + of_nat l"
proof -
  have "(addr AND NOT 3) + (addr AND 3) = (addr AND NOT 3) OR (addr AND 3)"
    by (rule disjunctive_add) (auto simp: bit_simps)
  also have "\<dots> = addr" by (rule bit_word_eqI) (auto simp: bit_simps)
  finally have s: "(addr AND NOT 3) + (addr AND 3) = addr" .
  then have "addr - (addr AND NOT 3) = addr AND 3" by (metis add_diff_cancel_left')
  then show "l = unat addr mod 4" by (simp add: l_def and3)
  show "addr = (addr AND NOT 3) + of_nat l" by (simp add: l_def)
qed

lemma write_buff_ok:
  assumes r: "rest c sm" and cnt: "unat cnt = length bs" and w: "writable c addr bs" and p: "p AND 3 = addr AND 3"
  shows "\<exists>sm'. write_buff F info (p, bs) addr cnt sm = Some (Inr (0, sm')) \<and> rest (burned c addr bs) sm'"
proof -
  define wp l where wp: "wp = addr AND NOT 3" and l: "l = unat (addr - wp)"
  note bd = boundary [of addr, folded wp, folded l]
  have lt: "l < 4" by (simp add: bd(1))
  have pl: "unat p mod 4 = l" using p and3 [of p] and3 [of addr] bd(1) by simp
  have "unat cnt < 2 ^ LENGTH(32)" by (rule unsigned_less)
  then have big: "length bs < 2 ^ 32" using cnt by simp
  show ?thesis
  proof (cases "l = 0")
    case True
    then have "p AND 3 = 0" "wp = addr" using pl and3_zero [of p] bd(2) by simp_all
    then show ?thesis
      using aligned_part_ok [OF r _ cnt, of p addr] w True unfolding write_buff_def Let_def wp [symmetric] l [symmetric] by simp
  next
    case False
    define q where q: "q = min (4 - l) (length bs)"
    let ?c = "burned c addr (take (4 - l) bs)" and ?bs = "drop (4 - l) bs"
    have spl: "take (4 - l) bs @ ?bs = bs" by simp
    have ws: "writable c (wp + of_nat l) (take (4 - l) bs)" "writable c (addr + of_nat (length (take (4 - l) bs))) ?bs"
      using w writable_append [of c addr "take (4 - l) bs" ?bs] bd(2) unfolding spl by simp_all
    obtain sm1 where 1: "lead_word F info (p, bs) wp l cnt sm = Some (Inr ((0, wp + 4, (p + of_nat q, ?bs), cnt - of_nat q), sm1))" "rest ?c sm1"
      using lead_word_ok [OF r _ lt cnt ws(1), of p] False bd(2) q by auto
    have left: "unat (cnt - of_nat q) = length ?bs"
      using q cnt big unat_of_less [of q] by (subst unat_sub) (auto simp: word_le_nat_alt)
    have al: "length ?bs < 4 \<or> (p + of_nat q) AND 3 = 0"
    proof (cases "length bs < 4 - l")
      case False
      then have "(unat p + q) mod 4 = (l + (4 - l)) mod 4" using q pl by (metis min.absorb1 mod_add_left_eq not_less)
      then show ?thesis using lt and3_add [of p q] by simp
    qed simp
    have nx: "?bs = [] \<or> wp + 4 = addr + of_nat (length (take (4 - l) bs))"
    proof (cases "length bs < 4 - l")
      case False
      then have "length (take (4 - l) bs) = 4 - l" by simp
      moreover have "(of_nat l + of_nat (4 - l) :: u32) = 4" using lt by (simp add: of_nat_diff)
      ultimately have "addr + of_nat (length (take (4 - l) bs)) = wp + 4" using bd(2) by (metis add.assoc)
      then show ?thesis by simp
    qed simp
    have wb: "writable ?c (wp + 4) ?bs"
      using nx writable_burned [OF ws(2), of "take (4 - l) bs"] big by (auto simp: writable_def)
    obtain sm2 where 2: "bind_run (word_loop F info (unat (cnt - of_nat q) div 4) (wp + 4) (p + of_nat q, ?bs) (cnt - of_nat q) sm1) (\<lambda>(rc, wp, src, cnt) sm.
        if rc \<noteq> 0 then Some (Inr (rc, sm)) else if cnt = 0 then Some (Inr (0, sm)) else tail_word F info wp src cnt sm) = Some (Inr (0, sm2))"
      "rest (burned ?c (wp + 4) ?bs) sm2"
      using aligned_part_ok [OF 1(2) al left wb] by blast
    have "burned ?c (addr + of_nat (length (take (4 - l) bs))) ?bs = burned c addr bs"
      using burned_append [of "take (4 - l) bs" ?bs c addr] big unfolding spl by simp
    then have "burned ?c (wp + 4) ?bs = burned c addr bs" using nx by auto
    then show ?thesis
      using 1(1) 2 False unfolding write_buff_def Let_def wp [symmetric] l [symmetric] by simp
  qed
qed

end

section \<open>The driver on the chip\<close>

text \<open>The chip at rest, fast enough for the driver's time limit.\<close>

definition chip_rest :: "u32 \<Rightarrow> nat \<Rightarrow> nat \<Rightarrow> flash_info \<Rightarrow> (u32 \<Rightarrow> u8) \<Rightarrow> chip fstate \<Rightarrow> bool" where
  "chip_rest b lat k info c sm \<longleftrightarrow> start info ! 0 = b \<and> 0 < k \<and> k < 65536 \<and> lat * k \<le> 1000 \<and> at_rest c sm"

interpretation amd: word_writer "flash_chip b lat k" info "chip_rest b lat k info" for b lat k info
proof
  show "chip_rest b lat k info c sm \<Longrightarrow> get8 (flash_chip b lat k) a sm = (c a, sm)" for c sm a
    by (simp add: chip_rest_def rest_loads(1))
  show "\<exists>sm'. write_word (flash_chip b lat k) info a (pack 0 bs) sm = Some (0, sm') \<and> chip_rest b lat k info (burned c a bs) sm'"
    if "chip_rest b lat k info c sm" "length bs = 4" "writable c a bs" for c sm bs a
    using write_bytes_ok [of c sm info b k lat bs a] that by (auto simp: chip_rest_def)
qed


definition erased_chip :: "chip fstate" where
  "erased_chip = (\<lparr>timestamp = 0, lastdec = 0\<rparr>, \<lparr>dev = \<lparr>cells = (\<lambda>_. 0xFF), cmd = 0, pending = 0, clk = 0\<rparr>, trace = []\<rparr>)"

definition board_info :: flash_info where
  "board_info = \<lparr>bank_size = 0x800000, sector_count = 135, flash_id = FLASH_MAN_ATM + FLASH_ATBV642DT,
     start = 0x80000000 # replicate 134 0, protect = replicate 135 0\<rparr>"

lemma erased_chip_rest: "chip_rest 0x80000000 10 5 board_info (\<lambda>_. 0xFF) erased_chip"
  by (auto simp: chip_rest_def board_info_def at_rest_def erased_chip_def timed_def synced_def)

lemma all_ones: "(0xFF :: u8) AND x = x"
proof -
  have "(0xFF :: u8) = - 1" by simp
  then show ?thesis by (simp only: and.left_neutral)
qed


text \<open>
  A source that is not aligned like the destination makes the copy fail outside the language: with the
  destination on a word boundary and the source off it, the first full word is loaded through a
  misaligned pointer.
\<close>

theorem write_buff_misaligned:
  assumes "addr AND 3 = 0" "p AND 3 \<noteq> 0" "4 \<le> unat cnt"
  shows "write_buff F info (p, bs) addr cnt sm = Some (Inl Unaligned)"
proof -
  have "unat addr mod 4 = 0" using assms(1) and3_zero by simp
  then have "unat (addr - (addr AND NOT 3)) = 0" using amd.boundary(1) [of addr] by simp
  moreover obtain n where "unat cnt div 4 = Suc n" using assms(3) by (metis div_greater_zero_iff gr0_implies_Suc zero_less_numeral)
  ultimately show ?thesis using assms(2) by (simp add: write_buff_def Let_def load_word_def)
qed

theorem write_buff_misaligned_witness:
  "write_buff (flash_chip 0x80000000 10 5) board_info (0x81000001, [1, 2, 3, 4]) 0x80001000 4 erased_chip = Some (Inl Unaligned)"
  by (rule write_buff_misaligned) simp_all

text \<open>
  A word that would have to set a bit is refused: \<^verbatim>\<open>write_word\<close> returns 2 and leaves the chip and
  the timer as they were.
\<close>

theorem write_word_not_erased:
  assumes "chip_rest b lat k info c sm" "word_at c a AND w \<noteq> w"
  shows "write_word (flash_chip b lat k) info a w sm = Some (2, sm)"
proof -
  have "get32 (flash_chip b lat k) a sm = (word_at c a, sm)" using assms(1) by (simp add: chip_rest_def rest_loads(3))
  then show ?thesis using assms(2) by (simp add: write_word_def)
qed

end
