(* ===== verification/Linux_Gpio.thy ===== *)
theory Linux_Gpio
  imports Prelude
begin

text \<open>
  The pins of the Linux port, \<^verbatim>\<open>arch/arm/mach-lpc22xx/gpio.c\<close>: pin function and mode, direction and level of
  the 160 pins of five ports. A pin number is the port times 32 plus the bit. The messages of
  \<^verbatim>\<open>lpc22xx_set_periph\<close> for a pin that is in use are left out, their loads are kept.
\<close>

section \<open>Registers\<close>

definition TAB_PINSEL :: u32 where
  "TAB_PINSEL = 0xE0028000"

definition TAB_PINMODE :: u32 where
  "TAB_PINMODE = 0xE0028040"

definition tab :: "u32 \<Rightarrow> u32 \<Rightarrow> u32" where
  "tab base reg = base + 4 * reg"

definition fio_port :: "u32 \<Rightarrow> u32" where
  "fio_port port = 0x3FFFC000 + 0x20 * port"

definition REG_GPIO_FIODIR :: "u32 \<Rightarrow> u32" where
  "REG_GPIO_FIODIR port = fio_port port"

definition REG_GPIO_FIOMASK :: "u32 \<Rightarrow> u32" where
  "REG_GPIO_FIOMASK port = fio_port port + 0x10"

definition REG_GPIO_FIOPIN :: "u32 \<Rightarrow> u32" where
  "REG_GPIO_FIOPIN port = fio_port port + 0x14"

definition REG_GPIO_FIOSET :: "u32 \<Rightarrow> u32" where
  "REG_GPIO_FIOSET port = fio_port port + 0x18"

definition REG_GPIO_FIOCLR :: "u32 \<Rightarrow> u32" where
  "REG_GPIO_FIOCLR port = fio_port port + 0x1C"

section \<open>Operations\<close>

definition pin_reg :: "u32 \<Rightarrow> u32" where
  "pin_reg pin = drop_bit 4 pin"

definition pin_shift :: "u32 \<Rightarrow> nat" where
  "pin_shift pin = unat ((pin AND 15) * 2)"

definition pin_port :: "u32 \<Rightarrow> u32" where
  "pin_port pin = drop_bit 5 pin"

definition pin_bit :: "u32 \<Rightarrow> nat" where
  "pin_bit pin = unat (pin AND 31)"

definition lpc22xx_set_periph :: "'d bus \<Rightarrow> u32 \<Rightarrow> u32 \<Rightarrow> int \<Rightarrow> 'd machine \<Rightarrow> u32 \<times> 'd machine" where
  "lpc22xx_set_periph B pin pinsel pinmode m =
     (let sel = tab TAB_PINSEL (pin_reg pin);
          mode = tab TAB_PINMODE (pin_reg pin);
          reg_mask = push_bit (pin_shift pin) 3;
          reg_pinsel = push_bit (pin_shift pin) (pinsel AND 3);
          reg_pinmode = push_bit (pin_shift pin) (word_of_int pinmode AND 3);
          (v, m) = rd B sel m;
          m = (if v AND reg_mask = 0 then or_wr B sel reg_pinsel m
               else let (v, m) = rd B sel m in if v AND reg_mask \<noteq> reg_pinsel then touch B sel m else m)
      in (0, if 0 \<le> pinmode then let (v, m) = rd B mode m in wr B mode ((v AND NOT reg_mask) OR reg_pinmode) m else m))"

definition lpc22xx_get_gpio_pinsel :: "'d bus \<Rightarrow> u32 \<Rightarrow> 'd machine \<Rightarrow> u32 \<times> 'd machine" where
  "lpc22xx_get_gpio_pinsel B pin m =
     (let (v, m) = rd B (tab TAB_PINSEL (pin_reg pin)) m in (drop_bit (pin_shift pin) v AND 3, m))"

definition lpc22xx_get_gpio_pinmode :: "'d bus \<Rightarrow> u32 \<Rightarrow> 'd machine \<Rightarrow> u32 \<times> 'd machine" where
  "lpc22xx_get_gpio_pinmode B pin m =
     (let (v, m) = rd B (tab TAB_PINMODE (pin_reg pin)) m in (drop_bit (pin_shift pin) v AND 3, m))"

definition gpio_get_value :: "'d bus \<Rightarrow> u32 \<Rightarrow> 'd machine \<Rightarrow> bool \<times> 'd machine" where
  "gpio_get_value B gpio m =
     (let (v, m) = rd B (REG_GPIO_FIOPIN (pin_port gpio)) m in (v AND push_bit (pin_bit gpio) 1 \<noteq> 0, m))"

definition gpio_set_value :: "'d bus \<Rightarrow> u32 \<Rightarrow> int \<Rightarrow> 'd machine \<Rightarrow> 'd machine" where
  "gpio_set_value B gpio v m =
     (if v \<noteq> 0 then wr B (REG_GPIO_FIOSET (pin_port gpio)) (push_bit (pin_bit gpio) 1) m
      else wr B (REG_GPIO_FIOCLR (pin_port gpio)) (push_bit (pin_bit gpio) 1) m)"

text \<open>The mask of the two direction functions is the bit number itself, as the source has it.\<close>

definition lpc22xx_set_gpio_input :: "'d bus \<Rightarrow> u32 \<Rightarrow> int \<Rightarrow> 'd machine \<Rightarrow> u32 \<times> 'd machine" where
  "lpc22xx_set_gpio_input B pin mode m =
     (let m = snd (lpc22xx_set_periph B pin 0 mode m)
      in (0, and_wr B (REG_GPIO_FIODIR (pin_port pin)) (NOT (pin AND 31)) m))"

definition lpc22xx_set_gpio_output :: "'d bus \<Rightarrow> u32 \<Rightarrow> int \<Rightarrow> 'd machine \<Rightarrow> u32 \<times> 'd machine" where
  "lpc22xx_set_gpio_output B pin v m =
     (let m = snd (lpc22xx_set_periph B pin 0 2 m);
          m = or_wr B (REG_GPIO_FIODIR (pin_port pin)) (pin AND 31) m
      in (0, gpio_set_value B pin v m))"

definition lpc22xx_get_gpio_dir :: "'d bus \<Rightarrow> u32 \<Rightarrow> 'd machine \<Rightarrow> u32 \<times> 'd machine" where
  "lpc22xx_get_gpio_dir B pin m =
     (let (v, m) = rd B (REG_GPIO_FIODIR (pin_port pin)) m in (drop_bit (pin_bit pin) v AND 1, m))"

definition lpc22xx_get_gpio_mask :: "'d bus \<Rightarrow> u32 \<Rightarrow> 'd machine \<Rightarrow> u32 \<times> 'd machine" where
  "lpc22xx_get_gpio_mask B pin m =
     (let (v, m) = rd B (REG_GPIO_FIOMASK (pin_port pin)) m in (drop_bit (pin_bit pin) v AND 1, m))"

section \<open>The hardware\<close>

text \<open>
  What the data sheet says of the pins. Direction, mask and output latch of a port are read back as they were
  written; a store to the set or clear register moves the latch bits that are not masked; a pin that is not
  masked and is an output shows its latch. A store to a word the driver takes for a pin connect register leaves
  them.
\<close>

record 'd pins =
  dir_of :: "'d \<Rightarrow> u32 \<Rightarrow> u32"
  msk_of :: "'d \<Rightarrow> u32 \<Rightarrow> u32"
  out_of :: "'d \<Rightarrow> u32 \<Rightarrow> u32"
  conn_of :: "'d \<Rightarrow> u32 \<Rightarrow> u32"

definition same_dev :: "'d pins \<Rightarrow> 'd \<Rightarrow> 'd \<Rightarrow> bool" where
  "same_dev V d d' \<longleftrightarrow> dir_of V d' = dir_of V d \<and> msk_of V d' = msk_of V d \<and> out_of V d' = out_of V d"

definition conn_regs :: "u32 set" where
  "conn_regs = (\<lambda>r. tab TAB_PINSEL r) ` {..<10} \<union> (\<lambda>r. tab TAB_PINMODE r) ` {..<10}"

definition fio_loads :: "'d bus \<Rightarrow> 'd pins \<Rightarrow> bool" where
  "fio_loads B V \<longleftrightarrow> (\<forall>a d. same_dev V d (snd (bus_rd B a d))) \<and>
     (\<forall>p < 5. \<forall>d. fst (bus_rd B (REG_GPIO_FIODIR p) d) = dir_of V d p \<and>
        fst (bus_rd B (REG_GPIO_FIOMASK p) d) = msk_of V d p \<and>
        (\<forall>i. bit (dir_of V d p) i \<and> \<not> bit (msk_of V d p) i \<longrightarrow> bit (fst (bus_rd B (REG_GPIO_FIOPIN p) d)) i = bit (out_of V d p) i))"

definition fio_stores :: "'d bus \<Rightarrow> 'd pins \<Rightarrow> bool" where
  "fio_stores B V \<longleftrightarrow>
     (\<forall>a \<in> conn_regs. \<forall>v d. same_dev V d (bus_wr B a v d)) \<and>
     (\<forall>p < 5. \<forall>v d.
        (let d' = bus_wr B (REG_GPIO_FIODIR p) v d in dir_of V d' = (dir_of V d)(p := v) \<and>
           msk_of V d' = msk_of V d \<and> out_of V d' = out_of V d) \<and>
        (let d' = bus_wr B (REG_GPIO_FIOSET p) v d in out_of V d' = (out_of V d)(p := out_of V d p OR (v AND NOT (msk_of V d p))) \<and>
           msk_of V d' = msk_of V d \<and> dir_of V d' = dir_of V d) \<and>
        (let d' = bus_wr B (REG_GPIO_FIOCLR p) v d in out_of V d' = (out_of V d)(p := out_of V d p AND NOT (v AND NOT (msk_of V d p))) \<and>
           msk_of V d' = msk_of V d \<and> dir_of V d' = dir_of V d))"

definition fio_chip :: "'d bus \<Rightarrow> 'd pins \<Rightarrow> bool" where
  "fio_chip B V \<longleftrightarrow> fio_loads B V \<and> fio_stores B V"

text \<open>
  The words from \<^verbatim>\<open>TAB_PINSEL\<close> on as the pin connect registers the driver takes them for: a word memory.
  The LPC22xx has its port registers at these addresses; the pin connect block begins at 0xE002C000.
\<close>

definition conn_mem :: "'d bus \<Rightarrow> 'd pins \<Rightarrow> bool" where
  "conn_mem B V \<longleftrightarrow> (\<forall>a d. conn_of V (snd (bus_rd B a d)) = conn_of V d) \<and>
     (\<forall>a \<in> conn_regs. \<forall>v d. fst (bus_rd B a d) = conn_of V d a \<and> conn_of V (bus_wr B a v d) = (conn_of V d)(a := v))"

section \<open>Pins\<close>

lemma pin_port_lt: "pin < 160 \<Longrightarrow> pin_port pin < 5"
  unfolding pin_port_def word_less_nat_alt by (simp add: drop_bit_eq_div unat_div less_mult_imp_div_less)

lemma pin_reg_lt: "pin < 160 \<Longrightarrow> pin_reg pin < 10"
  unfolding pin_reg_def word_less_nat_alt by (simp add: drop_bit_eq_div unat_div less_mult_imp_div_less)

lemma pin_conn: "pin < 160 \<Longrightarrow> tab TAB_PINSEL (pin_reg pin) \<in> conn_regs \<and> tab TAB_PINMODE (pin_reg pin) \<in> conn_regs"
  using pin_reg_lt by (auto simp: conn_regs_def)

lemma and_31: "pin AND 31 = (take_bit 5 pin :: u32)"
  by (simp add: take_bit_eq_mask mask_eq_exp_minus_1)

lemma pin_bit_lt: "pin_bit pin < 32"
  unfolding pin_bit_def and_31 using take_bit_nat_less_exp [of 5 "unat pin"] by (simp add: unsigned_take_bit_eq)

text \<open>A number has no bit at its own position.\<close>

lemma own_bit: "\<not> bit (pin AND 31) (pin_bit pin)"
proof (rule small_bits)
  show "unat (pin AND 31) < 2 ^ pin_bit pin" by (simp add: pin_bit_def)
qed simp


lemma own_port:
  "port < 5 \<Longrightarrow> fio_chip B V \<Longrightarrow> dir_of V (dev (and_wr B (REG_GPIO_FIODIR port) v m)) = (dir_of V (dev m))(port := dir_of V (dev m) port AND v)"
  "port < 5 \<Longrightarrow> fio_chip B V \<Longrightarrow> dir_of V (dev (or_wr B (REG_GPIO_FIODIR port) v m)) = (dir_of V (dev m))(port := dir_of V (dev m) port OR v)"
  by (simp_all add: fio_chip_def fio_loads_def fio_stores_def same_dev_def and_wr_def or_wr_def rd_parts Let_def)

text \<open>Setting the function and mode of a pin moves only the pin connect registers.\<close>

lemma set_periph_rest:
  assumes "fio_chip B V" "pin < 160" "lpc22xx_set_periph B pin pinsel pinmode m = (r, m')"
  shows "r = 0" "dir_of V (dev m') = dir_of V (dev m)" "msk_of V (dev m') = msk_of V (dev m)" "out_of V (dev m') = out_of V (dev m)"
  using assms(1,3) pin_conn [OF assms(2)]
  by (auto simp: lpc22xx_set_periph_def fio_chip_def fio_loads_def fio_stores_def same_dev_def or_wr_def rd_parts touch_def Let_def split: if_splits)

section \<open>The level of a pin\<close>

lemma set_value_out:
  assumes "fio_chip B V" "pin < 160"
  shows "dir_of V (dev (gpio_set_value B pin v m)) = dir_of V (dev m)" "msk_of V (dev (gpio_set_value B pin v m)) = msk_of V (dev m)"
    "\<not> bit (msk_of V (dev m) (pin_port pin)) (pin_bit pin) \<Longrightarrow>
     out_of V (dev (gpio_set_value B pin v m)) = (out_of V (dev m))(pin_port pin := (if v = 0 then unset_bit else set_bit) (pin_bit pin) (out_of V (dev m) (pin_port pin)))"
proof -
  let ?p = "pin_port pin" and ?i = "pin_bit pin"
  show "dir_of V (dev (gpio_set_value B pin v m)) = dir_of V (dev m)" "msk_of V (dev (gpio_set_value B pin v m)) = msk_of V (dev m)"
    using assms(1) pin_port_lt [OF assms(2)] by (simp_all add: gpio_set_value_def fio_chip_def fio_stores_def Let_def)
  assume u: "\<not> bit (msk_of V (dev m) ?p) ?i"
  have "x OR (push_bit ?i 1 AND NOT (msk_of V (dev m) ?p)) = set_bit ?i x"
    "x AND NOT (push_bit ?i 1 AND NOT (msk_of V (dev m) ?p)) = unset_bit ?i x" for x
    using u by (auto intro!: bit_word_eqI simp: bit_simps)
  then show "out_of V (dev (gpio_set_value B pin v m)) = (out_of V (dev m))(?p := (if v = 0 then unset_bit else set_bit) ?i (out_of V (dev m) ?p))"
    using assms(1) pin_port_lt [OF assms(2)]
    by (simp add: gpio_set_value_def fio_chip_def fio_stores_def Let_def del: push_bit_of_1 de_Morgan_conj bit.de_Morgan_conj)
qed

lemma and_bit: "i < 32 \<Longrightarrow> (w :: u32) AND push_bit i 1 \<noteq> 0 \<longleftrightarrow> bit w i"
proof
  assume "i < 32" "bit w i"
  then have "bit (w AND push_bit i 1) i" by (simp add: bit_simps)
  then show "w AND push_bit i 1 \<noteq> 0" by (metis bit_0_eq bot_apply bot_bool_def)
next
  assume "w AND push_bit i 1 \<noteq> 0"
  then show "bit w i" by (metis and_exp_eq_0_iff_not_bit push_bit_of_1)
qed

lemma pin_unique: "pin_port p = pin_port q \<Longrightarrow> pin_bit p = pin_bit q \<Longrightarrow> p = q"
proof -
  assume "pin_port p = pin_port q" "pin_bit p = pin_bit q"
  then have "drop_bit 5 p = drop_bit 5 q" "take_bit 5 p = take_bit 5 q"
    by (simp_all add: pin_port_def pin_bit_def and_31 word_unat_eq_iff)
  then show "p = q" by (metis bits_ident)
qed

text \<open>
  A level that is set is read back: after \<^verbatim>\<open>gpio_set_value\<close> on a pin that is an output and not masked,
  \<^verbatim>\<open>gpio_get_value\<close> on this pin gives the level, and every other output keeps its own.
\<close>

theorem gpio_level_roundtrip:
  assumes "fio_chip B V" "pin < 160" "other < 160"
    "\<And>q. q \<in> {pin, other} \<Longrightarrow> bit (dir_of V (dev m) (pin_port q)) (pin_bit q) \<and> \<not> bit (msk_of V (dev m) (pin_port q)) (pin_bit q)"
  shows "fst (gpio_get_value B other (gpio_set_value B pin v m)) = (if other = pin then v \<noteq> 0 else fst (gpio_get_value B other m))"
proof -
  have get: "fst (gpio_get_value B q m') = bit (out_of V (dev m') (pin_port q)) (pin_bit q)"
    if "q < 160" "bit (dir_of V (dev m') (pin_port q)) (pin_bit q)" "\<not> bit (msk_of V (dev m') (pin_port q)) (pin_bit q)" for q m'
    using that assms(1) pin_port_lt [OF that(1)] and_bit [OF pin_bit_lt]
    by (simp add: gpio_get_value_def fio_chip_def fio_loads_def rd_parts)
  show ?thesis using assms get set_value_out [OF assms(1,2), where v = v and m = m] pin_bit_lt [of pin] pin_unique [of other pin]
    by (auto simp: bit_set_bit_iff bit_unset_bit_iff)
qed

section \<open>The direction of a pin\<close>

lemma get_dir: "fio_chip B V \<Longrightarrow> pin < 160 \<Longrightarrow> fst (lpc22xx_get_gpio_dir B pin m) = drop_bit (pin_bit pin) (dir_of V (dev m) (pin_port pin)) AND 1"
  using pin_port_lt [of pin] by (simp add: lpc22xx_get_gpio_dir_def fio_chip_def fio_loads_def rd_parts)

lemma cleared_elsewhere: "\<not> bit x i \<Longrightarrow> i < 32 \<Longrightarrow> bit (w AND NOT x) i = bit (w :: u32) i"
  by (simp add: bit_and_iff bit_not_iff)

lemma one_bit: "bit w i = bit w' i \<Longrightarrow> drop_bit i w AND 1 = drop_bit i (w' :: u32) AND 1"
  by (rule bit_word_eqI) (auto simp: bit_simps bit_1_iff)

text \<open>
  Neither \<^verbatim>\<open>lpc22xx_set_gpio_output\<close> nor \<^verbatim>\<open>lpc22xx_set_gpio_input\<close> changes the direction of the pin it is
  called for: the mask is the number of the pin in its port instead of the bit at this position, and no number
  has a one at its own position. The port's direction register takes the number itself.
\<close>

theorem set_gpio_direction_misses:
  assumes "fio_chip B V" "pin < 160"
  shows "fst (lpc22xx_get_gpio_dir B pin (snd (lpc22xx_set_gpio_output B pin v m))) = fst (lpc22xx_get_gpio_dir B pin m) \<and>
    fst (lpc22xx_get_gpio_dir B pin (snd (lpc22xx_set_gpio_input B pin mode m))) = fst (lpc22xx_get_gpio_dir B pin m) \<and>
    dir_of V (dev (snd (lpc22xx_set_gpio_output B pin v m))) (pin_port pin) = dir_of V (dev m) (pin_port pin) OR (pin AND 31)"
proof (intro conjI)
  let ?p = "pin_port pin"
  note p = pin_port_lt [OF assms(2)]
  have per: "dir_of V (dev (snd (lpc22xx_set_periph B pin 0 k m))) = dir_of V (dev m)" for k
    using set_periph_rest(2) [OF assms, where m = m and pinsel = 0 and pinmode = k] by (metis surjective_pairing)
  show o: "dir_of V (dev (snd (lpc22xx_set_gpio_output B pin v m))) ?p = dir_of V (dev m) ?p OR (pin AND 31)"
    by (simp add: lpc22xx_set_gpio_output_def Let_def set_value_out [OF assms] own_port [OF p assms(1)] per)
  have i: "dir_of V (dev (snd (lpc22xx_set_gpio_input B pin mode m))) ?p = dir_of V (dev m) ?p AND NOT (pin AND 31)"
    by (simp add: lpc22xx_set_gpio_input_def Let_def own_port [OF p assms(1)] per)
  show "fst (lpc22xx_get_gpio_dir B pin (snd (lpc22xx_set_gpio_output B pin v m))) = fst (lpc22xx_get_gpio_dir B pin m)"
    unfolding get_dir [OF assms] by (rule one_bit) (use o own_bit [of pin] in \<open>simp add: bit_or_iff\<close>)
  show "fst (lpc22xx_get_gpio_dir B pin (snd (lpc22xx_set_gpio_input B pin mode m))) = fst (lpc22xx_get_gpio_dir B pin m)"
    unfolding get_dir [OF assms] by (rule one_bit) (simp only: i cleared_elsewhere [OF own_bit pin_bit_lt])
qed

section \<open>The function of a pin\<close>

lemma quad: "r < (10 :: u32) \<Longrightarrow> unat (4 * r) = 4 * unat r"
  by (subst unat_mult_lem [THEN iffD1]) (auto simp: word_less_nat_alt)

lemma tab_inj: "r < 10 \<Longrightarrow> s < 10 \<Longrightarrow> tab b r = tab b s \<longleftrightarrow> r = s"
proof -
  assume "r < 10" "s < 10"
  then have "4 * r = 4 * s \<Longrightarrow> unat r = unat s" using quad [of r] quad [of s] by simp
  then show ?thesis using word_unat_eq_iff [of r s] by (auto simp: tab_def)
qed

lemma tab_disjoint: "r < 10 \<Longrightarrow> s < 10 \<Longrightarrow> tab TAB_PINSEL r \<noteq> tab TAB_PINMODE s"
proof
  assume r: "r < 10" "s < 10" and "tab TAB_PINSEL r = tab TAB_PINMODE s"
  then have "4 * r = 0x40 + 4 * s" by (simp add: tab_def TAB_PINSEL_def TAB_PINMODE_def algebra_simps)
  moreover have "unat (0x40 + 4 * s) = 0x40 + 4 * unat s"
    using quad [OF r(2)] r(2) by (subst unat_add_lem [THEN iffD1]) (auto simp: word_less_nat_alt)
  ultimately show False using quad [OF r(1)] r by (simp add: word_less_nat_alt)
qed

lemma pin_shift_eq: "pin_shift pin = 2 * unat (take_bit 4 pin)"
proof -
  have "pin AND 15 = take_bit 4 pin" by (simp add: take_bit_eq_mask mask_eq_exp_minus_1)
  moreover have "unat (take_bit 4 pin) < 16" using take_bit_nat_less_exp [of 4 "unat pin"] by (simp add: unsigned_take_bit_eq)
  ultimately show ?thesis unfolding pin_shift_def by (subst unat_mult_lem [THEN iffD1]) auto
qed

lemma pin_shift_lt: "pin_shift pin < 31"
  unfolding pin_shift_eq using take_bit_nat_less_exp [of 4 "unat pin"] by (simp add: unsigned_take_bit_eq)

lemma pin_field: "pin_reg p = pin_reg q \<Longrightarrow> p \<noteq> q \<Longrightarrow> pin_shift p + 1 < pin_shift q \<or> pin_shift q + 1 < pin_shift p"
proof -
  assume "pin_reg p = pin_reg q" "p \<noteq> q"
  then have "take_bit 4 p \<noteq> take_bit 4 q" unfolding pin_reg_def by (metis bits_ident)
  then show ?thesis unfolding pin_shift_eq by (auto simp: word_unat_eq_iff)
qed

text \<open>Fields of two bits.\<close>

lemma three: "(3 :: u32) = mask 2"
  by (simp add: mask_eq_exp_minus_1)

lemmas field_bits = bit_and_iff bit_or_iff bit_not_iff_eq bit_push_bit_iff bit_drop_bit_eq bit_mask_iff comp_def

lemma field_eqI: "(\<And>i. i < 2 \<Longrightarrow> bit w (k + i) = bit w' (l + i)) \<Longrightarrow> drop_bit k w AND 3 = drop_bit l (w' :: u32) AND 3"
  unfolding three by (rule bit_word_eqI) (auto simp: field_bits)

lemma field_clear: "k < 31 \<Longrightarrow> (w :: u32) AND push_bit k 3 = 0 \<longleftrightarrow> (\<forall>i < 2. \<not> bit w (k + i))"
proof
  assume k: "k < 31" and z: "w AND push_bit k 3 = 0"
  show "\<forall>i < 2. \<not> bit w (k + i)"
  proof (intro allI impI)
    fix i :: nat assume "i < 2"
    then show "\<not> bit w (k + i)" using arg_cong [OF z [unfolded three], of "\<lambda>x. bit x (k + i)"] k by (auto simp: field_bits)
  qed
next
  assume "k < 31" "\<forall>i < 2. \<not> bit w (k + i)"
  then show "w AND push_bit k 3 = 0" unfolding three by (intro bit_word_eqI) (force simp: field_bits le_iff_add)
qed

lemma field_zero: "k < 31 \<Longrightarrow> (w :: u32) AND push_bit k 3 = 0 \<longleftrightarrow> drop_bit k w AND 3 = 0"
proof -
  assume k: "k < 31"
  have "drop_bit k w AND 3 = 0 \<longleftrightarrow> (\<forall>i < 2. \<not> bit w (k + i))"
  proof
    assume z: "drop_bit k w AND 3 = 0"
    show "\<forall>i < 2. \<not> bit w (k + i)"
    proof (intro allI impI)
      fix i :: nat assume "i < 2"
      then show "\<not> bit w (k + i)" using arg_cong [OF z [unfolded three], of "\<lambda>x. bit x i"] by (auto simp: field_bits)
    qed
  next
    assume "\<forall>i < 2. \<not> bit w (k + i)"
    then show "drop_bit k w AND 3 = 0" unfolding three by (intro bit_word_eqI) (auto simp: field_bits)
  qed
  then show ?thesis using field_clear [OF k] by simp
qed

lemma field_set:
  assumes "k < 31"
  shows "drop_bit k ((w AND NOT (push_bit k 3)) OR push_bit k (v AND 3)) AND 3 = (v AND 3 :: u32)"
    "w AND push_bit k 3 = 0 \<Longrightarrow> drop_bit k (w OR push_bit k (v AND 3)) AND 3 = (v AND 3 :: u32)"
proof -
  show "drop_bit k ((w AND NOT (push_bit k 3)) OR push_bit k (v AND 3)) AND 3 = v AND 3"
    using assms unfolding three by (intro bit_word_eqI) (auto simp: field_bits)
  assume "w AND push_bit k 3 = 0"
  then have "\<forall>i < 2. \<not> bit w (k + i)" using field_clear [OF assms] by blast
  then show "drop_bit k (w OR push_bit k (v AND 3)) AND 3 = v AND 3"
    using assms unfolding three by (intro bit_word_eqI) (auto simp: field_bits)
qed

lemma field_other:
  assumes "k + 1 < l \<or> l + 1 < k"
  shows "drop_bit l ((w AND NOT (push_bit k 3)) OR push_bit k (v AND 3)) AND 3 = (drop_bit l w AND 3 :: u32)"
    and "drop_bit l (w OR push_bit k (v AND 3)) AND 3 = (drop_bit l w AND 3 :: u32)"
proof -
  show "drop_bit l ((w AND NOT (push_bit k 3)) OR push_bit k (v AND 3)) AND 3 = (drop_bit l w AND 3 :: u32)"
    by (rule field_eqI) (use assms in \<open>auto simp: three field_bits dest: bit_imp_le_length\<close>)
  show "drop_bit l (w OR push_bit k (v AND 3)) AND 3 = (drop_bit l w AND 3 :: u32)"
    by (rule field_eqI) (use assms in \<open>auto simp: three field_bits\<close>)
qed

text \<open>What \<^verbatim>\<open>lpc22xx_set_periph\<close> leaves in the pin connect registers.\<close>

lemma set_periph_conn:
  assumes "conn_mem B V" "pin < 160" "lpc22xx_set_periph B pin pinsel pinmode m = (r, m')"
  defines "sel \<equiv> tab TAB_PINSEL (pin_reg pin)" and "mode \<equiv> tab TAB_PINMODE (pin_reg pin)" and "c \<equiv> conn_of V (dev m)" and "k \<equiv> pin_shift pin"
  defines "c1 \<equiv> (if c sel AND push_bit k 3 = 0 then c(sel := c sel OR push_bit k (pinsel AND 3)) else c)"
  shows "conn_of V (dev m') = (if 0 \<le> pinmode then c1(mode := (c1 mode AND NOT (push_bit k 3)) OR push_bit k (word_of_int pinmode AND 3)) else c1)"
proof -
  have a: "sel \<in> conn_regs" "mode \<in> conn_regs" using pin_conn [OF assms(2)] by (simp_all add: sel_def mode_def)
  define m1 where "m1 = (let (v, m) = rd B sel m in
    if v AND push_bit k 3 = 0 then or_wr B sel (push_bit k (pinsel AND 3)) m
    else let (v, m) = rd B sel m in if v AND push_bit k 3 \<noteq> push_bit k (pinsel AND 3) then touch B sel m else m)"
  have 1: "conn_of V (dev m1) = c1"
    using assms(1) a by (auto simp: m1_def c1_def c_def conn_mem_def or_wr_def rd_parts touch_def Let_def)
  have "m' = (if 0 \<le> pinmode then let (v, m) = rd B mode m1 in wr B mode ((v AND NOT (push_bit k 3)) OR push_bit k (word_of_int pinmode AND 3)) m else m1)"
    unfolding m1_def sel_def mode_def k_def using arg_cong [OF assms(3), of snd]
    by (simp only: lpc22xx_set_periph_def Let_def case_prod_unfold snd_conv)
  then show ?thesis using 1 assms(1) a by (simp add: conn_mem_def rd_parts Let_def)
qed

lemma get_conn:
  assumes "conn_mem B V" "pin < 160"
  shows "fst (lpc22xx_get_gpio_pinsel B pin m) = drop_bit (pin_shift pin) (conn_of V (dev m) (tab TAB_PINSEL (pin_reg pin))) AND 3"
    "fst (lpc22xx_get_gpio_pinmode B pin m) = drop_bit (pin_shift pin) (conn_of V (dev m) (tab TAB_PINMODE (pin_reg pin))) AND 3"
  using assms(1) pin_conn [OF assms(2)]
  by (simp_all add: lpc22xx_get_gpio_pinsel_def lpc22xx_get_gpio_pinmode_def conn_mem_def rd_parts)

text \<open>
  Function and mode of a pin are read back as they were set: \<^verbatim>\<open>lpc22xx_set_periph\<close> gives a pin that is
  unused the function asked for and leaves the function of a used one, sets the mode unless it is negative, and
  changes no other pin of the 160, where the registers are at the addresses the driver uses.
\<close>

lemma set_periph_roundtrip:
  assumes "conn_mem B V" "pin < 160" "other < 160" "lpc22xx_set_periph B pin pinsel pinmode m = (r, m')"
  shows "fst (lpc22xx_get_gpio_pinsel B other m') =
      (if other = pin \<and> fst (lpc22xx_get_gpio_pinsel B pin m) = 0 then pinsel AND 3 else fst (lpc22xx_get_gpio_pinsel B other m)) \<and>
    fst (lpc22xx_get_gpio_pinmode B other m') =
      (if other = pin \<and> 0 \<le> pinmode then word_of_int pinmode AND 3 else fst (lpc22xx_get_gpio_pinmode B other m))"
proof (intro conjI)
  note g = get_conn [OF assms(1)] and c = set_periph_conn [OF assms(1,2,4)]
  note r = pin_reg_lt [OF assms(2)] pin_reg_lt [OF assms(3)]
  note d = tab_inj tab_disjoint tab_disjoint [THEN not_sym] r field_zero [OF pin_shift_lt] field_set [OF pin_shift_lt]
  show "fst (lpc22xx_get_gpio_pinsel B other m') =
      (if other = pin \<and> fst (lpc22xx_get_gpio_pinsel B pin m) = 0 then pinsel AND 3 else fst (lpc22xx_get_gpio_pinsel B other m))"
    using pin_field [of pin other] field_other(2) [of "pin_shift pin" "pin_shift other"]
    by (auto simp: g [OF assms(2)] g [OF assms(3)] c d simp del: push_bit_and drop_bit_and drop_bit_or)
  show "fst (lpc22xx_get_gpio_pinmode B other m') =
      (if other = pin \<and> 0 \<le> pinmode then word_of_int pinmode AND 3 else fst (lpc22xx_get_gpio_pinmode B other m))"
    using pin_field [of pin other] field_other(1) [of "pin_shift pin" "pin_shift other"]
    by (auto simp: g [OF assms(2)] g [OF assms(3)] c d simp del: push_bit_and drop_bit_and drop_bit_or)
qed

section \<open>A concrete controller\<close>

record pin_dev =
  p_dir :: "u32 \<Rightarrow> u32"
  p_out :: "u32 \<Rightarrow> u32"
  p_conn :: "u32 \<Rightarrow> u32"

definition pin_bus :: "pin_dev bus" where
  "pin_bus = \<lparr>
     bus_rd = (\<lambda>a d. (let off = a - 0x3FFFC000; p = drop_bit 5 off; r = off AND 0x1F in
        if 0xA0 \<le> off then p_conn d a else if r = 0 then p_dir d p else if r = 0x14 then p_out d p else 0, d)),
     bus_wr = (\<lambda>a v d. let off = a - 0x3FFFC000; p = drop_bit 5 off; r = off AND 0x1F in
        if 0xA0 \<le> off then d\<lparr>p_conn := (p_conn d)(a := v)\<rparr>
        else if r = 0 then d\<lparr>p_dir := (p_dir d)(p := v)\<rparr>
        else if r = 0x18 then d\<lparr>p_out := (p_out d)(p := p_out d p OR v)\<rparr>
        else if r = 0x1C then d\<lparr>p_out := (p_out d)(p := p_out d p AND NOT v)\<rparr> else d)\<rparr>"

definition pin_view :: "pin_dev pins" where
  "pin_view = \<lparr>dir_of = p_dir, msk_of = (\<lambda>_ _. 0), out_of = p_out, conn_of = p_conn\<rparr>"

lemma word_lt_cases: "(p :: u32) < 5 \<Longrightarrow> p \<in> {0, 1, 2, 3, 4}"
proof -
  assume "p < 5"
  then have "unat p < 5" by (simp add: word_less_nat_alt)
  then have "unat p \<in> {0, 1, 2, 3, 4}" by auto
  then have "of_nat (unat p) \<in> {0, 1, 2, 3, 4 :: u32}" by (elim insertE) auto
  then show ?thesis by simp
qed

lemma conn_far: "a \<in> conn_regs \<Longrightarrow> 0xA0 \<le> a - 0x3FFFC000"
proof -
  assume "a \<in> conn_regs"
  then obtain r b where r: "r < 10" "a = b + 4 * r" "b = 0xE0028000 \<or> b = 0xE0028040"
    by (auto simp: conn_regs_def tab_def TAB_PINSEL_def TAB_PINMODE_def)
  have "unat ((b - 0x3FFFC000) + 4 * r) = unat (b - 0x3FFFC000) + 4 * unat r"
    using r quad [OF r(1)] by (subst unat_add_lem [THEN iffD1]) (auto simp: word_less_nat_alt)
  moreover have "a - 0x3FFFC000 = (b - 0x3FFFC000) + 4 * r" using r(2) by simp
  moreover have "0xA0 \<le> unat (b - 0x3FFFC000)" using r(3) by auto
  ultimately have "0xA0 \<le> unat (a - 0x3FFFC000)" by (simp only: trans_le_add1)
  then show ?thesis by (simp add: word_le_nat_alt)
qed

lemma fio_off:
  assumes "p < 5" "c \<in> {0, 0x10, 0x14, 0x18, 0x1C}"
  shows "\<not> 0xA0 \<le> fio_port p + c - 0x3FFFC000" "drop_bit 5 (fio_port p + c - 0x3FFFC000) = p" "(fio_port p + c - 0x3FFFC000) AND 0x1F = c"
  using assms(2) word_lt_cases [OF assms(1)] by (auto simp: fio_port_def)

lemmas fio_offs = fio_off [where c = 0, simplified] fio_off [where c = "0x10", simplified] fio_off [where c = "0x14", simplified]
  fio_off [where c = "0x18", simplified] fio_off [where c = "0x1C", simplified]

lemma pin_bus_fio: "fio_chip pin_bus pin_view"
  unfolding fio_chip_def
proof
  note regs = REG_GPIO_FIODIR_def REG_GPIO_FIOMASK_def REG_GPIO_FIOPIN_def REG_GPIO_FIOSET_def REG_GPIO_FIOCLR_def
  show "fio_loads pin_bus pin_view"
    unfolding fio_loads_def same_dev_def regs using conn_far by (simp add: pin_bus_def pin_view_def Let_def fio_offs)
  show "fio_stores pin_bus pin_view"
    unfolding fio_stores_def same_dev_def regs using conn_far by (simp add: pin_bus_def pin_view_def Let_def fio_offs)
qed

lemma pin_bus_conn: "conn_mem pin_bus pin_view"
  unfolding conn_mem_def using conn_far by (simp add: pin_bus_def pin_view_def Let_def)

definition outputs :: "pin_dev machine" where
  "outputs = \<lparr>dev = \<lparr>p_dir = (\<lambda>_. 0xFF), p_out = (\<lambda>_. 0), p_conn = (\<lambda>_. 0)\<rparr>, trace = []\<rparr>"

theorem gpio_level_roundtrip_witness:
  "fst (gpio_get_value pin_bus 35 (gpio_set_value pin_bus 35 1 outputs))"
  using gpio_level_roundtrip [OF pin_bus_fio, where pin = 35 and other = 35 and v = 1 and m = outputs]
  by (simp add: outputs_def pin_view_def pin_port_def pin_bit_def)

theorem set_gpio_direction_misses_witness:
  "fst (lpc22xx_get_gpio_dir pin_bus 9 (snd (lpc22xx_set_gpio_output pin_bus 9 1 outputs))) = 0"
  using set_gpio_direction_misses [OF pin_bus_fio, where pin = 9 and v = 1 and m = outputs]
  by (simp add: lpc22xx_get_gpio_dir_def outputs_def pin_bus_def rd_def Let_def pin_port_def pin_bit_def REG_GPIO_FIODIR_def fio_port_def)

end
