(* ===== verification/Linux_Irq.thy ===== *)
theory Linux_Irq
  imports Prelude
begin

text \<open>
  Interrupts of the Linux port: the controller functions of \<^verbatim>\<open>arch/arm/mach-lpc22xx/irq.c\<close> and the part of the
  kernel's interrupt layer they plug into, \<^verbatim>\<open>kernel/irq\<close> and \<^verbatim>\<open>arch/arm/kernel/irq.c\<close>, for one processor without
  boot parameters (\<^verbatim>\<open>irqfixup\<close> and \<^verbatim>\<open>noirqdebug\<close> are 0). A driver's handler is a parameter: \<open>H h\<close> is what the function at
  address \<open>h\<close> does to the kernel. Locks of one processor, messages, the proc file system and the entropy pool
  are left out.
\<close>

section \<open>Registers and constants\<close>

definition NR_IRQS :: u32 where
  "NR_IRQS = 28"

definition LPC22xx_INTERRUPT_TIMER0 :: u32 where
  "LPC22xx_INTERRUPT_TIMER0 = 4"

definition LPC22xx_INTERRUPT_EINT0 :: u32 where
  "LPC22xx_INTERRUPT_EINT0 = 14"

definition LPC22xx_INTERRUPT_EINT3 :: u32 where
  "LPC22xx_INTERRUPT_EINT3 = 17"

definition EXTINT_lx :: u32 where
  "EXTINT_lx = 0xE01FC140"

definition EXTMODE_lx :: u32 where
  "EXTMODE_lx = 0xE01FC148"

definition EXTPOLAR_lx :: u32 where
  "EXTPOLAR_lx = 0xE01FC14C"

definition VICIntSelect_lx :: u32 where
  "VICIntSelect_lx = 0xFFFFF00C"

definition VICIntEnable_lx :: u32 where
  "VICIntEnable_lx = 0xFFFFF010"

definition VICIntEnClr_lx :: u32 where
  "VICIntEnClr_lx = 0xFFFFF014"

definition VICVectAddr_lx :: u32 where
  "VICVectAddr_lx = 0xFFFFF030"

definition PINSEL1_lx :: u32 where
  "PINSEL1_lx = 0xE002C004"

definition IRQ_INPROGRESS :: u32 where
  "IRQ_INPROGRESS = 0x100"

definition IRQ_DISABLED :: u32 where
  "IRQ_DISABLED = 0x200"

definition IRQ_PENDING :: u32 where
  "IRQ_PENDING = 0x400"

definition IRQ_REPLAY :: u32 where
  "IRQ_REPLAY = 0x800"

definition IRQ_AUTODETECT :: u32 where
  "IRQ_AUTODETECT = 0x1000"

definition IRQ_WAITING :: u32 where
  "IRQ_WAITING = 0x2000"

definition IRQ_LEVEL :: u32 where
  "IRQ_LEVEL = 0x4000"

definition IRQ_MASKED :: u32 where
  "IRQ_MASKED = 0x8000"

definition IRQ_NOPROBE :: u32 where
  "IRQ_NOPROBE = 0x20000"

definition IRQ_NOREQUEST :: u32 where
  "IRQ_NOREQUEST = 0x40000"

definition IRQ_NOAUTOEN :: u32 where
  "IRQ_NOAUTOEN = 0x80000"

definition IRQ_NO_BALANCING :: u32 where
  "IRQ_NO_BALANCING = 0x400000"

definition IRQF_TRIGGER_MASK :: u32 where
  "IRQF_TRIGGER_MASK = 0xF"

definition IRQF_DISABLED :: u32 where
  "IRQF_DISABLED = 0x20"

definition IRQF_SHARED :: u32 where
  "IRQF_SHARED = 0x80"

definition IRQF_TIMER :: u32 where
  "IRQF_TIMER = 0x200"

definition IRQF_NOBALANCING :: u32 where
  "IRQF_NOBALANCING = 0x800"

definition IRQF_VALID :: u32 where
  "IRQF_VALID = 1"

definition IRQF_PROBE :: u32 where
  "IRQF_PROBE = 2"

definition IRQF_NOAUTOEN :: u32 where
  "IRQF_NOAUTOEN = 4"

definition IRQ_NONE :: u32 where
  "IRQ_NONE = 0"

definition IRQ_HANDLED :: u32 where
  "IRQ_HANDLED = 1"

definition EINVAL :: int where
  "EINVAL = 22"

definition EBUSY :: int where
  "EBUSY = 16"

definition ENOMEM :: int where
  "ENOMEM = 12"

definition ENOSYS :: int where
  "ENOSYS = 38"

section \<open>State\<close>

datatype irq_chip = No_irq_chip | Dummy_irq_chip | Lpc22xx_vic_chip

datatype flow_handler = Handle_bad_irq | Handle_level_irq

record irqaction =
  handler :: nat
  flags :: u32
  dev_id :: u32

record irq_desc =
  handle_irq :: "flow_handler option"
  chip :: irq_chip
  action :: "irqaction list"
  status :: u32
  depth :: u32
  irq_count :: u32
  irqs_unhandled :: u32
  last_unhandled :: u32

record 'd kernel =
  irq_descs :: "irq_desc list"
  kstat_irqs :: "u32 list"
  irq_err_count :: u32
  jiffies :: u32
  irqs_resend :: "u32 set"
  irqs_on :: bool
  hw :: "'d machine"

definition desc_of :: "u32 \<Rightarrow> 'd kernel \<Rightarrow> irq_desc" where
  "desc_of irq k = irq_descs k ! unat irq"

definition put_desc :: "u32 \<Rightarrow> (irq_desc \<Rightarrow> irq_desc) \<Rightarrow> 'd kernel \<Rightarrow> 'd kernel" where
  "put_desc irq f k = k\<lparr>irq_descs := (irq_descs k)[unat irq := f (desc_of irq k)]\<rparr>"

definition on_hw :: "('d machine \<Rightarrow> 'd machine) \<Rightarrow> 'd kernel \<Rightarrow> 'd kernel" where
  "on_hw f k = k\<lparr>hw := f (hw k)\<rparr>"

definition set_status :: "u32 \<Rightarrow> irq_desc \<Rightarrow> irq_desc" where
  "set_status b d = d\<lparr>status := status d OR b\<rparr>"

definition clr_status :: "u32 \<Rightarrow> irq_desc \<Rightarrow> irq_desc" where
  "clr_status b d = d\<lparr>status := status d AND NOT b\<rparr>"

definition has_status :: "u32 \<Rightarrow> irq_desc \<Rightarrow> bool" where
  "has_status b d \<longleftrightarrow> status d AND b \<noteq> 0"

section \<open>The controller functions of the port\<close>

definition irq_bit :: "u32 \<Rightarrow> u32" where
  "irq_bit irq = push_bit (unat irq) 1"

definition lpc22xx_mask_irq :: "'d bus \<Rightarrow> u32 \<Rightarrow> 'd machine \<Rightarrow> 'd machine" where
  "lpc22xx_mask_irq B irq m = wr B VICIntEnClr_lx (irq_bit irq) m"

definition lpc22xx_unmask_irq :: "'d bus \<Rightarrow> u32 \<Rightarrow> 'd machine \<Rightarrow> 'd machine" where
  "lpc22xx_unmask_irq B irq m = or_wr B VICIntEnable_lx (irq_bit irq) m"

definition lpc22xx_clear_pb :: "'d bus \<Rightarrow> u32 \<Rightarrow> 'd machine \<Rightarrow> 'd machine" where
  "lpc22xx_clear_pb B irq m = wr8 B EXTINT_lx 0x0F (wr B VICVectAddr_lx 0 m)"

definition lpc22xx_mask_ack_irq :: "'d bus \<Rightarrow> u32 \<Rightarrow> 'd machine \<Rightarrow> 'd machine" where
  "lpc22xx_mask_ack_irq B irq m = lpc22xx_mask_irq B irq (lpc22xx_clear_pb B irq m)"

definition fixup_irq :: "'d bus \<Rightarrow> u32 \<Rightarrow> 'd machine \<Rightarrow> u32 \<times> 'd machine" where
  "fixup_irq B irq m = (irq, lpc22xx_clear_pb B irq m)"

definition lpc22xx_set_type :: "u32 \<Rightarrow> u32 \<Rightarrow> int" where
  "lpc22xx_set_type irq ty = 0"

section \<open>The controller as the kernel calls it\<close>

text \<open>
  The members of the three controller records after \<^verbatim>\<open>irq_chip_set_defaults\<close>. The record without a controller
  has no mask and unmask function, and its acknowledge function counts an error.
\<close>

definition chip_mask :: "'d bus \<Rightarrow> u32 \<Rightarrow> 'd kernel \<Rightarrow> 'd kernel" where
  "chip_mask B irq k = (if chip (desc_of irq k) = Lpc22xx_vic_chip then on_hw (lpc22xx_mask_irq B irq) k else k)"

definition chip_unmask :: "'d bus \<Rightarrow> u32 \<Rightarrow> 'd kernel \<Rightarrow> 'd kernel" where
  "chip_unmask B irq k = (if chip (desc_of irq k) = Lpc22xx_vic_chip then on_hw (lpc22xx_unmask_irq B irq) k else k)"

definition chip_ack :: "'d bus \<Rightarrow> u32 \<Rightarrow> 'd kernel \<Rightarrow> 'd kernel" where
  "chip_ack B irq k = (case chip (desc_of irq k) of
     Lpc22xx_vic_chip \<Rightarrow> on_hw (lpc22xx_mask_ack_irq B irq) k
   | Dummy_irq_chip \<Rightarrow> k
   | No_irq_chip \<Rightarrow> k\<lparr>irq_err_count := irq_err_count k + 1\<rparr>)"

definition default_enable :: "'d bus \<Rightarrow> u32 \<Rightarrow> 'd kernel \<Rightarrow> 'd kernel" where
  "default_enable B irq k = put_desc irq (clr_status IRQ_MASKED) (chip_unmask B irq k)"

definition default_disable :: "u32 \<Rightarrow> 'd kernel \<Rightarrow> 'd kernel" where
  "default_disable irq k = k"

definition chip_enable :: "'d bus \<Rightarrow> u32 \<Rightarrow> 'd kernel \<Rightarrow> 'd kernel" where
  "chip_enable B irq k = (if chip (desc_of irq k) = Lpc22xx_vic_chip then default_enable B irq k else k)"

definition default_startup :: "'d bus \<Rightarrow> u32 \<Rightarrow> 'd kernel \<Rightarrow> 'd kernel" where
  "default_startup B irq k = chip_enable B irq k"

definition default_shutdown :: "'d bus \<Rightarrow> u32 \<Rightarrow> 'd kernel \<Rightarrow> 'd kernel" where
  "default_shutdown B irq k = put_desc irq (set_status IRQ_MASKED) (chip_mask B irq k)"

definition chip_shutdown :: "'d bus \<Rightarrow> u32 \<Rightarrow> 'd kernel \<Rightarrow> 'd kernel" where
  "chip_shutdown B irq k = (if chip (desc_of irq k) = Lpc22xx_vic_chip then default_shutdown B irq k else k)"

definition mask_ack_irq :: "'d bus \<Rightarrow> u32 \<Rightarrow> 'd kernel \<Rightarrow> 'd kernel" where
  "mask_ack_irq B irq k = chip_ack B irq (chip_mask B irq k)"

section \<open>Descriptors\<close>

definition set_irq_chip :: "u32 \<Rightarrow> irq_chip option \<Rightarrow> 'd kernel \<Rightarrow> int \<times> 'd kernel" where
  "set_irq_chip irq c k =
     (if NR_IRQS \<le> irq then (- EINVAL, k)
      else (0, put_desc irq (\<lambda>d. d\<lparr>chip := (case c of None \<Rightarrow> No_irq_chip | Some c \<Rightarrow> c)\<rparr>) k))"

definition set_irq_handler_full :: "'d bus \<Rightarrow> u32 \<Rightarrow> flow_handler option \<Rightarrow> bool \<Rightarrow> 'd kernel \<Rightarrow> 'd kernel" where
  "set_irq_handler_full B irq handle is_chained k =
     (if NR_IRQS \<le> irq then k
      else let h = (case handle of None \<Rightarrow> Handle_bad_irq | Some h \<Rightarrow> h);
               k = (if handle \<noteq> None \<and> chip (desc_of irq k) = No_irq_chip
                    then put_desc irq (\<lambda>d. d\<lparr>chip := Dummy_irq_chip\<rparr>) k else k);
               k = (if h = Handle_bad_irq
                    then put_desc irq (\<lambda>d. (set_status IRQ_DISABLED d)\<lparr>depth := 1\<rparr>)
                           (if chip (desc_of irq k) \<noteq> No_irq_chip then mask_ack_irq B irq k else k)
                    else k);
               k = put_desc irq (\<lambda>d. d\<lparr>handle_irq := Some h\<rparr>) k
           in if h \<noteq> Handle_bad_irq \<and> is_chained
              then chip_unmask B irq
                     (put_desc irq (\<lambda>d. (set_status (IRQ_NOREQUEST OR IRQ_NOPROBE) (clr_status IRQ_DISABLED d))\<lparr>depth := 0\<rparr>) k)
              else k)"

definition set_irq_handler :: "'d bus \<Rightarrow> u32 \<Rightarrow> flow_handler \<Rightarrow> 'd kernel \<Rightarrow> 'd kernel" where
  "set_irq_handler B irq h k = set_irq_handler_full B irq (Some h) False k"

definition set_irq_flags :: "u32 \<Rightarrow> u32 \<Rightarrow> 'd kernel \<Rightarrow> 'd kernel" where
  "set_irq_flags irq iflags k =
     (if NR_IRQS \<le> irq then k
      else put_desc irq (\<lambda>d.
        let d = set_status (IRQ_NOREQUEST OR IRQ_NOPROBE OR IRQ_NOAUTOEN) d;
            d = (if iflags AND IRQF_VALID \<noteq> 0 then clr_status IRQ_NOREQUEST d else d);
            d = (if iflags AND IRQF_PROBE \<noteq> 0 then clr_status IRQ_NOPROBE d else d)
        in if iflags AND IRQF_NOAUTOEN = 0 then clr_status IRQ_NOAUTOEN d else d) k)"

section \<open>Initialisation\<close>

definition init_one :: "'d bus \<Rightarrow> 'd kernel \<Rightarrow> u32 \<Rightarrow> 'd kernel" where
  "init_one B k irq =
     (let k = snd (set_irq_chip irq (Some Lpc22xx_vic_chip) k);
          k = set_irq_handler B irq Handle_level_irq k
      in if LPC22xx_INTERRUPT_EINT0 \<le> irq \<and> irq \<le> LPC22xx_INTERRUPT_EINT3
         then set_irq_flags irq (IRQF_VALID OR IRQF_PROBE OR IRQF_NOAUTOEN) k
         else set_irq_flags irq (IRQF_VALID OR IRQF_PROBE) k)"

definition irq_numbers :: "u32 list" where
  "irq_numbers = map of_nat [0..<unat NR_IRQS]"

definition lpc22xx_init_irq :: "'d bus \<Rightarrow> 'd kernel \<Rightarrow> 'd kernel" where
  "lpc22xx_init_irq B k =
     (let k = on_hw (or_wr B PINSEL1_lx 1) k;
          k = foldl (init_one B) k irq_numbers
      in on_hw (\<lambda>m.
           let m = wr B VICIntEnClr_lx 0xFFFFFFFF m;
               m = wr B VICIntSelect_lx 0 m;
               m = wr B VICVectAddr_lx 0 m;
               m = wr8 B EXTMODE_lx 0 m;
               m = wr8 B EXTPOLAR_lx 0 m
           in wr8 B EXTINT_lx 1 m) k)"

definition init_IRQ :: "'d bus \<Rightarrow> 'd kernel \<Rightarrow> 'd kernel" where
  "init_IRQ B k = lpc22xx_init_irq B (foldl (\<lambda>k irq. put_desc irq (set_status (IRQ_NOREQUEST OR IRQ_NOPROBE)) k) k irq_numbers)"

text \<open>The descriptors as the kernel image has them.\<close>

definition irq_desc_init :: irq_desc where
  "irq_desc_init = \<lparr>handle_irq = Some Handle_bad_irq, chip = No_irq_chip, action = [], status = IRQ_DISABLED, depth = 1,
     irq_count = 0, irqs_unhandled = 0, last_unhandled = 0\<rparr>"

section \<open>Enabling and disabling\<close>

definition check_irq_resend :: "'d bus \<Rightarrow> u32 \<Rightarrow> 'd kernel \<Rightarrow> 'd kernel" where
  "check_irq_resend B irq k =
     (let st = status (desc_of irq k);
          k = chip_enable B irq k
      in if st AND (IRQ_LEVEL OR IRQ_PENDING OR IRQ_REPLAY) = IRQ_PENDING
         then (put_desc irq (\<lambda>d. d\<lparr>status := (st AND NOT IRQ_PENDING) OR IRQ_REPLAY\<rparr>) k)\<lparr>irqs_resend := insert irq (irqs_resend k)\<rparr>
         else k)"

definition disable_irq_nosync :: "'d bus \<Rightarrow> u32 \<Rightarrow> 'd kernel \<Rightarrow> 'd kernel" where
  "disable_irq_nosync B irq k =
     (if NR_IRQS \<le> irq then k
      else let old = depth (desc_of irq k);
               k = put_desc irq (\<lambda>d. d\<lparr>depth := old + 1\<rparr>) k
           in if old = 0 then default_disable irq (put_desc irq (set_status IRQ_DISABLED) k) else k)"

text \<open>On one processor \<^verbatim>\<open>synchronize_irq\<close> is a compiler barrier.\<close>

definition disable_irq :: "'d bus \<Rightarrow> u32 \<Rightarrow> 'd kernel \<Rightarrow> 'd kernel" where
  "disable_irq B irq k = (if NR_IRQS \<le> irq then k else disable_irq_nosync B irq k)"

definition enable_irq :: "'d bus \<Rightarrow> u32 \<Rightarrow> 'd kernel \<Rightarrow> 'd kernel" where
  "enable_irq B irq k =
     (if NR_IRQS \<le> irq \<or> depth (desc_of irq k) = 0 then k
      else let k = (if depth (desc_of irq k) = 1
                    then check_irq_resend B irq (put_desc irq (\<lambda>d. set_status IRQ_NOPROBE (clr_status IRQ_DISABLED d)) k)
                    else k)
           in put_desc irq (\<lambda>d. d\<lparr>depth := depth d - 1\<rparr>) k)"

section \<open>Requesting and freeing\<close>

definition can_request_irq :: "u32 \<Rightarrow> u32 \<Rightarrow> 'd kernel \<Rightarrow> bool" where
  "can_request_irq irq irqflags k =
     (if NR_IRQS \<le> irq \<or> has_status IRQ_NOREQUEST (desc_of irq k) then False
      else case action (desc_of irq k) of [] \<Rightarrow> True | a # _ \<Rightarrow> irqflags AND flags a AND IRQF_SHARED \<noteq> 0)"

definition compat_irq_chip_set_default_handler :: "irq_desc \<Rightarrow> irq_desc" where
  "compat_irq_chip_set_default_handler d = (if handle_irq d = Some Handle_bad_irq then d\<lparr>handle_irq := None\<rparr> else d)"

text \<open>The first action of a line; a trigger type is passed to the controller, whose function ignores it.\<close>

definition start_line :: "'d bus \<Rightarrow> u32 \<Rightarrow> irqaction \<Rightarrow> 'd kernel \<Rightarrow> 'd kernel" where
  "start_line B irq new k =
     (let k = (if flags new AND IRQF_TRIGGER_MASK \<noteq> 0 then k else put_desc irq compat_irq_chip_set_default_handler k);
          k = put_desc irq (clr_status (IRQ_AUTODETECT OR IRQ_WAITING OR IRQ_INPROGRESS)) k
      in if \<not> has_status IRQ_NOAUTOEN (desc_of irq k)
         then (let k = put_desc irq (\<lambda>d. clr_status IRQ_DISABLED (d\<lparr>depth := 0\<rparr>)) k
               in if chip (desc_of irq k) = Lpc22xx_vic_chip then default_startup B irq k else k)
         else put_desc irq (\<lambda>d. d\<lparr>depth := 1\<rparr>) k)"

definition setup_irq :: "'d bus \<Rightarrow> u32 \<Rightarrow> irqaction \<Rightarrow> 'd kernel \<Rightarrow> int \<times> 'd kernel" where
  "setup_irq B irq new k =
     (if NR_IRQS \<le> irq then (- EINVAL, k)
      else if chip (desc_of irq k) = No_irq_chip then (- ENOSYS, k)
      else let old = action (desc_of irq k)
           in if old \<noteq> [] \<and> (flags (hd old) AND flags new AND IRQF_SHARED = 0 \<or>
                 (flags (hd old) XOR flags new) AND IRQF_TRIGGER_MASK \<noteq> 0) then (- EBUSY, k)
              else let k = put_desc irq (\<lambda>d. d\<lparr>action := old @ [new]\<rparr>) k;
                       k = (if flags new AND IRQF_NOBALANCING \<noteq> 0 then put_desc irq (set_status IRQ_NO_BALANCING) k else k);
                       k = (if old = [] then start_line B irq new k else k)
                   in (0, put_desc irq (\<lambda>d. d\<lparr>irq_count := 0, irqs_unhandled := 0\<rparr>) k))"

text \<open>\<open>got\<close> says whether the allocation of the action succeeds; address 0 is the null pointer.\<close>

definition request_irq :: "'d bus \<Rightarrow> bool \<Rightarrow> u32 \<Rightarrow> nat \<Rightarrow> u32 \<Rightarrow> u32 \<Rightarrow> 'd kernel \<Rightarrow> int \<times> 'd kernel" where
  "request_irq B got irq h irqflags did k =
     (if irqflags AND IRQF_SHARED \<noteq> 0 \<and> did = 0 then (- EINVAL, k)
      else if NR_IRQS \<le> irq then (- EINVAL, k)
      else if has_status IRQ_NOREQUEST (desc_of irq k) then (- EINVAL, k)
      else if h = 0 then (- EINVAL, k)
      else if \<not> got then (- ENOMEM, k)
      else setup_irq B irq \<lparr>handler = h, flags = irqflags, dev_id = did\<rparr> k)"

fun drop_action :: "u32 \<Rightarrow> irqaction list \<Rightarrow> irqaction list option" where
  "drop_action did [] = None"
| "drop_action did (a # as) = (if dev_id a = did then Some as else map_option ((#) a) (drop_action did as))"

definition free_irq :: "'d bus \<Rightarrow> u32 \<Rightarrow> u32 \<Rightarrow> 'd kernel \<Rightarrow> 'd kernel" where
  "free_irq B irq did k =
     (if NR_IRQS \<le> irq then k
      else case drop_action did (action (desc_of irq k)) of
        None \<Rightarrow> k
      | Some as \<Rightarrow>
          let k = put_desc irq (\<lambda>d. d\<lparr>action := as\<rparr>) k
          in if as = [] then chip_shutdown B irq (put_desc irq (set_status IRQ_DISABLED) k) else k)"

section \<open>An interrupt\<close>

text \<open>The action chain; \<open>IRQF_DISABLED\<close> of the first action keeps interrupts off while the chain runs.\<close>

fun run_actions :: "(nat \<Rightarrow> u32 \<Rightarrow> u32 \<Rightarrow> 'd kernel \<Rightarrow> u32 \<times> 'd kernel) \<Rightarrow> u32 \<Rightarrow> irqaction list \<Rightarrow> 'd kernel \<Rightarrow> u32 \<times> 'd kernel" where
  "run_actions H irq [] k = (IRQ_NONE, k)"
| "run_actions H irq (a # as) k =
     (let (ret, k) = H (handler a) irq (dev_id a) k;
          (rest, k) = run_actions H irq as k
      in (ret OR rest, k))"

definition handle_IRQ_event :: "(nat \<Rightarrow> u32 \<Rightarrow> u32 \<Rightarrow> 'd kernel \<Rightarrow> u32 \<times> 'd kernel) \<Rightarrow> u32 \<Rightarrow> irqaction list \<Rightarrow> 'd kernel \<Rightarrow> u32 \<times> 'd kernel" where
  "handle_IRQ_event H irq as k =
     (let k = (if flags (hd as) AND IRQF_DISABLED = 0 then k\<lparr>irqs_on := True\<rparr> else k);
          (retval, k) = run_actions H irq as k
      in (retval, k\<lparr>irqs_on := False\<rparr>))"

text \<open>The tick rate is the default of the ARM configuration.\<close>

definition HZ :: u32 where
  "HZ = 100"

definition time_after :: "u32 \<Rightarrow> u32 \<Rightarrow> bool" where
  "time_after a b \<longleftrightarrow> sint (b - a) < 0"

definition note_interrupt :: "u32 \<Rightarrow> u32 \<Rightarrow> 'd kernel \<Rightarrow> 'd kernel" where
  "note_interrupt irq action_ret k =
     (let k = (if action_ret \<noteq> IRQ_HANDLED
               then put_desc irq (\<lambda>d. d\<lparr>irqs_unhandled := (if time_after (jiffies k) (last_unhandled d + HZ div 10) then 1 else irqs_unhandled d + 1),
                      last_unhandled := jiffies k\<rparr>) k
               else k);
          k = put_desc irq (\<lambda>d. d\<lparr>irq_count := irq_count d + 1\<rparr>) k
      in if irq_count (desc_of irq k) < 100000 then k
         else let k = put_desc irq (\<lambda>d. d\<lparr>irq_count := 0\<rparr>) k;
                  k = (if 99900 < irqs_unhandled (desc_of irq k)
                       then default_disable irq (put_desc irq (\<lambda>d. (set_status IRQ_DISABLED d)\<lparr>depth := 1\<rparr>) k) else k)
              in put_desc irq (\<lambda>d. d\<lparr>irqs_unhandled := 0\<rparr>) k)"

definition count_irq :: "u32 \<Rightarrow> 'd kernel \<Rightarrow> 'd kernel" where
  "count_irq irq k = k\<lparr>kstat_irqs := (kstat_irqs k)[unat irq := kstat_irqs k ! unat irq + 1]\<rparr>"

text \<open>The part of \<^verbatim>\<open>handle_level_irq\<close> after the line has been masked and found idle, enabled and in use.\<close>

definition service :: "'d bus \<Rightarrow> (nat \<Rightarrow> u32 \<Rightarrow> u32 \<Rightarrow> 'd kernel \<Rightarrow> u32 \<times> 'd kernel) \<Rightarrow> u32 \<Rightarrow> 'd kernel \<Rightarrow> 'd kernel" where
  "service B H irq k =
     (let as = action (desc_of irq k);
          (action_ret, k) = handle_IRQ_event H irq as (put_desc irq (set_status IRQ_INPROGRESS) k);
          k = note_interrupt irq action_ret k;
          k = put_desc irq (clr_status IRQ_INPROGRESS) k
      in if has_status IRQ_DISABLED (desc_of irq k) then k else chip_unmask B irq k)"

definition handle_level_irq :: "'d bus \<Rightarrow> (nat \<Rightarrow> u32 \<Rightarrow> u32 \<Rightarrow> 'd kernel \<Rightarrow> u32 \<times> 'd kernel) \<Rightarrow> u32 \<Rightarrow> 'd kernel \<Rightarrow> fault + 'd kernel" where
  "handle_level_irq B H irq k =
     (if chip (desc_of irq k) = No_irq_chip then Inl NullDeref
      else let k = mask_ack_irq B irq k
           in if has_status IRQ_INPROGRESS (desc_of irq k) then Inr k
              else let k = count_irq irq (put_desc irq (clr_status (IRQ_REPLAY OR IRQ_WAITING)) k)
                   in if action (desc_of irq k) = [] \<or> has_status IRQ_DISABLED (desc_of irq k) then Inr k
                      else Inr (service B H irq k))"

definition handle_bad_irq :: "u32 \<Rightarrow> 'd kernel \<Rightarrow> fault + 'd kernel" where
  "handle_bad_irq irq k =
     (if NR_IRQS \<le> irq then Inl OutOfBounds
      else Inr ((count_irq irq k)\<lparr>irq_err_count := irq_err_count k + 1\<rparr>))"

definition asm_do_IRQ :: "'d bus \<Rightarrow> (nat \<Rightarrow> u32 \<Rightarrow> u32 \<Rightarrow> 'd kernel \<Rightarrow> u32 \<times> 'd kernel) \<Rightarrow> u32 \<Rightarrow> 'd kernel \<Rightarrow> fault + 'd kernel" where
  "asm_do_IRQ B H irq k =
     (if NR_IRQS \<le> irq then handle_bad_irq irq k
      else case handle_irq (desc_of irq k) of
        None \<Rightarrow> Inl NullDeref
      | Some Handle_bad_irq \<Rightarrow> handle_bad_irq irq k
      | Some Handle_level_irq \<Rightarrow> handle_level_irq B H irq k)"

end
