(* ===== verification/Linux_Irq_Props.thy ===== *)
theory Linux_Irq_Props
  imports Linux_Irq
begin

text \<open>
  What the interrupt layer of the Linux port guarantees on the vectored interrupt controller: a line that is
  enabled and not being served is unmasked, its handlers run with the line masked, disables nest, and no call
  or interrupt of a set-up kernel runs into a missing function.
\<close>

named_theorems irq_simps "effect of the interrupt layer on descriptors and on the enable register"

section \<open>The enable register\<close>

text \<open>
  The controller as the data sheet gives it: \<open>E\<close> is its enable register, which a load returns; a store to the
  enable address sets the bits that are one, a store to the clear address clears them, and nothing else
  moves it.
\<close>

definition vic_bus :: "'d bus \<Rightarrow> ('d \<Rightarrow> u32) \<Rightarrow> bool" where
  "vic_bus B E \<longleftrightarrow> (\<forall>a d. E (snd (bus_rd B a d)) = E d) \<and> (\<forall>d. fst (bus_rd B VICIntEnable_lx d) = E d) \<and>
     (\<forall>v d. E (bus_wr B VICIntEnable_lx v d) = E d OR v) \<and> (\<forall>v d. E (bus_wr B VICIntEnClr_lx v d) = E d AND NOT v) \<and>
     (\<forall>a v d. a \<noteq> VICIntEnable_lx \<longrightarrow> a \<noteq> VICIntEnClr_lx \<longrightarrow> E (bus_wr B a v d) = E d)"

definition line_on :: "('d \<Rightarrow> u32) \<Rightarrow> u32 \<Rightarrow> 'd kernel \<Rightarrow> bool" where
  "line_on E irq k \<longleftrightarrow> bit (E (dev (hw k))) (unat irq)"

lemma E_mask: "vic_bus B E \<Longrightarrow> E (dev (lpc22xx_mask_irq B irq m)) = E (dev m) AND NOT (irq_bit irq)"
  by (simp add: vic_bus_def lpc22xx_mask_irq_def)

lemma E_unmask: "vic_bus B E \<Longrightarrow> E (dev (lpc22xx_unmask_irq B irq m)) = E (dev m) OR irq_bit irq"
  by (simp add: vic_bus_def lpc22xx_unmask_irq_def or_wr_def rd_parts)

lemma E_clear_pb: "vic_bus B E \<Longrightarrow> E (dev (lpc22xx_clear_pb B irq m)) = E (dev m)"
  by (simp add: vic_bus_def lpc22xx_clear_pb_def wr8_def VICIntEnable_lx_def VICIntEnClr_lx_def EXTINT_lx_def VICVectAddr_lx_def)

lemma irq_lt: "irq < NR_IRQS \<Longrightarrow> unat irq < 28"
  by (simp add: NR_IRQS_def word_less_nat_alt)

lemma bit_irq_bit: "bit (irq_bit irq) i \<longleftrightarrow> i = unat irq \<and> i < 32"
  by (auto simp: irq_bit_def bit_exp_iff)

lemma unat_irq_eq: "unat (j :: u32) = unat i \<longleftrightarrow> j = i"
  by (simp add: word_unat_eq_iff)

section \<open>Descriptors\<close>

lemma put_desc_simps [irq_simps]:
  "hw (put_desc irq f k) = hw k" "kstat_irqs (put_desc irq f k) = kstat_irqs k" "length (irq_descs (put_desc irq f k)) = length (irq_descs k)"
  "irq_err_count (put_desc irq f k) = irq_err_count k" "jiffies (put_desc irq f k) = jiffies k"
  by (simp_all add: put_desc_def)

lemma desc_of_put [irq_simps]:
  "j < NR_IRQS \<Longrightarrow> length (irq_descs k) = 28 \<Longrightarrow> desc_of j (put_desc irq f k) = (if j = irq then f (desc_of irq k) else desc_of j k)"
  using irq_lt [of j] unat_irq_eq [of j irq] by (auto simp: desc_of_def put_desc_def)

lemma on_hw_simps [irq_simps]:
  "hw (on_hw f k) = f (hw k)" "kstat_irqs (on_hw f k) = kstat_irqs k" "irq_descs (on_hw f k) = irq_descs k" "desc_of j (on_hw f k) = desc_of j k"
  by (simp_all add: on_hw_def desc_of_def)

lemma count_irq_simps [irq_simps]:
  "hw (count_irq irq k) = hw k" "irq_descs (count_irq irq k) = irq_descs k" "length (kstat_irqs (count_irq irq k)) = length (kstat_irqs k)"
  "desc_of j (count_irq irq k) = desc_of j k"
  by (simp_all add: count_irq_def desc_of_def)

lemma line_on_put [irq_simps]: "line_on E j (put_desc irq f k) = line_on E j k" "line_on E j (count_irq irq k) = line_on E j k"
  by (simp_all add: line_on_def irq_simps)

lemma chip_on:
  assumes "vic_bus B E" "irq < NR_IRQS" "j < NR_IRQS" "chip (desc_of irq k) = Lpc22xx_vic_chip"
  shows "line_on E j (chip_mask B irq k) \<longleftrightarrow> j \<noteq> irq \<and> line_on E j k"
    "line_on E j (chip_unmask B irq k) \<longleftrightarrow> j = irq \<or> line_on E j k"
    "line_on E j (mask_ack_irq B irq k) \<longleftrightarrow> j \<noteq> irq \<and> line_on E j k"
  using assms irq_lt [OF assms(2)] irq_lt [OF assms(3)] unat_irq_eq [of j irq]
  by (auto simp: line_on_def chip_mask_def chip_unmask_def mask_ack_irq_def chip_ack_def lpc22xx_mask_ack_irq_def irq_simps E_mask E_unmask E_clear_pb
      bit_and_iff bit_or_iff bit_not_iff bit_irq_bit)

lemma chip_frame [irq_simps]:
  "desc_of j (chip_mask B irq k) = desc_of j k" "desc_of j (chip_unmask B irq k) = desc_of j k" "desc_of j (mask_ack_irq B irq k) = desc_of j k"
  "irq_descs (chip_mask B irq k) = irq_descs k" "irq_descs (chip_unmask B irq k) = irq_descs k" "irq_descs (mask_ack_irq B irq k) = irq_descs k"
  "kstat_irqs (chip_mask B irq k) = kstat_irqs k" "kstat_irqs (chip_unmask B irq k) = kstat_irqs k" "kstat_irqs (mask_ack_irq B irq k) = kstat_irqs k"
  by (auto simp: chip_mask_def chip_unmask_def mask_ack_irq_def chip_ack_def irq_simps split: irq_chip.splits) (simp_all add: desc_of_def)

lemma status_simps [irq_simps]:
  "chip (set_status b d) = chip d" "chip (clr_status b d) = chip d" "action (set_status b d) = action d" "action (clr_status b d) = action d"
  "depth (set_status b d) = depth d" "depth (clr_status b d) = depth d" "handle_irq (set_status b d) = handle_irq d" "handle_irq (clr_status b d) = handle_irq d"
  by (simp_all add: set_status_def clr_status_def)

text \<open>Status bits.\<close>

lemma and_or_nonzero: "(s OR c) AND b \<noteq> 0 \<longleftrightarrow> s AND b \<noteq> 0 \<or> c AND (b :: u32) \<noteq> 0"
proof
  assume "(s OR c) AND b \<noteq> 0"
  then show "s AND b \<noteq> 0 \<or> c AND b \<noteq> 0" by (metis bit.conj_disj_distrib2 or.right_neutral)
next
  assume *: "s AND b \<noteq> 0 \<or> c AND b \<noteq> 0"
  show "(s OR c) AND b \<noteq> 0"
  proof
    assume "(s OR c) AND b = 0"
    then have "(s AND b) OR (c AND b) = 0" by (metis bit.conj_disj_distrib2)
    then show False using * by (metis or_eq_0_iff)
  qed
qed

lemma and_not_cancel: "b AND c = 0 \<Longrightarrow> (s AND NOT c) AND b = s AND (b :: u32)"
proof (rule bit_word_eqI)
  fix n assume z: "b AND c = 0" and "n < LENGTH(32)"
  moreover have "\<not> (bit b n \<and> bit c n)" using z by (metis bit_and_iff bit_0_eq bot_apply bot_bool_def)
  ultimately show "bit ((s AND NOT c) AND b) n = bit (s AND b) n" by (auto simp: bit_and_iff bit_not_iff)
qed

lemma and_not_zero: "b AND NOT c = 0 \<Longrightarrow> (s AND NOT c) AND (b :: u32) = 0"
  by (metis and.assoc and.commute and_zero_eq)

lemma has_set [irq_simps]: "has_status b (set_status c d) \<longleftrightarrow> has_status b d \<or> c AND b \<noteq> 0"
  by (simp add: has_status_def set_status_def and_or_nonzero)

lemma has_clr [irq_simps]:
  "b AND c = 0 \<Longrightarrow> has_status b (clr_status c d) \<longleftrightarrow> has_status b d"
  "b AND NOT c = 0 \<Longrightarrow> \<not> has_status b (clr_status c d)"
  by (simp_all add: has_status_def clr_status_def and_not_cancel and_not_zero)

lemma has_upd [irq_simps]:
  "has_status b (d\<lparr>depth := x\<rparr>) = has_status b d" "has_status b (d\<lparr>chip := c\<rparr>) = has_status b d" "has_status b (d\<lparr>action := as\<rparr>) = has_status b d"
  "has_status b (d\<lparr>handle_irq := h\<rparr>) = has_status b d" "has_status b (d\<lparr>irq_count := x\<rparr>) = has_status b d"
  "has_status b (d\<lparr>irqs_unhandled := x\<rparr>) = has_status b d" "has_status b (d\<lparr>last_unhandled := x\<rparr>) = has_status b d"
  by (simp_all add: has_status_def)

lemmas irq_bits = IRQ_INPROGRESS_def IRQ_DISABLED_def IRQ_PENDING_def IRQ_REPLAY_def IRQ_AUTODETECT_def IRQ_WAITING_def IRQ_LEVEL_def
  IRQ_MASKED_def IRQ_NOPROBE_def IRQ_NOREQUEST_def IRQ_NOAUTOEN_def IRQ_NO_BALANCING_def

lemma bit_table [irq_simps]:
  "IRQ_INPROGRESS AND IRQ_DISABLED = 0" "IRQ_DISABLED AND IRQ_INPROGRESS = 0" "IRQ_MASKED AND IRQ_DISABLED = 0" "IRQ_DISABLED AND IRQ_MASKED = 0" "IRQ_NOPROBE AND IRQ_DISABLED = 0" "IRQ_DISABLED AND IRQ_NOPROBE = 0" "IRQ_NO_BALANCING AND IRQ_DISABLED = 0" "IRQ_DISABLED AND IRQ_NO_BALANCING = 0" "(IRQ_REPLAY OR IRQ_WAITING) AND IRQ_DISABLED = 0" "IRQ_DISABLED AND (IRQ_REPLAY OR IRQ_WAITING) = 0" "(IRQ_NOREQUEST OR IRQ_NOPROBE) AND IRQ_DISABLED = 0" "IRQ_DISABLED AND (IRQ_NOREQUEST OR IRQ_NOPROBE) = 0" "IRQ_DISABLED \<noteq> 0" "IRQ_DISABLED AND NOT IRQ_DISABLED = 0"
  "IRQ_DISABLED AND IRQ_INPROGRESS = 0" "IRQ_INPROGRESS AND IRQ_DISABLED = 0" "IRQ_MASKED AND IRQ_INPROGRESS = 0" "IRQ_INPROGRESS AND IRQ_MASKED = 0" "IRQ_NOPROBE AND IRQ_INPROGRESS = 0" "IRQ_INPROGRESS AND IRQ_NOPROBE = 0" "IRQ_NO_BALANCING AND IRQ_INPROGRESS = 0" "IRQ_INPROGRESS AND IRQ_NO_BALANCING = 0" "(IRQ_REPLAY OR IRQ_WAITING) AND IRQ_INPROGRESS = 0" "IRQ_INPROGRESS AND (IRQ_REPLAY OR IRQ_WAITING) = 0" "(IRQ_NOREQUEST OR IRQ_NOPROBE) AND IRQ_INPROGRESS = 0" "IRQ_INPROGRESS AND (IRQ_NOREQUEST OR IRQ_NOPROBE) = 0" "IRQ_INPROGRESS \<noteq> 0" "IRQ_INPROGRESS AND NOT IRQ_INPROGRESS = 0"
  "IRQ_INPROGRESS AND IRQ_NOAUTOEN = 0" "IRQ_NOAUTOEN AND IRQ_INPROGRESS = 0" "IRQ_DISABLED AND IRQ_NOAUTOEN = 0" "IRQ_NOAUTOEN AND IRQ_DISABLED = 0" "IRQ_MASKED AND IRQ_NOAUTOEN = 0" "IRQ_NOAUTOEN AND IRQ_MASKED = 0" "IRQ_NOPROBE AND IRQ_NOAUTOEN = 0" "IRQ_NOAUTOEN AND IRQ_NOPROBE = 0" "IRQ_NO_BALANCING AND IRQ_NOAUTOEN = 0" "IRQ_NOAUTOEN AND IRQ_NO_BALANCING = 0" "(IRQ_REPLAY OR IRQ_WAITING) AND IRQ_NOAUTOEN = 0" "IRQ_NOAUTOEN AND (IRQ_REPLAY OR IRQ_WAITING) = 0" "(IRQ_NOREQUEST OR IRQ_NOPROBE) AND IRQ_NOAUTOEN = 0" "IRQ_NOAUTOEN AND (IRQ_NOREQUEST OR IRQ_NOPROBE) = 0" "IRQ_NOAUTOEN \<noteq> 0" "IRQ_NOAUTOEN AND NOT IRQ_NOAUTOEN = 0"
  by (simp_all add: irq_bits)

section \<open>The invariant\<close>

text \<open>
  A line without an action is disabled; a line with one is disabled exactly when disables outnumber enables;
  a line that is enabled and not being served is unmasked in the controller.
\<close>

definition line_ok :: "('d \<Rightarrow> u32) \<Rightarrow> u32 \<Rightarrow> 'd kernel \<Rightarrow> bool" where
  "line_ok E irq k \<longleftrightarrow> (let d = desc_of irq k in
     chip d = Lpc22xx_vic_chip \<and> handle_irq d = Some Handle_level_irq \<and>
     (action d = [] \<longrightarrow> has_status IRQ_DISABLED d) \<and>
     (action d \<noteq> [] \<longrightarrow> (has_status IRQ_DISABLED d \<longleftrightarrow> depth d \<noteq> 0)) \<and>
     (\<not> has_status IRQ_DISABLED d \<and> \<not> has_status IRQ_INPROGRESS d \<longrightarrow> line_on E irq k))"

definition kernel_ok :: "('d \<Rightarrow> u32) \<Rightarrow> 'd kernel \<Rightarrow> bool" where
  "kernel_ok E k \<longleftrightarrow> length (irq_descs k) = 28 \<and> length (kstat_irqs k) = 28 \<and> (\<forall>irq < NR_IRQS. line_ok E irq k)"

lemma kernel_okD:
  assumes "kernel_ok E k" "irq < NR_IRQS"
  shows "length (irq_descs k) = 28" "chip (desc_of irq k) = Lpc22xx_vic_chip" "handle_irq (desc_of irq k) = Some Handle_level_irq"
    "line_ok E irq k"
  using assms by (auto simp: kernel_ok_def line_ok_def Let_def)

text \<open>An operation on one line keeps the invariant when it keeps it on this line and the others as they are.\<close>

lemma kernel_okI:
  assumes "kernel_ok E k" "length (irq_descs k') = 28" "length (kstat_irqs k') = 28" "line_ok E irq k'"
    "\<And>j. j < NR_IRQS \<Longrightarrow> j \<noteq> irq \<Longrightarrow> desc_of j k' = desc_of j k \<and> line_on E j k' = line_on E j k"
  shows "kernel_ok E k'"
  unfolding kernel_ok_def
proof (intro conjI allI impI)
  fix j assume "j < NR_IRQS"
  then show "line_ok E j k'"
    using assms(1) assms(4) assms(5) [of j] by (cases "j = irq") (auto simp: kernel_ok_def line_ok_def)
qed (use assms in auto)

section \<open>Calls of the drivers\<close>

lemma enable_on:
  assumes "vic_bus B E" "irq < NR_IRQS" "j < NR_IRQS" "length (irq_descs k) = 28" "chip (desc_of irq k) = Lpc22xx_vic_chip"
  shows "desc_of j (chip_enable B irq k) = (if j = irq then clr_status IRQ_MASKED (desc_of irq k) else desc_of j k)"
    "line_on E j (chip_enable B irq k) \<longleftrightarrow> j = irq \<or> line_on E j k"
    "length (irq_descs (chip_enable B irq k)) = 28" "kstat_irqs (chip_enable B irq k) = kstat_irqs k"
  using assms chip_on(2) [OF assms(1-3,5)] by (simp_all add: chip_enable_def default_enable_def irq_simps)

lemma disable_ok:
  assumes "kernel_ok E k" "irq < NR_IRQS" "depth (desc_of irq k) + 1 \<noteq> 0"
  shows "kernel_ok E (disable_irq B irq k)"
proof (rule kernel_okI [OF assms(1), where irq = irq])
  note d = kernel_okD [OF assms(1,2)]
  show "line_ok E irq (disable_irq B irq k)"
    using d assms(2,3) by (auto simp: line_ok_def disable_irq_def disable_irq_nosync_def default_disable_def Let_def irq_simps irq_bits not_le)
qed (use assms in \<open>auto simp: kernel_ok_def disable_irq_def disable_irq_nosync_def default_disable_def Let_def irq_simps not_le\<close>)

text \<open>What an enable does to the descriptor and to the controller.\<close>

lemma resend_desc:
  assumes "vic_bus B E" "irq < NR_IRQS" "j < NR_IRQS" "length (irq_descs k) = 28" "chip (desc_of irq k) = Lpc22xx_vic_chip"
  defines "d \<equiv> desc_of irq k" and "d' \<equiv> desc_of irq (check_irq_resend B irq k)"
  shows "j \<noteq> irq \<Longrightarrow> desc_of j (check_irq_resend B irq k) = desc_of j k"
    "line_on E j (check_irq_resend B irq k) \<longleftrightarrow> j = irq \<or> line_on E j k"
    "chip d' = chip d \<and> action d' = action d \<and> handle_irq d' = handle_irq d \<and> depth d' = depth d"
    "b \<in> {IRQ_DISABLED, IRQ_INPROGRESS} \<Longrightarrow> has_status b d' = has_status b d"
    "length (irq_descs (check_irq_resend B irq k)) = 28" "kstat_irqs (check_irq_resend B irq k) = kstat_irqs k"
proof -
  note e = enable_on [OF assms(1,2) _ assms(4,5)]
  have r: "desc_of i (x\<lparr>irqs_resend := y\<rparr>) = desc_of i x" "line_on E i (x\<lparr>irqs_resend := y\<rparr>) = line_on E i x" for i x y
    by (simp_all add: desc_of_def line_on_def)
  have b: "has_status b (x\<lparr>status := (status z AND NOT IRQ_PENDING) OR IRQ_REPLAY\<rparr>) = has_status b z" if "b \<in> {IRQ_DISABLED, IRQ_INPROGRESS}" for b x z
  proof -
    have "b AND IRQ_PENDING = 0" "IRQ_REPLAY AND b = 0" using that by (auto simp: irq_bits)
    then show ?thesis by (simp add: has_status_def and_or_nonzero and_not_cancel)
  qed
  have c: "has_status b (clr_status IRQ_MASKED x) = has_status b x" if "b \<in> {IRQ_DISABLED, IRQ_INPROGRESS}" for b x
    using that by (auto simp: irq_simps irq_bits)
  note all = check_irq_resend_def Let_def irq_simps r e
  show "j \<noteq> irq \<Longrightarrow> desc_of j (check_irq_resend B irq k) = desc_of j k" using assms(2-4) by (simp add: all)
  show "line_on E j (check_irq_resend B irq k) \<longleftrightarrow> j = irq \<or> line_on E j k" using assms(2-4) by (simp add: all)
  show "chip d' = chip d \<and> action d' = action d \<and> handle_irq d' = handle_irq d \<and> depth d' = depth d"
    using assms(2,4) by (simp add: d_def d'_def all)
  show "b \<in> {IRQ_DISABLED, IRQ_INPROGRESS} \<Longrightarrow> has_status b d' = has_status b d"
    using assms(2,4) by (simp add: d_def d'_def all b c)
  show "length (irq_descs (check_irq_resend B irq k)) = 28" "kstat_irqs (check_irq_resend B irq k) = kstat_irqs k"
    using assms(2,4) by (simp_all add: all)
qed

lemma enable_desc:
  assumes "vic_bus B E" "kernel_ok E k" "irq < NR_IRQS" "j < NR_IRQS"
  defines "d \<equiv> desc_of irq k" and "d' \<equiv> desc_of irq (enable_irq B irq k)"
  shows "j \<noteq> irq \<Longrightarrow> desc_of j (enable_irq B irq k) = desc_of j k"
    "line_on E j (enable_irq B irq k) \<longleftrightarrow> line_on E j k \<or> j = irq \<and> depth d = 1"
    "chip d' = chip d \<and> action d' = action d \<and> handle_irq d' = handle_irq d \<and> depth d' = (if depth d = 0 then 0 else depth d - 1)"
    "has_status IRQ_DISABLED d' \<longleftrightarrow> has_status IRQ_DISABLED d \<and> depth d \<noteq> 1"
    "has_status IRQ_INPROGRESS d' \<longleftrightarrow> has_status IRQ_INPROGRESS d"
    "length (irq_descs (enable_irq B irq k)) = 28" "kstat_irqs (enable_irq B irq k) = kstat_irqs k"
proof -
  let ?f = "\<lambda>d. set_status IRQ_NOPROBE (clr_status IRQ_DISABLED d)"
  let ?k = "put_desc irq ?f k"
  note o = kernel_okD [OF assms(2,3)]
  have k: "length (irq_descs ?k) = 28" "chip (desc_of irq ?k) = Lpc22xx_vic_chip" using o assms(3) by (simp_all add: irq_simps)
  note r = resend_desc [OF assms(1,3) _ k]
  note all = enable_irq_def Let_def irq_simps r o not_le
  show "j \<noteq> irq \<Longrightarrow> desc_of j (enable_irq B irq k) = desc_of j k" using assms(3,4) by (simp add: all)
  show "line_on E j (enable_irq B irq k) \<longleftrightarrow> line_on E j k \<or> j = irq \<and> depth d = 1"
    using assms(3,4) by (auto simp: d_def all)
  show "chip d' = chip d \<and> action d' = action d \<and> handle_irq d' = handle_irq d \<and> depth d' = (if depth d = 0 then 0 else depth d - 1)"
    "has_status IRQ_DISABLED d' \<longleftrightarrow> has_status IRQ_DISABLED d \<and> depth d \<noteq> 1"
    "has_status IRQ_INPROGRESS d' \<longleftrightarrow> has_status IRQ_INPROGRESS d"
    using assms(3) by (auto simp: d_def d'_def all)
  show "length (irq_descs (enable_irq B irq k)) = 28" "kstat_irqs (enable_irq B irq k) = kstat_irqs k"
    using assms(3) by (simp_all add: all)
qed

lemma enable_ok:
  assumes "vic_bus B E" "kernel_ok E k" "irq < NR_IRQS" "action (desc_of irq k) \<noteq> []"
  shows "kernel_ok E (enable_irq B irq k)"
proof (rule kernel_okI [OF assms(2), where irq = irq])
  note e = enable_desc [OF assms(1-3)]
  show "line_ok E irq (enable_irq B irq k)"
    using kernel_okD [OF assms(2,3)] assms(4) e(3-5) [OF assms(3)] e(2) [OF assms(3)]
    by (auto simp: line_ok_def Let_def)
  show "length (irq_descs (enable_irq B irq k)) = 28" "length (kstat_irqs (enable_irq B irq k)) = 28"
    using e(6,7) [OF assms(3)] assms(2) by (simp_all add: kernel_ok_def)
  show "desc_of j (enable_irq B irq k) = desc_of j k \<and> line_on E j (enable_irq B irq k) = line_on E j k" if "j < NR_IRQS" "j \<noteq> irq" for j
    using e(1,2) [OF that(1)] that(2) by simp
qed

text \<open>Requesting a line. A line without an action starts enabled, or disabled at depth 1.\<close>

lemma start_desc:
  fixes new :: irqaction
  assumes "vic_bus B E" "irq < NR_IRQS" "j < NR_IRQS" "length (irq_descs k) = 28"
    "chip (desc_of irq k) = Lpc22xx_vic_chip" "handle_irq (desc_of irq k) = Some Handle_level_irq"
  defines "d \<equiv> desc_of irq k" and "d' \<equiv> desc_of irq (start_line B irq new k)" and "auto \<equiv> \<not> has_status IRQ_NOAUTOEN (desc_of irq k)"
  shows "j \<noteq> irq \<Longrightarrow> desc_of j (start_line B irq new k) = desc_of j k"
    "line_on E j (start_line B irq new k) \<longleftrightarrow> line_on E j k \<or> j = irq \<and> auto"
    "chip d' = chip d \<and> action d' = action d \<and> handle_irq d' = handle_irq d \<and> depth d' = (if auto then 0 else 1)"
    "has_status IRQ_DISABLED d' \<longleftrightarrow> has_status IRQ_DISABLED d \<and> \<not> auto" "\<not> has_status IRQ_INPROGRESS d'"
    "length (irq_descs (start_line B irq new k)) = 28" "kstat_irqs (start_line B irq new k) = kstat_irqs k"
proof -
  let ?c = "clr_status (IRQ_AUTODETECT OR IRQ_WAITING OR IRQ_INPROGRESS)"
  have c: "has_status IRQ_NOAUTOEN (?c x) = has_status IRQ_NOAUTOEN x" "has_status IRQ_DISABLED (?c x) = has_status IRQ_DISABLED x"
    "\<not> has_status IRQ_INPROGRESS (?c x)" for x
    by (simp_all add: irq_simps irq_bits)
  have h: "compat_irq_chip_set_default_handler d = d" using assms(6) by (simp add: compat_irq_chip_set_default_handler_def d_def)
  define k1 where "k1 = (if flags new AND IRQF_TRIGGER_MASK \<noteq> 0 then k else put_desc irq compat_irq_chip_set_default_handler k)"
  have k1: "desc_of i k1 = desc_of i k" "line_on E i k1 = line_on E i k" "length (irq_descs k1) = 28" "kstat_irqs k1 = kstat_irqs k"
    if "i < NR_IRQS" for i
    using that assms(2,4) h by (auto simp: k1_def irq_simps d_def)
  define k2 where "k2 = put_desc irq (\<lambda>d. clr_status IRQ_DISABLED (d\<lparr>depth := 0\<rparr>)) (put_desc irq ?c k1)"
  have k2: "length (irq_descs k2) = 28" "chip (desc_of irq k2) = Lpc22xx_vic_chip" "kstat_irqs k2 = kstat_irqs k"
    "desc_of i k2 = (if i = irq then clr_status IRQ_DISABLED ((?c d)\<lparr>depth := 0\<rparr>) else desc_of i k)" "line_on E i k2 = line_on E i k"
    if "i < NR_IRQS" for i
    using that k1 [OF that] k1 [OF assms(2)] assms(2,5) by (auto simp: k2_def irq_simps d_def)
  have s: "start_line B irq new k = (if auto then chip_enable B irq k2 else put_desc irq (\<lambda>d. d\<lparr>depth := 1\<rparr>) (put_desc irq ?c k1))"
    using k1 [OF assms(2)] k2(2) [OF assms(2)] assms(2,5) c
    by (simp add: start_line_def Let_def k1_def [symmetric] k2_def [symmetric] default_startup_def auto_def irq_simps)
  note e = enable_on [OF assms(1,2) _ k2(1,2) [OF assms(2)]]
  note all = s e k2 k1 irq_simps c
  show "j \<noteq> irq \<Longrightarrow> desc_of j (start_line B irq new k) = desc_of j k" using assms(2,3) by (simp add: all)
  show "line_on E j (start_line B irq new k) \<longleftrightarrow> line_on E j k \<or> j = irq \<and> auto" using assms(2,3) by (auto simp: all)
  show "chip d' = chip d \<and> action d' = action d \<and> handle_irq d' = handle_irq d \<and> depth d' = (if auto then 0 else 1)"
    "has_status IRQ_DISABLED d' \<longleftrightarrow> has_status IRQ_DISABLED d \<and> \<not> auto" "\<not> has_status IRQ_INPROGRESS d'"
    using assms(2) by (simp_all add: d'_def d_def all)
  show "length (irq_descs (start_line B irq new k)) = 28" "kstat_irqs (start_line B irq new k) = kstat_irqs k"
    using assms(2) by (simp_all add: all)
qed

lemma setup_ok:
  assumes "vic_bus B E" "kernel_ok E k" "irq < NR_IRQS" "setup_irq B irq new k = (r, k')"
  shows "kernel_ok E k'"
proof (cases "r = 0")
  case False
  then have "k' = k" using assms(4) by (auto simp: setup_irq_def Let_def split: if_splits)
  then show ?thesis using assms(2) by simp
next
  case True
  note o = kernel_okD [OF assms(2,3)]
  let ?old = "action (desc_of irq k)"
  define k1 where "k1 = (if flags new AND IRQF_NOBALANCING \<noteq> 0 then put_desc irq (set_status IRQ_NO_BALANCING) (put_desc irq (\<lambda>d. d\<lparr>action := ?old @ [new]\<rparr>) k)
     else put_desc irq (\<lambda>d. d\<lparr>action := ?old @ [new]\<rparr>) k)"
  have k': "k' = put_desc irq (\<lambda>d. d\<lparr>irq_count := 0, irqs_unhandled := 0\<rparr>) (if ?old = [] then start_line B irq new k1 else k1)"
    using assms(4) True by (auto simp: setup_irq_def Let_def k1_def EINVAL_def ENOSYS_def EBUSY_def split: if_splits)
  have k1: "length (irq_descs k1) = 28" "kstat_irqs k1 = kstat_irqs k" "line_on E j k1 = line_on E j k" "j < NR_IRQS \<Longrightarrow> j \<noteq> irq \<Longrightarrow> desc_of j k1 = desc_of j k"
    "chip (desc_of irq k1) = Lpc22xx_vic_chip" "handle_irq (desc_of irq k1) = Some Handle_level_irq"
    "action (desc_of irq k1) = ?old @ [new]" "depth (desc_of irq k1) = depth (desc_of irq k)"
    "has_status IRQ_DISABLED (desc_of irq k1) = has_status IRQ_DISABLED (desc_of irq k)"
    "has_status IRQ_INPROGRESS (desc_of irq k1) = has_status IRQ_INPROGRESS (desc_of irq k)" for j
    using o assms(3) by (auto simp: k1_def irq_simps)
  note st = start_desc [OF assms(1,3) _ k1(1,5,6), where new = new]
  show ?thesis
  proof (rule kernel_okI [OF assms(2), where irq = irq])
    show "line_ok E irq k'"
      using o assms(3) k1 st(2-6) [OF assms(3)] by (auto simp: line_ok_def Let_def k' irq_simps)
    show "length (irq_descs k') = 28" "length (kstat_irqs k') = 28"
      using k1(1,2) st(6,7) [OF assms(3)] assms(2) by (simp_all add: k' irq_simps kernel_ok_def)
    show "desc_of j k' = desc_of j k \<and> line_on E j k' = line_on E j k" if "j < NR_IRQS" "j \<noteq> irq" for j
      using that k1 st(1,2,6) [OF that(1)] by (simp add: k' irq_simps)
  qed
qed

lemma request_ok:
  assumes "vic_bus B E" "kernel_ok E k" "request_irq B got irq h fl did k = (r, k')"
  shows "kernel_ok E k'"
  using assms setup_ok [OF assms(1,2)] by (auto simp: request_irq_def not_le split: if_splits)

lemma free_ok:
  assumes "vic_bus B E" "kernel_ok E k"
  shows "kernel_ok E (free_irq B irq did k)"
proof (cases "irq < NR_IRQS \<and> drop_action did (action (desc_of irq k)) \<noteq> None")
  case False
  then have "free_irq B irq did k = k" by (auto simp: free_irq_def not_le)
  then show ?thesis using assms(2) by simp
next
  case True
  then have irq: "irq < NR_IRQS" by simp
  obtain as where as: "drop_action did (action (desc_of irq k)) = Some as" using True by auto
  note o = kernel_okD [OF assms(2) irq]
  have ne: "action (desc_of irq k) \<noteq> []" using as by auto
  let ?k = "put_desc irq (set_status IRQ_DISABLED) (put_desc irq (\<lambda>d. d\<lparr>action := as\<rparr>) k)"
  have f: "free_irq B irq did k = (if as = [] then put_desc irq (set_status IRQ_MASKED) (chip_mask B irq ?k) else put_desc irq (\<lambda>d. d\<lparr>action := as\<rparr>) k)"
    using irq as o by (simp add: free_irq_def not_le chip_shutdown_def default_shutdown_def irq_simps Let_def)
  have m: "line_on E j (chip_mask B irq ?k) \<longleftrightarrow> j \<noteq> irq \<and> line_on E j k" if "j < NR_IRQS" for j
    using chip_on(1) [OF assms(1) irq that, of ?k] irq o by (simp add: irq_simps)
  show ?thesis
  proof (rule kernel_okI [OF assms(2), where irq = irq])
    show "line_ok E irq (free_irq B irq did k)"
      using o irq ne by (auto simp: line_ok_def Let_def f m irq_simps)
  qed (use o assms(2) irq m in \<open>auto simp: f irq_simps kernel_ok_def\<close>)
qed

section \<open>An interrupt\<close>

lemma note_desc:
  fixes r :: u32
  assumes "irq < NR_IRQS" "j < NR_IRQS" "length (irq_descs k) = 28"
  defines "d \<equiv> desc_of irq k" and "d' \<equiv> desc_of irq (note_interrupt irq r k)"
  shows "j \<noteq> irq \<Longrightarrow> desc_of j (note_interrupt irq r k) = desc_of j k" "line_on E j (note_interrupt irq r k) = line_on E j k"
    "chip d' = chip d \<and> action d' = action d \<and> handle_irq d' = handle_irq d"
    "has_status IRQ_INPROGRESS d' = has_status IRQ_INPROGRESS d"
    "has_status IRQ_DISABLED d' \<and> depth d' = 1 \<or> has_status IRQ_DISABLED d' = has_status IRQ_DISABLED d \<and> depth d' = depth d"
    "length (irq_descs (note_interrupt irq r k)) = 28" "kstat_irqs (note_interrupt irq r k) = kstat_irqs k"
  using assms by (simp_all add: note_interrupt_def Let_def default_disable_def irq_simps)

text \<open>
  Serving a line. Whatever the handlers do, as long as they leave the layer in order the line ends in order:
  unmasked when it is enabled.
\<close>

lemma service_ok:
  assumes "vic_bus B E" "irq < NR_IRQS" "kernel_ok E (snd (handle_IRQ_event H irq (action (desc_of irq k)) (put_desc irq (set_status IRQ_INPROGRESS) k)))"
  shows "kernel_ok E (service B H irq k)"
proof -
  obtain r k1 where h: "handle_IRQ_event H irq (action (desc_of irq k)) (put_desc irq (set_status IRQ_INPROGRESS) k) = (r, k1)"
    by (cases "handle_IRQ_event H irq (action (desc_of irq k)) (put_desc irq (set_status IRQ_INPROGRESS) k)")
  have k1: "kernel_ok E k1" using assms(3) h by simp
  note o = kernel_okD [OF k1 assms(2)]
  note n = note_desc [OF assms(2) _ o(1), where r = r]
  define k2 where "k2 = put_desc irq (clr_status IRQ_INPROGRESS) (note_interrupt irq r k1)"
  have k2: "length (irq_descs k2) = 28" "kstat_irqs k2 = kstat_irqs k1"
    "desc_of irq k2 = clr_status IRQ_INPROGRESS (desc_of irq (note_interrupt irq r k1))"
    using n(6,7) [OF assms(2)] assms(2) by (simp_all add: k2_def irq_simps)
  have k2o: "desc_of j k2 = desc_of j k1" "line_on E j k2 = line_on E j k1" if "j < NR_IRQS" "j \<noteq> irq" for j
    using that n(1,2,6) [OF that(1)] by (simp_all add: k2_def irq_simps)
  have c: "chip (desc_of irq k2) = Lpc22xx_vic_chip" using n(3) [OF assms(2)] o k2(3) by (simp add: irq_simps)
  have s: "service B H irq k = (if has_status IRQ_DISABLED (desc_of irq k2) then k2 else chip_unmask B irq k2)"
    by (simp add: service_def Let_def h k2_def)
  note u = chip_on(2) [OF assms(1,2) _ c]
  show ?thesis
  proof (rule kernel_okI [OF k1, where irq = irq])
    show "line_ok E irq (service B H irq k)"
      using o n(3-5) [OF assms(2)] k2 u [OF assms(2)] by (auto simp: s line_ok_def Let_def irq_simps)
    show "length (irq_descs (service B H irq k)) = 28" "length (kstat_irqs (service B H irq k)) = 28"
      using k2 k1 by (simp_all add: s irq_simps kernel_ok_def)
    show "desc_of j (service B H irq k) = desc_of j k1 \<and> line_on E j (service B H irq k) = line_on E j k1" if "j < NR_IRQS" "j \<noteq> irq" for j
      using that k2o [OF that] u [OF that(1)] by (simp add: s irq_simps)
  qed
qed

text \<open>The state in which the handlers of a line start: masked, marked as being served, everything else as it was.\<close>

definition serving :: "'d bus \<Rightarrow> u32 \<Rightarrow> 'd kernel \<Rightarrow> 'd kernel" where
  "serving B irq k = put_desc irq (set_status IRQ_INPROGRESS)
     (count_irq irq (put_desc irq (clr_status (IRQ_REPLAY OR IRQ_WAITING)) (mask_ack_irq B irq k)))"

lemma serving_state:
  assumes "vic_bus B E" "kernel_ok E k" "irq < NR_IRQS" "j < NR_IRQS"
  shows "line_on E j (serving B irq k) \<longleftrightarrow> j \<noteq> irq \<and> line_on E j k" "has_status IRQ_INPROGRESS (desc_of irq (serving B irq k))"
    "has_status IRQ_DISABLED (desc_of irq (serving B irq k)) = has_status IRQ_DISABLED (desc_of irq k)"
    "kernel_ok E (serving B irq k)"
proof -
  note o = kernel_okD [OF assms(2,3)] and m = chip_on(3) [OF assms(1,3)]
  note all = serving_def irq_simps
  show "line_on E j (serving B irq k) \<longleftrightarrow> j \<noteq> irq \<and> line_on E j k" using m [OF assms(4)] o assms(3) by (simp add: all)
  show i: "has_status IRQ_INPROGRESS (desc_of irq (serving B irq k))" using o assms(3) by (simp add: all)
  show d: "has_status IRQ_DISABLED (desc_of irq (serving B irq k)) = has_status IRQ_DISABLED (desc_of irq k)"
    using o assms(3) by (simp add: all)
  show "kernel_ok E (serving B irq k)"
  proof (rule kernel_okI [OF assms(2), where irq = irq])
    show "line_ok E irq (serving B irq k)" using o assms(3) i d by (auto simp: line_ok_def Let_def all)
  qed (use assms o m in \<open>auto simp: all kernel_ok_def\<close>)
qed

text \<open>A masked line that is disabled or being served already stays in order.\<close>

lemma masked_ok:
  assumes "vic_bus B E" "kernel_ok E k" "irq < NR_IRQS" "has_status IRQ_DISABLED (desc_of irq k) \<or> has_status IRQ_INPROGRESS (desc_of irq k)"
  shows "kernel_ok E (mask_ack_irq B irq k)"
    "kernel_ok E (count_irq irq (put_desc irq (clr_status (IRQ_REPLAY OR IRQ_WAITING)) (mask_ack_irq B irq k)))"
proof -
  note o = kernel_okD [OF assms(2,3)] and m = chip_on(3) [OF assms(1,3)]
  show 1: "kernel_ok E (mask_ack_irq B irq k)"
  proof (rule kernel_okI [OF assms(2), where irq = irq])
    show "line_ok E irq (mask_ack_irq B irq k)" using o assms(3,4) by (auto simp: line_ok_def Let_def irq_simps)
  qed (use assms o m in \<open>auto simp: irq_simps kernel_ok_def\<close>)
  show "kernel_ok E (count_irq irq (put_desc irq (clr_status (IRQ_REPLAY OR IRQ_WAITING)) (mask_ack_irq B irq k)))"
  proof (rule kernel_okI [OF 1, where irq = irq])
    show "line_ok E irq (count_irq irq (put_desc irq (clr_status (IRQ_REPLAY OR IRQ_WAITING)) (mask_ack_irq B irq k)))"
      using o assms(3,4) by (auto simp: line_ok_def Let_def irq_simps)
  qed (use assms o m in \<open>auto simp: irq_simps kernel_ok_def\<close>)
qed

section \<open>The kernel as a state machine\<close>

text \<open>
  What a driver does to the layer: it disables, enables, requests and frees lines, works on its device and
  lets time pass. It enables only lines somebody uses, and does not disable one \<open>2 ^ 32\<close> times.
\<close>

inductive driver_step :: "'d bus \<Rightarrow> ('d \<Rightarrow> u32) \<Rightarrow> 'd kernel \<Rightarrow> 'd kernel \<Rightarrow> bool" for B E where
  disable: "irq < NR_IRQS \<Longrightarrow> depth (desc_of irq k) + 1 \<noteq> 0 \<Longrightarrow> driver_step B E k (disable_irq B irq k)"
| enable: "irq < NR_IRQS \<Longrightarrow> action (desc_of irq k) \<noteq> [] \<Longrightarrow> driver_step B E k (enable_irq B irq k)"
| request: "request_irq B got irq h fl did k = (r, k') \<Longrightarrow> driver_step B E k k'"
| free: "driver_step B E k (free_irq B irq did k)"
| device: "E (dev m) = E (dev (hw k)) \<Longrightarrow> driver_step B E k (k\<lparr>hw := m, jiffies := t\<rparr>)"

definition handlers_ok :: "'d bus \<Rightarrow> ('d \<Rightarrow> u32) \<Rightarrow> (nat \<Rightarrow> u32 \<Rightarrow> u32 \<Rightarrow> 'd kernel \<Rightarrow> u32 \<times> 'd kernel) \<Rightarrow> bool" where
  "handlers_ok B E H \<longleftrightarrow> (\<forall>h irq did k. (driver_step B E)\<^sup>*\<^sup>* k (snd (H h irq did k)))"

inductive irq_step :: "'d bus \<Rightarrow> ('d \<Rightarrow> u32) \<Rightarrow> (nat \<Rightarrow> u32 \<Rightarrow> u32 \<Rightarrow> 'd kernel \<Rightarrow> u32 \<times> 'd kernel) \<Rightarrow> 'd kernel \<Rightarrow> 'd kernel \<Rightarrow> bool" for B E H where
  driver: "driver_step B E k k' \<Longrightarrow> irq_step B E H k k'"
| interrupt: "irq < NR_IRQS \<Longrightarrow> asm_do_IRQ B H irq k = Inr k' \<Longrightarrow> irq_step B E H k k'"

inductive_cases irq_stepE: "irq_step B E H k k'"

lemma kernel_ok_frame: "kernel_ok E k \<Longrightarrow> E (dev m) = E (dev (hw k)) \<Longrightarrow> kernel_ok E (k\<lparr>hw := m, jiffies := t\<rparr>)"
  by (simp add: kernel_ok_def line_ok_def line_on_def desc_of_def)

lemma kernel_ok_irqs_on [simp]: "kernel_ok E (k\<lparr>irqs_on := b\<rparr>) = kernel_ok E k"
  by (simp add: kernel_ok_def line_ok_def line_on_def desc_of_def)

lemma driver_step_ok: "driver_step B E k k' \<Longrightarrow> vic_bus B E \<Longrightarrow> kernel_ok E k \<Longrightarrow> kernel_ok E k'"
  by (induction rule: driver_step.induct) (auto intro: disable_ok enable_ok request_ok free_ok kernel_ok_frame)

lemma driver_steps_ok: "(driver_step B E)\<^sup>*\<^sup>* k k' \<Longrightarrow> vic_bus B E \<Longrightarrow> kernel_ok E k \<Longrightarrow> kernel_ok E k'"
  by (induction rule: rtranclp_induct) (auto intro: driver_step_ok)

lemma run_actions_ok:
  "vic_bus B E \<Longrightarrow> handlers_ok B E H \<Longrightarrow> kernel_ok E k \<Longrightarrow> kernel_ok E (snd (run_actions H irq as k))"
proof (induction as arbitrary: k)
  case (Cons a as)
  have "kernel_ok E (snd (H (handler a) irq (dev_id a) k))"
    using Cons.prems driver_steps_ok unfolding handlers_ok_def by blast
  then show ?case using Cons.IH [OF Cons.prems(1,2)] by (simp add: case_prod_unfold Let_def)
qed simp

lemma event_ok: "vic_bus B E \<Longrightarrow> handlers_ok B E H \<Longrightarrow> kernel_ok E k \<Longrightarrow> kernel_ok E (snd (handle_IRQ_event H irq as k))"
  using run_actions_ok [of B E H "k\<lparr>irqs_on := True\<rparr>" irq as] run_actions_ok [of B E H k irq as]
  by (auto simp: handle_IRQ_event_def Let_def split: prod.splits)

text \<open>The three ways an interrupt of a set-up line goes.\<close>

lemma level_cases:
  assumes "vic_bus B E" "kernel_ok E k" "irq < NR_IRQS"
  defines "d \<equiv> desc_of irq k"
  shows "has_status IRQ_INPROGRESS d \<Longrightarrow> asm_do_IRQ B H irq k = Inr (mask_ack_irq B irq k)"
    "\<not> has_status IRQ_INPROGRESS d \<Longrightarrow> has_status IRQ_DISABLED d \<Longrightarrow>
       asm_do_IRQ B H irq k = Inr (count_irq irq (put_desc irq (clr_status (IRQ_REPLAY OR IRQ_WAITING)) (mask_ack_irq B irq k)))"
    "\<not> has_status IRQ_INPROGRESS d \<Longrightarrow> \<not> has_status IRQ_DISABLED d \<Longrightarrow> asm_do_IRQ B H irq k =
       Inr (service B H irq (count_irq irq (put_desc irq (clr_status (IRQ_REPLAY OR IRQ_WAITING)) (mask_ack_irq B irq k))))"
proof -
  note o = kernel_okD [OF assms(2,3)]
  have n: "\<not> NR_IRQS \<le> irq" using assms(3) by simp
  have a: "\<not> has_status IRQ_DISABLED d \<Longrightarrow> action d \<noteq> []" using o(4) by (auto simp: line_ok_def Let_def d_def)
  show "has_status IRQ_INPROGRESS d \<Longrightarrow> asm_do_IRQ B H irq k = Inr (mask_ack_irq B irq k)"
    "\<not> has_status IRQ_INPROGRESS d \<Longrightarrow> has_status IRQ_DISABLED d \<Longrightarrow>
       asm_do_IRQ B H irq k = Inr (count_irq irq (put_desc irq (clr_status (IRQ_REPLAY OR IRQ_WAITING)) (mask_ack_irq B irq k)))"
    "\<not> has_status IRQ_INPROGRESS d \<Longrightarrow> \<not> has_status IRQ_DISABLED d \<Longrightarrow> asm_do_IRQ B H irq k =
       Inr (service B H irq (count_irq irq (put_desc irq (clr_status (IRQ_REPLAY OR IRQ_WAITING)) (mask_ack_irq B irq k))))"
    using o assms(3) a n by (simp_all add: asm_do_IRQ_def handle_level_irq_def Let_def d_def irq_simps)
qed

lemma interrupt_ok:
  assumes "vic_bus B E" "handlers_ok B E H" "kernel_ok E k" "irq < NR_IRQS"
  shows "\<exists>k'. asm_do_IRQ B H irq k = Inr k' \<and> kernel_ok E k'"
proof -
  note c = level_cases [OF assms(1,3,4), where H = H] and m = masked_ok [OF assms(1,3,4)]
  note o = kernel_okD [OF assms(3,4)]
  let ?k = "count_irq irq (put_desc irq (clr_status (IRQ_REPLAY OR IRQ_WAITING)) (mask_ack_irq B irq k))"
  have "kernel_ok E (service B H irq ?k)"
    using event_ok [OF assms(1,2) serving_state(4) [OF assms(1,3,4,4)]]
    by (intro service_ok assms) (simp add: serving_def)
  then show ?thesis using c m by (cases "has_status IRQ_INPROGRESS (desc_of irq k)"; cases "has_status IRQ_DISABLED (desc_of irq k)") auto
qed

lemma irq_steps_ok: "(irq_step B E H)\<^sup>*\<^sup>* k k' \<Longrightarrow> vic_bus B E \<Longrightarrow> handlers_ok B E H \<Longrightarrow> kernel_ok E k \<Longrightarrow> kernel_ok E k'"
proof (induction rule: rtranclp_induct)
  case (step y z)
  from step.hyps(2) show ?case
  proof (rule irq_stepE)
    assume "driver_step B E y z"
    then show ?thesis using driver_step_ok step.IH step.prems by blast
  next
    fix irq assume "irq < NR_IRQS" "asm_do_IRQ B H irq y = Inr z"
    then show ?thesis using interrupt_ok [of B E H y irq] step.IH step.prems by auto
  qed
qed simp

section \<open>Initialisation\<close>

lemma numbers: "irq \<in> set irq_numbers \<longleftrightarrow> irq < NR_IRQS" "distinct irq_numbers"
proof -
  show "irq \<in> set irq_numbers \<longleftrightarrow> irq < NR_IRQS"
  proof
    assume "irq < NR_IRQS"
    then show "irq \<in> set irq_numbers" using irq_lt [of irq] by (auto simp: irq_numbers_def NR_IRQS_def image_iff intro!: bexI [of _ "unat irq"])
  next
    assume "irq \<in> set irq_numbers"
    then obtain n where "n < 28" "irq = of_nat n" by (auto simp: irq_numbers_def NR_IRQS_def)
    then show "irq < NR_IRQS" by (simp add: NR_IRQS_def word_less_nat_alt unsigned_of_nat take_bit_nat_eq_self)
  qed
  show "distinct irq_numbers" by (auto simp: irq_numbers_def NR_IRQS_def distinct_map inj_on_def word_of_nat_eq_iff take_bit_nat_eq_self)
qed

text \<open>A loop over lines that changes each descriptor in turn and leaves the hardware.\<close>

lemma foldl_desc:
  assumes "\<And>k i j. i \<in> set js \<Longrightarrow> j < NR_IRQS \<Longrightarrow> length (irq_descs k) = 28 \<Longrightarrow> desc_of j (f k i) = (if j = i then g i (desc_of i k) else desc_of j k)"
    "\<And>k i. i \<in> set js \<Longrightarrow> length (irq_descs k) = 28 \<Longrightarrow> length (irq_descs (f k i)) = 28 \<and> kstat_irqs (f k i) = kstat_irqs k \<and> hw (f k i) = hw k"
    "distinct js" "length (irq_descs k) = 28"
  shows "j < NR_IRQS \<Longrightarrow> desc_of j (foldl f k js) = (if j \<in> set js then g j (desc_of j k) else desc_of j k)"
    "length (irq_descs (foldl f k js)) = 28 \<and> kstat_irqs (foldl f k js) = kstat_irqs k \<and> hw (foldl f k js) = hw k"
proof -
  have "(j < NR_IRQS \<longrightarrow> desc_of j (foldl f k js) = (if j \<in> set js then g j (desc_of j k) else desc_of j k)) \<and>
      length (irq_descs (foldl f k js)) = 28 \<and> kstat_irqs (foldl f k js) = kstat_irqs k \<and> hw (foldl f k js) = hw k"
    using assms
  proof (induction js arbitrary: k)
    case (Cons i js)
    have k: "length (irq_descs (f k i)) = 28" "kstat_irqs (f k i) = kstat_irqs k" "hw (f k i) = hw k" using Cons.prems by auto
    have ih: "(j < NR_IRQS \<longrightarrow> desc_of j (foldl f (f k i) js) = (if j \<in> set js then g j (desc_of j (f k i)) else desc_of j (f k i))) \<and>
        length (irq_descs (foldl f (f k i) js)) = 28 \<and> kstat_irqs (foldl f (f k i) js) = kstat_irqs (f k i) \<and> hw (foldl f (f k i) js) = hw (f k i)"
      by (rule Cons.IH) (use Cons.prems k in simp_all)
    have "j < NR_IRQS \<Longrightarrow> desc_of j (f k i) = (if j = i then g i (desc_of i k) else desc_of j k)"
      using Cons.prems(1) [of i j k] Cons.prems(4) by simp
    moreover have "i \<notin> set js" using Cons.prems(3) by simp
    ultimately show ?case using ih k(2,3) by (cases "j = i") simp_all
  qed simp
  then show "j < NR_IRQS \<Longrightarrow> desc_of j (foldl f k js) = (if j \<in> set js then g j (desc_of j k) else desc_of j k)"
    "length (irq_descs (foldl f k js)) = 28 \<and> kstat_irqs (foldl f k js) = kstat_irqs k \<and> hw (foldl f k js) = hw k" by auto
qed

text \<open>The lines the port leaves disabled when they are requested.\<close>

definition external :: "u32 \<Rightarrow> bool" where
  "external irq \<longleftrightarrow> LPC22xx_INTERRUPT_EINT0 \<le> irq \<and> irq \<le> LPC22xx_INTERRUPT_EINT3"

definition init_desc :: "u32 \<Rightarrow> irq_desc \<Rightarrow> irq_desc" where
  "init_desc irq d = (let d = set_status (IRQ_NOREQUEST OR IRQ_NOPROBE OR IRQ_NOAUTOEN) (d\<lparr>chip := Lpc22xx_vic_chip, handle_irq := Some Handle_level_irq\<rparr>);
     d = clr_status IRQ_NOPROBE (clr_status IRQ_NOREQUEST d) in if external irq then d else clr_status IRQ_NOAUTOEN d)"

lemma init_one_desc:
  assumes "i < NR_IRQS" "length (irq_descs k) = 28"
  shows "j < NR_IRQS \<Longrightarrow> desc_of j (init_one B k i) = (if j = i then init_desc i (desc_of i k) else desc_of j k)"
    "length (irq_descs (init_one B k i)) = 28 \<and> kstat_irqs (init_one B k i) = kstat_irqs k \<and> hw (init_one B k i) = hw k"
proof -
  have n: "\<not> NR_IRQS \<le> i" using assms(1) by simp
  have c: "chip (desc_of i (put_desc i (\<lambda>d. d\<lparr>chip := Lpc22xx_vic_chip\<rparr>) k)) = Lpc22xx_vic_chip" using assms by (simp add: irq_simps)
  note all = init_one_def set_irq_chip_def set_irq_handler_def set_irq_handler_full_def set_irq_flags_def Let_def n c init_desc_def IRQF_VALID_def IRQF_PROBE_def IRQF_NOAUTOEN_def external_def
  show "j < NR_IRQS \<Longrightarrow> desc_of j (init_one B k i) = (if j = i then init_desc i (desc_of i k) else desc_of j k)"
    using assms by (simp add: all irq_simps)
  show "length (irq_descs (init_one B k i)) = 28 \<and> kstat_irqs (init_one B k i) = kstat_irqs k \<and> hw (init_one B k i) = hw k"
    using assms(2) by (simp add: all irq_simps)
qed

lemma init_all:
  fixes B :: "'d bus" and k :: "'d kernel"
  assumes "length (irq_descs k) = 28" "j < NR_IRQS"
  shows "desc_of j (foldl (init_one B) k irq_numbers) = init_desc j (desc_of j k)"
    "length (irq_descs (foldl (init_one B) k irq_numbers)) = 28 \<and> kstat_irqs (foldl (init_one B) k irq_numbers) = kstat_irqs k"
proof -
  have a: "desc_of j (init_one B k i) = (if j = i then init_desc i (desc_of i k) else desc_of j k)"
    if "i \<in> set irq_numbers" "j < NR_IRQS" "length (irq_descs k) = 28" for k :: "'d kernel" and i j
    using init_one_desc(1) [of i k j B] that numbers(1) by simp
  have b: "length (irq_descs (init_one B k i)) = 28 \<and> kstat_irqs (init_one B k i) = kstat_irqs k \<and> hw (init_one B k i) = hw k"
    if "i \<in> set irq_numbers" "length (irq_descs k) = 28" for k :: "'d kernel" and i
    using init_one_desc(2) [of i k B] that numbers(1) by simp
  have "desc_of j (foldl (init_one B) k irq_numbers) = (if j \<in> set irq_numbers then init_desc j (desc_of j k) else desc_of j k)"
    by (rule foldl_desc(1)) (erule (2) a, erule (1) b, rule numbers(2), rule assms(1), rule assms(2))
  then show "desc_of j (foldl (init_one B) k irq_numbers) = init_desc j (desc_of j k)" using numbers(1) [of j] assms(2) by simp
  have "length (irq_descs (foldl (init_one B) k irq_numbers)) = 28 \<and> kstat_irqs (foldl (init_one B) k irq_numbers) = kstat_irqs k \<and>
      hw (foldl (init_one B) k irq_numbers) = hw k"
    by (rule foldl_desc(2)) (erule (2) a, erule (1) b, rule numbers(2), rule assms(1))
  then show "length (irq_descs (foldl (init_one B) k irq_numbers)) = 28 \<and> kstat_irqs (foldl (init_one B) k irq_numbers) = kstat_irqs k" by simp
qed

lemma all_cleared: "\<not> bit (w AND (- 4294967296 :: u32)) n"
proof -
  have "(- 4294967296 :: u32) = 0" by simp
  then show ?thesis by (simp only: and_zero_eq bit_0_eq bot_apply bot_bool_def not_False_eq_True)
qed

text \<open>The kernel as it starts, and after \<^verbatim>\<open>init_IRQ\<close>.\<close>

definition boot_kernel :: "'d kernel \<Rightarrow> bool" where
  "boot_kernel k \<longleftrightarrow> irq_descs k = replicate 28 irq_desc_init \<and> length (kstat_irqs k) = 28"

lemma init_state:
  assumes "vic_bus B E" "boot_kernel k" "irq < NR_IRQS"
  defines "k' \<equiv> init_IRQ B k"
  shows "desc_of irq k' = init_desc irq (set_status (IRQ_NOREQUEST OR IRQ_NOPROBE) irq_desc_init)" "\<not> line_on E irq k'"
    "length (irq_descs k') = 28 \<and> length (kstat_irqs k') = 28"
proof -
  let ?f = "\<lambda>k irq. put_desc irq (set_status (IRQ_NOREQUEST OR IRQ_NOPROBE)) k"
  let ?k1 = "foldl ?f k irq_numbers"
  have l: "length (irq_descs k) = 28" "length (kstat_irqs k) = 28" "desc_of irq k = irq_desc_init"
    using assms(2) irq_lt [OF assms(3)] by (simp_all add: boot_kernel_def desc_of_def)
  have 1: "desc_of irq ?k1 = set_status (IRQ_NOREQUEST OR IRQ_NOPROBE) irq_desc_init"
    "length (irq_descs ?k1) = 28 \<and> kstat_irqs ?k1 = kstat_irqs k \<and> hw ?k1 = hw k"
    using foldl_desc [where f = ?f and g = "\<lambda>i. set_status (IRQ_NOREQUEST OR IRQ_NOPROBE)" and js = irq_numbers and k = k]
      l assms(3) numbers by (auto simp: irq_simps)
  let ?k2 = "on_hw (or_wr B PINSEL1_lx 1) ?k1"
  let ?k3 = "foldl (init_one B) ?k2 irq_numbers"
  have 3: "desc_of irq ?k3 = init_desc irq (desc_of irq ?k2)" "length (irq_descs ?k3) = 28 \<and> kstat_irqs ?k3 = kstat_irqs ?k2"
    using init_all [of ?k2 irq B] 1 assms(3) by (simp_all add: irq_simps)
  show "desc_of irq k' = init_desc irq (set_status (IRQ_NOREQUEST OR IRQ_NOPROBE) irq_desc_init)"
    "length (irq_descs k') = 28 \<and> length (kstat_irqs k') = 28"
    using 1 3 l by (simp_all add: k'_def init_IRQ_def lpc22xx_init_irq_def Let_def irq_simps)
  show "\<not> line_on E irq k'"
    using assms(1) by (simp add: all_cleared k'_def init_IRQ_def lpc22xx_init_irq_def Let_def irq_simps line_on_def vic_bus_def wr8_def
      VICIntEnable_lx_def VICIntEnClr_lx_def VICIntSelect_lx_def VICVectAddr_lx_def EXTMODE_lx_def EXTPOLAR_lx_def EXTINT_lx_def)
qed

lemma init_bits:
  "chip (init_desc irq d) = Lpc22xx_vic_chip" "handle_irq (init_desc irq d) = Some Handle_level_irq" "action (init_desc irq d) = action d"
  "has_status IRQ_DISABLED (init_desc irq d) = has_status IRQ_DISABLED d" "\<not> has_status IRQ_NOREQUEST (init_desc irq d)"
  "has_status IRQ_NOAUTOEN (init_desc irq d) \<longleftrightarrow> external irq"
  by (simp_all add: init_desc_def Let_def irq_simps irq_bits)

lemma init_desc_disabled: "has_status IRQ_DISABLED (set_status b irq_desc_init)" "action (set_status b irq_desc_init) = []"
  by (simp_all add: irq_simps) (simp_all add: irq_desc_init_def has_status_def irq_bits)

lemma init_ok:
  assumes "vic_bus B E" "boot_kernel k"
  shows "kernel_ok E (init_IRQ B k)"
proof -
  have "0 < NR_IRQS" by (simp add: NR_IRQS_def)
  then show ?thesis using init_state [OF assms] by (simp add: kernel_ok_def line_ok_def Let_def init_bits init_desc_disabled)
qed

section \<open>Properties\<close>


text \<open>An interrupt of a line that is disabled or being served runs no handler.\<close>

lemma not_served:
  assumes "vic_bus B E" "kernel_ok E k" "irq < NR_IRQS" "has_status IRQ_DISABLED (desc_of irq k) \<or> has_status IRQ_INPROGRESS (desc_of irq k)"
  shows "\<exists>k'. (\<forall>H. asm_do_IRQ B H irq k = Inr k') \<and> \<not> line_on E irq k'"
proof -
  have "\<not> line_on E irq (mask_ack_irq B irq k)" using chip_on(3) [OF assms(1,3,3)] kernel_okD [OF assms(2,3)] by simp
  then show ?thesis
    using level_cases(1,2) [OF assms(1-3)] assms(4) by (cases "has_status IRQ_INPROGRESS (desc_of irq k)") (auto simp: irq_simps)
qed

text \<open>
  C28. An interrupt in a kernel in order: while the line is disabled or being served, no handler runs and the
  line is left masked. Otherwise the handlers of the line run once, in a state in which the line is masked and
  marked as being served and every other line is as it was; afterwards the line is unmasked unless it has been
  disabled.
\<close>

theorem handlers_run_masked:
  assumes "vic_bus B E" "handlers_ok B E H" "kernel_ok E k" "irq < NR_IRQS"
  shows "if has_status IRQ_DISABLED (desc_of irq k) \<or> has_status IRQ_INPROGRESS (desc_of irq k)
    then \<exists>k'. (\<forall>H'. asm_do_IRQ B H' irq k = Inr k') \<and> \<not> line_on E irq k'
    else \<exists>r k1 k'. handle_IRQ_event H irq (action (desc_of irq k)) (serving B irq k) = (r, k1) \<and>
      has_status IRQ_INPROGRESS (desc_of irq (serving B irq k)) \<and> (\<forall>j < NR_IRQS. line_on E j (serving B irq k) \<longleftrightarrow> j \<noteq> irq \<and> line_on E j k) \<and>
      asm_do_IRQ B H irq k = Inr k' \<and> \<not> has_status IRQ_INPROGRESS (desc_of irq k') \<and>
      (has_status IRQ_DISABLED (desc_of irq k') \<or> line_on E irq k') \<and>
      (\<forall>j < NR_IRQS. j \<noteq> irq \<longrightarrow> line_on E j k' = line_on E j k1)"
proof (cases "has_status IRQ_DISABLED (desc_of irq k) \<or> has_status IRQ_INPROGRESS (desc_of irq k)")
  case True
  then show ?thesis using not_served [OF assms(1,3,4)] by simp
next
  case False
  note o = kernel_okD [OF assms(3,4)]
  obtain r k1 where h: "handle_IRQ_event H irq (action (desc_of irq k)) (serving B irq k) = (r, k1)"
    by (cases "handle_IRQ_event H irq (action (desc_of irq k)) (serving B irq k)")
  note s = serving_state [OF assms(1,3,4)]
  have k1: "kernel_ok E k1" using event_ok [OF assms(1,2) s(4) [OF assms(4)], where irq = irq and as = "action (desc_of irq k)"] h by simp
  note o1 = kernel_okD [OF k1 assms(4)]
  note n = note_desc [OF assms(4) _ o1(1), where r = r]
  let ?k2 = "put_desc irq (clr_status IRQ_INPROGRESS) (note_interrupt irq r k1)"
  let ?k' = "if has_status IRQ_DISABLED (desc_of irq ?k2) then ?k2 else chip_unmask B irq ?k2"
  have "asm_do_IRQ B H irq k = Inr ?k'"
    using level_cases(3) [OF assms(1,3,4)] False h assms(4) o
    by (simp add: service_def Let_def serving_def irq_simps)
  moreover have "\<not> has_status IRQ_INPROGRESS (desc_of irq ?k')" using n(6) [OF assms(4)] assms(4) by (simp add: irq_simps)
  moreover have c: "chip (desc_of irq ?k2) = Lpc22xx_vic_chip" using n(3,6) [OF assms(4)] o1 assms(4) by (simp add: irq_simps)
  have "has_status IRQ_DISABLED (desc_of irq ?k') \<or> line_on E irq ?k'" using chip_on(2) [OF assms(1,4,4) c] by (simp add: chip_frame)
  moreover have "line_on E j ?k' = line_on E j k1" if "j < NR_IRQS" "j \<noteq> irq" for j
    using that n(2) [OF that(1)] chip_on(2) [OF assms(1,4) that(1) c] by (simp add: irq_simps)
  ultimately show ?thesis using False h s(1) s(2) [OF assms(4)] by auto
qed

text \<open>Nested disables.\<close>

lemma disable_desc:
  assumes "kernel_ok E k" "irq < NR_IRQS"
  shows "depth (desc_of irq (disable_irq B irq k)) = depth (desc_of irq k) + 1" "action (desc_of irq (disable_irq B irq k)) = action (desc_of irq k)"
    "has_status IRQ_INPROGRESS (desc_of irq (disable_irq B irq k)) = has_status IRQ_INPROGRESS (desc_of irq k)"
  using kernel_okD [OF assms] assms(2)
  by (simp_all add: disable_irq_def disable_irq_nosync_def default_disable_def Let_def irq_simps not_le del: linorder_not_le)

lemma disabled_times:
  assumes "kernel_ok E k" "irq < NR_IRQS" "depth (desc_of irq k) = 0" "n < 2 ^ 32"
  shows "kernel_ok E ((disable_irq B irq ^^ n) k) \<and> depth (desc_of irq ((disable_irq B irq ^^ n) k)) = of_nat n \<and>
    action (desc_of irq ((disable_irq B irq ^^ n) k)) = action (desc_of irq k) \<and>
    has_status IRQ_INPROGRESS (desc_of irq ((disable_irq B irq ^^ n) k)) = has_status IRQ_INPROGRESS (desc_of irq k)"
  using assms(4)
proof (induction n)
  case (Suc n)
  let ?k = "(disable_irq B irq ^^ n) k"
  have ih: "kernel_ok E ?k" "depth (desc_of irq ?k) = of_nat n" "action (desc_of irq ?k) = action (desc_of irq k)"
    "has_status IRQ_INPROGRESS (desc_of irq ?k) = has_status IRQ_INPROGRESS (desc_of irq k)" using Suc by simp_all
  have "(of_nat n :: u32) + 1 \<noteq> 0"
  proof
    assume "(of_nat n :: u32) + 1 = 0"
    then have "unat (of_nat (Suc n) :: u32) = 0" by (simp add: add.commute)
    then show False using Suc.prems by (simp add: unsigned_of_nat take_bit_nat_eq_self del: of_nat_Suc)
  qed
  then have "kernel_ok E (disable_irq B irq ?k)" using disable_ok [OF ih(1) assms(2)] ih(2) by simp
  then show ?case using disable_desc [OF ih(1) assms(2)] ih by (simp add: add.commute)
qed (use assms in simp)

lemma enabled_times:
  assumes "vic_bus B E" "kernel_ok E k" "irq < NR_IRQS" "action (desc_of irq k) \<noteq> []" "depth (desc_of irq k) = of_nat n" "n < 2 ^ 32" "i \<le> n"
  shows "kernel_ok E ((enable_irq B irq ^^ i) k) \<and> depth (desc_of irq ((enable_irq B irq ^^ i) k)) = of_nat (n - i) \<and>
    action (desc_of irq ((enable_irq B irq ^^ i) k)) = action (desc_of irq k) \<and>
    has_status IRQ_INPROGRESS (desc_of irq ((enable_irq B irq ^^ i) k)) = has_status IRQ_INPROGRESS (desc_of irq k)"
  using assms(7)
proof (induction i)
  case (Suc i)
  let ?k = "(enable_irq B irq ^^ i) k"
  have ih: "kernel_ok E ?k" "depth (desc_of irq ?k) = of_nat (n - i)" "action (desc_of irq ?k) = action (desc_of irq k)"
    "has_status IRQ_INPROGRESS (desc_of irq ?k) = has_status IRQ_INPROGRESS (desc_of irq k)" using Suc by simp_all
  have "unat (of_nat (n - i) :: u32) = n - i" using assms(6) by (simp add: unsigned_of_nat take_bit_nat_eq_self)
  then have "(of_nat (n - i) :: u32) \<noteq> 0" using Suc.prems by (metis Suc_le_lessD unat_0 zero_less_diff less_numeral_extra(3))
  moreover have "of_nat (n - i) - 1 = (of_nat (n - Suc i) :: u32)" using Suc.prems by (simp add: of_nat_diff)
  ultimately show ?case
    using enable_ok [OF assms(1) ih(1) assms(3)] enable_desc(3,5) [OF assms(1) ih(1) assms(3,3)] ih assms(4) by simp
qed (use assms in simp)


lemma setup_first:
  assumes "vic_bus B E" "kernel_ok E k" "irq < NR_IRQS" "action (desc_of irq k) = []"
  defines "auto \<equiv> \<not> has_status IRQ_NOAUTOEN (desc_of irq k)"
  shows "\<exists>k'. setup_irq B irq new k = (0, k') \<and> action (desc_of irq k') = [new] \<and> depth (desc_of irq k') = (if auto then 0 else 1) \<and>
    (has_status IRQ_DISABLED (desc_of irq k') \<longleftrightarrow> \<not> auto) \<and> (line_on E irq k' \<longleftrightarrow> line_on E irq k \<or> auto) \<and>
    \<not> has_status IRQ_INPROGRESS (desc_of irq k') \<and> irqs_unhandled (desc_of irq k') = 0"
proof -
  note o = kernel_okD [OF assms(2,3)]
  define k1 where "k1 = (if flags new AND IRQF_NOBALANCING \<noteq> 0 then put_desc irq (set_status IRQ_NO_BALANCING) (put_desc irq (\<lambda>d. d\<lparr>action := [new]\<rparr>) k)
     else put_desc irq (\<lambda>d. d\<lparr>action := [new]\<rparr>) k)"
  have k1: "length (irq_descs k1) = 28" "chip (desc_of irq k1) = Lpc22xx_vic_chip" "handle_irq (desc_of irq k1) = Some Handle_level_irq"
    "action (desc_of irq k1) = [new]" "line_on E irq k1 = line_on E irq k" "has_status IRQ_DISABLED (desc_of irq k1)" "\<not> has_status IRQ_NOAUTOEN (desc_of irq k1) \<longleftrightarrow> auto"
    using o assms(3,4) by (auto simp: k1_def irq_simps line_ok_def Let_def auto_def)
  note st = start_desc [OF assms(1,3,3) k1(1-3), where new = new]
  have "setup_irq B irq new k = (0, put_desc irq (\<lambda>d. d\<lparr>irq_count := 0, irqs_unhandled := 0\<rparr>) (start_line B irq new k1))"
    using o(2) assms(3,4) linorder_not_le [of NR_IRQS irq] by (simp add: setup_irq_def Let_def k1_def)
  then show ?thesis using st(2-6) k1 assms(3) by (simp add: irq_simps)
qed

text \<open>
  C29. Requesting a line after boot: the action is installed; a line other than the external interrupts is
  enabled and unmasked, an external interrupt stays disabled and masked until the driver enables it once.
\<close>

theorem request_after_boot:
  assumes "vic_bus B E" "boot_kernel k0" "irq < NR_IRQS" "h \<noteq> 0" "fl AND IRQF_SHARED \<noteq> 0 \<longrightarrow> did \<noteq> 0"
  shows "\<exists>k. request_irq B True irq h fl did (init_IRQ B k0) = (0, k) \<and> action (desc_of irq k) = [\<lparr>handler = h, flags = fl, dev_id = did\<rparr>] \<and>
    (has_status IRQ_DISABLED (desc_of irq k) \<longleftrightarrow> external irq) \<and> (line_on E irq k \<longleftrightarrow> \<not> external irq) \<and>
    line_on E irq (enable_irq B irq k) \<and> \<not> has_status IRQ_DISABLED (desc_of irq (enable_irq B irq k))"
proof -
  let ?k = "init_IRQ B k0" and ?new = "\<lparr>handler = h, flags = fl, dev_id = did\<rparr>"
  note i = init_state [OF assms(1-3)] and ok = init_ok [OF assms(1,2)]
  have a: "action (desc_of irq ?k) = []" "\<not> has_status IRQ_NOREQUEST (desc_of irq ?k)" "has_status IRQ_NOAUTOEN (desc_of irq ?k) \<longleftrightarrow> external irq"
    using i(1) by (simp_all add: init_bits init_desc_disabled)
  obtain k where s: "setup_irq B irq ?new ?k = (0, k)" and k: "action (desc_of irq k) = [?new]" "depth (desc_of irq k) = (if external irq then 1 else 0)"
    "has_status IRQ_DISABLED (desc_of irq k) \<longleftrightarrow> external irq" "line_on E irq k \<longleftrightarrow> \<not> external irq"
    using setup_first [OF assms(1) ok assms(3) a(1), of ?new] a(3) i(2) by auto
  have r: "request_irq B True irq h fl did ?k = (0, k)"
    using s a(2) assms(3-5) linorder_not_le [of NR_IRQS irq] by (auto simp: request_irq_def)
  note e = enable_desc [OF assms(1) setup_ok [OF assms(1) ok assms(3) s] assms(3,3)]
  show ?thesis using r k e(2,4) by auto
qed

section \<open>Witnesses\<close>

text \<open>The enable register alone, handlers that only report, and the kernel at boot.\<close>

definition vic_only :: "u32 bus" where
  "vic_only = \<lparr>bus_rd = (\<lambda>a d. (if a = VICIntEnable_lx then d else 0, d)),
     bus_wr = (\<lambda>a v d. if a = VICIntEnable_lx then d OR v else if a = VICIntEnClr_lx then d AND NOT v else d)\<rparr>"

definition report_only :: "nat \<Rightarrow> u32 \<Rightarrow> u32 \<Rightarrow> u32 kernel \<Rightarrow> u32 \<times> u32 kernel" where
  "report_only h irq did k = (IRQ_HANDLED, k)"

definition boot_state :: "u32 kernel" where
  "boot_state = \<lparr>irq_descs = replicate 28 irq_desc_init, kstat_irqs = replicate 28 0, irq_err_count = 0, jiffies = 0, irqs_resend = {},
     irqs_on = False, hw = \<lparr>dev = 0xFF, trace = []\<rparr>\<rparr>"

lemma vic_only_ok: "vic_bus vic_only (\<lambda>d. d)" "handlers_ok vic_only (\<lambda>d. d) report_only" "boot_kernel boot_state"
  by (simp_all add: vic_bus_def vic_only_def handlers_ok_def report_only_def boot_kernel_def boot_state_def VICIntEnable_lx_def VICIntEnClr_lx_def)

lemma uart_irq: "(6 :: u32) < NR_IRQS" "\<not> external 6"
  by (simp_all add: NR_IRQS_def external_def LPC22xx_INTERRUPT_EINT0_def)

text \<open>The serial line after its driver has requested it.\<close>

lemma uart_requested:
  "\<exists>k. (irq_step vic_only (\<lambda>d. d) report_only)\<^sup>*\<^sup>* (init_IRQ vic_only boot_state) k \<and> kernel_ok (\<lambda>d. d) k \<and> action (desc_of 6 k) \<noteq> [] \<and>
     depth (desc_of 6 k) = 0 \<and> \<not> has_status IRQ_DISABLED (desc_of 6 k) \<and> \<not> has_status IRQ_INPROGRESS (desc_of 6 k)"
proof -
  let ?k = "init_IRQ vic_only boot_state" and ?new = "\<lparr>handler = 1, flags = 0, dev_id = 0\<rparr>"
  note ok = init_ok [OF vic_only_ok(1,3)] and i = init_state(1) [OF vic_only_ok(1,3) uart_irq(1)]
  have a: "action (desc_of 6 ?k) = []" "\<not> has_status IRQ_NOREQUEST (desc_of 6 ?k)" "\<not> has_status IRQ_NOAUTOEN (desc_of 6 ?k)"
    using i uart_irq(2) by (simp_all add: init_bits init_desc_disabled)
  obtain k where s: "setup_irq vic_only 6 ?new ?k = (0, k)" and k: "action (desc_of 6 k) = [?new]" "depth (desc_of 6 k) = 0" "\<not> has_status IRQ_DISABLED (desc_of 6 k)"
    "\<not> has_status IRQ_INPROGRESS (desc_of 6 k)"
    using setup_first [OF vic_only_ok(1) ok uart_irq(1) a(1), of ?new] a(3) by auto
  have "request_irq vic_only True 6 1 0 0 ?k = (0, k)" using s a(2) uart_irq(1) linorder_not_le [of NR_IRQS 6] by (simp add: request_irq_def)
  then have r: "(irq_step vic_only (\<lambda>d. d) report_only)\<^sup>*\<^sup>* ?k k" by (blast intro: irq_step.driver driver_step.request)
  then show ?thesis using r k setup_ok [OF vic_only_ok(1) ok uart_irq(1) s] by auto
qed


theorem handlers_run_masked_witness:
  "\<exists>k k'. asm_do_IRQ vic_only report_only 6 k = Inr k' \<and> \<not> line_on (\<lambda>d. d) 6 (serving vic_only 6 k) \<and>
     (has_status IRQ_DISABLED (desc_of 6 k') \<or> line_on (\<lambda>d. d) 6 k')"
proof -
  obtain k where k: "kernel_ok (\<lambda>d. d) k" "\<not> has_status IRQ_DISABLED (desc_of 6 k)" "\<not> has_status IRQ_INPROGRESS (desc_of 6 k)" using uart_requested by blast
  then show ?thesis using handlers_run_masked [OF vic_only_ok(1,2) k(1) uart_irq(1)] uart_irq(1) by auto
qed


theorem request_after_boot_witness:
  "\<exists>k. request_irq vic_only True 6 1 0 0 (init_IRQ vic_only boot_state) = (0, k) \<and> line_on (\<lambda>d. d) 6 k"
  using request_after_boot [OF vic_only_ok(1,3) uart_irq(1), where h = 1 and fl = 0 and did = 0] uart_irq(2) by auto

end
