(* ===== verification/Linux_Time.thy ===== *)
theory Linux_Time
  imports Linux_Irq_Props
begin

text \<open>
  The clock of the Linux port, \<^verbatim>\<open>arch/arm/mach-lpc22xx/time.c\<close> with \<^verbatim>\<open>time.h\<close>, on top of the interrupt layer, and the
  character routine of the kernel's decompressor, \<^verbatim>\<open>uncompress.h\<close>. The core clock \<open>clk\<close> is a parameter of the
  configuration. The kernel's \<^verbatim>\<open>timer_tick\<close> is a parameter of the interrupt handler.
\<close>

section \<open>Definitions\<close>

definition T0IR_lx :: u32 where
  "T0IR_lx = 0xE0004000"

definition T0TCR_lx :: u32 where
  "T0TCR_lx = 0xE0004004"

definition T0TC_lx :: u32 where
  "T0TC_lx = 0xE0004008"

definition T0PR_lx :: u32 where
  "T0PR_lx = 0xE000400C"

definition T0MCR_lx :: u32 where
  "T0MCR_lx = 0xE0004014"

definition T0MR0_lx :: u32 where
  "T0MR0_lx = 0xE0004018"

definition U0THR_lx :: u32 where
  "U0THR_lx = 0xE000C000"

definition U0LSR_lx :: u32 where
  "U0LSR_lx = 0xE000C014"

definition LPC22xx_Fpclk :: "u32 \<Rightarrow> u32" where
  "LPC22xx_Fpclk clk = (clk div 4) * 1"

definition CLOCKS_PER_USEC :: "u32 \<Rightarrow> u32" where
  "CLOCKS_PER_USEC clk = LPC22xx_Fpclk clk div 1000000"

definition MR0_INIT_VALUE :: u32 where
  "MR0_INIT_VALUE = 10"

definition PRESCALE_COUNTER_INIT_VALUE :: "u32 \<Rightarrow> u32" where
  "PRESCALE_COUNTER_INIT_VALUE clk = LPC22xx_Fpclk clk div 1000 - 1"

definition lpc22xx_gettimeoffset :: "'d bus \<Rightarrow> u32 \<Rightarrow> 'd machine \<Rightarrow> fault + u32 \<times> 'd machine" where
  "lpc22xx_gettimeoffset B clk m =
     (let (v, m) = rd B T0TC_lx m in if CLOCKS_PER_USEC clk = 0 then Inl DivByZero else Inr (v div CLOCKS_PER_USEC clk, m))"

definition lpc22xx_timer_interrupt :: "'d bus \<Rightarrow> ('d kernel \<Rightarrow> 'd kernel) \<Rightarrow> u32 \<Rightarrow> u32 \<Rightarrow> 'd kernel \<Rightarrow> u32 \<times> 'd kernel" where
  "lpc22xx_timer_interrupt B timer_tick irq did k =
     (let (v, m) = rd B T0IR_lx (hw k);
          k = k\<lparr>hw := m\<rparr>
      in if v AND 1 = 0 then (IRQ_NONE, k)
         else (IRQ_HANDLED, on_hw (or_wr B T0IR_lx 1) (timer_tick k)))"

definition lpc22xx_timer_irq :: "nat \<Rightarrow> irqaction" where
  "lpc22xx_timer_irq h = \<lparr>handler = h, flags = IRQF_DISABLED OR IRQF_TIMER, dev_id = 0\<rparr>"

definition lpc22xx_time_init :: "'d bus \<Rightarrow> u32 \<Rightarrow> nat \<Rightarrow> 'd kernel \<Rightarrow> 'd kernel" where
  "lpc22xx_time_init B clk h k =
     (let k = on_hw (\<lambda>m.
            let m = and_wr B T0TCR_lx (NOT 1) m;
                m = wr B T0MR0_lx MR0_INIT_VALUE m;
                m = wr B T0PR_lx (PRESCALE_COUNTER_INIT_VALUE clk) m
            in or_wr B T0MCR_lx 3 m) k;
          k = snd (setup_irq B LPC22xx_INTERRUPT_TIMER0 (lpc22xx_timer_irq h) k)
      in on_hw (\<lambda>m.
            let m = lpc22xx_unmask_irq B LPC22xx_INTERRUPT_TIMER0 m;
                m = wr B T0IR_lx 1 m;
                m = wr B T0TCR_lx 2 m
            in wr B T0TCR_lx 1 m) k)"

definition putc_uncompress :: "'d bus \<Rightarrow> char \<Rightarrow> 'd machine \<Rightarrow> 'd machine option" where
  "putc_uncompress B c m = map_option (\<lambda>(v, m). wr8 B U0THR_lx (of_char CHR ''e'') m) (poll B U0LSR_lx (\<lambda>v. v AND 0x20 \<noteq> 0) m)"

section \<open>One timer interrupt\<close>

text \<open>
  The match flag of the timer: a load shows it in bit 0, and a store of a one clears it. What the kernel's
  \<^verbatim>\<open>timer_tick\<close> does to the state modelled here is that one more tick is counted.
\<close>

definition match_flag :: "'d bus \<Rightarrow> ('d \<Rightarrow> bool) \<Rightarrow> bool" where
  "match_flag B pend \<longleftrightarrow> (\<forall>d. (fst (bus_rd B T0IR_lx d) AND 1 \<noteq> 0 \<longleftrightarrow> pend d) \<and> (pend (snd (bus_rd B T0IR_lx d)) \<longleftrightarrow> pend d)) \<and>
     (\<forall>v d. v AND 1 \<noteq> 0 \<longrightarrow> \<not> pend (bus_wr B T0IR_lx v d)) \<and>
     (\<forall>a v d. a \<in> {VICIntEnable_lx, VICIntEnClr_lx, VICVectAddr_lx, EXTINT_lx} \<longrightarrow> (pend (bus_wr B a v d) \<longleftrightarrow> pend d)) \<and>
     (\<forall>d. pend (snd (bus_rd B VICIntEnable_lx d)) \<longleftrightarrow> pend d)"

definition counts_tick :: "('d kernel \<Rightarrow> 'd kernel) \<Rightarrow> bool" where
  "counts_tick timer_tick \<longleftrightarrow> (\<forall>k. timer_tick k = k\<lparr>jiffies := jiffies k + 1\<rparr>)"

definition timer_line :: "('d \<Rightarrow> u32) \<Rightarrow> nat \<Rightarrow> 'd kernel \<Rightarrow> bool" where
  "timer_line E h k \<longleftrightarrow> kernel_ok E k \<and> (let d = desc_of LPC22xx_INTERRUPT_TIMER0 k in action d = [lpc22xx_timer_irq h] \<and>
     \<not> has_status IRQ_DISABLED d \<and> \<not> has_status IRQ_INPROGRESS d \<and> irqs_unhandled d = 0)"

lemma timer_lt: "LPC22xx_INTERRUPT_TIMER0 < NR_IRQS"
  by (simp add: LPC22xx_INTERRUPT_TIMER0_def NR_IRQS_def)

lemma other_regs: "T0IR_lx \<noteq> VICIntEnable_lx" "T0IR_lx \<noteq> VICIntEnClr_lx"
  by (simp_all add: T0IR_lx_def VICIntEnable_lx_def VICIntEnClr_lx_def)

lemma jiffies_frame [irq_simps]:
  "jiffies (on_hw f k) = jiffies k" "jiffies (count_irq irq k) = jiffies k" "jiffies (chip_unmask B irq k) = jiffies k" "jiffies (chip_mask B irq k) = jiffies k"
  "jiffies (mask_ack_irq B irq k) = jiffies k" "jiffies (note_interrupt irq r k) = jiffies k"
  by (auto simp: on_hw_def count_irq_def chip_unmask_def chip_mask_def mask_ack_irq_def chip_ack_def note_interrupt_def Let_def default_disable_def irq_simps
      split: irq_chip.splits)

lemma unhandled_status [irq_simps]: "irqs_unhandled (set_status b d) = irqs_unhandled d" "irqs_unhandled (clr_status b d) = irqs_unhandled d"
  by (simp_all add: set_status_def clr_status_def)

text \<open>A line all of whose interrupts are handled is never given up.\<close>

lemma note_handled:
  assumes "irq < NR_IRQS" "length (irq_descs k) = 28" "irqs_unhandled (desc_of irq k) = 0"
  shows "has_status b (desc_of irq (note_interrupt irq IRQ_HANDLED k)) = has_status b (desc_of irq k)"
    "irqs_unhandled (desc_of irq (note_interrupt irq IRQ_HANDLED k)) = 0" "hw (note_interrupt irq IRQ_HANDLED k) = hw k"
  using assms by (simp_all add: note_interrupt_def Let_def irq_simps)

text \<open>Masking and acknowledging the line leaves the match flag.\<close>

lemma pend_serving:
  assumes "match_flag B pend" "chip (desc_of irq k) = Lpc22xx_vic_chip"
  shows "pend (dev (hw (serving B irq k))) \<longleftrightarrow> pend (dev (hw k))"
  using assms
  by (simp add: serving_def irq_simps mask_ack_irq_def chip_mask_def chip_ack_def lpc22xx_mask_irq_def lpc22xx_mask_ack_irq_def lpc22xx_clear_pb_def
      wr8_def match_flag_def)

lemma pend_unmask:
  assumes "match_flag B pend"
  shows "pend (dev (hw (chip_unmask B irq k))) \<longleftrightarrow> pend (dev (hw k))"
  using assms by (auto simp: chip_unmask_def irq_simps lpc22xx_unmask_irq_def or_wr_def rd_parts match_flag_def)

text \<open>The handler on a pending match.\<close>

lemma timer_handler:
  assumes "vic_bus B E" "match_flag B pend" "counts_tick tick" "pend (dev (hw k))"
  shows "\<exists>m. lpc22xx_timer_interrupt B tick irq did k = (IRQ_HANDLED, k\<lparr>hw := m, jiffies := jiffies k + 1\<rparr>) \<and> \<not> pend (dev m) \<and> E (dev m) = E (dev (hw k))"
proof -
  have o: "(x OR 1) AND 1 \<noteq> (0 :: u32)" for x by (simp add: and_or_nonzero)
  let ?m = "or_wr B T0IR_lx 1 (snd (rd B T0IR_lx (hw k)))"
  have "fst (rd B T0IR_lx (hw k)) AND 1 \<noteq> 0" using assms(2,4) by (simp add: rd_parts match_flag_def)
  then have "lpc22xx_timer_interrupt B tick irq did k = (IRQ_HANDLED, k\<lparr>hw := ?m, jiffies := jiffies k + 1\<rparr>)"
    using assms(3) by (simp add: lpc22xx_timer_interrupt_def counts_tick_def on_hw_def case_prod_unfold Let_def)
  moreover have "\<not> pend (dev ?m)" using assms(2) o by (simp add: or_wr_def rd_parts match_flag_def)
  moreover have "E (dev ?m) = E (dev (hw k))" using assms(1) other_regs by (simp add: or_wr_def rd_parts vic_bus_def)
  ultimately show ?thesis by blast
qed

lemma one_tick:
  assumes "vic_bus B E" "match_flag B pend" "counts_tick tick" "H h = lpc22xx_timer_interrupt B tick" "timer_line E h k" "pend (dev (hw k))"
  shows "\<exists>k'. asm_do_IRQ B H LPC22xx_INTERRUPT_TIMER0 k = Inr k' \<and> timer_line E h k' \<and> jiffies k' = jiffies k + 1 \<and> \<not> pend (dev (hw k'))"
proof -
  let ?i = LPC22xx_INTERRUPT_TIMER0 and ?s = "serving B LPC22xx_INTERRUPT_TIMER0 k"
  have k: "kernel_ok E k" and l: "action (desc_of ?i k) = [lpc22xx_timer_irq h]" "\<not> has_status IRQ_DISABLED (desc_of ?i k)"
    "\<not> has_status IRQ_INPROGRESS (desc_of ?i k)" "irqs_unhandled (desc_of ?i k) = 0"
    using assms(5) by (auto simp: timer_line_def Let_def)
  note o = kernel_okD [OF k timer_lt] and s = serving_state [OF assms(1) k timer_lt timer_lt]
  have p: "pend (dev (hw ?s))" using pend_serving [OF assms(2) o(2)] assms(6) by simp
  obtain m where m: "H h ?i 0 ?s = (IRQ_HANDLED, ?s\<lparr>hw := m, jiffies := jiffies ?s + 1\<rparr>)" "\<not> pend (dev m)" "E (dev m) = E (dev (hw ?s))"
    using timer_handler [OF assms(1-3) p] unfolding assms(4) by blast
  let ?k1 = "?s\<lparr>hw := m, jiffies := jiffies ?s + 1, irqs_on := False\<rparr>"
  have h: "handle_IRQ_event H ?i [lpc22xx_timer_irq h] ?s = (IRQ_HANDLED, ?k1)"
    using m(1) by (simp add: handle_IRQ_event_def lpc22xx_timer_irq_def Let_def IRQF_DISABLED_def IRQF_TIMER_def IRQ_NONE_def)
  have k1: "kernel_ok E ?k1" using kernel_ok_frame [OF s(4) m(3)] by simp
  have d1: "desc_of ?i ?k1 = desc_of ?i ?s" by (simp add: desc_of_def)
  let ?ks = "count_irq ?i (put_desc ?i (clr_status (IRQ_REPLAY OR IRQ_WAITING)) (mask_ack_irq B ?i k))"
  have a: "asm_do_IRQ B H ?i k = Inr (service B H ?i ?ks)" using level_cases(3) [OF assms(1) k timer_lt] l by blast
  have hs: "handle_IRQ_event H ?i (action (desc_of ?i ?ks)) (put_desc ?i (set_status IRQ_INPROGRESS) ?ks) = (IRQ_HANDLED, ?k1)"
    using h l(1) o timer_lt by (simp add: irq_simps serving_def)
  have ok: "kernel_ok E (service B H ?i ?ks)" by (rule service_ok [OF assms(1) timer_lt]) (use hs k1 in simp)
  have u: "irqs_unhandled (desc_of ?i ?s) = 0" "action (desc_of ?i ?s) = [lpc22xx_timer_irq h]" "jiffies ?s = jiffies k"
    using l o timer_lt by (simp_all add: serving_def irq_simps)
  have n: "length (irq_descs ?k1) = 28" "irqs_unhandled (desc_of ?i ?k1) = 0" "\<not> has_status IRQ_DISABLED (desc_of ?i ?k1)"
    using kernel_okD(1) [OF k1 timer_lt] u s(3) l d1 by simp_all
  note nh = note_handled [OF timer_lt n(1,2)] and nd = note_desc(3,6) [OF timer_lt timer_lt n(1), where r = IRQ_HANDLED]
  let ?k2 = "put_desc ?i (clr_status IRQ_INPROGRESS) (note_interrupt ?i IRQ_HANDLED ?k1)"
  have d2: "desc_of ?i ?k2 = clr_status IRQ_INPROGRESS (desc_of ?i (note_interrupt ?i IRQ_HANDLED ?k1))" using nd timer_lt by (simp add: irq_simps)
  have "\<not> has_status IRQ_DISABLED (desc_of ?i ?k2)" using nh(1) n(3) by (simp add: d2 irq_simps)
  then have sv: "service B H ?i ?ks = chip_unmask B ?i ?k2"
    by (simp only: service_def Let_def hs prod.case if_False)
  have "timer_line E h (service B H ?i ?ks)"
    using ok nh(1,2) n(3) nd d2 u(2) d1 by (simp add: timer_line_def Let_def sv irq_simps)
  moreover have "jiffies (service B H ?i ?ks) = jiffies k + 1" using u(3) by (simp add: sv irq_simps)
  moreover have "\<not> pend (dev (hw (service B H ?i ?ks)))" using pend_unmask [OF assms(2)] nh(3) m(2) by (simp add: sv irq_simps)
  ultimately show ?thesis using a by blast
qed

section \<open>The clock from boot on\<close>

text \<open>\<open>n\<close> times the timer matches, which raises the flag, and the interrupt is taken.\<close>

fun timer_run :: "'d bus \<Rightarrow> (nat \<Rightarrow> u32 \<Rightarrow> u32 \<Rightarrow> 'd kernel \<Rightarrow> u32 \<times> 'd kernel) \<Rightarrow> ('d machine \<Rightarrow> 'd machine) \<Rightarrow> nat \<Rightarrow> 'd kernel \<Rightarrow> fault + 'd kernel" where
  "timer_run B H match 0 k = Inr k"
| "timer_run B H match (Suc n) k = bindE (asm_do_IRQ B H LPC22xx_INTERRUPT_TIMER0 (on_hw match k)) (timer_run B H match n)"

lemma timer_line_hw: "timer_line E h k \<Longrightarrow> E (dev (f (hw k))) = E (dev (hw k)) \<Longrightarrow> timer_line E h (on_hw f k)"
  by (simp add: timer_line_def irq_simps kernel_ok_def line_ok_def line_on_def Let_def)

lemma timer_runs:
  assumes "vic_bus B E" "match_flag B pend" "counts_tick tick" "H h = lpc22xx_timer_interrupt B tick"
    "\<And>m. pend (dev (match m)) \<and> E (dev (match m)) = E (dev m)" "timer_line E h k"
  shows "\<exists>k'. timer_run B H match n k = Inr k' \<and> timer_line E h k' \<and> jiffies k' = jiffies k + of_nat n"
  using assms(6)
proof (induction n arbitrary: k)
  case (Suc n)
  have "timer_line E h (on_hw match k)" "pend (dev (hw (on_hw match k)))"
    using timer_line_hw [OF Suc.prems, of match] assms(5) by (simp_all add: irq_simps)
  then obtain k1 where "asm_do_IRQ B H LPC22xx_INTERRUPT_TIMER0 (on_hw match k) = Inr k1" "timer_line E h k1" "jiffies k1 = jiffies k + 1"
    using one_tick [where H = H and h = h and k = "on_hw match k", OF assms(1-4)] by (auto simp: irq_simps)
  then show ?case using Suc.IH [of k1] by (auto simp: algebra_simps)
qed simp

lemma kernel_ok_hw: "kernel_ok E k \<Longrightarrow> E (dev (f (hw k))) = E (dev (hw k)) \<Longrightarrow> kernel_ok E (on_hw f k)"
  by (simp add: irq_simps kernel_ok_def line_ok_def line_on_def Let_def)

lemma timer_regs_E:
  assumes "vic_bus B E" "a \<in> {T0IR_lx, T0TCR_lx, T0PR_lx, T0MCR_lx, T0MR0_lx}"
  shows "E (bus_wr B a v d) = E d"
  using assms by (auto simp: vic_bus_def T0IR_lx_def T0TCR_lx_def T0PR_lx_def T0MCR_lx_def T0MR0_lx_def VICIntEnable_lx_def VICIntEnClr_lx_def)

lemma jiffies_setup: "jiffies (snd (setup_irq B irq new k)) = jiffies k"
  by (simp add: setup_irq_def start_line_def default_startup_def chip_enable_def default_enable_def Let_def irq_simps)

lemma time_init_line:
  assumes "vic_bus B E" "boot_kernel k0"
  shows "timer_line E h (lpc22xx_time_init B clk h (init_IRQ B k0)) \<and> jiffies (lpc22xx_time_init B clk h (init_IRQ B k0)) = jiffies (init_IRQ B k0)"
proof -
  let ?i = LPC22xx_INTERRUPT_TIMER0
  let ?f = "\<lambda>m. or_wr B T0MCR_lx 3 (wr B T0PR_lx (PRESCALE_COUNTER_INIT_VALUE clk) (wr B T0MR0_lx MR0_INIT_VALUE (and_wr B T0TCR_lx (NOT 1) m)))"
  let ?k1 = "on_hw ?f (init_IRQ B k0)"
  have rdE: "E (snd (bus_rd B a d)) = E d" for a d using assms(1) by (simp add: vic_bus_def)
  have k1: "kernel_ok E ?k1"
    by (rule kernel_ok_hw [OF init_ok [OF assms]]) (simp add: or_wr_def and_wr_def rd_parts timer_regs_E [OF assms(1)] rdE)
  have ex: "\<not> external ?i" by (simp add: external_def LPC22xx_INTERRUPT_TIMER0_def LPC22xx_INTERRUPT_EINT0_def)
  have a: "action (desc_of ?i ?k1) = []" "\<not> has_status IRQ_NOAUTOEN (desc_of ?i ?k1)"
    using init_state(1) [OF assms timer_lt] ex by (simp_all add: irq_simps init_bits irq_desc_init_def)
  obtain k2 where s: "setup_irq B ?i (lpc22xx_timer_irq h) ?k1 = (0, k2)" "action (desc_of ?i k2) = [lpc22xx_timer_irq h]"
    "\<not> has_status IRQ_DISABLED (desc_of ?i k2)" "\<not> has_status IRQ_INPROGRESS (desc_of ?i k2)" "line_on E ?i k2" "irqs_unhandled (desc_of ?i k2) = 0"
    using setup_first [OF assms(1) k1 timer_lt a(1), of "lpc22xx_timer_irq h"] a(2) by auto
  let ?g = "\<lambda>m. wr B T0TCR_lx 1 (wr B T0TCR_lx 2 (wr B T0IR_lx 1 (lpc22xx_unmask_irq B ?i m)))"
  have t: "timer_line E h k2" using s setup_ok [OF assms(1) k1 timer_lt s(1)] by (simp add: timer_line_def Let_def)
  have "E (dev (hw k2)) OR irq_bit ?i = E (dev (hw k2))"
    using s(5) by (intro bit_word_eqI) (auto simp: bit_or_iff bit_irq_bit line_on_def)
  then have "E (dev (?g (hw k2))) = E (dev (hw k2))" by (simp add: E_unmask [OF assms(1)] timer_regs_E [OF assms(1)])
  then have "timer_line E h (on_hw ?g k2)" using timer_line_hw [OF t, of ?g] by simp
  moreover have "lpc22xx_time_init B clk h (init_IRQ B k0) = on_hw ?g k2" using s(1) by (simp add: lpc22xx_time_init_def Let_def)
  moreover have "jiffies k2 = jiffies (init_IRQ B k0)" using jiffies_setup [of B ?i "lpc22xx_timer_irq h" ?k1] s(1) by (simp add: irq_simps)
  ultimately show ?thesis by (simp add: irq_simps)
qed


text \<open>
  The offset within a tick: the counter runs in milliseconds, and the code divides it by the clocks of a
  microsecond. With the default core clock of 40 MHz the offset is 0 up to the match.
\<close>

lemma gettimeoffset_zero:
  assumes "fst (bus_rd B T0TC_lx (dev m)) < MR0_INIT_VALUE"
  shows "\<exists>m'. lpc22xx_gettimeoffset B 40000000 m = Inr (0, m')"
proof -
  have "CLOCKS_PER_USEC 40000000 = 10" by (simp add: CLOCKS_PER_USEC_def LPC22xx_Fpclk_def)
  moreover have "fst (bus_rd B T0TC_lx (dev m)) div 10 = 0" using assms by (simp add: MR0_INIT_VALUE_def word_arith_nat_div word_less_nat_alt)
  ultimately show ?thesis by (simp add: lpc22xx_gettimeoffset_def rd_parts)
qed

text \<open>Whatever the decompressor prints, the port sends the letter e.\<close>

lemma putc_uncompress_sends:
  assumes "putc_uncompress B c m = Some m'"
  shows "wrs m' = wrs m @ [(U0THR_lx, 0x65)]"
  using assms by (auto simp: putc_uncompress_def of_char_def dest: wrs_poll)

section \<open>Witness\<close>

definition clock_dev :: "(u32 \<times> bool) bus" where
  "clock_dev = \<lparr>bus_rd = (\<lambda>a d. (if a = VICIntEnable_lx then fst d else if a = T0IR_lx \<and> snd d then 1 else 0, d)),
     bus_wr = (\<lambda>a v d. if a = VICIntEnable_lx then (fst d OR v, snd d) else if a = VICIntEnClr_lx then (fst d AND NOT v, snd d)
       else if a = T0IR_lx \<and> v AND 1 \<noteq> 0 then (fst d, False) else d)\<rparr>"

definition clock_match :: "(u32 \<times> bool) machine \<Rightarrow> (u32 \<times> bool) machine" where
  "clock_match m = m\<lparr>dev := (fst (dev m), True)\<rparr>"

definition count_tick :: "'d kernel \<Rightarrow> 'd kernel" where
  "count_tick k = k\<lparr>jiffies := jiffies k + 1\<rparr>"

definition clock_boot :: "(u32 \<times> bool) kernel" where
  "clock_boot = \<lparr>irq_descs = replicate 28 irq_desc_init, kstat_irqs = replicate 28 0, irq_err_count = 0, jiffies = 0, irqs_resend = {},
     irqs_on = False, hw = \<lparr>dev = (0, False), trace = []\<rparr>\<rparr>"

lemma clock_dev_ok: "vic_bus clock_dev fst" "match_flag clock_dev snd" "counts_tick count_tick" "boot_kernel clock_boot"
  by (simp_all add: vic_bus_def match_flag_def clock_dev_def counts_tick_def count_tick_def boot_kernel_def clock_boot_def
      VICIntEnable_lx_def VICIntEnClr_lx_def T0IR_lx_def VICVectAddr_lx_def EXTINT_lx_def)


end
