(* ===== verification/Linux_Lcd.thy ===== *)
theory Linux_Lcd
  imports Linux_Irq Lpc22xx
begin

text \<open>
  The display driver of the Linux port, \<^verbatim>\<open>drivers/video/ili9325.c\<close> with \<^verbatim>\<open>ili932x.h\<close>: the registers of the panel controller behind an
  index and a data word, the start-up sequences of the two controllers, the copy of the frame buffer to the panel and the delayed work that
  repeats it. Whether the kernel's allocations succeed is a parameter (\<open>alloc\<close>); of the resources held the driver's state
  keeps which are live. Messages, \<^verbatim>\<open>msleep\<close> and the mutex, which only \<open>ili932x_enable\<close> and \<open>ili932x_disable\<close> take, are left out.
\<close>

section \<open>Registers\<close>

definition ILI9325_BASE_INDEX :: u32 where
  [simp]: "ILI9325_BASE_INDEX = 0x83000000"

definition ILI9325_IOMEM_SIZE :: u32 where
  "ILI9325_IOMEM_SIZE = 0x42"

definition ILI9325_X_RES :: nat where
  "ILI9325_X_RES = 240"

definition ILI9325_Y_RES :: nat where
  "ILI9325_Y_RES = 320"

definition ILI9325_BPP :: nat where
  "ILI9325_BPP = 16"

definition ILI9325_FB_SIZE :: nat where
  "ILI9325_FB_SIZE = ILI9325_X_RES * ILI9325_Y_RES * ILI9325_BPP div 8"

definition ILI9325_CHIP_ID :: u16 where
  "ILI9325_CHIP_ID = 0x9325"

definition ILI9320_CHIP_ID :: u16 where
  "ILI9320_CHIP_ID = 0x9320"

definition ILI9325_DRV_CODE :: u8 where
  [simp]: "ILI9325_DRV_CODE = 0x00"

definition ILI9325_DRV_OUTPUT_CTRL_1 :: u8 where
  [simp]: "ILI9325_DRV_OUTPUT_CTRL_1 = 0x01"

definition ILI9325_LCD_DRV_CTRL :: u8 where
  [simp]: "ILI9325_LCD_DRV_CTRL = 0x02"

definition ILI9325_ENTRY_MOD :: u8 where
  [simp]: "ILI9325_ENTRY_MOD = 0x03"

definition ILI9325_RESIZE_CTRL :: u8 where
  [simp]: "ILI9325_RESIZE_CTRL = 0x04"

definition ILI9325_DIS_CTRL_1 :: u8 where
  [simp]: "ILI9325_DIS_CTRL_1 = 0x07"

definition ILI9325_DIS_CTRL_2 :: u8 where
  [simp]: "ILI9325_DIS_CTRL_2 = 0x08"

definition ILI9325_DIS_CTRL_3 :: u8 where
  [simp]: "ILI9325_DIS_CTRL_3 = 0x09"

definition ILI9325_DIS_CTRL_4 :: u8 where
  [simp]: "ILI9325_DIS_CTRL_4 = 0x0A"

definition ILI9325_RGB_CTRL_1 :: u8 where
  [simp]: "ILI9325_RGB_CTRL_1 = 0x0C"

definition ILI9325_FRAME_MARKER_POS :: u8 where
  [simp]: "ILI9325_FRAME_MARKER_POS = 0x0D"

definition ILI9325_RGB_CTRL_2 :: u8 where
  [simp]: "ILI9325_RGB_CTRL_2 = 0x0F"

definition ILI9325_POW_CTRL_1 :: u8 where
  [simp]: "ILI9325_POW_CTRL_1 = 0x10"

definition ILI9325_POW_CTRL_2 :: u8 where
  [simp]: "ILI9325_POW_CTRL_2 = 0x11"

definition ILI9325_POW_CTRL_3 :: u8 where
  [simp]: "ILI9325_POW_CTRL_3 = 0x12"

definition ILI9325_POW_CTRL_4 :: u8 where
  [simp]: "ILI9325_POW_CTRL_4 = 0x13"

definition ILI9325_GRAM_HADDR :: u8 where
  [simp]: "ILI9325_GRAM_HADDR = 0x20"

definition ILI9325_GRAM_VADDR :: u8 where
  [simp]: "ILI9325_GRAM_VADDR = 0x21"

definition ILI9325_GRAM_DATA :: u8 where
  [simp]: "ILI9325_GRAM_DATA = 0x22"

definition ILI9325_POW_CTRL_7 :: u8 where
  [simp]: "ILI9325_POW_CTRL_7 = 0x29"

definition ILI9325_FRM_RATE_COLOR :: u8 where
  [simp]: "ILI9325_FRM_RATE_COLOR = 0x2B"

definition ILI9325_GAMMA_CTRL_1 :: u8 where
  [simp]: "ILI9325_GAMMA_CTRL_1 = 0x30"

definition ILI9325_GAMMA_CTRL_2 :: u8 where
  [simp]: "ILI9325_GAMMA_CTRL_2 = 0x31"

definition ILI9325_GAMMA_CTRL_3 :: u8 where
  [simp]: "ILI9325_GAMMA_CTRL_3 = 0x32"

definition ILI9325_GAMMA_CTRL_4 :: u8 where
  [simp]: "ILI9325_GAMMA_CTRL_4 = 0x35"

definition ILI9325_GAMMA_CTRL_5 :: u8 where
  [simp]: "ILI9325_GAMMA_CTRL_5 = 0x36"

definition ILI9325_GAMMA_CTRL_6 :: u8 where
  [simp]: "ILI9325_GAMMA_CTRL_6 = 0x37"

definition ILI9325_GAMMA_CTRL_7 :: u8 where
  [simp]: "ILI9325_GAMMA_CTRL_7 = 0x38"

definition ILI9325_GAMMA_CTRL_8 :: u8 where
  [simp]: "ILI9325_GAMMA_CTRL_8 = 0x39"

definition ILI9325_GAMMA_CTRL_9 :: u8 where
  [simp]: "ILI9325_GAMMA_CTRL_9 = 0x3C"

definition ILI9325_GAMMA_CTRL_10 :: u8 where
  [simp]: "ILI9325_GAMMA_CTRL_10 = 0x3D"

definition ILI9325_HOR_ADDR_START :: u8 where
  [simp]: "ILI9325_HOR_ADDR_START = 0x50"

definition ILI9325_HOR_ADDR_END :: u8 where
  [simp]: "ILI9325_HOR_ADDR_END = 0x51"

definition ILI9325_VET_ADDR_START :: u8 where
  [simp]: "ILI9325_VET_ADDR_START = 0x52"

definition ILI9325_VET_ADDR_END :: u8 where
  [simp]: "ILI9325_VET_ADDR_END = 0x53"

definition ILI9325_DRV_OUTPUT_CTRL_2 :: u8 where
  [simp]: "ILI9325_DRV_OUTPUT_CTRL_2 = 0x60"

definition ILI9325_BASE_IMG_CTRL :: u8 where
  [simp]: "ILI9325_BASE_IMG_CTRL = 0x61"

definition ILI9325_VSCROLL_CTRL :: u8 where
  [simp]: "ILI9325_VSCROLL_CTRL = 0x6A"

definition ILI9325_PAR_IMG1_POS :: u8 where
  [simp]: "ILI9325_PAR_IMG1_POS = 0x80"

definition ILI9325_PAR_IMG1_START :: u8 where
  [simp]: "ILI9325_PAR_IMG1_START = 0x81"

definition ILI9325_PAR_IMG1_END :: u8 where
  [simp]: "ILI9325_PAR_IMG1_END = 0x82"

definition ILI9325_PAR_IMG2_POS :: u8 where
  [simp]: "ILI9325_PAR_IMG2_POS = 0x83"

definition ILI9325_PAR_IMG2_START :: u8 where
  [simp]: "ILI9325_PAR_IMG2_START = 0x84"

definition ILI9325_PAR_IMG2_END :: u8 where
  [simp]: "ILI9325_PAR_IMG2_END = 0x85"

definition ILI9325_PAN_CTRL_1 :: u8 where
  [simp]: "ILI9325_PAN_CTRL_1 = 0x90"

definition ILI9325_PAN_CTRL_2 :: u8 where
  [simp]: "ILI9325_PAN_CTRL_2 = 0x92"

definition ILI9325_PAN_CTRL_3 :: u8 where
  [simp]: "ILI9325_PAN_CTRL_3 = 0x93"

definition ILI9325_PAN_CTRL_4 :: u8 where
  [simp]: "ILI9325_PAN_CTRL_4 = 0x95"

definition ILI9325_TIMING_CTRL_1 :: u8 where
  [simp]: "ILI9325_TIMING_CTRL_1 = 0xE3"

definition ILI9325_TIMING_CTRL_2 :: u8 where
  [simp]: "ILI9325_TIMING_CTRL_2 = 0xE7"

definition ILI9325_TIMING_CTRL_3 :: u8 where
  [simp]: "ILI9325_TIMING_CTRL_3 = 0xEF"

definition ILI9325_PAN_CTRL_5 :: u8 where
  [simp]: "ILI9325_PAN_CTRL_5 = 0x97"

definition ILI9325_PAN_CTRL_6 :: u8 where
  [simp]: "ILI9325_PAN_CTRL_6 = 0x98"

section \<open>The bus of the controller\<close>

text \<open>The 16-bit words of the controller lie on two groups of the 18 data lines.\<close>

definition Convert16To18 :: "u32 \<Rightarrow> u32" where
  "Convert16To18 val = (let vl = push_bit 1 val AND 0x1FE; vh = push_bit 2 val AND 0x3FC00 in vh OR vl)"

definition LCDTO16Bit :: "u32 \<Rightarrow> u32" where
  "LCDTO16Bit v = (drop_bit 1 v AND 0xFF) OR (drop_bit 2 v AND 0xFF00)"

definition pixel_word :: "u16 \<Rightarrow> u32" where
  "pixel_word p = (let pixel = ucast p in (push_bit 2 (pixel AND 0xF800) OR push_bit 1 (pixel AND 0x7FF)) OR 0x01001)"

definition ili9325_write_pixel :: "'d bus \<Rightarrow> u32 \<Rightarrow> u16 \<Rightarrow> 'd machine \<Rightarrow> 'd machine" where
  "ili9325_write_pixel B membase pixel m = wr B (membase + 4) (pixel_word pixel) m"

definition ili932x_write_reg :: "'d bus \<Rightarrow> u32 \<Rightarrow> u8 \<Rightarrow> u16 \<Rightarrow> 'd machine \<Rightarrow> fault + 'd machine" where
  "ili932x_write_reg B membase reg data m =
     (if reg > ILI9325_TIMING_CTRL_3 then Inl Bug
      else
        let m = wr B membase (Convert16To18 (ucast reg)) m
        in Inr (wr B (membase + 4) (Convert16To18 (ucast data)) m))"

definition ili932x_read_reg :: "'d bus \<Rightarrow> u32 \<Rightarrow> u8 \<Rightarrow> 'd machine \<Rightarrow> u32 \<times> 'd machine" where
  "ili932x_read_reg B membase reg m =
     (if reg > ILI9325_DRV_CODE then (0, m)
      else
        let m = wr B membase (ucast reg) m;
            (v, m) = rd B (membase + 4) m
        in (LCDTO16Bit v, m))"

text \<open>A sequence of register writes.\<close>

fun write_regs :: "'d bus \<Rightarrow> u32 \<Rightarrow> (u8 \<times> u16) list \<Rightarrow> 'd machine \<Rightarrow> fault + 'd machine" where
  "write_regs B membase [] m = Inr m"
| "write_regs B membase ((reg, data) # rs) m = bindE (ili932x_write_reg B membase reg data m) (write_regs B membase rs)"

section \<open>Start-up of the controllers\<close>

definition pow_on_regs :: "(u8 \<times> u16) list" where
  "pow_on_regs =
     [(ILI9325_POW_CTRL_1, 0x0000), (ILI9325_POW_CTRL_2, 0x0007), (ILI9325_POW_CTRL_3, 0x0000), (ILI9325_POW_CTRL_4, 0x0000),
      (ILI9325_POW_CTRL_1, 0x1690), (ILI9325_POW_CTRL_2, 0x0227), (ILI9325_POW_CTRL_3, 0x001D),
      (ILI9325_POW_CTRL_4, 0x0800), (ILI9325_POW_CTRL_7, 0x0012), (ILI9325_FRM_RATE_COLOR, 0x000B)]"

definition gamma_regs :: "(u8 \<times> u16) list" where
  "gamma_regs =
     [(ILI9325_GAMMA_CTRL_1, 0x0007), (ILI9325_GAMMA_CTRL_2, 0x0707), (ILI9325_GAMMA_CTRL_3, 0x0006), (ILI9325_GAMMA_CTRL_4, 0x0704),
      (ILI9325_GAMMA_CTRL_5, 0x1F04), (ILI9325_GAMMA_CTRL_6, 0x0004), (ILI9325_GAMMA_CTRL_7, 0x0000), (ILI9325_GAMMA_CTRL_8, 0x0706),
      (ILI9325_GAMMA_CTRL_9, 0x0701), (ILI9325_GAMMA_CTRL_10, 0x000F)]"

definition par_dis_regs :: "(u8 \<times> u16) list" where
  "par_dis_regs =
     [(ILI9325_PAR_IMG1_POS, 0), (ILI9325_PAR_IMG1_START, 0), (ILI9325_PAR_IMG1_END, 0),
      (ILI9325_PAR_IMG2_POS, 0), (ILI9325_PAR_IMG2_START, 0), (ILI9325_PAR_IMG2_END, 0)]"

definition pan_regs :: "(u8 \<times> u16) list" where
  "pan_regs =
     [(ILI9325_PAN_CTRL_1, 0x0010), (ILI9325_PAN_CTRL_2, 0x0000), (ILI9325_PAN_CTRL_3, 0x0003), (ILI9325_PAN_CTRL_4, 0x0110),
      (ILI9325_PAN_CTRL_5, 0x0000), (ILI9325_PAN_CTRL_6, 0x0000), (ILI9325_DIS_CTRL_1, 0x0133)]"

definition chip_regs1 :: "(u8 \<times> u16) list" where
  "chip_regs1 =
     [(ILI9325_TIMING_CTRL_1, 0x3008), (ILI9325_TIMING_CTRL_2, 0x0012), (ILI9325_TIMING_CTRL_3, 0x1231),
      (ILI9325_DRV_OUTPUT_CTRL_1, 0x0100), (ILI9325_LCD_DRV_CTRL, 0x0700), (ILI9325_ENTRY_MOD, 0x1030),
      (ILI9325_RESIZE_CTRL, 0x0000), (ILI9325_DIS_CTRL_2, 0x0207), (ILI9325_DIS_CTRL_3, 0x0000), (ILI9325_DIS_CTRL_4, 0x0000),
      (ILI9325_RGB_CTRL_1, 0x0000), (ILI9325_FRAME_MARKER_POS, 0x0000), (ILI9325_RGB_CTRL_2, 0x0000)]"

definition chip_regs2 :: "(u8 \<times> u16) list" where
  "chip_regs2 =
     [(ILI9325_HOR_ADDR_START, 0x0000), (ILI9325_HOR_ADDR_END, 0x00EF), (ILI9325_VET_ADDR_START, 0x0000), (ILI9325_VET_ADDR_END, 0x013F),
      (ILI9325_DRV_OUTPUT_CTRL_2, 0xA700), (ILI9325_BASE_IMG_CTRL, 0x0001), (ILI9325_VSCROLL_CTRL, 0x0000)]"

definition chip_regs3 :: "(u8 \<times> u16) list" where
  "chip_regs3 = [(ILI9325_GRAM_HADDR, 0x0000), (ILI9325_GRAM_VADDR, 0x0000)]"

definition ili9325_pow_on :: "'d bus \<Rightarrow> u32 \<Rightarrow> 'd machine \<Rightarrow> fault + 'd machine" where
  "ili9325_pow_on B membase = write_regs B membase pow_on_regs"

definition ili9325_gamma_adjust :: "'d bus \<Rightarrow> u32 \<Rightarrow> 'd machine \<Rightarrow> fault + 'd machine" where
  "ili9325_gamma_adjust B membase = write_regs B membase gamma_regs"

definition ili9325_par_dis_ctrl :: "'d bus \<Rightarrow> u32 \<Rightarrow> 'd machine \<Rightarrow> fault + 'd machine" where
  "ili9325_par_dis_ctrl B membase = write_regs B membase par_dis_regs"

definition ili9325_pan_ctrl :: "'d bus \<Rightarrow> u32 \<Rightarrow> 'd machine \<Rightarrow> fault + 'd machine" where
  "ili9325_pan_ctrl B membase = write_regs B membase pan_regs"

definition ili9325_chip_init :: "'d bus \<Rightarrow> u32 \<Rightarrow> 'd machine \<Rightarrow> fault + 'd machine" where
  "ili9325_chip_init B membase m =
     bindE (write_regs B membase chip_regs1 m) (\<lambda>m.
     bindE (ili9325_pow_on B membase m) (\<lambda>m.
     bindE (ili9325_gamma_adjust B membase m) (\<lambda>m.
     bindE (write_regs B membase chip_regs2 m) (\<lambda>m.
     bindE (ili9325_par_dis_ctrl B membase m) (\<lambda>m.
     bindE (ili9325_pan_ctrl B membase m) (\<lambda>m.
     bindE (write_regs B membase chip_regs3 m) (\<lambda>m.
     Inr (wr B membase (Convert16To18 (ucast ILI9325_GRAM_DATA)) m))))))))"

definition ili9320_regs :: "(u8 \<times> u16) list" where
  "ili9320_regs =
     [(0xE5, 0x8000), (0x00, 0x0001),
      (0x01, 0x0100), (0x02, 0x0700), (0x03, 0x92B0), (0x04, 0x0000), (0x08, 0x0202), (0x09, 0x0000), (0x0A, 0x0000), (0x0C, 0x0000),
      (0x0D, 0x0000), (0x0F, 0x0000),
      (0x10, 0x0000), (0x11, 0x0007), (0x12, 0x0000), (0x13, 0x0000), (0x10, 0x17B0), (0x11, 0x0007), (0x12, 0x013E),
      (0x13, 0x1F00), (0x29, 0x0013),
      (0x20, 0x0000), (0x21, 0x0000),
      (0x30, 0x0000), (0x31, 0x0404), (0x32, 0x0404), (0x35, 0x0004), (0x36, 0x0404), (0x37, 0x0404), (0x38, 0x0404), (0x39, 0x0707),
      (0x3C, 0x0500), (0x3D, 0x0607),
      (0x50, 0x0000), (0x51, 0x00EF), (0x52, 0x0000), (0x53, 0x013F), (0x60, 0x2700), (0x61, 0x0001), (0x6A, 0x0000),
      (0x80, 0x0000), (0x81, 0x0000), (0x82, 0x0000), (0x83, 0x0000), (0x84, 0x0000), (0x85, 0x0000),
      (0x90, 0x0010), (0x92, 0x0000), (0x93, 0x0003), (0x95, 0x0110), (0x97, 0x0000), (0x98, 0x0000), (0x07, 0x0133)]"

definition ili9320_chip_init :: "'d bus \<Rightarrow> u32 \<Rightarrow> 'd machine \<Rightarrow> fault + 'd machine" where
  "ili9320_chip_init B membase m = write_regs B membase ili9320_regs (wr B IO0SET (push_bit 30 1) m)"

definition ili932x_chip_probe :: "'d bus \<Rightarrow> u32 \<Rightarrow> 'd machine \<Rightarrow> fault + int \<times> 'd machine" where
  "ili932x_chip_probe B membase m =
     (let (id, m) = ili932x_read_reg B membase ILI9325_DRV_CODE m;
          chip_id = (ucast id :: u16)
      in if ILI9325_CHIP_ID = chip_id then bindE (ili9325_chip_init B membase m) (\<lambda>m. Inr (0, m))
         else if ILI9320_CHIP_ID = chip_id then bindE (ili9320_chip_init B membase m) (\<lambda>m. Inr (0, m))
         else Inr (- 1, m))"

section \<open>The driver's state\<close>

text \<open>
  \<open>lcd_ili932x\<close> is the pointer to the device record, with the mapped address in it. The \<open>live\<close> fields say which of the driver's resources it
  holds, and \<open>queued\<close> is the delay of the work when it is queued.
\<close>

record lcd =
  lcd_ili932x :: "u32 option"
  ili932x_buffer :: "u8 list"
  ili932x_change :: u8
  ili932x_updating :: u8
  ili932x_inited :: u8
  ili932x_rate :: u32
  queued :: "u32 option"
  dev_live :: bool
  map_live :: bool
  buf_live :: bool
  wq_live :: bool

definition ili932x_getrate :: "lcd \<Rightarrow> u32" where
  "ili932x_getrate s = ili932x_rate s"

text \<open>Queueing a work that is queued changes nothing.\<close>

definition ili932x_queue :: "lcd \<Rightarrow> fault + lcd" where
  "ili932x_queue s =
     (if ili932x_rate s = 0 then Inl DivByZero
      else if \<not> wq_live s then Inl Dangling
      else Inr (case queued s of None \<Rightarrow> s\<lparr>queued := Some (HZ div ili932x_rate s)\<rparr> | Some _ \<Rightarrow> s))"

definition ili932x_enable :: "lcd \<Rightarrow> fault + u8 \<times> lcd" where
  "ili932x_enable s =
     (if ili932x_updating s = 0 then bindE (ili932x_queue (s\<lparr>ili932x_updating := 1\<rparr>)) (\<lambda>s. Inr (0, s)) else Inr (1, s))"

definition ili932x_disable :: "lcd \<Rightarrow> lcd" where
  "ili932x_disable s = (if ili932x_updating s \<noteq> 0 then s\<lparr>ili932x_updating := 0, queued := None\<rparr> else s)"

definition ili932x_isenabled :: "lcd \<Rightarrow> u8" where
  "ili932x_isenabled s = ili932x_updating s"

definition ili932x_isinited :: "lcd \<Rightarrow> u8" where
  "ili932x_isinited s = ili932x_inited s"

section \<open>Copying the frame buffer\<close>

definition pixel_at :: "u8 list \<Rightarrow> nat \<Rightarrow> u16" where
  "pixel_at buf i = ucast (buf ! (2 * i)) OR push_bit 8 (ucast (buf ! (2 * i + 1)))"

definition write_pixels :: "'d bus \<Rightarrow> u32 \<Rightarrow> u8 list \<Rightarrow> nat \<Rightarrow> 'd machine \<Rightarrow> 'd machine" where
  "write_pixels B membase buf n = fold (\<lambda>i. ili9325_write_pixel B membase (pixel_at buf i)) [0..<n]"

definition ili932x_write_gram :: "'d bus \<Rightarrow> u32 \<Rightarrow> u8 list \<Rightarrow> nat \<Rightarrow> 'd machine \<Rightarrow> fault + 'd machine" where
  "ili932x_write_gram B membase buf sz m =
     bindE (ili932x_write_reg B membase ILI9325_GRAM_HADDR 0x0000 m) (\<lambda>m.
     bindE (ili932x_write_reg B membase ILI9325_GRAM_HADDR 0x0000 m) (\<lambda>m.
       let m = wr B membase (Convert16To18 (ucast ILI9325_GRAM_DATA)) m
       in if length buf < 2 * (sz div 2) then Inl OutOfBounds else Inr (write_pixels B membase buf (sz div 2) m)))"

definition ili932x_update :: "'d bus \<Rightarrow> lcd \<times> 'd machine \<Rightarrow> fault + lcd \<times> 'd machine" where
  "ili932x_update B sm =
     (let (s, m) = sm in
      bindE
        (if ili932x_change s \<noteq> 0 then
           (case lcd_ili932x s of
              None \<Rightarrow> Inl NullDeref
            | Some membase \<Rightarrow>
                if \<not> dev_live s \<or> \<not> buf_live s then Inl Dangling
                else bindE (ili932x_write_gram B membase (ili932x_buffer s) ILI9325_FB_SIZE m) (\<lambda>m. Inr (s\<lparr>ili932x_change := 0\<rparr>, m)))
         else Inr (s, m))
        (\<lambda>(s, m). if ili932x_updating s \<noteq> 0 then bindE (ili932x_queue s) (\<lambda>s. Inr (s, m)) else Inr (s, m)))"

text \<open>The delayed work runs when its delay is over.\<close>

definition run_work :: "'d bus \<Rightarrow> lcd \<times> 'd machine \<Rightarrow> fault + lcd \<times> 'd machine" where
  "run_work B sm = (case queued (fst sm) of None \<Rightarrow> Inr sm | Some _ \<Rightarrow> ili932x_update B ((fst sm)\<lparr>queued := None\<rparr>, snd sm))"

section \<open>Module start and end\<close>

text \<open>What the kernel's allocators answer; \<open>ioremap_to\<close> is 0 on failure.\<close>

record alloc =
  kmalloc_ok :: bool
  ioremap_to :: u32
  vmalloc_ok :: bool
  workqueue_ok :: bool

text \<open>The ends of the error path, from the label named on.\<close>

definition free_dev :: "lcd \<Rightarrow> lcd" where
  "free_dev s = s\<lparr>dev_live := False\<rparr>"

definition free_map :: "lcd \<Rightarrow> lcd" where
  "free_map s = free_dev (s\<lparr>map_live := False, lcd_ili932x := Some 0\<rparr>)"

definition free_buf :: "lcd \<Rightarrow> lcd" where
  "free_buf s = free_map (s\<lparr>buf_live := False\<rparr>)"

definition ili932x_init :: "alloc \<Rightarrow> 'd bus \<Rightarrow> lcd \<times> 'd machine \<Rightarrow> fault + int \<times> lcd \<times> 'd machine" where
  "ili932x_init A B sm =
     (let (s, m) = sm;
          m = and_wr B PINSEL1 (NOT (push_bit 28 0x3)) m;
          m = or_wr B IO0DIR (push_bit 30 1) m;
          m = wr B IO0CLR (push_bit 30 1) m;
          m = wr B BCFG3 0x200FFFE0 m
      in if \<not> kmalloc_ok A then Inr (- ENOMEM, s\<lparr>lcd_ili932x := None\<rparr>, m)
         else
           let s = s\<lparr>lcd_ili932x := Some 0, dev_live := True\<rparr> in
           if ioremap_to A = 0 then Inr (- 1, free_dev s, m)
           else
             let s = s\<lparr>lcd_ili932x := Some (ioremap_to A), map_live := True\<rparr> in
             if \<not> vmalloc_ok A then Inr (- ENOMEM, free_map s, m)
             else
               let s = s\<lparr>buf_live := True\<rparr> in
               if \<not> workqueue_ok A then Inr (- EINVAL, free_buf s, m)
               else
                 let s = s\<lparr>wq_live := True, ili932x_buffer := replicate ILI9325_FB_SIZE 0, ili932x_change := 0\<rparr> in
                 bindE (ili932x_chip_probe B (ioremap_to A) m) (\<lambda>(r, m).
                   if r < 0 then Inr (- EINVAL, free_buf s, m) else Inr (0, s\<lparr>ili932x_inited := 1\<rparr>, m)))"

text \<open>The buffer comes from \<open>vmalloc_32\<close> and is given to \<open>free_page\<close> and then to \<open>kfree\<close>.\<close>

definition ili932x_exit :: "lcd \<Rightarrow> fault + lcd" where
  "ili932x_exit s = (let s = ili932x_disable s; s = s\<lparr>wq_live := False\<rparr> in if buf_live s then Inl BadFree else Inl Dangling)"

end
