(* ===== verification/Linux_Panel.thy ===== *)
theory Linux_Panel
  imports Linux_Lcd
begin

text \<open>
  The display driver of the Linux port with its panel. The controller is not code of the repository: \<open>panel_bus\<close> states what its
  documentation says of a store to the index and the data word, on a view of the device as a panel. The results are that the start-up sequences leave
  the panel ready, that a refresh shows the whole frame buffer and leaves the panel ready, and how module start ends.
\<close>

section \<open>The panel\<close>

text \<open>
  The selected register, the registers, the picture memory and the address counter. A store to the data word of register \<open>0x22\<close> goes to the picture
  memory and moves the counter through the window set by the registers \<open>0x50\<close> to \<open>0x53\<close>, which is stated for the direction the driver sets.
\<close>

record panel =
  sel :: u16
  regs :: "u16 \<Rightarrow> u16"
  gram :: "nat \<times> nat \<Rightarrow> u32"
  ac :: "nat \<times> nat"

definition increasing :: "panel \<Rightarrow> bool" where
  "increasing p \<longleftrightarrow> regs p 0x03 AND 0x38 = 0x30"

definition ac_next :: "panel \<Rightarrow> nat \<times> nat" where
  "ac_next p =
     (if fst (ac p) = unat (regs p 0x51)
      then (unat (regs p 0x50), if snd (ac p) = unat (regs p 0x53) then unat (regs p 0x52) else snd (ac p) + 1)
      else (fst (ac p) + 1, snd (ac p)))"

definition ac_set :: "u16 \<Rightarrow> u16 \<Rightarrow> nat \<times> nat \<Rightarrow> nat \<times> nat" where
  "ac_set r d a = (if r = 0x20 then (unat (d AND 0xFF), snd a) else if r = 0x21 then (fst a, unat (d AND 0x1FF)) else a)"

definition panel_index :: "u16 \<Rightarrow> panel \<Rightarrow> panel" where
  "panel_index r p = p\<lparr>sel := r\<rparr>"

definition panel_reg :: "u16 \<Rightarrow> panel \<Rightarrow> panel" where
  "panel_reg d p = p\<lparr>regs := (regs p)(sel p := d), ac := ac_set (sel p) d (ac p)\<rparr>"

definition panel_pixel :: "u32 \<Rightarrow> panel \<Rightarrow> panel" where
  "panel_pixel v p = p\<lparr>gram := (gram p)(ac p := v), ac := ac_next p\<rparr>"

definition lcd_word :: "u32 \<Rightarrow> u16" where
  "lcd_word v = ucast (LCDTO16Bit v)"

definition panel_bus :: "'d bus \<Rightarrow> u32 \<Rightarrow> ('d \<Rightarrow> panel) \<Rightarrow> bool" where
  "panel_bus B base V \<longleftrightarrow>
     (\<forall>v d. V (bus_wr B base v d) = panel_index (lcd_word v) (V d)) \<and>
     (\<forall>v d. sel (V d) \<noteq> 0x22 \<longrightarrow> V (bus_wr B (base + 4) v d) = panel_reg (lcd_word v) (V d)) \<and>
     (\<forall>v d. sel (V d) = 0x22 \<and> increasing (V d) \<longrightarrow> V (bus_wr B (base + 4) v d) = panel_pixel v (V d)) \<and>
     (\<forall>a v d. a \<noteq> base \<and> a \<noteq> base + 4 \<longrightarrow> V (bus_wr B a v d) = V d) \<and>
     (\<forall>a d. a \<noteq> base + 4 \<or> sel (V d) \<noteq> 0x22 \<longrightarrow> V (snd (bus_rd B a d)) = V d)"

definition panel_code :: "'d bus \<Rightarrow> u32 \<Rightarrow> ('d \<Rightarrow> panel) \<Rightarrow> u16 \<Rightarrow> bool" where
  "panel_code B base V c \<longleftrightarrow> (\<forall>d. sel (V d) = 0 \<longrightarrow> lcd_word (fst (bus_rd B (base + 4) d)) = c)"

definition panel_ready :: "panel \<Rightarrow> bool" where
  "panel_ready p \<longleftrightarrow> increasing p \<and> regs p 0x50 = 0 \<and> regs p 0x51 = 0xEF \<and> regs p 0x52 = 0 \<and> regs p 0x53 = 0x13F \<and> ac p = (0, 0)"

section \<open>Words on the bus\<close>

lemma lcd_masks: "(0x1FE :: u32) = push_bit 1 (Bit_Operations.mask 8)" "(0x3FC00 :: u32) = push_bit 10 (Bit_Operations.mask 8)"
  "(0xFF :: u32) = Bit_Operations.mask 8" "(0xFF00 :: u32) = push_bit 8 (Bit_Operations.mask 8)"
  by (simp_all add: mask_eq_exp_minus_1)

lemma lcd_word_Convert: "lcd_word (Convert16To18 (ucast (w :: u16))) = w"
  unfolding lcd_word_def LCDTO16Bit_def Convert16To18_def Let_def lcd_masks
  by (rule bit_word_eqI) (auto simp: bit_simps simp del: push_bit_numeral push_bit_Suc)

lemma lcd_word_0: "lcd_word 0 = 0"
  by (simp add: lcd_word_def LCDTO16Bit_def)

section \<open>Register sequences\<close>

text \<open>What writing a register other than the picture memory does to the panel.\<close>

definition panel_set :: "u8 \<times> u16 \<Rightarrow> panel \<Rightarrow> panel" where
  "panel_set e p = panel_reg (snd e) (panel_index (ucast (fst e)) p)"

lemma ucast_u8_eq: "(ucast (r :: u8) = (ucast (s :: u8) :: u16)) \<longleftrightarrow> r = s"
proof
  assume "(ucast r :: u16) = ucast s"
  then have "unat (ucast r :: u16) = unat (ucast s :: u16)" by simp
  moreover have "unat r < 256" "unat s < 256" using unsigned_less [of r] unsigned_less [of s] by simp_all
  ultimately show "r = s" by (simp add: unsigned_ucast_eq take_bit_nat_eq_self word_unat_eq_iff)
qed simp

lemma word_of_reg: "(ucast (ucast (r :: u8) :: u16) :: u32) = ucast r"
  by (rule bit_word_eqI) (auto simp: bit_simps dest: bit_imp_le_length)

lemma write_reg_panel:
  assumes "panel_bus B base V" "r \<le> 0xEF" "r \<noteq> 0x22"
  shows "\<exists>m'. ili932x_write_reg B base r d m = Inr m' \<and> V (dev m') = panel_set (r, d) (V (dev m))"
proof -
  have "lcd_word (Convert16To18 (ucast r)) = ucast r" using lcd_word_Convert [of "ucast r"] by (simp add: word_of_reg)
  moreover have "ucast r \<noteq> (0x22 :: u16)" using assms(3) ucast_u8_eq [of r "0x22"] by simp
  ultimately show ?thesis using assms
    by (auto simp: ili932x_write_reg_def panel_set_def panel_bus_def wr_def panel_index_def lcd_word_Convert)
qed

lemma write_regs_panel:
  assumes "panel_bus B base V"
  shows "\<forall>(r, d) \<in> set rs. r \<le> 0xEF \<and> r \<noteq> 0x22 \<Longrightarrow>
    \<exists>m'. write_regs B base rs m = Inr m' \<and> V (dev m') = fold panel_set rs (V (dev m))"
proof (induction rs arbitrary: m)
  case (Cons e rs)
  obtain r d where e: "e = (r, d)" by fastforce
  then obtain m' where m': "ili932x_write_reg B base r d m = Inr m'" "V (dev m') = panel_set (r, d) (V (dev m))"
    using write_reg_panel [OF assms, of r d m] Cons.prems by auto
  with Cons.IH [of m'] Cons.prems e show ?case by auto
qed simp

section \<open>The start-up sequences\<close>

definition chip_regs :: "(u8 \<times> u16) list" where
  "chip_regs = chip_regs1 @ pow_on_regs @ gamma_regs @ chip_regs2 @ par_dis_regs @ pan_regs @ chip_regs3"

lemma write_regs_append: "write_regs B base (rs @ ss) m = bindE (write_regs B base rs m) (write_regs B base ss)"
proof (induction rs arbitrary: m)
  case (Cons e rs)
  then show ?case by (cases e; cases "ili932x_write_reg B base (fst e) (snd e) m") auto
qed simp

lemma bindE_assoc: "bindE (bindE r f) g = bindE r (\<lambda>x. bindE (f x) g)"
  by (cases r) simp_all

lemma ili9325_chip_init_regs:
  "ili9325_chip_init B base m = bindE (write_regs B base chip_regs m) (\<lambda>m. Inr (wr B base (Convert16To18 (ucast ILI9325_GRAM_DATA)) m))"
  by (simp add: ili9325_chip_init_def chip_regs_def ili9325_pow_on_def ili9325_gamma_adjust_def ili9325_par_dis_ctrl_def ili9325_pan_ctrl_def
      write_regs_append bindE_assoc)

lemmas reg_lists = chip_regs_def chip_regs1_def pow_on_regs_def gamma_regs_def chip_regs2_def par_dis_regs_def pan_regs_def chip_regs3_def ili9320_regs_def

lemma panel_set_simps:
  "regs (panel_set (r, d) p) = (regs p)(ucast r := d)" "ac (panel_set (r, d) p) = ac_set (ucast r) d (ac p)" "gram (panel_set (r, d) p) = gram p"
  by (simp_all add: panel_set_def panel_reg_def panel_index_def)

lemma started_ready: "panel_ready (fold panel_set chip_regs p)" "panel_ready (fold panel_set ili9320_regs p)"
  by (simp_all add: panel_ready_def increasing_def reg_lists panel_set_simps ac_set_def)

lemma started_gram: "gram (fold panel_set rs p) = gram p"
  by (induction rs arbitrary: p) (auto simp: panel_set_simps)

section \<open>A refresh\<close>

definition lcd_shows :: "panel \<Rightarrow> u8 list \<Rightarrow> bool" where
  "lcd_shows p buf \<longleftrightarrow> (\<forall>x < ILI9325_X_RES. \<forall>y < ILI9325_Y_RES. gram p (x, y) = pixel_word (pixel_at buf (ILI9325_X_RES * y + x)))"

text \<open>The picture memory after \<open>n\<close> of the pixels.\<close>

definition shown :: "u8 list \<Rightarrow> nat \<Rightarrow> (nat \<times> nat \<Rightarrow> u32) \<Rightarrow> nat \<times> nat \<Rightarrow> u32" where
  "shown buf n g = (\<lambda>(x, y). if x < 240 \<and> y < 320 \<and> 240 * y + x < n then pixel_word (pixel_at buf (240 * y + x)) else g (x, y))"

lemma write_pixels_0 [simp]: "write_pixels B base buf 0 m = m"
  by (simp add: write_pixels_def)

lemma write_pixels_Suc [simp]: "write_pixels B base buf (Suc n) m = ili9325_write_pixel B base (pixel_at buf n) (write_pixels B base buf n m)"
  by (simp add: write_pixels_def)

lemma shown_step:
  assumes "n < 76800"
  shows "(shown buf n g)((n mod 240, n div 240) := pixel_word (pixel_at buf n)) = shown buf (Suc n) g"
proof
  fix a :: "nat \<times> nat"
  obtain x y where a: "a = (x, y)" by fastforce
  have "(x, y) = (n mod 240, n div 240) \<longleftrightarrow> x < 240 \<and> 240 * y + x = n" by auto
  moreover have "n div 240 < 320" using assms by (simp add: less_mult_imp_div_less)
  ultimately show "((shown buf n g)((n mod 240, n div 240) := pixel_word (pixel_at buf n))) a = shown buf (Suc n) g a"
    using assms by (auto simp: a shown_def)
qed

lemma window_step:
  assumes "panel_ready (p\<lparr>ac := (0, 0)\<rparr>)" "ac p = (n mod 240, n div 240 mod 320)"
  shows "ac_next p = (Suc n mod 240, Suc n div 240 mod 320)"
proof -
  have "Suc n mod 240 = (if n mod 240 = 239 then 0 else Suc (n mod 240))" by (simp add: mod_Suc)
  moreover have "Suc n div 240 = (if n mod 240 = 239 then Suc (n div 240) else n div 240)" by (simp add: div_Suc mod_Suc)
  moreover have "Suc q mod 320 = (if q mod 320 = 319 then 0 else Suc (q mod 320))" for q :: nat by (simp add: mod_Suc)
  ultimately show ?thesis using assms by (simp add: ac_next_def panel_ready_def)
qed

lemma write_pixels_panel:
  assumes "panel_bus B base V" "panel_ready (V (dev m))" "sel (V (dev m)) = 0x22"
  shows "n \<le> 76800 \<Longrightarrow> V (dev (write_pixels B base buf n m)) =
    (V (dev m))\<lparr>gram := shown buf n (gram (V (dev m))), ac := (n mod 240, n div 240 mod 320)\<rparr>"
proof (induction n)
  case 0
  show ?case using assms(2) by (simp add: shown_def panel_ready_def)
next
  case (Suc n)
  let ?p = "V (dev (write_pixels B base buf n m))"
  have p: "?p = (V (dev m))\<lparr>gram := shown buf n (gram (V (dev m))), ac := (n mod 240, n div 240)\<rparr>" using Suc by simp
  then have "sel ?p = 0x22" "increasing ?p" using assms(2,3) by (simp_all add: panel_ready_def increasing_def)
  then have "V (dev (write_pixels B base buf (Suc n) m)) = panel_pixel (pixel_word (pixel_at buf n)) ?p"
    using assms(1) by (simp add: ili9325_write_pixel_def panel_bus_def wr_def)
  moreover have "ac_next ?p = (Suc n mod 240, Suc n div 240 mod 320)" 
    by (rule window_step) (use assms(2) p Suc.prems in \<open>simp_all add: panel_ready_def increasing_def\<close>)
  moreover have "gram ?p = shown buf n (gram (V (dev m)))" "ac ?p = (n mod 240, n div 240)" using p by simp_all
  ultimately show ?case using shown_step [of n buf] Suc.prems by (simp add: panel_pixel_def p)
qed

lemma shown_all: "g = shown buf 76800 h \<Longrightarrow> x < 240 \<Longrightarrow> y < 320 \<Longrightarrow> g (x, y) = pixel_word (pixel_at buf (240 * y + x))"
  by (simp add: shown_def)

lemma sel_index: "panel_bus B base V \<Longrightarrow> V (dev (wr B base (Convert16To18 (ucast ILI9325_GRAM_DATA)) m)) = (V (dev m))\<lparr>sel := 0x22\<rparr>"
  using lcd_word_Convert [of "0x22"] by (simp add: panel_bus_def wr_def panel_index_def)

lemma fb_size: "ILI9325_FB_SIZE = 153600"
  by (simp add: ILI9325_FB_SIZE_def ILI9325_X_RES_def ILI9325_Y_RES_def ILI9325_BPP_def)

lemma write_gram_panel:
  assumes "panel_bus B base V" "panel_ready (V (dev m))" "length buf = ILI9325_FB_SIZE"
  shows "\<exists>m'. ili932x_write_gram B base buf ILI9325_FB_SIZE m = Inr m' \<and> panel_ready (V (dev m')) \<and> lcd_shows (V (dev m')) buf"
proof -
  obtain m1 where m1: "ili932x_write_reg B base ILI9325_GRAM_HADDR 0 m = Inr m1" "V (dev m1) = panel_set (0x20, 0) (V (dev m))"
    using write_reg_panel [OF assms(1), of "0x20" 0 m] by auto
  obtain m2 where m2: "ili932x_write_reg B base ILI9325_GRAM_HADDR 0 m1 = Inr m2" "V (dev m2) = panel_set (0x20, 0) (V (dev m1))"
    using write_reg_panel [OF assms(1), of "0x20" 0 m1] by auto
  let ?m3 = "wr B base (Convert16To18 (ucast ILI9325_GRAM_DATA)) m2"
  have m3: "panel_ready (V (dev ?m3))" "sel (V (dev ?m3)) = 0x22"
    unfolding sel_index [OF assms(1)] m2(2) m1(2) using assms(2) by (simp_all add: panel_ready_def increasing_def panel_set_simps ac_set_def)
  let ?m4 = "write_pixels B base buf 76800 ?m3"
  have m4: "V (dev ?m4) = (V (dev ?m3))\<lparr>gram := shown buf 76800 (gram (V (dev ?m3))), ac := (0, 0)\<rparr>"
    using write_pixels_panel [OF assms(1) m3, of 76800 buf] by simp
  have "ili932x_write_gram B base buf ILI9325_FB_SIZE m = Inr ?m4"
    using m1 m2 assms(3) by (simp add: ili932x_write_gram_def fb_size)
  moreover have "panel_ready (V (dev ?m4))" unfolding m4 using m3(1) by (simp add: panel_ready_def increasing_def)
  moreover have "lcd_shows (V (dev ?m4)) buf"
    unfolding m4 lcd_shows_def ILI9325_X_RES_def ILI9325_Y_RES_def by (auto intro: shown_all)
  ultimately show ?thesis by blast
qed

section \<open>The driver on its panel\<close>

text \<open>A driver that holds its resources, on a panel that is ready.\<close>

definition lcd_live :: "u32 \<Rightarrow> lcd \<Rightarrow> bool" where
  "lcd_live base s \<longleftrightarrow> lcd_ili932x s = Some base \<and> dev_live s \<and> map_live s \<and> buf_live s \<and> wq_live s \<and>
     length (ili932x_buffer s) = ILI9325_FB_SIZE"

definition lcd_good :: "u32 \<Rightarrow> ('d \<Rightarrow> panel) \<Rightarrow> lcd \<times> 'd machine \<Rightarrow> bool" where
  "lcd_good base V sm \<longleftrightarrow> lcd_live base (fst sm) \<and> ili932x_rate (fst sm) \<noteq> 0 \<and> panel_ready (V (dev (snd sm))) \<and>
     (ili932x_updating (fst sm) \<noteq> 0 \<longleftrightarrow> queued (fst sm) \<noteq> None)"

definition refresh_delay :: "lcd \<Rightarrow> u32" where
  "refresh_delay s = HZ div ili932x_rate s"

text \<open>The work of the queue, on a changed buffer and on one that is not.\<close>

lemma run_work_changed:
  assumes "panel_bus B base V" "lcd_good base V (s, m)" "queued s \<noteq> None" "ili932x_change s \<noteq> 0"
  shows "\<exists>m'. run_work B (s, m) = Inr (s\<lparr>ili932x_change := 0, queued := Some (refresh_delay s)\<rparr>, m') \<and>
    panel_ready (V (dev m')) \<and> lcd_shows (V (dev m')) (ili932x_buffer s)"
proof -
  obtain m' where "ili932x_write_gram B base (ili932x_buffer s) ILI9325_FB_SIZE m = Inr m'"
    "panel_ready (V (dev m'))" "lcd_shows (V (dev m')) (ili932x_buffer s)"
    using write_gram_panel [OF assms(1), of m "ili932x_buffer s"] assms(2) by (auto simp: lcd_good_def lcd_live_def)
  then show ?thesis using assms(2-4)
    by (auto simp: run_work_def ili932x_update_def ili932x_queue_def lcd_good_def lcd_live_def refresh_delay_def)
qed

lemma run_work_unchanged:
  assumes "lcd_good base V (s, m)" "queued s \<noteq> None" "ili932x_change s = 0"
  shows "run_work B (s, m) = Inr (s\<lparr>queued := Some (refresh_delay s)\<rparr>, m)"
  using assms by (auto simp: run_work_def ili932x_update_def ili932x_queue_def lcd_good_def lcd_live_def refresh_delay_def)

lemma run_work_idle: "queued s = None \<Longrightarrow> run_work B (s, m) = Inr (s, m)"
  by (simp add: run_work_def)

section \<open>Module start\<close>

definition apart :: "u32 \<Rightarrow> bool" where
  "apart base \<longleftrightarrow> (\<forall>a \<in> {PINSEL1, IO0DIR, IO0CLR, IO0SET, BCFG3}. a \<noteq> base \<and> a \<noteq> base + 4)"

lemma other_store: "panel_bus B base V \<Longrightarrow> a \<noteq> base \<Longrightarrow> a \<noteq> base + 4 \<Longrightarrow> V (dev (wr B a v m)) = V (dev m)"
  by (simp add: panel_bus_def wr_def)

lemma other_load: "panel_bus B base V \<Longrightarrow> a \<noteq> base + 4 \<Longrightarrow> V (dev (snd (rd B a m))) = V (dev m)"
  by (simp add: panel_bus_def rd_def split_beta)

lemma other_update:
  assumes "panel_bus B base V" "a \<noteq> base" "a \<noteq> base + 4"
  shows "V (dev (or_wr B a v m)) = V (dev m)" "V (dev (and_wr B a v m)) = V (dev m)"
  using assms by (simp_all add: or_wr_def and_wr_def split_beta panel_bus_def rd_def)

lemma in_range: "\<forall>(r, d) \<in> set chip_regs. r \<le> 0xEF \<and> r \<noteq> 0x22" "\<forall>(r, d) \<in> set ili9320_regs. r \<le> 0xEF \<and> r \<noteq> 0x22"
  by (simp_all add: reg_lists)

lemma ili9325_started:
  assumes "panel_bus B base V"
  shows "\<exists>m'. ili9325_chip_init B base m = Inr m' \<and> panel_ready (V (dev m')) \<and> gram (V (dev m')) = gram (V (dev m))"
proof -
  obtain m1 where m1: "write_regs B base chip_regs m = Inr m1" "V (dev m1) = fold panel_set chip_regs (V (dev m))"
    using write_regs_panel [OF assms in_range(1)] by blast
  let ?m2 = "wr B base (Convert16To18 (ucast ILI9325_GRAM_DATA)) m1"
  have "V (dev ?m2) = (V (dev m1))\<lparr>sel := 0x22\<rparr>" by (rule sel_index [OF assms])
  moreover have "panel_ready (V (dev m1))" "gram (V (dev m1)) = gram (V (dev m))" unfolding m1(2) by (rule started_ready started_gram)+
  ultimately have "panel_ready (V (dev ?m2)) \<and> gram (V (dev ?m2)) = gram (V (dev m))" by (simp only:) (simp add: panel_ready_def increasing_def)
  then show ?thesis by (simp add: ili9325_chip_init_regs m1(1))
qed

lemma ili9320_started:
  assumes "panel_bus B base V" "apart base"
  shows "\<exists>m'. ili9320_chip_init B base m = Inr m' \<and> panel_ready (V (dev m')) \<and> gram (V (dev m')) = gram (V (dev m))"
proof -
  let ?m0 = "wr B IO0SET (push_bit 30 1) m"
  obtain m1 where m1: "write_regs B base ili9320_regs ?m0 = Inr m1" "V (dev m1) = fold panel_set ili9320_regs (V (dev ?m0))"
    using write_regs_panel [OF assms(1) in_range(2)] by blast
  have "V (dev ?m0) = V (dev m)" using assms(2) by (intro other_store [OF assms(1)]) (simp_all add: apart_def)
  then have "panel_ready (V (dev m1))" "gram (V (dev m1)) = gram (V (dev m))" unfolding m1(2) by (simp_all only: started_ready started_gram)
  with m1(1) show ?thesis unfolding ili9320_chip_init_def by blast
qed

text \<open>The probe reads the chip's code and starts the chip it names.\<close>

lemma read_code:
  assumes "panel_bus B base V" "panel_code B base V c"
  shows "\<exists>v m'. ili932x_read_reg B base ILI9325_DRV_CODE m = (v, m') \<and> ucast v = c \<and> gram (V (dev m')) = gram (V (dev m))"
proof -
  let ?m1 = "wr B base 0 m"
  have v: "V (dev ?m1) = (V (dev m))\<lparr>sel := 0\<rparr>" using assms(1) lcd_word_0 by (simp add: panel_bus_def wr_def panel_index_def)
  then have "lcd_word (fst (rd B (base + 4) ?m1)) = c" using assms(2) by (simp add: panel_code_def rd_def split_beta)
  moreover have "V (dev (snd (rd B (base + 4) ?m1))) = V (dev ?m1)" using assms(1) v by (simp add: panel_bus_def rd_def split_beta)
  ultimately show ?thesis using v by (auto simp: ili932x_read_reg_def lcd_word_def split_beta Let_def)
qed

lemma probe_outcome:
  assumes "panel_bus B base V" "panel_code B base V c" "apart base"
  shows "\<exists>m'. ili932x_chip_probe B base m = Inr (if c = ILI9325_CHIP_ID \<or> c = ILI9320_CHIP_ID then 0 else - 1, m') \<and>
    gram (V (dev m')) = gram (V (dev m)) \<and> (c = ILI9325_CHIP_ID \<or> c = ILI9320_CHIP_ID \<longrightarrow> panel_ready (V (dev m')))"
proof -
  obtain v m1 where r: "ili932x_read_reg B base ILI9325_DRV_CODE m = (v, m1)" "ucast v = c" "gram (V (dev m1)) = gram (V (dev m))"
    using read_code [OF assms(1,2)] by blast
  obtain m2 where "ili9325_chip_init B base m1 = Inr m2" "panel_ready (V (dev m2))" "gram (V (dev m2)) = gram (V (dev m1))"
    using ili9325_started [OF assms(1)] by blast
  moreover obtain m3 where "ili9320_chip_init B base m1 = Inr m3" "panel_ready (V (dev m3))" "gram (V (dev m3)) = gram (V (dev m1))"
    using ili9320_started [OF assms(1,3)] by blast
  ultimately show ?thesis using r by (auto simp: ili932x_chip_probe_def)
qed

definition lcd_empty :: "lcd \<Rightarrow> bool" where
  "lcd_empty s \<longleftrightarrow> \<not> dev_live s \<and> \<not> map_live s \<and> \<not> buf_live s \<and> \<not> wq_live s \<and> ili932x_inited s = 0 \<and> ili932x_updating s = 0 \<and> queued s = None"

lemma init_outcome:
  assumes "panel_bus B base V" "panel_code B base V c" "apart base" "base \<noteq> 0" "lcd_empty s" "ioremap_to A = base \<or> ioremap_to A = 0"
  shows "\<exists>r s' m'. ili932x_init A B (s, m) = Inr (r, s', m') \<and> gram (V (dev m')) = gram (V (dev m)) \<and>
    (let mem = kmalloc_ok A \<and> ioremap_to A \<noteq> 0 \<and> vmalloc_ok A \<and> workqueue_ok A; found = (c = ILI9325_CHIP_ID \<or> c = ILI9320_CHIP_ID)
     in if mem \<and> found then
          r = 0 \<and> lcd_live base s' \<and> ili932x_inited s' = 1 \<and> ili932x_buffer s' = replicate ILI9325_FB_SIZE 0 \<and> ili932x_change s' = 0 \<and>
          ili932x_updating s' = 0 \<and> queued s' = None \<and> ili932x_rate s' = ili932x_rate s \<and> panel_ready (V (dev m'))
        else
          r < 0 \<and> ili932x_inited s' = 0 \<and> \<not> dev_live s' \<and> \<not> map_live s' \<and> \<not> buf_live s' \<and> wq_live s' = mem)"
proof -
  let ?m = "wr B BCFG3 0x200FFFE0 (wr B IO0CLR (push_bit 30 1) (or_wr B IO0DIR (push_bit 30 1) (and_wr B PINSEL1 (NOT (push_bit 28 0x3)) m)))"
  have v: "V (dev ?m) = V (dev m)"
    using assms(3) by (simp only: apart_def ball_simps other_store [OF assms(1)] other_update [OF assms(1)] HOL.simp_thms)
  obtain m' where m': "ili932x_chip_probe B base ?m = Inr (if c = ILI9325_CHIP_ID \<or> c = ILI9320_CHIP_ID then 0 else - 1, m')"
    "gram (V (dev m')) = gram (V (dev ?m))" "c = ILI9325_CHIP_ID \<or> c = ILI9320_CHIP_ID \<Longrightarrow> panel_ready (V (dev m'))"
    using probe_outcome [OF assms(1-3)] by blast
  show ?thesis
  proof (cases "kmalloc_ok A \<and> ioremap_to A \<noteq> 0 \<and> vmalloc_ok A \<and> workqueue_ok A")
    case True
    then have b: "ioremap_to A = base" using assms(6) by blast
    show ?thesis
      using True m' v b assms(4,5) unfolding ili932x_init_def Let_def prod.case
      by (auto simp: lcd_live_def lcd_empty_def free_buf_def free_map_def free_dev_def EINVAL_def simp del: PINSEL1_def IO0DIR_def IO0CLR_def BCFG3_def)
  next
    case False
    then show ?thesis
      using v assms(5) unfolding ili932x_init_def Let_def prod.case
      by (auto simp: lcd_empty_def free_buf_def free_map_def free_dev_def EINVAL_def ENOMEM_def simp del: PINSEL1_def IO0DIR_def IO0CLR_def BCFG3_def)
  qed
qed

text \<open>
  C33. Module start answers 0 exactly when every allocation succeeds and the chip says it is an ILI9325 or an ILI9320; then the driver holds its
  resources, the frame buffer is black and marked unchanged, the panel is ready and its picture is the one it had, so what it shows until the first
  change is not the buffer. Otherwise the answer is negative, the driver is not marked initialised, and its memory is given back, but when only the chip is
  missing the work queue is kept and lost.
\<close>

theorem lcd_init_outcome:
  assumes "panel_bus B base V" "panel_code B base V c" "apart base" "base \<noteq> 0" "lcd_empty s" "ioremap_to A = base \<or> ioremap_to A = 0"
  shows "\<exists>r s' m'. ili932x_init A B (s, m) = Inr (r, s', m') \<and> gram (V (dev m')) = gram (V (dev m)) \<and>
    (let mem = kmalloc_ok A \<and> ioremap_to A \<noteq> 0 \<and> vmalloc_ok A \<and> workqueue_ok A; found = (c = ILI9325_CHIP_ID \<or> c = ILI9320_CHIP_ID)
     in if mem \<and> found then
          r = 0 \<and> lcd_live base s' \<and> ili932x_inited s' = 1 \<and> ili932x_buffer s' = replicate ILI9325_FB_SIZE 0 \<and> ili932x_change s' = 0 \<and>
          ili932x_updating s' = 0 \<and> queued s' = None \<and> ili932x_rate s' = ili932x_rate s \<and> panel_ready (V (dev m'))
        else
          r < 0 \<and> ili932x_inited s' = 0 \<and> \<not> dev_live s' \<and> \<not> map_live s' \<and> \<not> buf_live s' \<and> wq_live s' = mem)"
  by (rule init_outcome [OF assms])

section \<open>A panel to run on\<close>

definition panel_dev :: "u16 \<Rightarrow> u32 \<Rightarrow> panel bus" where
  "panel_dev c base =
     \<lparr>bus_rd = (\<lambda>a p. (if a = base + 4 then Convert16To18 (ucast c) else 0, p)),
      bus_wr = (\<lambda>a v p. if a = base then panel_index (lcd_word v) p
                        else if a = base + 4 then (if sel p = 0x22 then panel_pixel v p else panel_reg (lcd_word v) p)
                        else p)\<rparr>"

lemma panel_dev_bus: "panel_bus (panel_dev c base) base id" "panel_code (panel_dev c base) base id c"
  by (simp_all add: panel_bus_def panel_code_def panel_dev_def lcd_word_Convert)

definition panel_off :: panel where
  "panel_off = \<lparr>sel = 0, regs = (\<lambda>_. 0), gram = (\<lambda>_. 0), ac = (0, 0)\<rparr>"

definition panel_on :: panel where
  "panel_on = fold panel_set chip_regs panel_off"

definition lcd_off :: lcd where
  "lcd_off = \<lparr>lcd_ili932x = None, ili932x_buffer = [], ili932x_change = 0, ili932x_updating = 0, ili932x_inited = 0, ili932x_rate = 10, queued = None,
     dev_live = False, map_live = False, buf_live = False, wq_live = False\<rparr>"

definition lcd_on :: lcd where
  "lcd_on = \<lparr>lcd_ili932x = Some ILI9325_BASE_INDEX, ili932x_buffer = replicate ILI9325_FB_SIZE 0, ili932x_change = 1, ili932x_updating = 1, ili932x_inited = 1,
     ili932x_rate = 10, queued = Some 10, dev_live = True, map_live = True, buf_live = True, wq_live = True\<rparr>"

lemma lcd_off_empty: "lcd_empty lcd_off"
  by (simp add: lcd_empty_def lcd_off_def)

lemma lcd_on_good: "dev m = panel_on \<Longrightarrow> lcd_good ILI9325_BASE_INDEX id (lcd_on, m)"
  by (simp add: lcd_good_def lcd_live_def lcd_on_def panel_on_def started_ready)

lemma base_apart: "apart ILI9325_BASE_INDEX"
  by (simp add: apart_def)

theorem lcd_init_outcome_witness:
  "\<exists>s' m'. ili932x_init \<lparr>kmalloc_ok = True, ioremap_to = ILI9325_BASE_INDEX, vmalloc_ok = True, workqueue_ok = True\<rparr>
     (panel_dev 0x1234 ILI9325_BASE_INDEX) (lcd_off, \<lparr>dev = panel_off, trace = []\<rparr>) = Inr (- EINVAL, s', m') \<and>
     \<not> buf_live s' \<and> wq_live s'"
proof -
  let ?A = "\<lparr>kmalloc_ok = True, ioremap_to = ILI9325_BASE_INDEX, vmalloc_ok = True, workqueue_ok = True\<rparr>"
  let ?B = "panel_dev 0x1234 ILI9325_BASE_INDEX"
  let ?m = "\<lparr>dev = panel_off, trace = []\<rparr>"
  obtain r s' m' where "ili932x_init ?A ?B (lcd_off, ?m) = Inr (r, s', m')" "r < 0" "\<not> buf_live s'" "wq_live s'"
    using lcd_init_outcome [OF panel_dev_bus [of "0x1234" ILI9325_BASE_INDEX] base_apart _ lcd_off_empty, of ?A ?m] by (auto simp: ILI9325_CHIP_ID_def ILI9320_CHIP_ID_def)
  moreover from this have "r = - EINVAL" unfolding ili932x_init_def Let_def prod.case by (auto simp: bindE_def split: sum.splits if_splits)
  ultimately show ?thesis by auto
qed

end
