(* ===== verification/Linux_Fb.thy ===== *)
theory Linux_Fb
  imports Linux_Panel
begin

text \<open>
  The frame buffer device over the display driver of the Linux port: \<^verbatim>\<open>drivers/video/ili9325fb.c\<close>, the reads and writes of a frame buffer in memory,
  \<^verbatim>\<open>drivers/video/fb_sys_fops.c\<close>, and what they use of a kernel without memory management unit. What \<^verbatim>\<open>sys_imageblit\<close>, \<^verbatim>\<open>sys_copyarea\<close>
  and \<^verbatim>\<open>sys_fillrect\<close> draw, and the answers of the platform bus and of the frame buffer core, are parameters. Messages are left out.
\<close>

section \<open>User memory\<close>

definition EPERM :: int where
  "EPERM = 1"

definition EAGAIN :: int where
  "EAGAIN = 11"

definition EFAULT :: int where
  "EFAULT = 14"

definition ENODEV :: int where
  "ENODEV = 19"

definition EFBIG :: int where
  "EFBIG = 27"

definition ENOSPC :: int where
  "ENOSPC = 28"

definition PAGE_SIZE :: u32 where
  "PAGE_SIZE = push_bit 12 1"

text \<open>Every address is user memory here, so a copy is complete; \<open>ub\<close> is the memory at the user's address.\<close>

definition copy_from_user :: "u8 list \<Rightarrow> u32 \<Rightarrow> u8 list \<Rightarrow> u32 \<Rightarrow> fault + u32 \<times> u8 list" where
  "copy_from_user scr p ub n =
     (if length ub < unat n \<or> length scr < unat p + unat n then Inl OutOfBounds
      else Inr (0, take (unat p) scr @ take (unat n) ub @ drop (unat p + unat n) scr))"

definition copy_to_user :: "u8 list \<Rightarrow> u8 list \<Rightarrow> u32 \<Rightarrow> u32 \<Rightarrow> fault + u32 \<times> u8 list" where
  "copy_to_user ub scr p n =
     (if length ub < unat n \<or> length scr < unat p + unat n then Inl OutOfBounds
      else Inr (0, take (unat n) (drop (unat p) scr) @ drop (unat n) ub))"

section \<open>Reads and writes\<close>

definition FBINFO_STATE_RUNNING :: u32 where
  "FBINFO_STATE_RUNNING = 0"

record fb_info =
  fb_state :: u32
  screen_size :: u32
  smem_len :: u32

definition total_size :: "fb_info \<Rightarrow> u32" where
  "total_size info = (if screen_size info = 0 then smem_len info else screen_size info)"

text \<open>The result, the file position, and the memory copied to.\<close>

definition fb_sys_read :: "fb_info \<Rightarrow> u8 list \<Rightarrow> u32 \<Rightarrow> 64 word \<Rightarrow> u8 list \<Rightarrow> fault + u32 \<times> 64 word \<times> u8 list" where
  "fb_sys_read info ub count ppos scr =
     (let p = ucast ppos; total = total_size info in
      if fb_state info \<noteq> FBINFO_STATE_RUNNING then Inr (word_of_int (- EPERM), ppos, ub)
      else if total \<le> p then Inr (0, ppos, ub)
      else
        let count = (if total \<le> count then total else count);
            count = (if total < count + p then total - p else count)
        in bindE (copy_to_user ub scr p count) (\<lambda>(left, ub).
             let err = (if left \<noteq> 0 then - EFAULT else 0)
             in Inr (if err \<noteq> 0 then word_of_int err else count, if err = 0 then ppos + ucast count else ppos, ub)))"

definition fb_sys_write :: "fb_info \<Rightarrow> u8 list \<Rightarrow> u32 \<Rightarrow> 64 word \<Rightarrow> u8 list \<Rightarrow> fault + u32 \<times> 64 word \<times> u8 list" where
  "fb_sys_write info ub count ppos scr =
     (let p = ucast ppos; total = total_size info in
      if fb_state info \<noteq> FBINFO_STATE_RUNNING then Inr (word_of_int (- EPERM), ppos, scr)
      else if total < p then Inr (word_of_int (- EFBIG), ppos, scr)
      else
        let (err, count) = (if total < count then (- EFBIG, total) else (0, count));
            (err, count) = (if total < count + p then (if err = 0 then - ENOSPC else err, total - p) else (err, count))
        in bindE (copy_from_user scr p ub count) (\<lambda>(left, scr).
             let err = (if left \<noteq> 0 then - EFAULT else err)
             in Inr (if err \<noteq> 0 then word_of_int err else count, if err = 0 then ppos + ucast count else ppos, scr)))"

section \<open>Operations of the device\<close>

definition ili932xfb_sys_write :: "fb_info \<Rightarrow> u8 list \<Rightarrow> u32 \<Rightarrow> 64 word \<Rightarrow> lcd \<Rightarrow> fault + u32 \<times> 64 word \<times> lcd" where
  "ili932xfb_sys_write info ub count ppos s =
     bindE (fb_sys_write info ub count ppos (ili932x_buffer s)) (\<lambda>(res, ppos, scr).
       Inr (res, ppos, s\<lparr>ili932x_buffer := scr, ili932x_change := 1\<rparr>))"

definition ili932xfb_sys_imageblit :: "(u8 list \<Rightarrow> u8 list) \<Rightarrow> lcd \<Rightarrow> lcd" where
  "ili932xfb_sys_imageblit sys_imageblit s = s\<lparr>ili932x_buffer := sys_imageblit (ili932x_buffer s), ili932x_change := 1\<rparr>"

definition ili932xfb_sys_copyarea :: "(u8 list \<Rightarrow> u8 list) \<Rightarrow> lcd \<Rightarrow> lcd" where
  "ili932xfb_sys_copyarea sys_copyarea s = s\<lparr>ili932x_buffer := sys_copyarea (ili932x_buffer s), ili932x_change := 1\<rparr>"

definition ili932xfb_sys_fillrect :: "(u8 list \<Rightarrow> u8 list) \<Rightarrow> lcd \<Rightarrow> lcd" where
  "ili932xfb_sys_fillrect sys_fillrect s = s\<lparr>ili932x_buffer := sys_fillrect (ili932x_buffer s), ili932x_change := 1\<rparr>"

text \<open>Without memory management a page cannot be entered into a mapping.\<close>

definition vm_insert_page :: "u32 \<Rightarrow> u32 \<Rightarrow> int" where
  "vm_insert_page addr page = - EINVAL"

function mmap_loop :: "(u32 \<Rightarrow> u32 \<Rightarrow> int) \<Rightarrow> u32 \<Rightarrow> u32 \<Rightarrow> u32 \<Rightarrow> int" where
  "mmap_loop insert_page sz start pos =
     (if sz = 0 then 0
      else if insert_page start pos \<noteq> 0 then - EAGAIN
      else mmap_loop insert_page (if PAGE_SIZE < sz then sz - PAGE_SIZE else 0) (start + PAGE_SIZE) (pos + PAGE_SIZE))"
  by pat_completeness auto
termination
  by (relation "measure (\<lambda>(_, sz, _). unat sz)") (auto simp: PAGE_SIZE_def word_less_nat_alt unat_sub word_le_nat_alt unat_gt_0)

declare mmap_loop.simps [simp del]

definition ili932xfb_mmap :: "u32 \<Rightarrow> u32 \<Rightarrow> u32 \<Rightarrow> int" where
  "ili932xfb_mmap vm_start vm_end buffer = mmap_loop vm_insert_page (vm_end - vm_start) vm_start buffer"

section \<open>The platform driver\<close>

text \<open>The answers of the frame buffer core and of the platform bus.\<close>

record plat =
  framebuffer_alloc_ok :: bool
  register_framebuffer :: int
  platform_driver_register :: int
  platform_device_alloc_ok :: bool
  platform_device_add :: int

text \<open>The registered frame buffer, and whether the driver and the device are registered.\<close>

record fbdev =
  drvdata :: "fb_info option"
  driver_on :: bool
  device_on :: bool

definition ili932xfb_info :: fb_info where
  "ili932xfb_info = \<lparr>fb_state = FBINFO_STATE_RUNNING, screen_size = of_nat ILI9325_FB_SIZE, smem_len = ILI9325_IOMEM_SIZE\<rparr>"

definition ili932xfb_probe :: "plat \<Rightarrow> fbdev \<Rightarrow> int \<times> fbdev" where
  "ili932xfb_probe P f =
     (if \<not> framebuffer_alloc_ok P then (- EINVAL, f)
      else if register_framebuffer P < 0 then (- EINVAL, f)
      else (0, f\<lparr>drvdata := Some ili932xfb_info\<rparr>))"

definition ili932xfb_remove :: "fbdev \<Rightarrow> int \<times> fbdev" where
  "ili932xfb_remove f = (0, case drvdata f of None \<Rightarrow> f | Some _ \<Rightarrow> f\<lparr>drvdata := None\<rparr>)"

text \<open>The bus probes a device added while its driver is registered, whatever the probe answers.\<close>

definition ili932xfb_init :: "plat \<Rightarrow> fbdev \<times> lcd \<Rightarrow> fault + int \<times> fbdev \<times> lcd" where
  "ili932xfb_init P fs =
     (let (f, s) = fs in
      if ili932x_isinited s = 0 then Inr (- EINVAL, f, s)
      else bindE (ili932x_enable s) (\<lambda>(busy, s).
        if busy \<noteq> 0 then Inr (- ENODEV, f, s)
        else
          let ret = platform_driver_register P in
          if ret \<noteq> 0 then Inr (ret, f, s)
          else
            let f = f\<lparr>driver_on := True\<rparr>;
                ret = (if platform_device_alloc_ok P then platform_device_add P else - ENOMEM)
            in if ret \<noteq> 0 then Inr (ret, f\<lparr>driver_on := False\<rparr>, s)
               else Inr (0, snd (ili932xfb_probe P (f\<lparr>device_on := True\<rparr>)), s)))"

definition ili932xfb_exit :: "fbdev \<times> lcd \<Rightarrow> fbdev \<times> lcd" where
  "ili932xfb_exit fs =
     (let f = snd (ili932xfb_remove ((fst fs)\<lparr>device_on := False\<rparr>)) in (f\<lparr>driver_on := False\<rparr>, ili932x_disable (snd fs)))"

section \<open>Writes stay in the buffer\<close>

lemma fb_total: "total_size ili932xfb_info = 153600" "fb_state ili932xfb_info = FBINFO_STATE_RUNNING"
  by (simp_all add: total_size_def ili932xfb_info_def fb_size)

lemma fits:
  fixes p count :: u32
  assumes "p \<le> 153600" "count \<le> 153600"
  shows "unat (count + p) = unat count + unat p" "(153600 < count + p) \<longleftrightarrow> 153600 < unat count + unat p" "unat (153600 - p) = 153600 - unat p"
proof -
  have u: "unat p \<le> 153600" "unat count \<le> 153600" using assms by (simp_all add: word_le_nat_alt)
  then show a: "unat (count + p) = unat count + unat p" by (simp add: unat_word_ariths)
  then show "(153600 < count + p) \<longleftrightarrow> 153600 < unat count + unat p" by (simp add: word_less_nat_alt)
  show "unat (153600 - p) = 153600 - unat p" using assms(1) by (simp add: unat_sub)
qed

lemma sys_write_outcome:
  assumes "length scr = ILI9325_FB_SIZE" "unat count \<le> length ub" "p = unat (ucast ppos :: u32)" "n = min (unat count) (ILI9325_FB_SIZE - p)"
  shows "fb_sys_write ili932xfb_info ub count ppos scr =
    (if ILI9325_FB_SIZE < p then Inr (word_of_int (- EFBIG), ppos, scr)
     else Inr
       (if unat count \<le> ILI9325_FB_SIZE - p then count
        else if ILI9325_FB_SIZE < unat count then word_of_int (- EFBIG) else word_of_int (- ENOSPC),
        if unat count \<le> ILI9325_FB_SIZE - p then ppos + ucast count else ppos,
        take p scr @ take n ub @ drop (p + n) scr))"
proof (cases "ILI9325_FB_SIZE < p")
  case True
  then show ?thesis using assms(3) by (simp add: fb_sys_write_def fb_total fb_size word_less_nat_alt Let_def)
next
  case False
  let ?p = "ucast ppos :: u32"
  have p: "?p \<le> 153600" "\<not> 153600 < ?p" using False assms(3) by (simp_all add: fb_size word_le_nat_alt not_less)
  show ?thesis
  proof (cases "153600 < count")
    case True
    then have "153600 < unat count" by (simp add: word_less_nat_alt)
    moreover have "n = 153600 - p" using calculation assms(4) by (simp add: fb_size)
    ultimately show ?thesis using True p False assms fits [OF p(1), of 153600] fits(3) [OF p(1)]
      by (cases "p = 0") (auto simp: fb_sys_write_def fb_total fb_size Let_def copy_from_user_def EFBIG_def word_less_nat_alt)
  next
    case F2: False
    then have c: "count \<le> 153600" "unat count \<le> 153600" by (simp_all add: word_le_nat_alt not_less)
    show ?thesis using F2 c(2) p False assms fits [OF p(1) c(1)]
      by (auto simp: fb_sys_write_def fb_total fb_size Let_def copy_from_user_def ENOSPC_def min_def word_less_nat_alt)
  qed
qed

text \<open>
  C34. A write of \<open>count\<close> bytes to the frame buffer at position \<open>p\<close> never leaves the buffer and changes only the bytes it says: as many as fit are
  stored. It answers \<open>count\<close> and moves the position when all fit. A position past the end is refused. When not all fit the answer is an error and the
  position stays, although the bytes that fit are stored.
\<close>

theorem fb_write_outcome:
  assumes "length scr = ILI9325_FB_SIZE" "unat count \<le> length ub" "p = unat (ucast ppos :: u32)" "n = min (unat count) (ILI9325_FB_SIZE - p)"
  shows "fb_sys_write ili932xfb_info ub count ppos scr =
    (if ILI9325_FB_SIZE < p then Inr (word_of_int (- EFBIG), ppos, scr)
     else Inr
       (if unat count \<le> ILI9325_FB_SIZE - p then count
        else if ILI9325_FB_SIZE < unat count then word_of_int (- EFBIG) else word_of_int (- ENOSPC),
        if unat count \<le> ILI9325_FB_SIZE - p then ppos + ucast count else ppos,
        take p scr @ take n ub @ drop (p + n) scr))"
  by (rule sys_write_outcome [OF assms])

text \<open>What was written is read back.\<close>

lemma fb_write_then_read:
  assumes "length scr = ILI9325_FB_SIZE" "p = unat (ucast ppos :: u32)" "p + unat count \<le> ILI9325_FB_SIZE" "count \<noteq> 0"
    "length ub = unat count" "unat count \<le> length ub2"
  shows "\<exists>scr'. fb_sys_write ili932xfb_info ub count ppos scr = Inr (count, ppos + ucast count, scr') \<and>
    fb_sys_read ili932xfb_info ub2 count ppos scr' = Inr (count, ppos + ucast count, ub @ drop (unat count) ub2)"
proof -
  let ?p = "ucast ppos :: u32"
  let ?s = "take p scr @ ub @ drop (p + unat count) scr"
  have c: "0 < unat count" using assms(4) by (simp add: unat_gt_0)
  then have p: "?p < 153600" "\<not> 153600 \<le> ?p" "count \<le> 153600" "?p \<le> 153600" using assms(2,3) by (simp_all add: fb_size word_less_nat_alt word_le_nat_alt)
  have u: "unat ?p < 153600" using p(1) by (simp add: word_less_nat_alt)
  have n: "(if 153600 \<le> count then 153600 else count) = count" using p(3) by auto
  have "fb_sys_write ili932xfb_info ub count ppos scr = Inr (count, ppos + ucast count, ?s)"
  proof -
    have "unat count = min (unat count) (ILI9325_FB_SIZE - p)" "unat count \<le> ILI9325_FB_SIZE - p" "\<not> ILI9325_FB_SIZE < p" "unat count \<le> length ub"
      using assms(3,5) by simp_all
    from sys_write_outcome [OF assms(1) this(4) assms(2) this(1)] this show ?thesis using assms(5) by simp
  qed
  moreover have "fb_sys_read ili932xfb_info ub2 count ppos ?s = Inr (count, ppos + ucast count, ub @ drop (unat count) ub2)"
    using p n u fits [OF p(4,3)] assms by (simp add: fb_sys_read_def fb_total Let_def copy_to_user_def fb_size min_def)
  ultimately show ?thesis by blast
qed

section \<open>What the panel shows\<close>

text \<open>The operations of the two modules as they follow one another, each of them uninterrupted.\<close>

inductive fb_step :: "'d bus \<Rightarrow> fb_info \<Rightarrow> lcd \<times> 'd machine \<Rightarrow> lcd \<times> 'd machine \<Rightarrow> bool" for B :: "'d bus" and info :: fb_info where
  sys_write: "ili932xfb_sys_write info ub count ppos s = Inr (res, ppos', s') \<Longrightarrow> fb_step B info (s, m) (s', m)"
| imageblit: "length (draw (ili932x_buffer s)) = length (ili932x_buffer s) \<Longrightarrow> fb_step B info (s, m) (ili932xfb_sys_imageblit draw s, m)"
| copyarea: "length (draw (ili932x_buffer s)) = length (ili932x_buffer s) \<Longrightarrow> fb_step B info (s, m) (ili932xfb_sys_copyarea draw s, m)"
| fillrect: "length (draw (ili932x_buffer s)) = length (ili932x_buffer s) \<Longrightarrow> fb_step B info (s, m) (ili932xfb_sys_fillrect draw s, m)"
| refresh: "run_work B (s, m) = Inr sm \<Longrightarrow> fb_step B info (s, m) sm"
| enable: "ili932x_enable s = Inr (r, s') \<Longrightarrow> fb_step B info (s, m) (s', m)"
| disable: "fb_step B info (s, m) (ili932x_disable s, m)"

text \<open>The buffer is on the panel, or marked changed.\<close>

definition fb_current :: "u32 \<Rightarrow> ('d \<Rightarrow> panel) \<Rightarrow> lcd \<times> 'd machine \<Rightarrow> bool" where
  "fb_current base V sm \<longleftrightarrow> lcd_good base V sm \<and>
     (ili932x_change (fst sm) = 0 \<longrightarrow> lcd_shows (V (dev (snd sm))) (ili932x_buffer (fst sm)))"

lemma copy_length: "copy_from_user scr p ub n = Inr (left, scr') \<Longrightarrow> length scr' = length scr"
  by (auto simp: copy_from_user_def split: if_splits)

lemma write_length: "fb_sys_write info ub count ppos scr = Inr (res, ppos', scr') \<Longrightarrow> length scr' = length scr"
  by (auto simp: fb_sys_write_def Let_def bindE_def split: if_splits sum.splits prod.splits dest!: copy_length)

lemma sys_write_good:
  assumes "ili932xfb_sys_write info ub count ppos s = Inr (res, ppos', s')" "lcd_good base V (s, m)"
  shows "lcd_good base V (s', m)" "ili932x_change s' \<noteq> 0" "queued s' = queued s" "ili932x_rate s' = ili932x_rate s"
  using assms by (auto simp: ili932xfb_sys_write_def bindE_def lcd_good_def lcd_live_def dest: write_length split: sum.splits)

lemma enable_idle:
  assumes "lcd_good base V (s, m)" "ili932x_updating s = 0"
  shows "ili932x_enable s = Inr (0, s\<lparr>ili932x_updating := 1, queued := Some (refresh_delay s)\<rparr>)"
  using assms by (auto simp: ili932x_enable_def ili932x_queue_def lcd_good_def lcd_live_def refresh_delay_def)

lemma enable_busy: "ili932x_updating s \<noteq> 0 \<Longrightarrow> ili932x_enable s = Inr (1, s)"
  by (simp add: ili932x_enable_def)

lemma refresh_current:
  assumes "panel_bus B base V" "fb_current base V (s, m)" "run_work B (s, m) = Inr sm"
  shows "fb_current base V sm"
proof -
  have g: "lcd_good base V (s, m)" using assms(2) by (simp add: fb_current_def)
  consider "queued s = None" | "queued s \<noteq> None" "ili932x_change s = 0" | "queued s \<noteq> None" "ili932x_change s \<noteq> 0" by blast
  then show ?thesis
  proof cases
    case 1
    then show ?thesis using assms(2,3) by (simp add: run_work_idle)
  next
    case 2
    then show ?thesis using assms(2,3) run_work_unchanged [OF g 2, of B] by (auto simp: fb_current_def lcd_good_def lcd_live_def)
  next
    case 3
    then show ?thesis using g assms(3) run_work_changed [OF assms(1) g 3] by (auto simp: fb_current_def lcd_good_def lcd_live_def)
  qed
qed

lemma fb_step_current:
  assumes "panel_bus B base V"
  shows "fb_step B info sm sm' \<Longrightarrow> fb_current base V sm \<Longrightarrow> fb_current base V sm'"
proof (induction rule: fb_step.induct)
  case (sys_write ub count ppos s res ppos' s' m)
  then have g: "lcd_good base V (s, m)" by (simp add: fb_current_def)
  show ?case using sys_write_good [OF sys_write(1) g] by (simp add: fb_current_def)
next
  case refresh
  then show ?case using refresh_current [OF assms] by blast
next
  case (enable s r s' m)
  then show ?case using enable_idle [of base V s m] enable_busy [of s]
    by (cases "ili932x_updating s = 0") (auto simp: fb_current_def lcd_good_def lcd_live_def)
next
  case disable
  then show ?case by (auto simp: fb_current_def lcd_good_def lcd_live_def ili932x_disable_def)
qed (auto simp: fb_current_def lcd_good_def lcd_live_def ili932xfb_sys_imageblit_def ili932xfb_sys_copyarea_def ili932xfb_sys_fillrect_def)


section \<open>One frame, from module start to the panel\<close>

definition alloc_good :: "u32 \<Rightarrow> alloc \<Rightarrow> bool" where
  "alloc_good base A \<longleftrightarrow> kmalloc_ok A \<and> ioremap_to A = base \<and> vmalloc_ok A \<and> workqueue_ok A"

definition plat_good :: "plat \<Rightarrow> bool" where
  "plat_good P \<longleftrightarrow> framebuffer_alloc_ok P \<and> register_framebuffer P = 0 \<and> platform_driver_register P = 0 \<and>
     platform_device_alloc_ok P \<and> platform_device_add P = 0"

lemma fb_init_good:
  assumes "plat_good P" "lcd_good base V (s, m)" "ili932x_inited s \<noteq> 0" "ili932x_updating s = 0"
  shows "ili932xfb_init P (f, s) = Inr (0, f\<lparr>driver_on := True, device_on := True, drvdata := Some ili932xfb_info\<rparr>,
    s\<lparr>ili932x_updating := 1, queued := Some (refresh_delay s)\<rparr>)"
  using assms(1,3) enable_idle [OF assms(2,4)]
  by (simp add: ili932xfb_init_def ili932x_isinited_def plat_good_def ili932xfb_probe_def)

lemma init_good:
  assumes "panel_bus B base V" "panel_code B base V c" "c = ILI9325_CHIP_ID \<or> c = ILI9320_CHIP_ID" "apart base" "base \<noteq> 0" "lcd_empty s"
    "alloc_good base A" "ili932x_rate s \<noteq> 0"
  shows "\<exists>s' m'. ili932x_init A B (s, m) = Inr (0, s', m') \<and> lcd_good base V (s', m') \<and> ili932x_inited s' = 1 \<and> ili932x_updating s' = 0 \<and>
    ili932x_rate s' = ili932x_rate s"
  using init_outcome [OF assms(1,2,4,5,6), of A m] assms(3,5,7,8) by (auto simp: alloc_good_def lcd_good_def Let_def)


section \<open>What goes wrong\<close>

text \<open>
  When the platform bus refuses the driver or the device, the frame buffer module fails to load but leaves the refreshing on, and no later attempt
  succeeds: it is refused because the refreshing is in use.
\<close>

theorem fb_init_stuck:
  assumes "lcd_good base V (s, m)" "ili932x_inited s \<noteq> 0" "ili932x_updating s = 0"
    "platform_driver_register P \<noteq> 0 \<or> \<not> platform_device_alloc_ok P \<or> platform_device_add P \<noteq> 0"
  shows "\<exists>r f' s'. ili932xfb_init P (f, s) = Inr (r, f', s') \<and> r \<noteq> 0 \<and> ili932x_isenabled s' = 1 \<and> queued s' \<noteq> None \<and>
    (\<forall>P2 f2. ili932xfb_init P2 (f2, s') = Inr (- ENODEV, f2, s'))"
  using enable_idle [OF assms(1,3)] assms(2,4)
  by (auto simp: ili932xfb_init_def ili932x_isinited_def ili932x_isenabled_def Let_def ENOMEM_def enable_busy)

text \<open>Unloading the display driver gives the buffer back to the wrong allocator.\<close>

lemma exit_frees_wrong: "lcd_good base V (s, m) \<Longrightarrow> ili932x_exit s = Inl BadFree"
  by (simp add: ili932x_exit_def ili932x_disable_def lcd_good_def lcd_live_def Let_def)

text \<open>A mapping of the frame buffer is refused, so every change of it goes through an operation that marks it.\<close>

lemma mmap_refused: "ili932xfb_mmap vm_start vm_end buffer = (if vm_end = vm_start then 0 else - EAGAIN)"
  by (simp add: ili932xfb_mmap_def vm_insert_page_def EINVAL_def mmap_loop.simps [of _ "vm_end - vm_start"])

text \<open>
  With preemption the copy to the panel can be interrupted between two pixels. \<open>fb_par\<close> has the copy in its steps: the last component is the number of
  the next pixel while a copy runs.
\<close>

definition gram_begin :: "'d bus \<Rightarrow> u32 \<Rightarrow> 'd machine \<Rightarrow> fault + 'd machine" where
  "gram_begin B membase m =
     bindE (ili932x_write_reg B membase ILI9325_GRAM_HADDR 0x0000 m) (\<lambda>m.
     bindE (ili932x_write_reg B membase ILI9325_GRAM_HADDR 0x0000 m) (\<lambda>m.
       Inr (wr B membase (Convert16To18 (ucast ILI9325_GRAM_DATA)) m)))"

definition update_end :: "lcd \<Rightarrow> fault + lcd" where
  "update_end s = (let s = s\<lparr>ili932x_change := 0\<rparr> in if ili932x_updating s \<noteq> 0 then ili932x_queue s else Inr s)"

inductive fb_par :: "'d bus \<Rightarrow> lcd \<times> 'd machine \<times> nat option \<Rightarrow> lcd \<times> 'd machine \<times> nat option \<Rightarrow> bool" for B :: "'d bus" where
  copy_begin: "\<lbrakk>queued s = Some t; ili932x_change s \<noteq> 0; lcd_ili932x s = Some base; gram_begin B base m = Inr m'\<rbrakk> \<Longrightarrow>
    fb_par B (s, m, None) (s\<lparr>queued := None\<rparr>, m', Some 0)"
| copy_pixel: "\<lbrakk>lcd_ili932x s = Some base; i < ILI9325_FB_SIZE div 2\<rbrakk> \<Longrightarrow>
    fb_par B (s, m, Some i) (s, ili9325_write_pixel B base (pixel_at (ili932x_buffer s) i) m, Some (Suc i))"
| copy_end: "update_end s = Inr s' \<Longrightarrow> fb_par B (s, m, Some (ILI9325_FB_SIZE div 2)) (s', m, None)"
| sys_write: "ili932xfb_sys_write ili932xfb_info ub count ppos s = Inr (res, ppos', s') \<Longrightarrow> fb_par B (s, m, c) (s', m, c)"

lemma write_gram_split:
  "length buf = ILI9325_FB_SIZE \<Longrightarrow> ili932x_write_gram B base buf ILI9325_FB_SIZE m =
    bindE (gram_begin B base m) (\<lambda>m. Inr (write_pixels B base buf 76800 m))"
  by (simp add: ili932x_write_gram_def gram_begin_def bindE_assoc fb_size)

lemma copy_pixels:
  assumes "lcd_ili932x s = Some base" "\<And>j. i \<le> j \<Longrightarrow> pixel_at (ili932x_buffer s) j = pixel_at buf j"
  shows "i \<le> n \<Longrightarrow> n \<le> 76800 \<Longrightarrow> (fb_par B)\<^sup>*\<^sup>* (s, write_pixels B base buf i m, Some i) (s, write_pixels B base buf n m, Some n)"
proof (induction n)
  case (Suc n)
  show ?case
  proof (cases "i = Suc n")
    case False
    then have "i \<le> n" using Suc.prems by simp
    then have "fb_par B (s, write_pixels B base buf n m, Some n) (s, write_pixels B base buf (Suc n) m, Some (Suc n))"
      using copy_pixel [of s base n B "write_pixels B base buf n m"] assms Suc.prems by (simp add: fb_size)
    then show ?thesis using Suc \<open>i \<le> n\<close> by (metis Suc_leD rtranclp.rtrancl_into_rtrancl)
  qed simp
qed simp

text \<open>A copy that nothing interrupts is the work of the queue.\<close>

lemma copy_ends:
  assumes "lcd_good base V (s, m)" "ili932x_updating s \<noteq> 0"
  shows "update_end (s\<lparr>queued := None\<rparr>) = Inr (s\<lparr>ili932x_change := 0, queued := Some (refresh_delay s)\<rparr>)"
  using assms by (auto simp: update_end_def ili932x_queue_def lcd_good_def lcd_live_def refresh_delay_def)

lemma copy_parts:
  assumes "panel_bus B base V" "lcd_good base V (s, m)" "queued s \<noteq> None" "ili932x_change s \<noteq> 0"
  shows "\<exists>m0. fb_par B (s, m, None) (s\<lparr>queued := None\<rparr>, m0, Some 0) \<and>
    run_work B (s, m) = Inr (s\<lparr>ili932x_change := 0, queued := Some (refresh_delay s)\<rparr>, write_pixels B base (ili932x_buffer s) 76800 m0)"
proof -
  have l: "length (ili932x_buffer s) = ILI9325_FB_SIZE" "lcd_ili932x s = Some base" "dev_live s" "buf_live s"
    using assms(2) by (simp_all add: lcd_good_def lcd_live_def)
  obtain m1 where "ili932x_write_gram B base (ili932x_buffer s) ILI9325_FB_SIZE m = Inr m1"
    using write_gram_panel [OF assms(1) _ l(1)] assms(2) by (auto simp: lcd_good_def)
  then obtain m0 where m0: "gram_begin B base m = Inr m0" "m1 = write_pixels B base (ili932x_buffer s) 76800 m0"
    unfolding write_gram_split [OF l(1)] by (cases "gram_begin B base m") auto
  have "fb_par B (s, m, None) (s\<lparr>queued := None\<rparr>, m0, Some 0)" using copy_begin [OF _ assms(4) l(2) m0(1)] assms(3) by auto
  moreover have "run_work B (s, m) = Inr (s\<lparr>ili932x_change := 0, queued := Some (refresh_delay s)\<rparr>, write_pixels B base (ili932x_buffer s) 76800 m0)"
    using l m0 assms(2-4) by (auto simp: run_work_def ili932x_update_def write_gram_split ili932x_queue_def lcd_good_def lcd_live_def refresh_delay_def)
  ultimately show ?thesis by blast
qed

lemma copy_uninterrupted:
  assumes "panel_bus B base V" "lcd_good base V (s, m)" "queued s \<noteq> None" "ili932x_change s \<noteq> 0" "run_work B (s, m) = Inr (s', m')"
  shows "(fb_par B)\<^sup>*\<^sup>* (s, m, None) (s', m', None)"
proof -
  obtain m0 where m0: "fb_par B (s, m, None) (s\<lparr>queued := None\<rparr>, m0, Some 0)"
    "run_work B (s, m) = Inr (s\<lparr>ili932x_change := 0, queued := Some (refresh_delay s)\<rparr>, write_pixels B base (ili932x_buffer s) 76800 m0)"
    using copy_parts [OF assms(1-4)] by blast
  have "lcd_ili932x (s\<lparr>queued := None\<rparr>) = Some base" "ili932x_updating s \<noteq> 0" using assms(2,3) by (auto simp: lcd_good_def lcd_live_def)
  then have "(fb_par B)\<^sup>*\<^sup>* (s\<lparr>queued := None\<rparr>, m0, Some 0) (s\<lparr>queued := None\<rparr>, write_pixels B base (ili932x_buffer s) 76800 m0, Some 76800)"
    using copy_pixels [of "s\<lparr>queued := None\<rparr>" base 0 "ili932x_buffer s" 76800 B m0] by simp
  moreover have "fb_par B (s\<lparr>queued := None\<rparr>, write_pixels B base (ili932x_buffer s) 76800 m0, Some 76800) (s', m', None)"
    using copy_end [OF copy_ends [OF assms(2) \<open>ili932x_updating s \<noteq> 0\<close>], of B] m0(2) assms(5) by (simp add: fb_size)
  ultimately show ?thesis using m0(1) by (meson converse_rtranclp_into_rtranclp rtranclp.rtrancl_into_rtrancl)
qed

text \<open>Writing the two bytes of the first pixel.\<close>

lemma first_pixel_write:
  assumes "length (ili932x_buffer s) = ILI9325_FB_SIZE"
  shows "ili932xfb_sys_write ili932xfb_info [lo, hi] 2 0 s = Inr (2, 2, s\<lparr>ili932x_buffer := [lo, hi] @ drop 2 (ili932x_buffer s), ili932x_change := 1\<rparr>)"
proof -
  have "drop 2 (ili932x_buffer s) = drop (Suc (Suc 0)) (ili932x_buffer s)" by (simp add: numeral_2_eq_2)
  then show ?thesis using sys_write_outcome [OF assms, of 2 "[lo, hi]" _ 0] by (simp add: ili932xfb_sys_write_def fb_size)
qed

lemma other_pixels: "2 \<le> length buf \<Longrightarrow> 1 \<le> j \<Longrightarrow> pixel_at ([lo, hi] @ drop 2 buf) j = pixel_at buf j"
  by (cases buf rule: remdups_adj.cases; cases j) (auto simp: pixel_at_def)

lemma first_shown: "lcd_shows p buf \<Longrightarrow> gram p (0, 0) = pixel_word (pixel_at buf 0)"
  by (auto simp: lcd_shows_def ILI9325_X_RES_def ILI9325_Y_RES_def)

text \<open>
  C32. The mark of a change is cleared after the copy, so a write during the copy can be lost: when the first pixel is written after it has been copied, with a
  colour that differs, the copy ends with the buffer marked unchanged and the panel not showing it, and every later refresh leaves it so.
\<close>

theorem fb_write_lost:
  assumes "panel_bus B base V" "lcd_good base V (s, m)" "queued s \<noteq> None" "ili932x_change s \<noteq> 0"
    "pixel_word (pixel_at [lo, hi] 0) \<noteq> pixel_word (pixel_at (ili932x_buffer s) 0)"
  shows "\<exists>s' m'. (fb_par B)\<^sup>*\<^sup>* (s, m, None) (s', m', None) \<and> ili932x_buffer s' = [lo, hi] @ drop 2 (ili932x_buffer s) \<and> ili932x_change s' = 0 \<and>
    \<not> lcd_shows (V (dev m')) (ili932x_buffer s') \<and> run_work B (s', m') = Inr (s', m')"
proof -
  let ?buf = "ili932x_buffer s" and ?s0 = "s\<lparr>queued := None\<rparr>"
  let ?new = "[lo, hi] @ drop 2 ?buf"
  let ?s1 = "?s0\<lparr>ili932x_buffer := ?new, ili932x_change := 1\<rparr>"
  have l: "length ?buf = ILI9325_FB_SIZE" "lcd_ili932x ?s0 = Some base" "ili932x_updating s \<noteq> 0"
    using assms(2,3) by (auto simp: lcd_good_def lcd_live_def)
  obtain m0 where m0: "fb_par B (s, m, None) (?s0, m0, Some 0)"
    "run_work B (s, m) = Inr (s\<lparr>ili932x_change := 0, queued := Some (refresh_delay s)\<rparr>, write_pixels B base ?buf 76800 m0)"
    using copy_parts [OF assms(1-4)] by blast
  let ?m1 = "write_pixels B base ?buf 76800 m0"
  have sh: "panel_ready (V (dev ?m1))" "lcd_shows (V (dev ?m1)) ?buf" using run_work_changed [OF assms(1-4)] m0(2) by auto
  have a: "fb_par B (?s0, m0, Some 0) (?s0, write_pixels B base ?buf 1 m0, Some 1)"
    using copy_pixel [of ?s0 base 0 B m0] l by (simp add: fb_size)
  have b: "fb_par B (?s0, write_pixels B base ?buf 1 m0, Some 1) (?s1, write_pixels B base ?buf 1 m0, Some 1)"
    using first_pixel_write [of ?s0 lo hi] l(1) by (intro fb_par.sys_write) simp
  have c: "(fb_par B)\<^sup>*\<^sup>* (?s1, write_pixels B base ?buf 1 m0, Some 1) (?s1, ?m1, Some 76800)"
    by (rule copy_pixels) (use l other_pixels in \<open>auto simp: fb_size\<close>)
  let ?t = "s\<lparr>ili932x_buffer := ?new, ili932x_change := 1\<rparr>"
  let ?s2 = "?t\<lparr>ili932x_change := 0, queued := Some (refresh_delay s)\<rparr>"
  have t: "lcd_good base V (?t, m)" using assms(2) by (simp add: lcd_good_def lcd_live_def fb_size)
  have e: "?t\<lparr>queued := None\<rparr> = ?s1" by (cases s) simp
  have "update_end ?s1 = Inr ?s2" using copy_ends [OF t] l(3) unfolding e by (simp add: refresh_delay_def)
  then have d: "fb_par B (?s1, ?m1, Some 76800) (?s2, ?m1, None)" using copy_end [of ?s1 ?s2 B ?m1] by (simp add: fb_size)
  have "(fb_par B)\<^sup>*\<^sup>* (s, m, None) (?s2, ?m1, None)"
    using m0(1) a b c d by (meson converse_rtranclp_into_rtranclp rtranclp.rtrancl_into_rtrancl)
  moreover have "pixel_at ?new 0 = pixel_at [lo, hi] 0" by (simp add: pixel_at_def)
  then have "\<not> lcd_shows (V (dev ?m1)) ?new" using first_shown [OF sh(2)] first_shown [of "V (dev ?m1)" ?new] assms(5) by auto
  moreover have "lcd_good base V (?s2, ?m1)" using t sh(1) l(3) by (simp add: lcd_good_def lcd_live_def)
  then have "run_work B (?s2, ?m1) = Inr (?s2, ?m1)" using run_work_unchanged [of base V ?s2 ?m1 B] by (simp add: refresh_delay_def)
  ultimately show ?thesis by (intro exI [of _ ?s2] exI [of _ ?m1]) simp
qed

section \<open>On a concrete panel\<close>

definition alloc_all :: alloc where
  "alloc_all = \<lparr>kmalloc_ok = True, ioremap_to = ILI9325_BASE_INDEX, vmalloc_ok = True, workqueue_ok = True\<rparr>"

definition plat_all :: plat where
  "plat_all = \<lparr>framebuffer_alloc_ok = True, register_framebuffer = 0, platform_driver_register = 0, platform_device_alloc_ok = True, platform_device_add = 0\<rparr>"

definition fb_off :: fbdev where
  "fb_off = \<lparr>drvdata = None, driver_on = False, device_on = False\<rparr>"

theorem fb_write_outcome_witness:
  "fb_sys_write ili932xfb_info [1, 2, 3] 3 153598 (replicate 153600 0) = Inr (word_of_int (- ENOSPC), 153598, replicate 153598 0 @ [1, 2])"
proof -
  have p: "153598 = unat (ucast (153598 :: 64 word) :: u32)" by simp
  have n: "2 = min (unat (3 :: u32)) (ILI9325_FB_SIZE - 153598)" by (simp add: fb_size)
  have l: "length (replicate 153600 (0 :: u8)) = ILI9325_FB_SIZE" "unat (3 :: u32) \<le> length [1 :: u8, 2, 3]" by (simp_all add: fb_size)
  have t: "take 153598 (replicate 153600 (0 :: u8)) = replicate 153598 0" "drop (153598 + 2) (replicate 153600 (0 :: u8)) = []" by simp_all
  show ?thesis using fb_write_outcome [OF l p n] unfolding t by (simp add: fb_size)
qed


theorem fb_init_stuck_witness:
  "\<exists>r f' s'. ili932xfb_init (plat_all\<lparr>platform_device_add := - EBUSY\<rparr>) (fb_off, lcd_on\<lparr>ili932x_updating := 0, queued := None\<rparr>) = Inr (r, f', s') \<and> r \<noteq> 0 \<and>
    ili932xfb_init plat_all (fb_off, s') = Inr (- ENODEV, fb_off, s')"
proof -
  have "lcd_good ILI9325_BASE_INDEX id (lcd_on\<lparr>ili932x_updating := 0, queued := None\<rparr>, \<lparr>dev = panel_on, trace = []\<rparr>)"
    using lcd_on_good [of "\<lparr>dev = panel_on, trace = []\<rparr>"] by (simp add: lcd_good_def lcd_live_def)
  from fb_init_stuck [OF this, of "plat_all\<lparr>platform_device_add := - EBUSY\<rparr>" fb_off] show ?thesis
    by (auto simp: lcd_on_def EBUSY_def)
qed


theorem fb_write_lost_witness:
  "\<exists>s' m'. (fb_par (panel_dev 0x9325 ILI9325_BASE_INDEX))\<^sup>*\<^sup>* (lcd_on, \<lparr>dev = panel_on, trace = []\<rparr>, None) (s', m', None) \<and>
    ili932x_change s' = 0 \<and> \<not> lcd_shows (dev m') (ili932x_buffer s')"
  using fb_write_lost [OF panel_dev_bus(1) [of "0x9325"] lcd_on_good, of "\<lparr>dev = panel_on, trace = []\<rparr>" "0xFF" "0xFF"]
  by (auto simp: lcd_on_def pixel_at_def pixel_word_def fb_size)

end
