(* ===== verification/Spec2Isabelle.thy ===== *)
theory Spec2Isabelle
  imports Camera_Main Printf_P Board_Programs Uip_Port
    Memory_Test Uboot_Serial Uboot_Flash_Init Uboot_Flash_Erase Uboot_Flash_Write Linux_Gpio Linux_Time Linux_Fb
begin

text \<open>
  Verification development of the software of the PLAK1a board, an LPC2294 (ARM7TDMI) with external flash and
  SRAM, two serial ports, an SD card slot, a LAN9118 network controller, a touch screen, an accelerometer and
  connectors for a bar code pen and a C328R camera.

  \<^bold>\<open>The programs.\<close> Under \<^verbatim>\<open>src/software\<close> every device has a directory with its driver and a test program that
  runs on the bare board: \<^verbatim>\<open>uart\<close>, \<^verbatim>\<open>memory\<close>, \<^verbatim>\<open>barcode\<close>, \<^verbatim>\<open>camera\<close>, \<^verbatim>\<open>sdcard\<close>, \<^verbatim>\<open>accelerometer\<close>,
  \<^verbatim>\<open>touchscreen\<close>, \<^verbatim>\<open>gpio\<close>, \<^verbatim>\<open>lan\<close> and \<^verbatim>\<open>uip-1.0\<close>, over the register map \<^verbatim>\<open>include/lpc22xx.h\<close> and the clock start-up
  \<^verbatim>\<open>startup/startosc.c\<close>. The boot loader is U-Boot 1.1.6 with a port to the board: its timer and serial driver
  in \<^verbatim>\<open>cpu/arm7tdmi\<close> and its flash driver in \<^verbatim>\<open>board/lpc2294\<close>. The operating system is uClinux with a port to the
  processor in \<^verbatim>\<open>uClinux-dist/linux-2.6.x/arch/arm/mach-lpc22xx\<close>: pins, interrupt controller and clock, under the
  kernel's own interrupt layer \<^verbatim>\<open>kernel/irq\<close>, and with a display driver in \<^verbatim>\<open>drivers/video\<close>.

  \<^bold>\<open>How the code is modelled.\<close> The hardware is not code of the repository. It is a parameter, a \<open>bus\<close> (theory
  Prelude) that says what a load from an address returns and what loads and stores do to the device state; a
  \<open>machine\<close> is the device state with the trace of all loads and stores. What a theorem needs of the hardware
  (a counter that runs, a transmitter that gets ready, a card that answers, a chip that programs within the time
  limit) is a hypothesis on the bus, and each witness gives a concrete device that satisfies it. Each C function
  is a definition of the same name that takes and returns the program's variables and the machine; machine
  integers are words of their width, \<open>int\<close> is \<open>int\<close> where the code cannot overflow it. Stores outside an array,
  null pointers, misaligned loads, divisions by zero and frees of static memory are values of the type \<open>fault\<close>
  (\<open>Inl\<close>). Loops that wait for the hardware are partial functions whose value \<open>None\<close> means that they do not
  return; theorems about them state that they return. Other loops terminate by a measure. No fuel is used.

  \<^bold>\<open>Theories, sources and results.\<close>

  \<^item> Prelude: words, buses, machines, faults, bounded copies (\<open>patch\<close>), the waiting loop \<open>poll\<close> and its
    laws. Lpc22xx: the registers of \<^verbatim>\<open>include/lpc22xx.h\<close>. Clock: \<^verbatim>\<open>startosc.c\<close>.
  \<^item> Uart\_Polled: the polled transmitters and receivers of \<^verbatim>\<open>uart/main.c\<close>, \<^verbatim>\<open>lan/main.c\<close> and \<^verbatim>\<open>sdcard/uart.c\<close>. The
    locale \<open>polled_tx\<close> is the contract of a routine that waits for the transmitter and sends one character; the
    string routines are verified in it once and interpreted for every port, also in Memory\_Test and
    Uboot\_Serial.
  \<^item> Barcode, Barcode\_Reader: \<^verbatim>\<open>barcode/main.c\<close>. Every EAN-13 symbol is decoded in both directions, from run
    lengths and from the signal of the pen; the 32-bit counter equals the number of timer interrupts; what a
    successful decode guarantees, and the array overrun of the scanner.
  \<^item> Vic\_Systime, Ring, Uart\_Ring: \<^verbatim>\<open>camera/vic.c\<close>, \<^verbatim>\<open>camera/systime.c\<close>, \<^verbatim>\<open>camera/uart.c\<close>, \<^verbatim>\<open>camera/isr.c\<close>. The byte
    rings implement the locale \<open>fifo\<close>; the drivers lose, repeat and reorder no byte under any interleaving of
    the program with the interrupt handlers, which is an inductive step relation with an invariant. The locale
    \<open>critical\<close> is the contract of a masked section.
  \<^item> C328r, Camera\_Main: \<^verbatim>\<open>camera/c328r.c\<close> and \<^verbatim>\<open>camera/main.c\<close> on top of these. The interrupt is a parameter that
    moves bytes of the line into the receive ring (\<open>feeds\<close>); the waits return, commands and pictures arrive, a
    picture reaches the display, and a picture of the size the program asks for overruns the buffer.
  \<^item> Mmc, Fat, Printf\_P, Sdcard\_Main: \<^verbatim>\<open>sdcard\<close>. The driver reads and writes the sectors of a card on every timing
    the SPI protocol allows; the file system is verified in the locale \<open>block_dev\<close>, interpreted on the driver, so
    that a file's blocks and directory entries are those the allocation table gives. The program prints the root
    directory: for this \<open>block_dev\<close> is interpreted again with the serial output in the state. The formatter's digits
    read back as the number.
  \<^item> I2c, Touchscreen: the accelerometer's I2C state machine and its copy in the touch screen driver, the
    converter readings and their reduction.
  \<^item> Lan\_Regs, Smsc9118, Smsc9118\_Props, Smsc9118\_Rx: \<^verbatim>\<open>lan/smsc9118.c\<close>. Register round trips, delays, bring-up,
    transmission of a frame, and reception as a refinement of a queue of frames.
  \<^item> Uip\_Port: \<^verbatim>\<open>uip-1.0\<close>, the later variant of this driver and the web server's main program, with the uIP stack as a
    parameter (\<open>stack\<close>). A frame reaches the stack's buffer intact exactly when it fits, a longer one overruns it; one turn of
    the loop sends the stack's answer and ends, with the clock of the port instead of the one that stands still in \<^verbatim>\<open>lan\<close>.
  \<^item> Board\_Programs: the mains of \<^verbatim>\<open>gpio\<close>, \<^verbatim>\<open>touchscreen\<close> and \<^verbatim>\<open>lan\<close>. The measurement printed is the one the driver made.
  \<^item> Memory\_Test: \<^verbatim>\<open>memory/main.c\<close>. The two patterns detect every wiring fault and every stuck bit.
  \<^item> Uboot\_Timer, Uboot\_Serial, Uboot\_Flash: the boot loader's \<^verbatim>\<open>interrupts.c\<close>, \<^verbatim>\<open>serial.c\<close>, \<^verbatim>\<open>flash.c\<close> and
    \<^verbatim>\<open>common/flash.c\<close>. Uboot\_Flash\_Tables shows that the two computations of the sector table agree and divide
    the bank; Uboot\_Flash\_Init, what start-up finds and that it protects nothing. Uboot\_Flash\_Write gives a chip with
    the AMD command set and shows in the locale \<open>word_writer\<close> that a copy of any length and alignment arrives;
    Uboot\_Flash\_Erase, which sectors an erase command erases on which chip.
  \<^item> Linux\_Gpio: the port's \<^verbatim>\<open>gpio.c\<close>; levels read back, the direction functions miss their pin. Linux\_Irq: the
    port's \<^verbatim>\<open>irq.c\<close> and the level interrupt flow of the kernel's \<^verbatim>\<open>chip.c\<close>, \<^verbatim>\<open>handle.c\<close>, \<^verbatim>\<open>manage.c\<close>, \<^verbatim>\<open>resend.c\<close>
    and \<^verbatim>\<open>spurious.c\<close>; handlers, the tick and the platform's other code are parameters. Linux\_Irq\_Props: an inductive
    step relation of interrupts and driver calls from boot on, with the invariant that a line is disabled exactly
    while disables outnumber enables, and masked only then or while it is served. Linux\_Time: \<^verbatim>\<open>time.c\<close> and the
    decompressor's character output; every match of the timer is one tick of the kernel.
  \<^item> Linux\_Lcd, Linux\_Panel, Linux\_Fb: the display driver \<^verbatim>\<open>ili9325.c\<close>, its controller as a hypothesis on the bus (\<open>panel_bus\<close>: index,
    registers, window, address counter, picture memory), and the frame buffer device \<^verbatim>\<open>ili9325fb.c\<close> with the kernel's \<^verbatim>\<open>fb_sys_fops.c\<close>. A
    frame written is on the panel after the next refresh, and stays the panel's picture under any sequence of uninterrupted operations
    (\<open>fb_step\<close>); with the copy in its steps (\<open>fb_par\<close>) a write can be lost. How module start fails and what it leaves behind.

  \<^bold>\<open>Bounds.\<close> The bounds in the theorems are the program's: rings of 1024 and 64 bytes, 32 packet slots, 135 flash
  sectors, 60 run lengths, 500 polls for an answer of the card. Time limits appear as hypotheses on how far a
  device clock moves per load (\<open>step\<close>), below the period of the counter the code reads.

  \<^bold>\<open>Not modelled.\<close> Console messages of the LAN driver, of the boot loader's flash commands and of the kernel, and busy
  loops whose only effect is time, are left out, as are the callbacks of the web server that only print. The bare board's
  display driver is not in the repository, so the display program is not modelled and the camera program stops at the picture it hands over. Of the
  kernel's interrupt layer the edge triggered and per-processor flows and probing, which the port does not use, are
  left out, as is locking, which is empty on one processor. Assembler start-up code, the board's device table and the
  stock parts of U-Boot, uClinux and BusyBox, which are not written for the board, are left out.
\<close>

end
